(* ===== verification/Prelude.thy ===== *)
theory Prelude
  imports Main "HOL-Library.AList"
begin

text \<open>
  The shared vocabulary of the development: the effect type that models
  \<open>async\<close> methods (state kept on a throw, as JavaScript keeps it), the
  JavaScript array, set, map and string operations the sources use, and the
  generic lemmas about them.  The collection \<open>eff_simps\<close> unfolds the effect
  combinators; \<open>js_simps\<close> holds the laws of the list and string helpers.
\<close>

named_theorems eff_simps
named_theorems js_simps

section \<open>Effects: state passing with exceptions\<close>

text \<open>
  A method that may throw and that changes state is a function from the state
  before to a result (\<open>Inl\<close> the thrown error, \<open>Inr\<close> the returned value) and
  the state after.  A throw keeps the state changes made so far.
\<close>

type_synonym ('s, 'e, 'a) eff = "'s \<Rightarrow> ('e + 'a) \<times> 's"

definition returnM :: "'a \<Rightarrow> ('s, 'e, 'a) eff" where
  "returnM x = (\<lambda>s. (Inr x, s))"

definition throwM :: "'e \<Rightarrow> ('s, 'e, 'a) eff" where
  "throwM e = (\<lambda>s. (Inl e, s))"

definition bindM :: "('s, 'e, 'a) eff \<Rightarrow> ('a \<Rightarrow> ('s, 'e, 'b) eff) \<Rightarrow> ('s, 'e, 'b) eff" where
  "bindM m f = (\<lambda>s. case m s of (Inl e, s') \<Rightarrow> (Inl e, s') | (Inr x, s') \<Rightarrow> f x s')"

definition thenM :: "('s, 'e, 'a) eff \<Rightarrow> ('s, 'e, 'b) eff \<Rightarrow> ('s, 'e, 'b) eff" where
  "thenM m n = bindM m (\<lambda>_. n)"

definition catchM :: "('s, 'e, 'a) eff \<Rightarrow> ('e \<Rightarrow> ('s, 'e, 'a) eff) \<Rightarrow> ('s, 'e, 'a) eff" where
  "catchM m h = (\<lambda>s. case m s of (Inl e, s') \<Rightarrow> h e s' | (Inr x, s') \<Rightarrow> (Inr x, s'))"

definition finallyM :: "('s, 'e, 'a) eff \<Rightarrow> ('s, 'e, unit) eff \<Rightarrow> ('s, 'e, 'a) eff" where
  "finallyM m f = (\<lambda>s. case m s of (r, s') \<Rightarrow>
     (case f s' of (Inl e, s'') \<Rightarrow> (Inl e, s'') | (Inr _, s'') \<Rightarrow> (r, s'')))"

definition getsM :: "('s \<Rightarrow> 'a) \<Rightarrow> ('s, 'e, 'a) eff" where
  "getsM f = (\<lambda>s. (Inr (f s), s))"

definition modifyM :: "('s \<Rightarrow> 's) \<Rightarrow> ('s, 'e, unit) eff" where
  "modifyM f = (\<lambda>s. (Inr (), f s))"

definition liftM :: "'e + 'a \<Rightarrow> ('s, 'e, 'a) eff" where
  "liftM r = (\<lambda>s. (r, s))"

definition whenM :: "bool \<Rightarrow> ('s, 'e, unit) eff \<Rightarrow> ('s, 'e, unit) eff" where
  "whenM b m = (if b then m else returnM ())"

text \<open>\<open>for (const x of xs) await body(x)\<close>: in order, stopping at the first throw.\<close>

fun forM :: "'x list \<Rightarrow> ('x \<Rightarrow> ('s, 'e, unit) eff) \<Rightarrow> ('s, 'e, unit) eff" where
  "forM [] body = returnM ()"
| "forM (x # xs) body = thenM (body x) (forM xs body)"

lemma returnM_apply [eff_simps]: "returnM x s = (Inr x, s)"
  by (simp add: returnM_def)

lemma throwM_apply [eff_simps]: "throwM e s = (Inl e, s)"
  by (simp add: throwM_def)

lemma getsM_apply [eff_simps]: "getsM f s = (Inr (f s), s)"
  by (simp add: getsM_def)

lemma modifyM_apply [eff_simps]: "modifyM f s = (Inr (), f s)"
  by (simp add: modifyM_def)

lemma liftM_apply [eff_simps]: "liftM r s = (r, s)"
  by (simp add: liftM_def)

lemma bindM_apply [eff_simps]:
  "bindM m f s = (case m s of (Inl e, s') \<Rightarrow> (Inl e, s') | (Inr x, s') \<Rightarrow> f x s')"
  by (simp add: bindM_def)

lemma thenM_apply [eff_simps]:
  "thenM m n s = (case m s of (Inl e, s') \<Rightarrow> (Inl e, s') | (Inr x, s') \<Rightarrow> n s')"
  by (simp add: thenM_def bindM_def)

lemma catchM_apply [eff_simps]:
  "catchM m h s = (case m s of (Inl e, s') \<Rightarrow> h e s' | (Inr x, s') \<Rightarrow> (Inr x, s'))"
  by (simp add: catchM_def)

lemma finallyM_apply [eff_simps]:
  "finallyM m f s = (case m s of (r, s') \<Rightarrow>
     (case f s' of (Inl e, s'') \<Rightarrow> (Inl e, s'') | (Inr _, s'') \<Rightarrow> (r, s'')))"
  by (simp add: finallyM_def)

lemma whenM_apply [eff_simps]: "whenM b m s = (if b then m s else (Inr (), s))"
  by (simp add: whenM_def returnM_def)

text \<open>
  The laws clients use for case analysis: a \<open>bindM\<close> that ends with a value went
  through a first part that returned.
\<close>

lemma bindM_Inr_elim:
  assumes "bindM m f s = (Inr y, s'')"
  obtains x s' where "m s = (Inr x, s')" and "f x s' = (Inr y, s'')"
  using assms by (auto simp: bindM_apply split: prod.splits sum.splits)

lemma thenM_Inr_elim:
  assumes "thenM m n s = (Inr y, s'')"
  obtains x s' where "m s = (Inr x, s')" and "n s' = (Inr y, s'')"
  using assms by (auto simp: thenM_apply split: prod.splits sum.splits)

text \<open>Case analysis of a sequence, whatever its result: where it stopped.\<close>

lemma bindM_cases:
  assumes "bindM m f s = (r, s'')"
  obtains (stopped) e where "m s = (Inl e, s'')" and "r = Inl e"
    | (went_on) x s' where "m s = (Inr x, s')" and "f x s' = (r, s'')"
  using assms by (auto simp: bindM_apply split: prod.splits sum.splits)

lemma thenM_cases:
  assumes "thenM m n s = (r, s'')"
  obtains (stopped) e where "m s = (Inl e, s'')" and "r = Inl e"
    | (went_on) x s' where "m s = (Inr x, s')" and "n s' = (r, s'')"
  using assms by (auto simp: thenM_apply split: prod.splits sum.splits)

text \<open>Preservation of a state predicate through the combinators.\<close>

definition keepsM :: "('s \<Rightarrow> bool) \<Rightarrow> ('s, 'e, 'a) eff \<Rightarrow> bool" where
  "keepsM P m \<longleftrightarrow> (\<forall>s. P s \<longrightarrow> P (snd (m s)))"

lemma keepsM_return [intro]: "keepsM P (returnM x)"
  by (simp add: keepsM_def returnM_def)

lemma keepsM_throw [intro]: "keepsM P (throwM e)"
  by (simp add: keepsM_def throwM_def)

lemma keepsM_gets [intro]: "keepsM P (getsM f)"
  by (simp add: keepsM_def getsM_def)

lemma keepsM_lift [intro]: "keepsM P (liftM r)"
  by (simp add: keepsM_def liftM_def)

lemma keepsM_modify: "(\<And>s. P s \<Longrightarrow> P (f s)) \<Longrightarrow> keepsM P (modifyM f)"
  by (simp add: keepsM_def modifyM_def)

lemma keepsM_bind [intro]: "keepsM P m \<Longrightarrow> (\<And>x. keepsM P (f x)) \<Longrightarrow> keepsM P (bindM m f)"
  by (fastforce simp: keepsM_def bindM_def split: prod.splits sum.splits)

lemma keepsM_then [intro]: "keepsM P m \<Longrightarrow> keepsM P n \<Longrightarrow> keepsM P (thenM m n)"
  by (auto simp: thenM_def)

lemma keepsM_catch [intro]: "keepsM P m \<Longrightarrow> (\<And>e. keepsM P (h e)) \<Longrightarrow> keepsM P (catchM m h)"
  by (fastforce simp: keepsM_def catchM_def split: prod.splits sum.splits)

lemma keepsM_when [intro]: "keepsM P m \<Longrightarrow> keepsM P (whenM b m)"
  by (simp add: whenM_def keepsM_return)

lemma keepsM_for [intro]: "(\<And>x. x \<in> set xs \<Longrightarrow> keepsM P (body x)) \<Longrightarrow> keepsM P (forM xs body)"
  by (induction xs) auto

lemma keepsMD: "keepsM P m \<Longrightarrow> P s \<Longrightarrow> P (snd (m s))"
  by (simp add: keepsM_def)

text \<open>
  \<open>only_changes v K m\<close>: of the view \<open>v\<close> of the state, whatever \<open>m\<close> returns or
  throws, only entries in \<open>K\<close> can differ afterwards.
\<close>

definition only_changes :: "('s \<Rightarrow> 'k \<Rightarrow> 'v) \<Rightarrow> 'k set \<Rightarrow> ('s, 'e, 'a) eff \<Rightarrow> bool" where
  "only_changes v K m \<longleftrightarrow> (\<forall>s r s' k. m s = (r, s') \<longrightarrow> k \<notin> K \<longrightarrow> v s' k = v s k)"

lemma only_changesI: "(\<And>s r s' k. m s = (r, s') \<Longrightarrow> k \<notin> K \<Longrightarrow> v s' k = v s k) \<Longrightarrow> only_changes v K m"
  by (auto simp: only_changes_def)

lemma only_changesD: "only_changes v K m \<Longrightarrow> m s = (r, s') \<Longrightarrow> k \<notin> K \<Longrightarrow> v s' k = v s k"
  by (auto simp: only_changes_def)

lemma only_changes_mono: "only_changes v K m \<Longrightarrow> K \<subseteq> L \<Longrightarrow> only_changes v L m"
  by (meson only_changes_def subsetD)

lemma only_changes_basic [intro]:
  "only_changes v K (returnM x)" "only_changes v K (throwM e)"
  "only_changes v K (getsM f)" "only_changes v K (liftM r)"
  by (auto simp: only_changes_def eff_simps)

lemma only_changes_bind [intro]:
  "only_changes v K m \<Longrightarrow> (\<And>x. only_changes v K (f x)) \<Longrightarrow> only_changes v K (bindM m f)"
  by (fastforce simp: only_changes_def eff_simps split: prod.splits sum.splits)

lemma only_changes_then [intro]:
  "only_changes v K m \<Longrightarrow> only_changes v K n \<Longrightarrow> only_changes v K (thenM m n)"
  by (auto simp: thenM_def)

lemma only_changes_when [intro]: "only_changes v K m \<Longrightarrow> only_changes v K (whenM b m)"
  by (auto simp: whenM_def)

lemma only_changes_if [intro]:
  "(b \<Longrightarrow> only_changes v K m) \<Longrightarrow> (\<not> b \<Longrightarrow> only_changes v K n) \<Longrightarrow> only_changes v K (if b then m else n)"
  by simp

lemma only_changes_option [intro]:
  "only_changes v K m \<Longrightarrow> (\<And>x. only_changes v K (f x)) \<Longrightarrow>
    only_changes v K (case y of None \<Rightarrow> m | Some x \<Rightarrow> f x)"
  by (cases y) auto

lemma only_changes_for [intro]:
  "(\<And>x. only_changes v K (body x)) \<Longrightarrow> only_changes v K (forM xs body)"
  by (induction xs) auto

section \<open>Arrays and sets\<close>

text \<open>\<open>[...new Set(xs)]\<close>: the first occurrence of every element, in order.\<close>

fun unique :: "'a list \<Rightarrow> 'a list" where
  "unique [] = []"
| "unique (x # xs) = x # filter (\<lambda>y. y \<noteq> x) (unique xs)"

lemma set_unique [simp]: "set (unique xs) = set xs"
  by (induction xs) auto

lemma distinct_unique [simp]: "distinct (unique xs)"
  by (induction xs) auto

lemma unique_distinct: "distinct xs \<Longrightarrow> unique xs = xs"
proof (induction xs)
  case (Cons a xs)
  then show ?case by (auto intro: filter_True)
qed simp

lemma unique_snoc: "unique (xs @ [v]) = (if v \<in> set xs then unique xs else unique xs @ [v])"
  by (induction xs) auto

lemma length_unique_le: "length (unique xs) \<le> length xs"
proof (induction xs)
  case (Cons a xs)
  have "length (filter (\<lambda>y. y \<noteq> a) (unique xs)) \<le> length (unique xs)" by simp
  also note Cons.IH
  finally show ?case by simp
qed simp

text \<open>
  Adding one value and removing duplicates makes the array longer exactly when
  the value is new, provided the array had no duplicates (a duplicate already
  in the array can cancel the gain).
\<close>

lemma length_unique_snoc_gt: "v \<notin> set xs \<Longrightarrow> distinct xs \<Longrightarrow> length (unique (xs @ [v])) = Suc (length xs)"
  by (simp add: unique_snoc unique_distinct)

lemma length_unique_snoc_mem: "v \<in> set xs \<Longrightarrow> length (unique (xs @ [v])) \<le> length xs"
  by (simp add: unique_snoc length_unique_le)

text \<open>
  A JavaScript \<open>Map\<close> keeps the position of a key's first insertion and the
  value of its last: an association list under \<open>AList.update\<close>.
\<close>

definition map_from :: "('a \<Rightarrow> 'k) \<Rightarrow> 'a list \<Rightarrow> ('k \<times> 'a) list" where
  "map_from key xs = fold (\<lambda>x m. AList.update (key x) x m) xs []"

definition map_values :: "('k \<times> 'v) list \<Rightarrow> 'v list" where
  "map_values m = map snd m"

lemma map_from_snoc: "map_from key (xs @ [x]) = AList.update (key x) x (map_from key xs)"
  by (simp add: map_from_def)

lemma distinct_map_from: "distinct (map fst (map_from key xs))"
  by (induction xs rule: rev_induct) (simp_all add: map_from_def distinct_update)

lemma set_update_subset: "set (AList.update k v al) \<subseteq> insert (k, v) (set al)"
  by (induction al) auto

lemma map_from_keys: "set (map fst (map_from key xs)) = key ` set xs"
proof (induction xs rule: rev_induct)
  case Nil
  then show ?case by (simp add: map_from_def)
next
  case (snoc x xs)
  then show ?case by (auto simp: map_from_snoc update_keys)
qed

lemma map_from_entries: "(k, x) \<in> set (map_from key xs) \<Longrightarrow> x \<in> set xs \<and> key x = k"
proof (induction xs arbitrary: k x rule: rev_induct)
  case Nil
  then show ?case by (simp add: map_from_def)
next
  case (snoc y ys)
  from snoc.prems have "(k, x) \<in> insert (key y, y) (set (map_from key ys))"
    using set_update_subset by (fastforce simp: map_from_snoc)
  with snoc.IH show ?case by auto
qed

lemma map_values_from_subset: "set (map_values (map_from key xs)) \<subseteq> set xs"
  by (auto simp: map_values_def dest: map_from_entries)

lemma map_values_from_keys: "key ` set (map_values (map_from key xs)) = key ` set xs"
proof -
  have "key ` snd ` set (map_from key xs) = fst ` set (map_from key xs)"
    by (force dest: map_from_entries simp: image_image intro!: image_cong)
  then show ?thesis using map_from_keys [of key xs] by (simp add: map_values_def)
qed

lemma distinct_map_values_keys: "distinct (map key (map_values (map_from key xs)))"
proof -
  have "map key (map_values (map_from key xs)) = map fst (map_from key xs)"
    by (auto simp: map_values_def dest: map_from_entries)
  then show ?thesis by (simp add: distinct_map_from)
qed

text \<open>\<open>xs.find(p)\<close> and \<open>xs.findIndex(p)\<close>.\<close>

lemma find_SomeD: "List.find p xs = Some x \<Longrightarrow> x \<in> set xs \<and> p x"
  by (auto simp: find_Some_iff in_set_conv_nth)

lemma find_Some_ex: "x \<in> set xs \<Longrightarrow> p x \<Longrightarrow> \<exists>y. List.find p xs = Some y"
  by (cases "List.find p xs") (auto simp: find_None_iff)

fun map_first :: "('a \<Rightarrow> bool) \<Rightarrow> ('a \<Rightarrow> 'a) \<Rightarrow> 'a list \<Rightarrow> 'a list" where
  "map_first p f [] = []"
| "map_first p f (x # xs) = (if p x then f x # xs else x # map_first p f xs)"

text \<open>
  \<open>map_first p f xs\<close> is the effect of mutating the object \<open>xs.find(p)\<close> in place
  with \<open>f\<close>: only the first match changes.
\<close>

lemma map_first_None: "List.find p xs = None \<Longrightarrow> map_first p f xs = xs"
  by (induction xs) (auto split: if_splits)

lemma length_map_first [simp]: "length (map_first p f xs) = length xs"
  by (induction xs) auto

lemma map_first_split:
  "List.find p xs = Some x \<Longrightarrow>
    \<exists>us vs. xs = us @ x # vs \<and> (\<forall>u\<in>set us. \<not> p u) \<and> map_first p f xs = us @ f x # vs"
proof (induction xs)
  case (Cons a xs)
  show ?case
  proof (cases "p a")
    case True
    with Cons.prems show ?thesis by (intro exI [of _ "[]"] exI [of _ xs]) simp
  next
    case False
    with Cons obtain us vs where "xs = us @ x # vs" "\<forall>u\<in>set us. \<not> p u"
      "map_first p f xs = us @ f x # vs" by auto
    with False show ?thesis by (intro exI [of _ "a # us"] exI [of _ vs]) simp
  qed
qed simp

lemma map_map_first: "(\<And>x. g (f x) = g x) \<Longrightarrow> map g (map_first p f xs) = map g xs"
  by (induction xs) auto

fun find_index :: "('a \<Rightarrow> bool) \<Rightarrow> 'a list \<Rightarrow> nat option" where
  "find_index p [] = None"
| "find_index p (x # xs) = (if p x then Some 0 else map_option Suc (find_index p xs))"

lemma find_index_Some: "find_index p xs = Some i \<Longrightarrow> i < length xs \<and> p (xs ! i)"
  by (induction xs arbitrary: i) (auto split: if_splits)

section \<open>Strings\<close>

definition join :: "string \<Rightarrow> string list \<Rightarrow> string" where
  "join sep xs = (case xs of [] \<Rightarrow> [] | x # ys \<Rightarrow> x @ concat (map (\<lambda>y. sep @ y) ys))"

text \<open>\<open>s.split(c)\<close> for a single character \<open>c\<close>.\<close>

fun split_on :: "char \<Rightarrow> string \<Rightarrow> string list" where
  "split_on c [] = [[]]"
| "split_on c (x # xs) = (if x = c then [] # split_on c xs
     else (case split_on c xs of [] \<Rightarrow> [[x]] | y # ys \<Rightarrow> (x # y) # ys))"

text \<open>White space of \<open>trim\<close> and \<open>\s\<close>, on characters below 256.\<close>

definition is_space :: "char \<Rightarrow> bool" where
  "is_space c \<longleftrightarrow> of_char c \<in> {9, 10, 11, 12, 13, 32, 160 :: nat}"

definition trim :: "string \<Rightarrow> string" where
  "trim s = rev (dropWhile is_space (rev (dropWhile is_space s)))"

definition lower_char :: "char \<Rightarrow> char" where
  "lower_char c = (let n = of_char c :: nat in if 65 \<le> n \<and> n \<le> 90 then char_of (n + 32) else c)"

definition toLowerCase :: "string \<Rightarrow> string" where
  "toLowerCase s = map lower_char s"

text \<open>\<open>String(n)\<close> and template interpolation of a natural number: decimal digits.\<close>

definition digit :: "nat \<Rightarrow> char" where
  "digit d = char_of (48 + d)"

fun nat_str :: "nat \<Rightarrow> string" where
  "nat_str n = (if n < 10 then [digit n] else nat_str (n div 10) @ [digit (n mod 10)])"

declare nat_str.simps [simp del]

definition int_str :: "int \<Rightarrow> string" where
  "int_str n = (if n < 0 then ''-'' @ nat_str (nat (- n)) else nat_str (nat n))"

definition is_digit :: "char \<Rightarrow> bool" where
  "is_digit c \<longleftrightarrow> 48 \<le> (of_char c :: nat) \<and> (of_char c :: nat) \<le> 57"

definition digit_val :: "char \<Rightarrow> nat" where
  "digit_val c = of_char c - 48"

definition str_nat :: "string \<Rightarrow> nat option" where
  "str_nat s = (if s \<noteq> [] \<and> list_all is_digit s
     then Some (fold (\<lambda>c n. 10 * n + digit_val c) s 0) else None)"

lemma of_char_digit: "d < 10 \<Longrightarrow> (of_char (digit d) :: nat) = 48 + d"
  by (simp add: digit_def)

lemma digit_is_digit: "d < 10 \<Longrightarrow> is_digit (digit d)"
  by (simp add: is_digit_def of_char_digit)

lemma digit_val_digit: "d < 10 \<Longrightarrow> digit_val (digit d) = d"
  by (simp add: digit_val_def of_char_digit)

lemma nat_str_nonempty [simp]: "nat_str n \<noteq> []"
  by (subst nat_str.simps) simp

lemma nat_str_digits: "c \<in> set (nat_str n) \<Longrightarrow> is_digit c"
proof (induction n rule: nat_str.induct)
  case (1 n)
  then show ?case
    by (subst (asm) nat_str.simps) (auto split: if_splits intro: digit_is_digit)
qed

lemma nat_str_value: "fold (\<lambda>c n. 10 * n + digit_val c) (nat_str n) 0 = n"
proof (induction n rule: nat_str.induct)
  case (1 n)
  then show ?case
    by (cases "n < 10") (simp_all add: nat_str.simps [of n] digit_val_digit)
qed

lemma str_nat_str [js_simps]: "str_nat (nat_str n) = Some n"
  by (auto simp: str_nat_def nat_str_value list_all_iff intro: nat_str_digits)

lemma nat_str_inj [js_simps]: "nat_str m = nat_str n \<longleftrightarrow> m = n"
  by (metis nat_str_value)

lemma nat_str_no_char: "\<not> is_digit c \<Longrightarrow> c \<notin> set (nat_str n)"
  using nat_str_digits by blast

text \<open>
  Splitting at the last separator: two strings that end in a separator-free
  part are equal exactly when the parts are.
\<close>

lemma last_sep_inj:
  assumes "xs @ c # ys = us @ c # vs" and "c \<notin> set ys" and "c \<notin> set vs"
  shows "xs = us \<and> ys = vs"
proof -
  have rev_eq: "rev ys @ c # rev xs = rev vs @ c # rev us"
    using arg_cong [OF assms(1), of rev] by simp
  have "takeWhile (\<lambda>d. d \<noteq> c) (rev ys @ c # rev xs) = rev ys"
    and "takeWhile (\<lambda>d. d \<noteq> c) (rev vs @ c # rev us) = rev vs"
    using assms(2,3) by (simp_all add: takeWhile_append)
  with rev_eq have "ys = vs" by simp
  with assms(1) show ?thesis by simp
qed

lemma first_sep_inj:
  assumes "xs @ c # ys = us @ c # vs" and "c \<notin> set xs" and "c \<notin> set us"
  shows "xs = us \<and> ys = vs"
proof -
  have "takeWhile (\<lambda>d. d \<noteq> c) (xs @ c # ys) = xs"
    and "takeWhile (\<lambda>d. d \<noteq> c) (us @ c # vs) = us"
    using assms(2,3) by (simp_all add: takeWhile_append)
  with assms(1) have "xs = us" by simp
  with assms(1) show ?thesis by simp
qed

end
