(* ===== verification/Contracts.thy ===== *)
theory Contracts
  imports Prelude Complex_Main
begin

text \<open>
  The data contracts of \<open>backend/contracts/schema/types.ts\<close> and the small
  helpers of \<open>backend/core\<close>.  Every interface is a record with the
  source's fields in the source's order; a field name that several interfaces
  share carries the interface's short name as a prefix, because record fields
  are global names here.  String enumerations are datatypes whose
  \<open>_str\<close> function gives the source's spelling.  An optional field is an
  \<open>option\<close>.  \<open>clone\<close> (\<open>structuredClone\<close>) is the identity on these
  immutable values, so it leaves no trace in the model.
\<close>

section \<open>JSON values and enumerations\<close>

datatype json =
    JNull
  | JBool bool
  | JNum rat
  | JStr string
  | JArr "json list"
  | JObj "(string \<times> json) list"

datatype ExecutionStatus = EPending | ERunning | ECompleted | EFailed

datatype TestResult = Passed | Failed

datatype IssueType = RootCauseIssue | MissingIssue

datatype PipelineStatus = PRunning | PDone

datatype ProcessingScope = WORKFLOW | SANDBOX | SUPPORT

fun TestResult_str :: "TestResult \<Rightarrow> string" where
  "TestResult_str Passed = ''Passed''"
| "TestResult_str Failed = ''Failed''"

fun IssueType_str :: "IssueType \<Rightarrow> string" where
  "IssueType_str RootCauseIssue = ''Root Cause''"
| "IssueType_str MissingIssue = ''Missing''"

fun ProcessingScope_str :: "ProcessingScope \<Rightarrow> string" where
  "ProcessingScope_str WORKFLOW = ''WORKFLOW''"
| "ProcessingScope_str SANDBOX = ''SANDBOX''"
| "ProcessingScope_str SUPPORT = ''SUPPORT''"

section \<open>Prompt, evidence, root cause\<close>

record PromptContext =
  context_id :: string
  ctx_statement :: string

record Prompt =
  prompt_id :: string
  prompt_intent :: string
  requested_outcome :: string
  prompt_context :: "PromptContext list"
  research_direction :: "string list"

record EvidenceRef =
  evidence_id :: string
  ev_source :: string
  ev_statement :: string
  ev_provenance :: string

record RootCause =
  rc_issue :: string
  rc_expected :: string
  rc_actual :: string
  rc_evidence_ids :: "string list"
  rc_required_correction :: string
  rc_recheck_target :: string

section \<open>Researcher artifacts\<close>

record SuccessDefinition =
  success_criteria_ids :: "string list"
  sd_success_meaning :: string
  sd_evidence_ids :: "string list"

record ResearcherArtifact =
  researcher_id :: string
  ra_prompt_id :: string
  ra_plan_id :: string
  ra_schema_id :: string
  ra_fixture_id :: string
  ra_goal_id :: string
  ra_validation_id :: string
  ra_requirement_ids :: "string list"
  ra_evidence :: "EvidenceRef list"
  success_definition :: SuccessDefinition

record Requirement =
  requirement_id :: string
  req_statement :: string
  req_evidence_ids :: "string list"

record Dependency =
  dependency_id :: string
  dep_description :: string
  required_by :: "string list"

record PlanStep =
  step_id :: string
  step_description :: string
  responsibility :: string
  depends_on :: "string list"
  requirement_refs :: "string list"
  goal_refs :: "string list"
  fixture_refs :: "string list"
  schema_refs :: "string list"

record RevisionEvidence =
  re_revision :: int
  re_affected_area :: string
  re_reason :: string
  re_audit_finding_id :: string

record Plan =
  plan_id :: string
  plan_researcher_id :: string
  requirements :: "Requirement list"
  dependencies :: "Dependency list"
  steps :: "PlanStep list"
  revision :: int
  revision_evidence :: "RevisionEvidence list"

record SchemaArtifact =
  schema_id :: string
  sa_researcher_id :: string
  sa_target :: string
  schema_document :: "(string \<times> json) list"
  sa_evidence_ids :: "string list"

record SuccessCriterion =
  criterion_id :: string
  sc_statement :: string
  sc_measurement :: string
  sc_expected_result :: string
  sc_evidence_ids :: "string list"

record Goal =
  goal_id :: string
  goal_researcher_id :: string
  objective :: string
  goal_success_meaning :: string
  success_criteria :: "SuccessCriterion list"

datatype AssertionOperator =
  OpExists | OpEquals | OpContains | OpMatchesSchema | OpReferences | OpEdgeExists | OpAllFilesSpecified

record PlanAssertion =
  assertion_id :: string
  operator :: AssertionOperator
  pa_target :: string
  pa_expected :: "json option"
  pa_evidence_ids :: "string list"

record Fixture =
  fixture_id :: string
  fx_researcher_id :: string
  plan_assertions :: "PlanAssertion list"

record SchemaRoute =
  sr_plan_id :: string
  sr_schema_id :: string

record FixtureRoute =
  fr_plan_id :: string
  fr_fixture_id :: string
  assertion_ids :: "string list"

record GoalRoute =
  gr_plan_id :: string
  gr_goal_id :: string
  criterion_ids :: "string list"

record ValidationDefinition =
  validation_id :: string
  vd_researcher_id :: string
  vd_plan_id :: string
  vd_schema_validation :: SchemaRoute
  vd_fixture_validation :: FixtureRoute
  vd_goal_validation :: GoalRoute

record ResearchBundle =
  prompt :: Prompt
  researcher :: ResearcherArtifact
  plan :: Plan
  schema_artifact :: SchemaArtifact
  fixture :: Fixture
  goal :: Goal
  validation :: ValidationDefinition

section \<open>Audit, gap analysis, evaluation, validation results\<close>

record AuditFinding =
  finding_id :: string
  area :: string
  af_finding :: string
  affected_plan_refs :: "string list"
  af_evidence_ids :: "string list"
  required_refinement :: string

record Audit =
  audit_id :: string
  au_researcher_id :: string
  au_plan_id :: string
  reviewed_areas :: "string list"
  findings :: "AuditFinding list"

record ResolvedGap =
  gap_id :: string
  rg_affected_branch :: string
  rg_issue :: string
  rg_evidence_ids :: "string list"
  rg_required_correction :: string
  expected_resolved_state :: string
  resolution_evidence :: string

record GapAnalysis =
  ga_plan_id :: string
  ga_result :: TestResult
  resolved_gaps :: "ResolvedGap list"
  gap_0 :: bool
  ga_issue_type :: "IssueType option"
  ga_root_cause :: "RootCause option"

record EvaluationEvidence =
  check_id :: string
  ee_subject :: string
  ee_finding :: string
  ee_evidence_ids :: "string list"

record Evaluation =
  el_plan_id :: string
  el_result :: TestResult
  el_evidence :: "EvaluationEvidence list"
  el_issue_type :: "IssueType option"
  el_root_cause :: "RootCause option"

record SchemaValidationResult =
  sv_plan_id :: string
  sv_schema_id :: string
  sv_result :: TestResult
  sv_evidence :: "EvidenceRef list"

record AssertionResult =
  ar_assertion_id :: string
  ar_expected :: "json option"
  ar_actual :: "json option"
  ar_satisfied :: bool

record FixtureValidationResult =
  fv_plan_id :: string
  fv_fixture_id :: string
  assertion_results :: "AssertionResult list"
  fv_result :: TestResult
  fv_evidence :: "EvidenceRef list"

record CriterionResult =
  cr_criterion_id :: string
  mapped_plan_refs :: "string list"
  cr_satisfied :: bool

record GoalValidationResult =
  gv_plan_id :: string
  gv_goal_id :: string
  criterion_results :: "CriterionResult list"
  gv_result :: TestResult
  gv_evidence :: "EvidenceRef list"

record TripleValidation =
  tv_plan_id :: string
  tv_validation_id :: string
  schema_validation :: SchemaValidationResult
  fixture_validation :: FixtureValidationResult
  goal_validation :: GoalValidationResult
  all_valid :: bool

record ConfirmedCore =
  cc_researcher :: ResearcherArtifact
  cc_plan :: Plan
  cc_schema_artifact :: SchemaArtifact
  cc_fixture :: Fixture
  cc_goal :: Goal
  cc_validation :: ValidationDefinition
  cc_audit :: Audit
  cc_gap_analysis :: GapAnalysis
  cc_evaluation :: Evaluation
  cc_triple_validation :: TripleValidation

text \<open>\<open>confirmed\<close> has the literal type \<open>true\<close>; the runtime checks still read it.\<close>

record ConfirmedPackage =
  confirmed :: bool
  core :: ConfirmedCore

record HashProof =
  canonicalization_id :: string
  algorithm :: string
  created_hash :: string
  recomputed_hash :: string
  equal_proof :: bool

section \<open>Events and run snapshots\<close>

record HelpRequest =
  request_id :: string
  hr_reason :: string
  hr_question :: string
  required_information :: "string list"
  source_processor :: string
  hr_intent_id :: "string option"
  hr_conversation_id :: "string option"
  prompt_revision_required :: bool

record ProcessingEvent =
  event_id :: string
  sequence :: nat
  run_id :: string
  scope :: ProcessingScope
  processor :: string
  execution_status :: ExecutionStatus
  test_result :: "TestResult option"
  issue_type :: "IssueType option"
  issue :: "RootCause option"
  artifact_id :: "string option"
  message :: "string option"
  created_at :: string
  causation_id :: "string option"
  correlation_id :: string
  traceparent :: string

record RunSnapshot =
  rs_run_id :: string
  pipeline_status :: PipelineStatus
  rs_test_result :: "TestResult option"
  rs_issue_type :: "IssueType option"
  current_processor :: "string option"
  rs_events :: "ProcessingEvent list"
  artifacts :: "(string \<times> string) list"
  hash_proof :: "HashProof option"
  root_cause :: "RootCause option"
  help_request :: "HelpRequest option"

section \<open>Core helpers\<close>

text \<open>\<open>id(prefix, runId)\<close> of \<open>core/id.ts\<close>.\<close>

definition id_of :: "string \<Rightarrow> string \<Rightarrow> string" where
  "id_of prefix runId = prefix @ '':'' @ runId"

text \<open>
  The errors the modelled code throws: a \<open>WorkflowRootCauseError\<close> with its root
  cause, a \<open>WorkflowInformationRequiredError\<close> with its help request as well,
  and any other \<open>Error\<close> with its message.  A subclass that carries an HTTP
  status (\<open>BuildReviewError\<close>, \<open>PlanReviewError\<close>) is \<open>StatusError\<close>.
  \<open>ProcessExit\<close> is no error: the process ended there with that code, so no
  handler and no \<open>finally\<close> block of this program runs any more.
\<close>

datatype js_error =
    JsError string
  | StatusError string nat
  | RootCauseError RootCause
  | InformationRequired RootCause HelpRequest
  | ProcessExit nat

text \<open>\<open>error instanceof Error ? error.message : String(error)\<close>; a root cause error's message is its \<open>actual\<close>.\<close>

fun error_message :: "js_error \<Rightarrow> string" where
  "error_message (JsError m) = m"
| "error_message (StatusError m _) = m"
| "error_message (RootCauseError rc) = rc_actual rc"
| "error_message (InformationRequired rc _) = rc_actual rc"
| "error_message (ProcessExit _) = ''''"

fun is_exit :: "js_error \<Rightarrow> bool" where
  "is_exit (ProcessExit _) = True"
| "is_exit _ = False"

text \<open>\<open>try { m } catch (e) { h(e) }\<close> and \<open>try { m } finally { f }\<close> of a program that may exit inside.\<close>

definition try_catch :: "('s, js_error, 'a) eff \<Rightarrow> (js_error \<Rightarrow> ('s, js_error, 'a) eff) \<Rightarrow> ('s, js_error, 'a) eff" where
  "try_catch m h = catchM m (\<lambda>e. if is_exit e then throwM e else h e)"

definition try_finally :: "('s, js_error, 'a) eff \<Rightarrow> ('s, js_error, unit) eff \<Rightarrow> ('s, js_error, 'a) eff" where
  "try_finally m f = (\<lambda>s. case m s of
      (Inl e, s') \<Rightarrow> if is_exit e then (Inl e, s') else finallyM (throwM e) f s'
    | (Inr x, s') \<Rightarrow> finallyM (returnM x) f s')"

lemma try_catch_apply [eff_simps]:
  "try_catch m h s = (case m s of
      (Inl e, s') \<Rightarrow> if is_exit e then (Inl e, s') else h e s' | (Inr x, s') \<Rightarrow> (Inr x, s'))"
  by (simp add: try_catch_def catchM_apply throwM_apply split: prod.splits sum.splits)

lemma try_finally_apply [eff_simps]:
  "try_finally m f s = (case m s of
      (Inl e, s') \<Rightarrow> if is_exit e then (Inl e, s')
        else (case f s' of (Inl e', s'') \<Rightarrow> (Inl e', s'') | (Inr u, s'') \<Rightarrow> (Inl e, s''))
    | (Inr x, s') \<Rightarrow> (case f s' of (Inl e', s'') \<Rightarrow> (Inl e', s'') | (Inr u, s'') \<Rightarrow> (Inr x, s'')))"
  by (simp add: try_finally_def finallyM_apply throwM_apply returnM_apply split: prod.splits sum.splits)

lemma only_changes_try [intro]:
  "only_changes v K m \<Longrightarrow> (\<And>e. only_changes v K (h e)) \<Longrightarrow> only_changes v K (try_catch m h)"
  "only_changes v K m \<Longrightarrow> only_changes v K f \<Longrightarrow> only_changes v K (try_finally m f)"
  by (fastforce simp: only_changes_def eff_simps split: prod.splits sum.splits if_splits)+

lemmas only_changes_intros = only_changes_basic only_changes_bind only_changes_then
  only_changes_when only_changes_if only_changes_option only_changes_for only_changes_try

text \<open>The four reference fields of a plan step and access by field name.\<close>

datatype RefField = RequirementRefs | GoalRefs | FixtureRefs | SchemaRefs

fun field_str :: "RefField \<Rightarrow> string" where
  "field_str RequirementRefs = ''requirement_refs''"
| "field_str GoalRefs = ''goal_refs''"
| "field_str FixtureRefs = ''fixture_refs''"
| "field_str SchemaRefs = ''schema_refs''"

fun refs_of :: "RefField \<Rightarrow> PlanStep \<Rightarrow> string list" where
  "refs_of RequirementRefs s = requirement_refs s"
| "refs_of GoalRefs s = goal_refs s"
| "refs_of FixtureRefs s = fixture_refs s"
| "refs_of SchemaRefs s = schema_refs s"

fun set_refs :: "RefField \<Rightarrow> string list \<Rightarrow> PlanStep \<Rightarrow> PlanStep" where
  "set_refs RequirementRefs v s = s\<lparr>requirement_refs := v\<rparr>"
| "set_refs GoalRefs v s = s\<lparr>goal_refs := v\<rparr>"
| "set_refs FixtureRefs v s = s\<lparr>fixture_refs := v\<rparr>"
| "set_refs SchemaRefs v s = s\<lparr>schema_refs := v\<rparr>"

lemma refs_of_set_refs [js_simps]: "refs_of f (set_refs g v s) = (if f = g then v else refs_of f s)"
  by (cases f; cases g) simp_all

lemma set_refs_frame [js_simps]:
  "step_id (set_refs f v s) = step_id s"
  "step_description (set_refs f v s) = step_description s"
  "responsibility (set_refs f v s) = responsibility s"
  "depends_on (set_refs f v s) = depends_on s"
  by (cases f; simp)+

end
