(* ===== verification/Disk_Files.thy ===== *)
theory Disk_Files
  imports Contracts
begin

text \<open>
  Node's \<open>fs\<close> as far as the stores use it, and the one way they write a file:
  to a temporary name that is then renamed, with a direct write as the fallback
  (\<open>persist\<close> of \<open>backend/runtime/run-repository.ts\<close>, \<open>update\<close> of
  \<open>backend/task/checkpoint/checkpoint-store.ts\<close>).
\<close>

named_theorems fs_simps

section \<open>Files\<close>

text \<open>
  A file has a content and a modification time.  The content is the document
  whose JSON text it holds, \<open>None\<close> when the text does not parse.  Every call that
  writes takes the next entry of \<open>fs_write_faults\<close>, every call that reads the next
  of \<open>fs_read_faults\<close>, and fails when that is a fault; a failing write of a file may
  leave a torn text behind.  The clock is moved by the environment only.
\<close>

datatype fs_error = EPERM | EBUSY | EEXIST | OtherCode string

datatype fault = NoFault | Fault fs_error bool

record 'd fs =
  fs_files :: "(string \<times> ('d option \<times> nat)) list"
  fs_clock :: nat
  fs_write_faults :: "fault list"
  fs_read_faults :: "fault list"

type_synonym ('d, 'a) fs_call = "('d fs, fs_error, 'a) eff"

definition next_fault :: "fault list \<Rightarrow> fault" where
  "next_fault fs = (case fs of [] \<Rightarrow> NoFault | f # _ \<Rightarrow> f)"

definition file_at :: "'d fs \<Rightarrow> string \<Rightarrow> ('d option \<times> nat) option" where
  "file_at d p = map_of (fs_files d) p"

definition write_call :: "('d fs \<Rightarrow> 'd fs) \<Rightarrow> ('d fs \<Rightarrow> 'd fs) \<Rightarrow> ('d, unit) fs_call" where
  "write_call change torn d = (let d' = d\<lparr>fs_write_faults := tl (fs_write_faults d)\<rparr> in
     case next_fault (fs_write_faults d) of
       NoFault \<Rightarrow> (Inr (), change d')
     | Fault code True \<Rightarrow> (Inl code, torn d')
     | Fault code False \<Rightarrow> (Inl code, d'))"

definition put_file :: "string \<Rightarrow> 'd option \<Rightarrow> 'd fs \<Rightarrow> 'd fs" where
  "put_file p c d = d\<lparr>fs_files := AList.update p (c, fs_clock d) (fs_files d)\<rparr>"

definition writeFileSync :: "string \<Rightarrow> 'd \<Rightarrow> ('d, unit) fs_call" where
  "writeFileSync p c = write_call (put_file p (Some c)) (put_file p None)"

definition move_file :: "string \<Rightarrow> string \<Rightarrow> 'd fs \<Rightarrow> 'd fs" where
  "move_file p q d = (case file_at d p of
      None \<Rightarrow> d
    | Some f \<Rightarrow> d\<lparr>fs_files := AList.update q f (AList.delete p (fs_files d))\<rparr>)"

definition renameSync :: "string \<Rightarrow> string \<Rightarrow> ('d, unit) fs_call" where
  "renameSync p q = write_call (move_file p q) id"

definition unlinkSync :: "string \<Rightarrow> ('d, unit) fs_call" where
  "unlinkSync p = write_call (\<lambda>d. d\<lparr>fs_files := AList.delete p (fs_files d)\<rparr>) id"

definition mkdirSync :: "('d, unit) fs_call" where
  "mkdirSync = write_call id id"

definition read_call :: "('d fs \<Rightarrow> fs_error + 'a) \<Rightarrow> ('d, 'a) fs_call" where
  "read_call f d = (let d' = d\<lparr>fs_read_faults := tl (fs_read_faults d)\<rparr> in
     case next_fault (fs_read_faults d) of
       NoFault \<Rightarrow> (f d, d')
     | Fault code _ \<Rightarrow> (Inl code, d'))"

definition existsSync :: "'d fs \<Rightarrow> string \<Rightarrow> bool" where
  "existsSync d p \<longleftrightarrow> file_at d p \<noteq> None"

definition statSync_mtimeMs :: "string \<Rightarrow> ('d, nat) fs_call" where
  "statSync_mtimeMs p = read_call (\<lambda>d. case file_at d p of
     None \<Rightarrow> Inl (OtherCode ''ENOENT'') | Some (_, t) \<Rightarrow> Inr t)"

text \<open>\<open>JSON.parse(readFileSync(p))\<close>: the document, or a throw.\<close>

definition readJson :: "string \<Rightarrow> ('d, 'd) fs_call" where
  "readJson p = read_call (\<lambda>d. case file_at d p of
     None \<Rightarrow> Inl (OtherCode ''ENOENT'') | Some (None, _) \<Rightarrow> Inl (OtherCode ''SyntaxError'') | Some (Some c, _) \<Rightarrow> Inr c)"

text \<open>The name of the temporary file; \<open>unique\<close> is the process id, time and random part.\<close>

definition tmp_name :: "string \<Rightarrow> string \<Rightarrow> string" where
  "tmp_name p uniq = p @ ''.'' @ uniq @ ''.tmp''"

definition write_replacing :: "string \<Rightarrow> string \<Rightarrow> 'd \<Rightarrow> ('d, unit) fs_call" where
  "write_replacing p uniq c = (let tmp = tmp_name p uniq in
     catchM
       (thenM (writeFileSync tmp c)
         (catchM (renameSync tmp p) (\<lambda>err.
            if err \<in> {EPERM, EBUSY, EEXIST}
            then thenM (writeFileSync p c) (catchM (unlinkSync tmp) (\<lambda>_. returnM ()))
            else throwM err)))
       (\<lambda>error. catchM (writeFileSync p c) (\<lambda>_. throwM error)))"

section \<open>What a write leaves behind\<close>

lemma file_at_put [fs_simps]: "file_at (put_file p c d) q = (if q = p then Some (c, fs_clock d) else file_at d q)"
  by (simp add: file_at_def put_file_def update_conv')

lemma file_at_move [fs_simps]:
  "file_at (move_file p q d) r = (case file_at d p of None \<Rightarrow> file_at d r
    | Some f \<Rightarrow> if r = q then Some f else if r = p then None else file_at d r)"
  by (auto simp: file_at_def move_file_def update_conv' delete_conv' split: option.split)

lemma file_at_delete [fs_simps]:
  "file_at (d\<lparr>fs_files := AList.delete p (fs_files d)\<rparr>) q = (if q = p then None else file_at d q)"
  by (simp add: file_at_def delete_conv')

lemma file_at_frame [fs_simps]:
  "file_at (d\<lparr>fs_write_faults := x\<rparr>) q = file_at d q" "file_at (d\<lparr>fs_read_faults := y\<rparr>) q = file_at d q"
  "file_at (d\<lparr>fs_clock := z\<rparr>) q = file_at d q"
  by (simp_all add: file_at_def)

lemma fs_frame [fs_simps]:
  "fs_clock (put_file p c d) = fs_clock d" "fs_read_faults (put_file p c d) = fs_read_faults d"
  "fs_clock (move_file p q d) = fs_clock d" "fs_read_faults (move_file p q d) = fs_read_faults d"
  by (simp_all add: put_file_def move_file_def split: option.split)

text \<open>
  The three outcomes of one call that writes, and the view a proof has of a disk:
  the files, the clock and the read faults.
\<close>

definition changed :: "'d fs \<Rightarrow> (string \<rightharpoonup> 'd option \<times> nat) \<Rightarrow> 'd fs \<Rightarrow> bool" where
  "changed d f d' \<longleftrightarrow> file_at d' = f \<and> fs_clock d' = fs_clock d \<and> fs_read_faults d' = fs_read_faults d"

lemma write_file_result:
  assumes "writeFileSync p c d = (r, d')"
  shows "r = Inr () \<and> changed d ((file_at d)(p \<mapsto> (Some c, fs_clock d))) d' \<or>
    (\<exists>e. r = Inl e) \<and> (changed d (file_at d) d' \<or> changed d ((file_at d)(p \<mapsto> (None, fs_clock d))) d')"
  using assms by (auto simp: writeFileSync_def write_call_def changed_def fs_simps fun_eq_iff Let_def
      split: fault.splits bool.splits)

lemma rename_result:
  assumes "renameSync p q d = (r, d')" and "file_at d p = Some f" and "p \<noteq> q"
  shows "r = Inr () \<and> changed d ((file_at d)(p := None, q \<mapsto> f)) d' \<or> (\<exists>e. r = Inl e) \<and> changed d (file_at d) d'"
  using assms by (auto simp: renameSync_def write_call_def changed_def fs_simps fun_eq_iff Let_def
      split: fault.splits bool.splits)

lemma unlink_result:
  assumes "unlinkSync p d = (r, d')"
  shows "changed d (file_at d) d' \<or> changed d ((file_at d)(p := None)) d'"
proof -
  have "file_at (d\<lparr>fs_write_faults := x, fs_files := AList.delete p (fs_files d)\<rparr>) q = (if q = p then None else file_at d q)" for x q
    by (simp add: file_at_def delete_conv')
  with assms show ?thesis by (auto simp: unlinkSync_def write_call_def changed_def fs_simps fun_eq_iff Let_def
      split: fault.splits bool.splits)
qed

lemma mkdir_result: "mkdirSync d = (r, d') \<Longrightarrow> changed d (file_at d) d'"
  by (auto simp: mkdirSync_def write_call_def changed_def fs_simps fun_eq_iff Let_def split: fault.splits bool.splits)

text \<open>
  Every path but the temporary one and the target is left alone.  A write that
  returns leaves the document at the target; one that throws the old file or a torn
  one.
\<close>

definition replaced :: "string \<Rightarrow> string \<Rightarrow> 'd \<Rightarrow> 'd fs \<Rightarrow> fs_error + unit \<Rightarrow> 'd fs \<Rightarrow> bool" where
  "replaced p tmp c d r d' \<longleftrightarrow>
     (\<forall>q. q \<noteq> p \<longrightarrow> q \<noteq> tmp \<longrightarrow> file_at d' q = file_at d q) \<and>
     fs_clock d' = fs_clock d \<and> fs_read_faults d' = fs_read_faults d \<and>
     (r = Inr () \<longrightarrow> file_at d' p = Some (Some c, fs_clock d)) \<and>
     (r \<noteq> Inr () \<longrightarrow> file_at d' p \<in> {file_at d p, Some (None, fs_clock d)})"

lemma tmp_name_neq [simp]: "tmp_name p u \<noteq> p" "p \<noteq> tmp_name p u"
  by (simp_all add: tmp_name_def)

lemma write_replacing_result:
  assumes "write_replacing p u c d = (r, d')"
  shows "replaced p (tmp_name p u) c d r d'"
proof -
  let ?t = "tmp_name p u"
  let ?rename = "catchM (renameSync ?t p) (\<lambda>err. if err \<in> {EPERM, EBUSY, EEXIST}
            then thenM (writeFileSync p c) (catchM (unlinkSync ?t) (\<lambda>_. returnM ())) else throwM err)"
  define known where "known x y \<longleftrightarrow> (\<forall>q. q \<noteq> p \<longrightarrow> q \<noteq> ?t \<longrightarrow> file_at y q = file_at x q) \<and>
     fs_clock y = fs_clock x \<and> fs_read_faults y = fs_read_faults x" for x y :: "'a fs"
  define good where "good y \<longleftrightarrow> file_at y p = Some (Some c, fs_clock d)" for y
  define bad where "bad y \<longleftrightarrow> file_at y p \<in> {file_at d p, Some (None, fs_clock d)}" for y
  have wr: "known d y \<Longrightarrow> bad y \<Longrightarrow> writeFileSync p c y = (s, z) \<Longrightarrow>
      known d z \<and> (s = Inr () \<and> good z \<or> (\<exists>e. s = Inl e) \<and> bad z)" for y s z
    using write_file_result [of p c y s z] by (auto simp: known_def good_def bad_def changed_def)
  have un: "known d y \<Longrightarrow> good y \<Longrightarrow> unlinkSync ?t y = (s, z) \<Longrightarrow> known d z \<and> good z" for y s z
    using unlink_result [of ?t y s z] by (auto simp: known_def good_def changed_def)
  have inner: "known d z \<and> (s = Inr () \<and> good z \<or> (\<exists>e. s = Inl e) \<and> bad z)"
    if "thenM (writeFileSync ?t c) ?rename d = (s, z)" for s z
    using that
  proof (cases rule: thenM_cases)
    case (stopped e)
    with write_file_result [of ?t c d "Inl e" z] show ?thesis
      by (auto simp: known_def bad_def changed_def)
  next
    case (went_on v y)
    with write_file_result [of ?t c d "Inr v" y] have y: "known d y" "bad y" "file_at y ?t = Some (Some c, fs_clock d)"
      by (auto simp: known_def bad_def changed_def)
    obtain s1 y1 where rn: "renameSync ?t p y = (s1, y1)" by fastforce
    from rename_result [OF rn y(3)] y(1,2) have
      "s1 = Inr () \<and> known d y1 \<and> good y1 \<or> (\<exists>e. s1 = Inl e) \<and> known d y1 \<and> bad y1"
      by (auto simp: known_def good_def bad_def changed_def)
    then show ?thesis
    proof (elim disjE conjE exE)
      assume "s1 = Inr ()" "known d y1" "good y1"
      with went_on(2) rn show ?thesis by (simp add: catchM_apply)
    next
      fix e assume e: "s1 = Inl e" "known d y1" "bad y1"
      show ?thesis
      proof (cases "e \<in> {EPERM, EBUSY, EEXIST}")
        case False
        with e went_on(2) rn show ?thesis by (auto simp: catchM_apply throwM_apply)
      next
        case True
        with e(1) went_on(2) rn have "thenM (writeFileSync p c) (catchM (unlinkSync ?t) (\<lambda>_. returnM ())) y1 = (s, z)"
          by (simp add: catchM_apply)
        then show ?thesis
        proof (cases rule: thenM_cases)
          case (stopped e')
          with wr [OF e(2,3) stopped(1)] show ?thesis by simp
        next
          case (went_on v y2)
          note y2 = wr [OF e(2,3) went_on(1)]
          obtain s3 y3 where u: "unlinkSync ?t y2 = (s3, y3)" by fastforce
          from un [OF _ _ u] y2 have "known d y3 \<and> good y3" by auto
          with went_on(2) u show ?thesis
            by (auto simp: catchM_apply returnM_apply split: sum.splits)
        qed
      qed
    qed
  qed
  obtain s1 y1 where b: "thenM (writeFileSync ?t c) ?rename d = (s1, y1)" by fastforce
  note b1 = inner [OF b]
  have "known d d' \<and> (r = Inr () \<and> good d' \<or> (\<exists>e. r = Inl e) \<and> bad d')"
  proof (cases s1)
    case (Inr v)
    with b1 b assms show ?thesis by (simp add: write_replacing_def catchM_apply [of "thenM _ _"] Let_def)
  next
    case (Inl e)
    obtain s2 y2 where w: "writeFileSync p c y1 = (s2, y2)" by fastforce
    from b1 Inl wr [OF _ _ w] have "known d y2 \<and> (s2 = Inr () \<and> good y2 \<or> (\<exists>e. s2 = Inl e) \<and> bad y2)" by auto
    with b Inl w assms show ?thesis
      by (auto simp: write_replacing_def catchM_apply [of "thenM _ _"] catchM_apply [of "writeFileSync p c"] throwM_apply Let_def)
  qed
  then show ?thesis by (auto simp: replaced_def known_def good_def bad_def)
qed

end
