(* ===== verification/Gap_Analysis.thy ===== *)
theory Gap_Analysis
  imports Contracts
begin

text \<open>
  The Gap Analysis agent: \<open>backend/agents/gap-analysis/tool/coverage.ts\<close> (which
  identifiers no plan step references) and
  \<open>backend/agents/gap-analysis/workflow.ts\<close> (one deterministic correction at a
  time, until nothing is missing).  The contract validator runs in Python and is
  a parameter (\<open>contract_skill\<close>), shared by all workflows.
\<close>

named_theorems gap_simps

section \<open>The contract skill\<close>

text \<open>
  \<open>skills/canonical-contract-skill.ts\<close> sends each document to a JSON-schema
  validator outside the program: validation returns or throws.  The documents
  are the ones the workflows validate.
\<close>

datatype contract_doc =
    CPlan Plan
  | CGap GapAnalysis
  | CAudit Audit
  | CEvaluation Evaluation
  | CSchemaValidation SchemaValidationResult
  | CFixtureValidation FixtureValidationResult
  | CGoalValidation GoalValidationResult
  | CTriple TripleValidation
  | CConfirmed ConfirmedPackage
  | CHashProof HashProof

record 'w contract_skill =
  cs_validate :: "contract_doc \<Rightarrow> ('w, js_error, unit) eff"
  cs_validateReferences :: "ConfirmedCore \<Rightarrow> ('w, js_error, unit) eff"
  cs_createHash :: "ConfirmedCore \<Rightarrow> ('w, js_error, string) eff"
  cs_verifyHash :: "ConfirmedCore \<Rightarrow> string \<Rightarrow> ('w, js_error, HashProof) eff"

section \<open>Coverage\<close>

datatype GapBranch = BRequirement | BGoal | BFixture | BSchema

datatype GapSource = CoverageSource | ValidationSource

fun branch_str :: "GapBranch \<Rightarrow> string" where
  "branch_str BRequirement = ''requirement''"
| "branch_str BGoal = ''goal''"
| "branch_str BFixture = ''fixture''"
| "branch_str BSchema = ''schema''"

fun GAP_REFERENCE_FIELDS :: "GapBranch \<Rightarrow> RefField" where
  "GAP_REFERENCE_FIELDS BRequirement = RequirementRefs"
| "GAP_REFERENCE_FIELDS BGoal = GoalRefs"
| "GAP_REFERENCE_FIELDS BFixture = FixtureRefs"
| "GAP_REFERENCE_FIELDS BSchema = SchemaRefs"

record GapFinding =
  gf_key :: string
  affected_branch :: GapBranch
  gf_ref_id :: string
  target_step_id :: "string option"
  gf_evidence_ids :: "string list option"
  gf_source :: "GapSource option"

definition gap_key :: "GapBranch \<Rightarrow> string \<Rightarrow> string" where
  "gap_key branch refId = branch_str branch @ '':'' @ refId"

definition first_step_id :: "Plan \<Rightarrow> string option" where
  "first_step_id p = (case steps p of [] \<Rightarrow> None | s # _ \<Rightarrow> Some (step_id s))"

definition represented :: "GapBranch \<Rightarrow> Plan \<Rightarrow> string set" where
  "represented branch p = set (concat (map (refs_of (GAP_REFERENCE_FIELDS branch)) (steps p)))"

definition collect_gaps :: "Plan \<Rightarrow> GapBranch \<Rightarrow> string list \<Rightarrow> GapFinding list" where
  "collect_gaps p branch required =
     map (\<lambda>refId. \<lparr>gf_key = gap_key branch refId, affected_branch = branch, gf_ref_id = refId,
        target_step_id = first_step_id p, gf_evidence_ids = None, gf_source = Some CoverageSource\<rparr>)
       (filter (\<lambda>refId. refId \<notin> represented branch p) required)"

definition required_ids :: "ResearchBundle \<Rightarrow> Plan \<Rightarrow> GapBranch \<Rightarrow> string list" where
  "required_ids b p branch = (case branch of
      BRequirement \<Rightarrow> map requirement_id (requirements p)
    | BGoal \<Rightarrow> map criterion_id (success_criteria (goal b))
    | BFixture \<Rightarrow> assertion_ids (vd_fixture_validation (validation b))
    | BSchema \<Rightarrow> [schema_id (schema_artifact b)])"

definition detectGaps :: "ResearchBundle \<Rightarrow> Plan \<Rightarrow> GapFinding list" where
  "detectGaps b p =
     collect_gaps p BRequirement (required_ids b p BRequirement) @
     collect_gaps p BGoal (required_ids b p BGoal) @
     collect_gaps p BFixture (required_ids b p BFixture) @
     collect_gaps p BSchema (required_ids b p BSchema)"

definition remainingGaps :: "ResearchBundle \<Rightarrow> Plan \<Rightarrow> string list" where
  "remainingGaps b p = map gf_key (detectGaps b p)"

section \<open>One correction\<close>

record GapFixResult =
  gx_plan :: Plan
  gx_resolved :: "ResolvedGap option"
  gx_rootCause :: "RootCause option"

definition bundle_evidence_ids :: "ResearchBundle \<Rightarrow> string list" where
  "bundle_evidence_ids b = map evidence_id (ra_evidence (researcher b))"

text \<open>Mutating the found step in the cloned plan: only the first step with the id changes.\<close>

definition update_step :: "string \<Rightarrow> (PlanStep \<Rightarrow> PlanStep) \<Rightarrow> Plan \<Rightarrow> Plan" where
  "update_step sid f p = p\<lparr>steps := map_first (\<lambda>s. step_id s = sid) f (steps p)\<rparr>"

definition find_step :: "string \<Rightarrow> Plan \<Rightarrow> PlanStep option" where
  "find_step sid p = List.find (\<lambda>s. step_id s = sid) (steps p)"

definition truthy :: "string option \<Rightarrow> bool" where
  "truthy x \<longleftrightarrow> x \<noteq> None \<and> x \<noteq> Some ''''"

definition resolveOne :: "ResearchBundle \<Rightarrow> Plan \<Rightarrow> GapFinding \<Rightarrow> GapFixResult" where
  "resolveOne b input gap =
     (let evidenceIds = (case gf_evidence_ids gap of
            Some (e # es) \<Rightarrow> e # es
          | _ \<Rightarrow> bundle_evidence_ids b);
          found = (if truthy (target_step_id gap) then find_step (the (target_step_id gap)) input else None)
      in case found of
           None \<Rightarrow>
             \<lparr>gx_plan = input, gx_resolved = None, gx_rootCause = Some
                \<lparr>rc_issue = ''Gap correction target unresolved'',
                 rc_expected = ''A plan branch for '' @ gf_key gap,
                 rc_actual = ''No deterministic target step'',
                 rc_evidence_ids = evidenceIds,
                 rc_required_correction =
                   ''Provide the missing information required to identify the correct plan branch'',
                 rc_recheck_target = plan_id input\<rparr>\<rparr>
         | Some st \<Rightarrow>
             let field = GAP_REFERENCE_FIELDS (affected_branch gap);
                 before = length (refs_of field st);
                 refs = unique (refs_of field st @ [gf_ref_id gap]);
                 p = update_step (step_id st) (set_refs field refs) input
             in if length refs \<le> before then
                  \<lparr>gx_plan = p, gx_resolved = None, gx_rootCause = Some
                    \<lparr>rc_issue = ''Gap correction produced no plan improvement'',
                     rc_expected = gf_ref_id gap @ '' adds new validated value to '' @
                       branch_str (affected_branch gap) @ '' traceability'',
                     rc_actual = gf_ref_id gap @
                       '' was already represented or the proposed correction added no value'',
                     rc_evidence_ids = evidenceIds,
                     rc_required_correction =
                       ''Provide additional evidence for a different deterministic improvement'',
                     rc_recheck_target = plan_id input\<rparr>\<rparr>
                else
                  let rev = revision input + 1 in
                  \<lparr>gx_plan = p\<lparr>revision := rev, revision_evidence := revision_evidence input @
                      [\<lparr>re_revision = rev, re_affected_area = branch_str (affected_branch gap),
                        re_reason = ''Resolve '' @ (if gf_source gap = Some ValidationSource
                          then ''validation-discovered '' else '''') @ ''gap '' @ gf_key gap,
                        re_audit_finding_id = ''gap:'' @ gf_key gap\<rparr>]\<rparr>,
                   gx_resolved = Some
                     \<lparr>gap_id = ''gap:'' @ gf_key gap,
                      rg_affected_branch = branch_str (affected_branch gap),
                      rg_issue = ''Missing '' @ gf_key gap, rg_evidence_ids = evidenceIds,
                      rg_required_correction = ''Add '' @ gf_ref_id gap @ '' to '' @
                        branch_str (affected_branch gap) @ '' traceability'',
                      expected_resolved_state = gf_key gap @ '' is represented in plan steps'',
                      resolution_evidence = gf_ref_id gap @ '' added to '' @ step_id st @
                        ''; revision='' @ int_str rev\<rparr>,
                   gx_rootCause = None\<rparr>)"

section \<open>The loop\<close>

definition progress_violation :: "ResearchBundle \<Rightarrow> Plan \<Rightarrow> string list \<Rightarrow> string list \<Rightarrow> RootCause" where
  "progress_violation b p before after =
     \<lparr>rc_issue = ''Gap Analysis violated deterministic progress invariant'',
      rc_expected =
        ''Each iteration removes at least one existing gap and introduces no new gap key'',
      rc_actual = ''before='' @ join '','' before @ ''; after='' @ join '','' after,
      rc_evidence_ids = bundle_evidence_ids b,
      rc_required_correction =
        ''Correct the deterministic gap target or provide the missing information'',
      rc_recheck_target = plan_id p\<rparr>"

definition progressed :: "string list \<Rightarrow> string list \<Rightarrow> bool" where
  "progressed before after \<longleftrightarrow>
     length (unique after) < length (unique before) \<and> \<not> list_ex (\<lambda>k. k \<notin> set before) (unique after)"

text \<open>
  The loop of \<open>run\<close>, which ends with the plan, the gaps resolved so far and the
  root cause that stopped it, if one did.
\<close>

function gap_loop ::
  "ResearchBundle \<Rightarrow> Plan \<Rightarrow> ResolvedGap list \<Rightarrow> Plan \<times> ResolvedGap list \<times> RootCause option" where
  "gap_loop b p resolved =
     (case detectGaps b p of
        [] \<Rightarrow> (p, resolved, None)
      | first # rest \<Rightarrow>
          let fixed = resolveOne b p first; p' = gx_plan fixed in
          (case gx_rootCause fixed of
             Some rc \<Rightarrow> (p', resolved, Some rc)
           | None \<Rightarrow>
               let resolved' = resolved @ (case gx_resolved fixed of Some r \<Rightarrow> [r] | None \<Rightarrow> [])
               in if progressed (remainingGaps b p) (remainingGaps b p')
                  then gap_loop b p' resolved'
                  else (p', resolved', Some (progress_violation b p'
                    (unique (remainingGaps b p)) (unique (remainingGaps b p'))))))"
  by auto
termination
  by (relation "measure (\<lambda>(b, p, resolved). length (unique (remainingGaps b p)))")
    (auto simp: progressed_def)

declare gap_loop.simps [simp del]

definition finalize_gap ::
  "'w contract_skill \<Rightarrow> Plan \<Rightarrow> ResolvedGap list \<Rightarrow> RootCause option \<Rightarrow> ('w, js_error, GapAnalysis) eff" where
  "finalize_gap cs p resolved rootCause =
     (let gap = (case rootCause of
          Some rc \<Rightarrow> \<lparr>ga_plan_id = plan_id p, ga_result = Failed, resolved_gaps = resolved,
            gap_0 = False, ga_issue_type = Some RootCauseIssue, ga_root_cause = Some rc\<rparr>
        | None \<Rightarrow> \<lparr>ga_plan_id = plan_id p, ga_result = Passed, resolved_gaps = resolved,
            gap_0 = True, ga_issue_type = None, ga_root_cause = None\<rparr>)
      in thenM (cs_validate cs (CPlan p)) (thenM (cs_validate cs (CGap gap)) (returnM gap)))"

definition gap_run ::
  "'w contract_skill \<Rightarrow> ResearchBundle \<Rightarrow> Plan \<Rightarrow> ('w, js_error, Plan \<times> GapAnalysis) eff" where
  "gap_run cs b input =
     (case gap_loop b input [] of (p, resolved, rootCause) \<Rightarrow>
        bindM (finalize_gap cs p resolved rootCause) (\<lambda>gap. returnM (p, gap)))"

section \<open>Coverage lemmas\<close>

lemma branch_no_colon: "CHR '':'' \<notin> set (branch_str b)"
  by (cases b) simp_all

lemma branch_str_inj: "branch_str a = branch_str b \<longleftrightarrow> a = b"
  by (cases a; cases b) simp_all

lemma gap_key_inj [gap_simps]: "gap_key a x = gap_key b y \<longleftrightarrow> a = b \<and> x = y"
proof
  assume "gap_key a x = gap_key b y"
  then have "branch_str a @ CHR '':'' # x = branch_str b @ CHR '':'' # y" by (simp add: gap_key_def)
  from first_sep_inj [OF this branch_no_colon branch_no_colon] show "a = b \<and> x = y"
    by (simp add: branch_str_inj)
qed simp

definition missing :: "ResearchBundle \<Rightarrow> Plan \<Rightarrow> (GapBranch \<times> string) set" where
  "missing b p = {(br, x). x \<in> set (required_ids b p br) \<and> x \<notin> represented br p}"

lemma set_collect_keys:
  "gf_key ` set (collect_gaps p br req) = gap_key br ` {x \<in> set req. x \<notin> represented br p}"
  by (simp add: collect_gaps_def image_image)

lemma collect_gaps_member:
  "g \<in> set (collect_gaps p br req) \<Longrightarrow> affected_branch g = br \<and> gf_ref_id g \<in> set req \<and>
    gf_ref_id g \<notin> represented br p \<and> target_step_id g = first_step_id p \<and>
    gf_key g = gap_key br (gf_ref_id g)"
  by (auto simp: collect_gaps_def)

lemma remainingGaps_missing [gap_simps]:
  "set (remainingGaps b p) = (\<lambda>(br, x). gap_key br x) ` missing b p"
proof -
  have br: "(\<lambda>(br, x). gap_key br x) ` missing b p =
      (\<Union>br. gap_key br ` {x \<in> set (required_ids b p br). x \<notin> represented br p})"
    by (auto simp: missing_def)
  have all: "(\<Union>br. F br) = F BRequirement \<union> F BGoal \<union> F BFixture \<union> F BSchema" for F :: "GapBranch \<Rightarrow> string set"
    by (auto, (metis GapBranch.exhaust)+)
  show ?thesis
    unfolding br all by (simp add: remainingGaps_def detectGaps_def image_Un set_collect_keys Un_assoc)
qed

lemma detectGaps_empty [gap_simps]: "detectGaps b p = [] \<longleftrightarrow> missing b p = {}"
  using remainingGaps_missing [of b p] by (auto simp: remainingGaps_def)

lemma finite_missing: "finite (missing b p)"
proof -
  have "inj_on (\<lambda>(br, x). gap_key br x) (missing b p)"
    by (auto simp: inj_on_def gap_key_inj)
  moreover have "finite ((\<lambda>(br, x). gap_key br x) ` missing b p)"
    using remainingGaps_missing [of b p, symmetric] by simp
  ultimately show ?thesis by (rule finite_imageD [rotated])
qed

lemma length_unique_gaps: "length (unique (remainingGaps b p)) = card (missing b p)"
proof -
  have "length (unique (remainingGaps b p)) = card (set (remainingGaps b p))"
    by (metis distinct_card distinct_unique set_unique)
  also have "\<dots> = card (missing b p)"
    unfolding remainingGaps_missing by (rule card_image) (auto simp: inj_on_def gap_key_inj)
  finally show ?thesis .
qed

lemma progressed_iff [gap_simps]:
  "progressed (remainingGaps b p) (remainingGaps b p') \<longleftrightarrow>
     missing b p' \<subset> missing b p"
proof -
  have "set (remainingGaps b p') \<subseteq> set (remainingGaps b p) \<longleftrightarrow> missing b p' \<subseteq> missing b p"
    unfolding remainingGaps_missing by (auto simp: gap_key_inj image_subset_iff) 
  then show ?thesis
    using finite_missing [of b p] psubset_card_mono [of "missing b p" "missing b p'"]
    by (auto simp: progressed_def length_unique_gaps list_ex_iff Ball_def subset_iff)
qed

section \<open>What a correction does to the plan\<close>

text \<open>
  Growth of a plan: same identity, requirements, dependencies and steps in the
  same order, each step unchanged but for references that can only be added.
\<close>

definition step_grows :: "PlanStep \<Rightarrow> PlanStep \<Rightarrow> bool" where
  "step_grows s t \<longleftrightarrow> step_id t = step_id s \<and> step_description t = step_description s \<and>
     responsibility t = responsibility s \<and> depends_on t = depends_on s \<and>
     (\<forall>f. set (refs_of f s) \<subseteq> set (refs_of f t))"

definition plan_grows :: "Plan \<Rightarrow> Plan \<Rightarrow> bool" where
  "plan_grows p q \<longleftrightarrow> plan_id q = plan_id p \<and> plan_researcher_id q = plan_researcher_id p \<and>
     requirements q = requirements p \<and> dependencies q = dependencies p \<and>
     list_all2 step_grows (steps p) (steps q)"

lemma step_grows_refl [simp]: "step_grows s s"
  by (simp add: step_grows_def)

lemma step_grows_trans: "step_grows s t \<Longrightarrow> step_grows t u \<Longrightarrow> step_grows s u"
  by (auto simp: step_grows_def)

lemma plan_grows_refl [simp]: "plan_grows p p"
  by (simp add: plan_grows_def list.rel_refl)

lemma plan_grows_trans: "plan_grows p q \<Longrightarrow> plan_grows q r \<Longrightarrow> plan_grows p r"
  unfolding plan_grows_def by (auto intro: list_all2_trans [OF step_grows_trans])

lemma plan_grows_trim: "plan_grows p (q\<lparr>revision := r, revision_evidence := e\<rparr>) = plan_grows p q"
  by (simp add: plan_grows_def)

lemma update_step_grows:
  assumes "find_step sid p = Some st" and "step_grows st (f st)"
  shows "plan_grows p (update_step sid f p)"
proof -
  obtain us vs where "steps p = us @ st # vs"
    and "map_first (\<lambda>s. step_id s = sid) f (steps p) = us @ f st # vs"
    using map_first_split [OF assms(1) [unfolded find_step_def]] by blast
  with assms(2) show ?thesis
    by (simp add: plan_grows_def update_step_def list_all2_append list.rel_refl)
qed

lemma set_refs_grows: "set (refs_of f s) \<subseteq> set v \<Longrightarrow> step_grows s (set_refs f v s)"
  by (simp add: step_grows_def set_refs_frame refs_of_set_refs)

lemma GAP_fields_inj [gap_simps]: "GAP_REFERENCE_FIELDS a = GAP_REFERENCE_FIELDS b \<longleftrightarrow> a = b"
  by (cases a; cases b) simp_all

lemma represented_update:
  assumes "find_step sid p = Some st"
  shows "represented br (update_step sid
      (set_refs (GAP_REFERENCE_FIELDS c) (unique (refs_of (GAP_REFERENCE_FIELDS c) st @ [x]))) p) =
    represented br p \<union> (if br = c then {x} else {})"
proof -
  let ?f = "set_refs (GAP_REFERENCE_FIELDS c) (unique (refs_of (GAP_REFERENCE_FIELDS c) st @ [x]))"
  obtain us vs where s: "steps p = us @ st # vs"
    and s': "map_first (\<lambda>s. step_id s = sid) ?f (steps p) = us @ ?f st # vs"
    using map_first_split [OF assms [unfolded find_step_def]] by blast
  show ?thesis
    using s s' by (auto simp: represented_def update_step_def refs_of_set_refs gap_simps)
qed

text \<open>The invariant for the fixed branch lengths: no step lists a reference twice.\<close>

definition refs_distinct :: "Plan \<Rightarrow> bool" where
  "refs_distinct p \<longleftrightarrow> (\<forall>s \<in> set (steps p). \<forall>f. distinct (refs_of f s))"

lemma refs_distinct_update:
  assumes "refs_distinct p" and "distinct v"
  shows "refs_distinct (update_step sid (set_refs f v) p)"
proof -
  have "\<forall>s \<in> set (map_first (\<lambda>s. step_id s = sid) (set_refs f v) xs). \<forall>g. distinct (refs_of g s)"
    if "\<forall>s \<in> set xs. \<forall>g. distinct (refs_of g s)" for xs
    using that assms(2) by (induction xs) (auto simp: refs_of_set_refs)
  with assms(1) show ?thesis by (simp add: refs_distinct_def update_step_def)
qed

text \<open>The step a finding names, and the plan with the finding's reference added there.\<close>

definition target_step :: "Plan \<Rightarrow> GapFinding \<Rightarrow> PlanStep option" where
  "target_step p g =
     (if truthy (target_step_id g) then find_step (the (target_step_id g)) p else None)"

definition with_ref :: "Plan \<Rightarrow> PlanStep \<Rightarrow> GapFinding \<Rightarrow> Plan" where
  "with_ref p st g = update_step (step_id st) (set_refs (GAP_REFERENCE_FIELDS (affected_branch g))
     (unique (refs_of (GAP_REFERENCE_FIELDS (affected_branch g)) st @ [gf_ref_id g]))) p"

definition adds_value :: "PlanStep \<Rightarrow> GapFinding \<Rightarrow> bool" where
  "adds_value st g \<longleftrightarrow> length (refs_of (GAP_REFERENCE_FIELDS (affected_branch g)) st) <
     length (unique (refs_of (GAP_REFERENCE_FIELDS (affected_branch g)) st @ [gf_ref_id g]))"

lemma target_step_find: "target_step p g = Some st \<Longrightarrow> find_step (step_id st) p = Some st"
  using find_SomeD [of "\<lambda>s. step_id s = the (target_step_id g)" "steps p" st]
  by (simp add: target_step_def find_step_def split: if_splits)

lemma resolveOne_untargeted [gap_simps]:
  "target_step p g = None \<Longrightarrow> gx_plan (resolveOne b p g) = p"
  "target_step p g = None \<Longrightarrow> gx_resolved (resolveOne b p g) = None"
  "target_step p g = None \<Longrightarrow> gx_rootCause (resolveOne b p g) \<noteq> None"
  by (simp_all add: resolveOne_def target_step_def Let_def)

lemma resolveOne_stuck [gap_simps]:
  assumes "target_step p g = Some st" and "\<not> adds_value st g"
  shows "gx_plan (resolveOne b p g) = with_ref p st g"
    and "gx_resolved (resolveOne b p g) = None"
    and "gx_rootCause (resolveOne b p g) \<noteq> None"
  using assms by (simp_all add: resolveOne_def target_step_def Let_def with_ref_def adds_value_def)

lemma resolveOne_fixed [gap_simps]:
  assumes "target_step p g = Some st" and "adds_value st g"
  shows "gx_plan (resolveOne b p g) = (with_ref p st g)\<lparr>revision := revision p + 1,
      revision_evidence := revision_evidence p @
        [\<lparr>re_revision = revision p + 1, re_affected_area = branch_str (affected_branch g),
          re_reason = ''Resolve '' @ (if gf_source g = Some ValidationSource
            then ''validation-discovered '' else '''') @ ''gap '' @ gf_key g,
          re_audit_finding_id = ''gap:'' @ gf_key g\<rparr>]\<rparr>"
    and "map_option gap_id (gx_resolved (resolveOne b p g)) = Some (''gap:'' @ gf_key g)"
    and "gx_rootCause (resolveOne b p g) = None"
  using assms by (simp_all add: resolveOne_def target_step_def Let_def with_ref_def adds_value_def)

lemma with_ref_grows:
  "target_step p g = Some st \<Longrightarrow> plan_grows p (with_ref p st g)"
  unfolding with_ref_def
  by (rule update_step_grows [OF target_step_find]) (auto intro: set_refs_grows)

lemma with_ref_represented:
  "target_step p g = Some st \<Longrightarrow>
    represented br (with_ref p st g) = represented br p \<union> (if br = affected_branch g then {gf_ref_id g} else {})"
  unfolding with_ref_def by (rule represented_update [OF target_step_find])

lemma resolveOne_grows: "plan_grows p (gx_plan (resolveOne b p g))"
proof (cases "target_step p g")
  case None
  then show ?thesis by (simp add: gap_simps)
next
  case (Some st)
  then show ?thesis
    by (cases "adds_value st g") (simp_all add: gap_simps plan_grows_trim with_ref_grows)
qed

lemma resolveOne_refs_distinct:
  assumes "refs_distinct p"
  shows "refs_distinct (gx_plan (resolveOne b p g))"
proof (cases "target_step p g")
  case None
  with assms show ?thesis by (simp add: gap_simps)
next
  case (Some st)
  have "refs_distinct (with_ref p st g)"
    unfolding with_ref_def using assms by (rule refs_distinct_update) simp
  with Some show ?thesis
    by (cases "adds_value st g") (simp_all add: gap_simps, simp add: refs_distinct_def)
qed

lemma required_ids_grows: "plan_grows p q \<Longrightarrow> required_ids b q br = required_ids b p br"
  by (simp add: required_ids_def plan_grows_def split: GapBranch.split)

text \<open>A correction that adds value removes exactly its own gap.\<close>

lemma resolveOne_missing:
  assumes "target_step p g = Some st" and "adds_value st g"
  shows "missing b (gx_plan (resolveOne b p g)) = missing b p - {(affected_branch g, gf_ref_id g)}"
proof -
  let ?q = "gx_plan (resolveOne b p g)"
  have rep: "represented br ?q = represented br p \<union> (if br = affected_branch g then {gf_ref_id g} else {})" for br
    using with_ref_represented [OF assms(1), of br] by (simp add: resolveOne_fixed(1) [OF assms] represented_def)
  show ?thesis
    by (auto simp: missing_def rep required_ids_grows [OF resolveOne_grows] split: if_splits)
qed

lemma adds_value_distinct:
  "refs_distinct p \<Longrightarrow> target_step p g = Some st \<Longrightarrow> gf_ref_id g \<notin> represented (affected_branch g) p \<Longrightarrow>
    adds_value st g"
proof -
  assume d: "refs_distinct p" and t: "target_step p g = Some st"
    and new: "gf_ref_id g \<notin> represented (affected_branch g) p"
  have st: "st \<in> set (steps p)" using target_step_find [OF t] by (auto simp: find_step_def dest: find_SomeD)
  with d new show ?thesis
    by (auto simp: adds_value_def refs_distinct_def represented_def length_unique_snoc_gt)
qed

section \<open>The first finding\<close>

lemma detectGaps_member:
  assumes "g \<in> set (detectGaps b p)"
  shows "(affected_branch g, gf_ref_id g) \<in> missing b p" and "target_step_id g = first_step_id p"
    and "gf_key g = gap_key (affected_branch g) (gf_ref_id g)"
  using assms by (auto simp: detectGaps_def missing_def dest!: collect_gaps_member)

definition first_step_named :: "Plan \<Rightarrow> bool" where
  "first_step_named p \<longleftrightarrow> (case steps p of [] \<Rightarrow> False | s # _ \<Rightarrow> step_id s \<noteq> '''')"

lemma target_step_coverage:
  assumes "g \<in> set (detectGaps b p)" and "first_step_named p"
  shows "target_step p g = Some (hd (steps p))"
  using assms detectGaps_member(2) [OF assms(1)]
  by (cases "steps p") (auto simp: target_step_def first_step_id_def truthy_def find_step_def first_step_named_def)

lemma first_step_named_grows: "plan_grows p q \<Longrightarrow> first_step_named p \<Longrightarrow> first_step_named q"
  by (auto simp: first_step_named_def plan_grows_def step_grows_def split: list.splits)

section \<open>The loop, equation by equation\<close>

lemma gap_loop_done: "detectGaps b p = [] \<Longrightarrow> gap_loop b p res = (p, res, None)"
  by (subst gap_loop.simps) simp

lemma gap_loop_stop:
  "detectGaps b p = g # gs \<Longrightarrow> gx_rootCause (resolveOne b p g) = Some rc \<Longrightarrow>
    gap_loop b p res = (gx_plan (resolveOne b p g), res, Some rc)"
  by (subst gap_loop.simps) (simp add: Let_def)

lemma rootCause_None_iff:
  "gx_rootCause (resolveOne b p g) = None \<longleftrightarrow> (\<exists>st. target_step p g = Some st \<and> adds_value st g)"
  by (metis not_None_eq resolveOne_fixed(3) resolveOne_stuck(3) resolveOne_untargeted(3))

lemma resolveOne_progress:
  assumes "g \<in> set (detectGaps b p)" and "gx_rootCause (resolveOne b p g) = None"
  shows "missing b (gx_plan (resolveOne b p g)) = missing b p - {(affected_branch g, gf_ref_id g)}"
    and "(affected_branch g, gf_ref_id g) \<in> missing b p"
    and "progressed (remainingGaps b p) (remainingGaps b (gx_plan (resolveOne b p g)))"
proof -
  from assms(2) obtain st where "target_step p g = Some st" "adds_value st g"
    by (auto simp: rootCause_None_iff)
  from resolveOne_missing [OF this]
  show m: "missing b (gx_plan (resolveOne b p g)) = missing b p - {(affected_branch g, gf_ref_id g)}" .
  show i: "(affected_branch g, gf_ref_id g) \<in> missing b p" by (rule detectGaps_member(1) [OF assms(1)])
  show "progressed (remainingGaps b p) (remainingGaps b (gx_plan (resolveOne b p g)))"
    unfolding progressed_iff m using i by blast
qed

lemma gap_loop_go:
  assumes "detectGaps b p = g # gs" and "gx_rootCause (resolveOne b p g) = None"
  obtains r where "gx_resolved (resolveOne b p g) = Some r" and "gap_id r = ''gap:'' @ gf_key g"
    and "gap_loop b p res = gap_loop b (gx_plan (resolveOne b p g)) (res @ [r])"
proof -
  have g: "g \<in> set (detectGaps b p)" using assms(1) by simp
  from assms(2) obtain st where "target_step p g = Some st" "adds_value st g"
    by (auto simp: rootCause_None_iff)
  from resolveOne_fixed(2) [OF this, of b] obtain r where
    r: "gx_resolved (resolveOne b p g) = Some r" "gap_id r = ''gap:'' @ gf_key g" by auto
  have "gap_loop b p res = gap_loop b (gx_plan (resolveOne b p g)) (res @ [r])"
    by (subst gap_loop.simps) (simp add: assms r Let_def resolveOne_progress(3) [OF g assms(2)])
  with r that show ?thesis by blast
qed

text \<open>The ids recorded for a set of gaps.\<close>

definition gap_ids :: "(GapBranch \<times> string) set \<Rightarrow> string set" where
  "gap_ids G = (\<lambda>(br, x). ''gap:'' @ gap_key br x) ` G"

lemma gap_ids_insert: "(br, x) \<in> G \<Longrightarrow> gap_ids G = insert (''gap:'' @ gap_key br x) (gap_ids (G - {(br, x)}))"
  by (auto simp: gap_ids_def)

lemma gap_ids_notin: "''gap:'' @ gap_key br x \<notin> gap_ids (G - {(br, x)})"
  by (auto simp: gap_ids_def gap_key_inj)

text \<open>
  What one pass of the loop establishes, whether it ends with success or with a
  root cause.
\<close>

definition gap_result ::
  "ResearchBundle \<Rightarrow> Plan \<Rightarrow> Plan \<Rightarrow> ResolvedGap list \<Rightarrow> RootCause option \<Rightarrow> bool" where
  "gap_result b p q new rc \<longleftrightarrow>
     plan_grows p q \<and> missing b q \<subseteq> missing b p \<and>
     distinct (map gap_id new) \<and> gap_id ` set new = gap_ids (missing b p - missing b q) \<and>
     revision q = revision p + int (length new) \<and>
     length (revision_evidence q) = length (revision_evidence p) + length new \<and>
     (rc = None \<longleftrightarrow> missing b q = {})"

lemma resolveOne_rev_stop:
  "gx_rootCause (resolveOne b p g) \<noteq> None \<Longrightarrow>
    revision (gx_plan (resolveOne b p g)) = revision p \<and>
    revision_evidence (gx_plan (resolveOne b p g)) = revision_evidence p"
proof -
  assume rc: "gx_rootCause (resolveOne b p g) \<noteq> None"
  show ?thesis
  proof (cases "target_step p g")
    case None
    then show ?thesis by (simp add: gap_simps)
  next
    case (Some st)
    with rc have "\<not> adds_value st g" by (auto simp: gap_simps)
    with Some show ?thesis by (simp add: gap_simps with_ref_def update_step_def)
  qed
qed

text \<open>Where a coverage finding stops the loop, no gap has been closed by the attempt.\<close>

lemma resolveOne_stop_missing:
  assumes "g \<in> set (detectGaps b p)" and "gx_rootCause (resolveOne b p g) \<noteq> None"
  shows "missing b (gx_plan (resolveOne b p g)) = missing b p \<or>
    (\<exists>st. target_step p g = Some st \<and> \<not> adds_value st g \<and> \<not> refs_distinct p)"
proof (cases "target_step p g")
  case None
  then show ?thesis by (simp add: gap_simps)
next
  case (Some st)
  with assms(2) have "\<not> adds_value st g" by (auto simp: gap_simps)
  moreover have "gf_ref_id g \<notin> represented (affected_branch g) p"
    using detectGaps_member(1) [OF assms(1)] by (simp add: missing_def)
  ultimately show ?thesis using adds_value_distinct [OF _ Some] Some by blast
qed

lemma gap_loop_sound:
  "gap_loop b p res = (q, new, rc) \<Longrightarrow> plan_grows p q \<and> (rc = None \<longrightarrow> missing b q = {})"
proof (induction b p res arbitrary: q new rc rule: gap_loop.induct)
  case (1 b p res)
  show ?case
  proof (cases "detectGaps b p")
    case Nil
    with 1 show ?thesis by (auto simp: gap_loop_done detectGaps_empty)
  next
    case (Cons g gs)
    show ?thesis
    proof (cases "gx_rootCause (resolveOne b p g)")
      case None
      then obtain r where r: "gx_resolved (resolveOne b p g) = Some r"
        and go: "gap_loop b p res = gap_loop b (gx_plan (resolveOne b p g)) (res @ [r])"
        using gap_loop_go [OF Cons] by metis
      have go': "gap_loop b (gx_plan (resolveOne b p g)) (res @ [r]) = (q, new, rc)"
        using go 1(2) by simp
      have "plan_grows (gx_plan (resolveOne b p g)) q \<and> (rc = None \<longrightarrow> missing b q = {})"
        using 1(1) [OF Cons refl refl None refl, unfolded r option.case,
            OF resolveOne_progress(3) [OF _ None] go'] Cons by simp
      with resolveOne_grows plan_grows_trans show ?thesis by blast
    next
      case (Some c)
      with gap_loop_stop [OF Cons Some] 1(2) resolveOne_grows show ?thesis by auto
    qed
  qed
qed

lemma gap_result_step:
  assumes g: "g \<in> set (detectGaps b p)" and none: "gx_rootCause (resolveOne b p g) = None"
    and r: "gap_id r = ''gap:'' @ gf_key g"
    and rest: "gap_result b (gx_plan (resolveOne b p g)) q new rc"
  shows "gap_result b p q (r # new) rc"
proof -
  let ?p = "gx_plan (resolveOne b p g)"
  let ?x = "(affected_branch g, gf_ref_id g)"
  note m = resolveOne_progress(1,2) [OF g none]
  have key: "gap_id r = ''gap:'' @ gap_key (affected_branch g) (gf_ref_id g)"
    using r detectGaps_member(3) [OF g] by simp
  from none obtain st where st: "target_step p g = Some st" "adds_value st g"
    by (auto simp: rootCause_None_iff)
  have rev: "revision ?p = revision p + 1"
    and ev: "length (revision_evidence ?p) = length (revision_evidence p) + 1"
    by (simp_all add: resolveOne_fixed(1) [OF st])
  have qx: "?x \<notin> missing b q" and sub: "missing b q \<subseteq> missing b p"
    using rest m(1) by (auto simp: gap_result_def)
  have diff: "missing b p - missing b q - {?x} = missing b ?p - missing b q"
    using m(1) by auto
  have ids: "gap_ids (missing b p - missing b q) = insert (gap_id r) (gap_ids (missing b ?p - missing b q))"
    using gap_ids_insert [of "affected_branch g" "gf_ref_id g" "missing b p - missing b q"] m(2) qx
    unfolding diff key by simp
  have fresh: "gap_id r \<notin> gap_id ` set new"
    using rest gap_ids_notin [of "affected_branch g" "gf_ref_id g" "missing b p - missing b q"]
    unfolding gap_result_def diff key by simp
  have grows: "plan_grows p q"
    using plan_grows_trans [OF resolveOne_grows] rest unfolding gap_result_def by blast
  show ?thesis
    using rest ids fresh sub rev ev grows
    unfolding gap_result_def by (auto simp: image_iff)
qed

lemma gap_loop_result:
  "refs_distinct p \<Longrightarrow> gap_loop b p res = (q, out, rc) \<Longrightarrow>
    \<exists>new. out = res @ new \<and> gap_result b p q new rc \<and> (first_step_named p \<longrightarrow> rc = None)"
proof (induction b p res arbitrary: q out rc rule: gap_loop.induct)
  case (1 b p res)
  show ?case
  proof (cases "detectGaps b p")
    case Nil
    with 1 show ?thesis by (auto simp: gap_loop_done detectGaps_empty gap_result_def gap_ids_def)
  next
    case (Cons g gs)
    then have g: "g \<in> set (detectGaps b p)" by simp
    show ?thesis
    proof (cases "gx_rootCause (resolveOne b p g)")
      case None
      then obtain r where r: "gx_resolved (resolveOne b p g) = Some r" "gap_id r = ''gap:'' @ gf_key g"
        and go: "gap_loop b p res = gap_loop b (gx_plan (resolveOne b p g)) (res @ [r])"
        using gap_loop_go [OF Cons] by metis
      have "gap_loop b (gx_plan (resolveOne b p g)) (res @ [r]) = (q, out, rc)" using go 1(3) by simp
      with 1(1) [OF Cons refl refl None refl, unfolded r(1) option.case,
          OF resolveOne_progress(3) [OF g None] resolveOne_refs_distinct [OF 1(2)]]
      obtain new where new: "out = (res @ [r]) @ new" "gap_result b (gx_plan (resolveOne b p g)) q new rc"
        "first_step_named (gx_plan (resolveOne b p g)) \<longrightarrow> rc = None" by blast
      have "gap_result b p q (r # new) rc" by (rule gap_result_step [OF g None r(2) new(2)])
      moreover have "first_step_named p \<longrightarrow> rc = None"
        using new(3) first_step_named_grows [OF resolveOne_grows] by blast
      ultimately show ?thesis using new(1) by auto
    next
      case (Some c)
      have out: "q = gx_plan (resolveOne b p g)" "out = res" "rc = Some c"
        using gap_loop_stop [OF Cons Some, of res] 1(3) by auto
      have nn: "gx_rootCause (resolveOne b p g) \<noteq> None" using Some by simp
      have same: "missing b q = missing b p"
        using resolveOne_stop_missing [OF g nn] 1(2) out(1) by auto
      have "missing b p \<noteq> {}" using detectGaps_member(1) [OF g] by auto
      moreover have "\<not> first_step_named p"
      proof
        assume n: "first_step_named p"
        have "gf_ref_id g \<notin> represented (affected_branch g) p"
          using detectGaps_member(1) [OF g] by (simp add: missing_def)
        with adds_value_distinct [OF 1(2) target_step_coverage [OF g n]]
          target_step_coverage [OF g n] nn show False by (auto simp: rootCause_None_iff)
      qed
      ultimately have "gap_result b p q [] rc"
        using same out resolveOne_rev_stop [OF nn] resolveOne_grows
        by (simp add: gap_result_def gap_ids_def)
      with out \<open>\<not> first_step_named p\<close> show ?thesis by auto
    qed
  qed
qed

section \<open>Properties\<close>

text \<open>
  C13.  Gap Analysis closes every gap and nothing else.  On a plan whose first
  step has a name and whose steps list no reference twice, the loop ends with
  success (it terminates, as a total function), no required requirement,
  criterion, assertion or schema is then missing from the plan, the plan has
  only grown (same identity, requirements, dependencies and steps in order, each
  step unchanged but for added references), the recorded resolved gaps are
  exactly the missing ones, each recorded once, and the revision went up by one
  for each.
\<close>

theorem gap_analysis_closes_all_gaps:
  assumes "refs_distinct p" and "first_step_named p"
  shows "case gap_loop b p [] of (q, resolved, rootCause) \<Rightarrow>
    rootCause = None \<and> detectGaps b q = [] \<and> plan_grows p q \<and>
    distinct (map gap_id resolved) \<and> gap_id ` set resolved = gap_ids (missing b p) \<and>
    revision q = revision p + int (length resolved)"
proof (cases "gap_loop b p []")
  case (fields q resolved rc)
  from gap_loop_result [OF assms(1) fields] assms(2)
  have none: "rc = None" and res: "gap_result b p q resolved rc" by auto
  then have "missing b q = {}" by (simp add: gap_result_def)
  with none res show ?thesis by (simp add: fields gap_result_def detectGaps_empty)
qed

text \<open>
  C14.  The claim \<open>gap_0\<close> is sound without any assumption: whatever the plan and
  the bundle are and whatever the contract validator does, a Gap Analysis that
  returns with \<open>gap_0\<close> returns a plan in which the coverage check finds nothing,
  together with the result Passed; otherwise it returns Failed with a root
  cause; and the returned plan is the input plan grown by references only.
\<close>

theorem gap_0_sound:
  "case fst (gap_run cs b p w) of
     Inl e \<Rightarrow> True
   | Inr (q, gap) \<Rightarrow> plan_grows p q \<and> ga_plan_id gap = plan_id p \<and>
       (if gap_0 gap then detectGaps b q = [] \<and> ga_result gap = Passed \<and> ga_root_cause gap = None
        else ga_result gap = Failed \<and> ga_root_cause gap \<noteq> None)"
proof (cases "gap_loop b p []")
  case (fields q resolved rc)
  from gap_loop_sound [OF fields] show ?thesis
    by (auto simp: gap_run_def finalize_gap_def Let_def fields eff_simps detectGaps_empty
        plan_grows_def split: sum.splits prod.splits option.splits)
qed

definition gap_step :: "string list \<Rightarrow> PlanStep" where
  "gap_step reqs = \<lparr>step_id = ''s1'', step_description = ''d'', responsibility = ''r'', depends_on = [],
     requirement_refs = reqs, goal_refs = [''g1''], fixture_refs = [''a1''], schema_refs = [''sch'']\<rparr>"

definition gap_plan :: "string list \<Rightarrow> Plan" where
  "gap_plan reqs = \<lparr>plan_id = ''p'', plan_researcher_id = ''r'', requirements =
      [\<lparr>requirement_id = ''r1'', req_statement = '''', req_evidence_ids = []\<rparr>,
       \<lparr>requirement_id = ''r2'', req_statement = '''', req_evidence_ids = []\<rparr>],
     dependencies = [], steps = [gap_step reqs], revision = 1, revision_evidence = []\<rparr>"

lemma gap_analysis_closes_all_gaps_witness:
  "\<forall>b. detectGaps b (fst (gap_loop b (gap_plan [''r1'']) [])) = []"
proof -
  have "refs_distinct (gap_plan [''r1''])"
    unfolding refs_distinct_def gap_plan_def gap_step_def by (auto, case_tac f) simp_all
  moreover have "first_step_named (gap_plan [''r1''])"
    by (simp add: first_step_named_def gap_plan_def gap_step_def)
  ultimately show ?thesis using gap_analysis_closes_all_gaps [of "gap_plan [''r1'']"]
    by (simp add: split_beta)
qed

text \<open>
  Where a step lists a reference twice, removing duplicates cancels the added
  reference: the correction is rejected as no improvement although it adds the
  missing requirement.
\<close>

lemma duplicate_refs_reject_improvement:
  assumes "target_step p g = Some st" and "affected_branch g = BRequirement"
    and "requirement_refs st = [''r1'', ''r1'']" and "gf_ref_id g = ''r2''"
  shows "gx_rootCause (resolveOne b p g) \<noteq> None \<and>
    ''r2'' \<in> represented BRequirement (gx_plan (resolveOne b p g))"
proof -
  have "\<not> adds_value st g" by (simp add: adds_value_def assms)
  then show ?thesis
    using assms with_ref_represented [OF assms(1), of BRequirement] by (simp add: resolveOne_stuck)
qed

end
