(* ===== verification/Planner_Refactor.thy ===== *)
theory Planner_Refactor
  imports Gap_Analysis
begin

text \<open>
  The Planner's audit (\<open>backend/agents/planner/tool/coverage.ts\<close>,
  \<open>planner/workflow.ts\<close>) and the Refactor agent that applies it
  (\<open>backend/agents/refactor/tool/apply-audit.ts\<close>, \<open>refactor/workflow.ts\<close>),
  with the property that ties both to the coverage check of Gap Analysis.
\<close>

section \<open>The audit\<close>

definition PLANNER_REVIEW_AREAS :: "string list" where
  "PLANNER_REVIEW_AREAS =
     [''evidence sufficiency'', ''file or subject coverage'', ''requirement coverage'',
      ''dependency coverage'', ''goal clarity'', ''success criteria'', ''fixture usability'',
      ''schema applicability'', ''validation traceability'', ''plan structure'',
      ''unresolved findings'']"

text \<open>\<open>area.replace(/\s+/g, "-")\<close>: every run of white space becomes one dash.\<close>

lemma dropWhile_shorter [termination_simp]: "length (dropWhile p xs) < Suc (length xs)"
  by (simp add: length_dropWhile_le less_Suc_eq_le)

fun dash_spaces :: "string \<Rightarrow> string" where
  "dash_spaces [] = []"
| "dash_spaces (c # cs) =
     (if is_space c then CHR ''-'' # dash_spaces (dropWhile is_space cs) else c # dash_spaces cs)"

text \<open>A finding before it is numbered: area, finding, affected refs, refinement.\<close>

type_synonym raw_finding = "string \<times> string \<times> string list \<times> string"

definition number_finding :: "string list \<Rightarrow> nat \<times> raw_finding \<Rightarrow> AuditFinding" where
  "number_finding ev nf = (case nf of (n, ar, fnd, refs, refinement) \<Rightarrow>
     \<lparr>finding_id = ''finding:'' @ nat_str n @ '':'' @ dash_spaces ar, area = ar, af_finding = fnd,
      affected_plan_refs = refs, af_evidence_ids = ev, required_refinement = refinement\<rparr>)"

definition step_refs :: "ResearchBundle \<Rightarrow> string list" where
  "step_refs b = (case first_step_id (plan b) of
      Some s \<Rightarrow> if s = '''' then [] else [s] | None \<Rightarrow> [])"

text \<open>The findings in the order the source adds them, one list per check.\<close>

definition evidence_findings :: "ResearchBundle \<Rightarrow> raw_finding list" where
  "evidence_findings b = concat (map (\<lambda>r.
     map (\<lambda>eid. (''evidence sufficiency'', ''Requirement '' @ requirement_id r @
         '' references unresolved evidence '' @ eid, [], ''resolve evidence '' @ eid))
       (filter (\<lambda>eid. eid \<notin> set (bundle_evidence_ids b)) (req_evidence_ids r)))
     (requirements (plan b)))"

definition subject_findings :: "ResearchBundle \<Rightarrow> raw_finding list" where
  "subject_findings b = (if steps (plan b) = []
     then [(''file or subject coverage'', ''No plan step covers the researched subject'', [],
            ''create subject plan step'')] else [])"

definition reference_findings ::
  "ResearchBundle \<Rightarrow> string \<Rightarrow> string \<Rightarrow> GapBranch \<Rightarrow> string list \<Rightarrow> raw_finding list" where
  "reference_findings b ar prefix br ids =
     map (\<lambda>x. (ar, prefix @ x, step_refs b,
         ''add '' @ field_str (GAP_REFERENCE_FIELDS br) @ '' '' @ x))
       (filter (\<lambda>x. x \<notin> represented br (plan b)) ids)"

definition dependency_findings :: "ResearchBundle \<Rightarrow> raw_finding list" where
  "dependency_findings b = concat (map (\<lambda>d.
     map (\<lambda>x. (''dependency coverage'', ''Dependency '' @ dependency_id d @
         '' required_by unresolved '' @ x, [],
         ''resolve dependency '' @ dependency_id d @ '' required_by '' @ x))
       (filter (\<lambda>x. x \<notin> requirement_id ` set (requirements (plan b))) (required_by d)))
     (dependencies (plan b)))"

definition goal_findings :: "ResearchBundle \<Rightarrow> raw_finding list" where
  "goal_findings b = (if trim (objective (goal b)) = '''' \<or> trim (goal_success_meaning (goal b)) = ''''
     then [(''goal clarity'', ''Goal objective or success meaning is empty'', [],
            ''clarify goal before plan refinement'')] else [])"

definition criterion_findings :: "ResearchBundle \<Rightarrow> raw_finding list" where
  "criterion_findings b =
     map (\<lambda>cid. (''success criteria'', ''Goal criterion '' @ cid @
         '' is absent from Researcher success definition'', [], ''resolve success criterion '' @ cid))
       (filter (\<lambda>cid. cid \<notin> set (success_criteria_ids (success_definition (researcher b))))
         (map criterion_id (success_criteria (goal b))))"

definition fixture_findings :: "ResearchBundle \<Rightarrow> raw_finding list" where
  "fixture_findings b =
     map (\<lambda>aid. (''fixture usability'', ''Validation routes unresolved fixture assertion '' @ aid,
         [], ''resolve fixture assertion '' @ aid))
       (filter (\<lambda>aid. aid \<notin> assertion_id ` set (plan_assertions (fixture b)))
         (assertion_ids (vd_fixture_validation (validation b))))"

definition schema_target_findings :: "ResearchBundle \<Rightarrow> raw_finding list" where
  "schema_target_findings b = (if sa_target (schema_artifact b) \<noteq> ''plan''
     then [(''schema applicability'', ''Schema target '' @ sa_target (schema_artifact b) @
            '' is not plan'', [], ''set schema target plan'')] else [])"

definition route_findings :: "ResearchBundle \<Rightarrow> raw_finding list" where
  "route_findings b =
     (let pid = plan_id (plan b); route = validation b in
      (if filter (\<lambda>x. x \<noteq> pid) [vd_plan_id route, sr_plan_id (vd_schema_validation route),
            fr_plan_id (vd_fixture_validation route), gr_plan_id (vd_goal_validation route)] \<noteq> []
       then [(''validation traceability'', ''Validation plan routing does not preserve '' @ pid, [],
              ''resolve validation plan routing '' @ pid)] else []) @
      (if sr_schema_id (vd_schema_validation route) \<noteq> schema_id (schema_artifact b) \<or>
          fr_fixture_id (vd_fixture_validation route) \<noteq> fixture_id (fixture b) \<or>
          gr_goal_id (vd_goal_validation route) \<noteq> goal_id (goal b)
       then [(''validation traceability'',
              ''Validation artifact routing does not resolve Researcher-owned proof artifacts'', [],
              ''resolve validation artifact routing'')] else []))"

definition structure_findings :: "ResearchBundle \<Rightarrow> raw_finding list" where
  "structure_findings b = concat (map (\<lambda>s.
     map (\<lambda>dep. (''plan structure'', ''Step '' @ step_id s @ '' depends on unresolved step '' @ dep,
         [], ''resolve step dependency '' @ dep))
       (filter (\<lambda>dep. dep \<notin> step_id ` set (steps (plan b))) (depends_on s)))
     (steps (plan b)))"

definition raw_findings :: "ResearchBundle \<Rightarrow> raw_finding list" where
  "raw_findings b =
     evidence_findings b @ subject_findings b @
     reference_findings b ''requirement coverage'' ''Missing requirement reference '' BRequirement
       (required_ids b (plan b) BRequirement) @
     dependency_findings b @ goal_findings b @ criterion_findings b @ fixture_findings b @
     schema_target_findings b @
     reference_findings b ''schema applicability'' ''Missing schema reference '' BSchema
       (required_ids b (plan b) BSchema) @
     route_findings b @ structure_findings b @
     reference_findings b ''unresolved findings'' ''Missing goal traceability '' BGoal
       (required_ids b (plan b) BGoal) @
     reference_findings b ''unresolved findings'' ''Missing fixture traceability '' BFixture
       (required_ids b (plan b) BFixture)"

definition plannerFindings :: "ResearchBundle \<Rightarrow> AuditFinding list" where
  "plannerFindings b =
     map (number_finding (bundle_evidence_ids b)) (List.enumerate 1 (raw_findings b))"

definition planner_audit :: "ResearchBundle \<Rightarrow> string \<Rightarrow> Audit" where
  "planner_audit b runId =
     \<lparr>audit_id = id_of ''audit'' runId, au_researcher_id = researcher_id (researcher b),
      au_plan_id = plan_id (plan b), reviewed_areas = PLANNER_REVIEW_AREAS,
      findings = plannerFindings b\<rparr>"

definition planner_run ::
  "'w contract_skill \<Rightarrow> ResearchBundle \<Rightarrow> string \<Rightarrow> ('w, js_error, Audit) eff" where
  "planner_run cs b runId =
     thenM (cs_validate cs (CAudit (planner_audit b runId))) (returnM (planner_audit b runId))"

section \<open>Applying the audit\<close>

text \<open>
  \<open>/^add (requirement_refs|goal_refs|fixture_refs|schema_refs) (.+)$/\<close>; the dot
  matches no line terminator.
\<close>

definition strip_prefix :: "string \<Rightarrow> string \<Rightarrow> string option" where
  "strip_prefix pre s = (if take (length pre) s = pre then Some (drop (length pre) s) else None)"

definition one_line :: "string \<Rightarrow> bool" where
  "one_line v \<longleftrightarrow> v \<noteq> '''' \<and> (\<forall>c \<in> set v. c \<noteq> CHR 0x0A \<and> c \<noteq> CHR 0x0D)"

definition match_field :: "string \<Rightarrow> RefField \<Rightarrow> (RefField \<times> string) option" where
  "match_field s f = (case strip_prefix (''add '' @ field_str f @ '' '') s of
      Some v \<Rightarrow> if one_line v then Some (f, v) else None
    | None \<Rightarrow> None)"

definition match_refinement :: "string \<Rightarrow> (RefField \<times> string) option" where
  "match_refinement s = (case match_field s RequirementRefs of Some x \<Rightarrow> Some x | None \<Rightarrow>
     (case match_field s GoalRefs of Some x \<Rightarrow> Some x | None \<Rightarrow>
     (case match_field s FixtureRefs of Some x \<Rightarrow> Some x | None \<Rightarrow> match_field s SchemaRefs)))"

definition applyToStep :: "Plan \<Rightarrow> string \<Rightarrow> RefField \<Rightarrow> string \<Rightarrow> Plan \<times> bool" where
  "applyToStep p stepId field v = (case find_step stepId p of
      None \<Rightarrow> (p, False)
    | Some s \<Rightarrow>
        let refs = unique (refs_of field s @ [v]) in
        (update_step stepId (set_refs field refs) p, length refs \<noteq> length (refs_of field s)))"

fun applyRefs :: "Plan \<Rightarrow> string list \<Rightarrow> RefField \<Rightarrow> string \<Rightarrow> bool \<Rightarrow> Plan \<times> bool" where
  "applyRefs p [] field v local_changed = (p, local_changed)"
| "applyRefs p (ref # refs) field v local_changed =
     (case applyToStep p ref field v of (p', ch) \<Rightarrow> applyRefs p' refs field v (ch \<or> local_changed))"

definition applyFinding :: "Audit \<Rightarrow> Plan \<Rightarrow> AuditFinding \<Rightarrow> RootCause + Plan \<times> bool" where
  "applyFinding audit p f = (case match_refinement (required_refinement f) of
      Some (field, v) \<Rightarrow>
        if affected_plan_refs f \<noteq> [] then
          (case applyRefs p (affected_plan_refs f) field v False of (p', ch) \<Rightarrow>
            if \<not> ch \<and> \<not> list_ex (\<lambda>s. step_id s \<in> set (affected_plan_refs f) \<and> v \<in> set (refs_of field s)) (steps p')
            then Inl \<lparr>rc_issue = ''Refactor correction target unresolved'',
                rc_expected = v @ '' mapped to '' @ field_str field,
                rc_actual = join '', '' (affected_plan_refs f), rc_evidence_ids = af_evidence_ids f,
                rc_required_correction = ''Correct affected_plan_refs'',
                rc_recheck_target = audit_id audit\<rparr>
            else Inr (p', ch))
        else Inl \<lparr>rc_issue = ''Refactor cannot map Planner finding to plan'',
            rc_expected = ''Every correction maps to affected_plan_refs'',
            rc_actual = finding_id f @ '': '' @ required_refinement f,
            rc_evidence_ids = af_evidence_ids f,
            rc_required_correction = ''Provide a deterministic affected plan reference and correction'',
            rc_recheck_target = audit_id audit\<rparr>
    | None \<Rightarrow> Inl \<lparr>rc_issue = ''Refactor cannot map Planner finding to plan'',
            rc_expected = ''Every correction maps to affected_plan_refs'',
            rc_actual = finding_id f @ '': '' @ required_refinement f,
            rc_evidence_ids = af_evidence_ids f,
            rc_required_correction = ''Provide a deterministic affected plan reference and correction'',
            rc_recheck_target = audit_id audit\<rparr>)"

fun applyFindings :: "Audit \<Rightarrow> Plan \<Rightarrow> bool \<Rightarrow> AuditFinding list \<Rightarrow> RootCause + Plan \<times> bool" where
  "applyFindings audit p changed [] = Inr (p, changed)"
| "applyFindings audit p changed (f # fs) = (case applyFinding audit p f of
      Inl rc \<Rightarrow> Inl rc
    | Inr (p', ch) \<Rightarrow> applyFindings audit p' (ch \<or> changed) fs)"

definition applyAudit :: "ResearchBundle \<Rightarrow> Audit \<Rightarrow> RootCause + Plan" where
  "applyAudit b audit = (case applyFindings audit (plan b) False (findings audit) of
      Inl rc \<Rightarrow> Inl rc
    | Inr (p, changed) \<Rightarrow>
        if changed then
          (let rev = revision p + 1 in
           Inr (p\<lparr>revision := rev, revision_evidence := revision_evidence p @
             map (\<lambda>f. \<lparr>re_revision = rev, re_affected_area = join '','' (affected_plan_refs f),
               re_reason = required_refinement f, re_audit_finding_id = finding_id f\<rparr>)
               (findings audit)\<rparr>))
        else Inr p)"

definition refactor_run ::
  "'w contract_skill \<Rightarrow> ResearchBundle \<Rightarrow> Audit \<Rightarrow> ('w, js_error, Plan) eff" where
  "refactor_run cs b audit = (case applyAudit b audit of
      Inl rc \<Rightarrow> throwM (RootCauseError rc)
    | Inr p \<Rightarrow>
        if plan_id p \<noteq> plan_id (plan b) then throwM (JsError ''Refactor changed logical plan_id'')
        else thenM (cs_validate cs (CPlan p)) (returnM p))"

section \<open>Lemmas\<close>

lemma strip_prefix_append [simp]: "strip_prefix pre (pre @ s) = Some s"
  by (simp add: strip_prefix_def)

lemma strip_prefix_SomeD: "strip_prefix pre s = Some v \<Longrightarrow> s = pre @ v"
  by (auto simp: strip_prefix_def split: if_splits) (metis append_take_drop_id)

lemma match_refinement_SomeD:
  "match_refinement s = Some (f, v) \<Longrightarrow> s = ''add '' @ field_str f @ '' '' @ v \<and> one_line v"
  by (auto simp: match_refinement_def match_field_def split: option.splits if_splits
      dest!: strip_prefix_SomeD)

text \<open>A planner refinement names its field and identifier unambiguously.\<close>

lemma field_space_inj:
  assumes "''add '' @ field_str f @ '' '' @ v = ''add '' @ field_str g @ '' '' @ u"
  shows "f = g \<and> v = u"
proof -
  have ns: "CHR '' '' \<notin> set (field_str h)" for h by (cases h) simp_all
  from assms have "field_str f @ CHR '' '' # v = field_str g @ CHR '' '' # u" by simp
  from first_sep_inj [OF this ns ns] have "field_str f = field_str g \<and> v = u" .
  then show ?thesis by (cases f; cases g) simp_all
qed

text \<open>Applying references only grows the plan, and reaches every named step.\<close>

lemma applyToStep_grows: "plan_grows p (fst (applyToStep p sid f v))"
proof (cases "find_step sid p")
  case (Some s)
  then show ?thesis
    by (auto simp: applyToStep_def Let_def intro!: update_step_grows set_refs_grows)
qed (simp add: applyToStep_def)

lemma applyRefs_grows: "plan_grows p (fst (applyRefs p refs f v ch))"
proof (induction refs arbitrary: p ch)
  case (Cons r rs)
  obtain q c where q: "applyToStep p r f v = (q, c)" by fastforce
  have "plan_grows p q" using applyToStep_grows [of p r f v] q by simp
  with Cons.IH [of q "c \<or> ch"] q show ?case by (auto intro: plan_grows_trans)
qed simp

definition holds_ref :: "RefField \<Rightarrow> string \<Rightarrow> Plan \<Rightarrow> bool" where
  "holds_ref f v p \<longleftrightarrow> (\<exists>s \<in> set (steps p). v \<in> set (refs_of f s))"

lemma holds_ref_represented: "holds_ref (GAP_REFERENCE_FIELDS br) v p \<longleftrightarrow> v \<in> represented br p"
  by (auto simp: holds_ref_def represented_def)

lemma holds_ref_grows: "plan_grows p q \<Longrightarrow> holds_ref f v p \<Longrightarrow> holds_ref f v q"
proof -
  assume g: "plan_grows p q" and h: "holds_ref f v p"
  from h obtain i where i: "i < length (steps p)" "v \<in> set (refs_of f (steps p ! i))"
    unfolding holds_ref_def by (metis in_set_conv_nth)
  with g have "i < length (steps q)" "v \<in> set (refs_of f (steps q ! i))"
    by (auto simp: plan_grows_def list_all2_conv_all_nth step_grows_def subset_iff)
  then show ?thesis unfolding holds_ref_def by (metis nth_mem)
qed

lemma applyToStep_holds: "snd (applyToStep p sid f v) \<Longrightarrow> holds_ref f v (fst (applyToStep p sid f v))"
proof (cases "find_step sid p")
  case (Some s)
  obtain us vs where "steps p = us @ s # vs"
    and "map_first (\<lambda>s. step_id s = sid) (set_refs f (unique (refs_of f s @ [v]))) (steps p) =
      us @ set_refs f (unique (refs_of f s @ [v])) s # vs"
    using map_first_split [OF Some [unfolded find_step_def]] by blast
  with Some show ?thesis
    by (auto simp: applyToStep_def Let_def holds_ref_def update_step_def refs_of_set_refs)
qed (simp add: applyToStep_def)

lemma applyRefs_holds:
  "snd (applyRefs p refs f v ch) \<Longrightarrow> (ch \<Longrightarrow> holds_ref f v p) \<Longrightarrow> holds_ref f v (fst (applyRefs p refs f v ch))"
proof (induction refs arbitrary: p ch)
  case (Cons r rs)
  obtain q c where q: "applyToStep p r f v = (q, c)" by fastforce
  have g: "plan_grows p q" using applyToStep_grows [of p r f v] q by simp
  have "holds_ref f v q" if "c \<or> ch"
    using that applyToStep_holds [of p r f v] Cons.prems(2) holds_ref_grows [OF g] q by auto
  with Cons.IH [of q "c \<or> ch"] Cons.prems(1) q show ?case by simp
qed simp

lemma applyFinding_ok:
  assumes "applyFinding audit p f = Inr (q, ch)"
  obtains field v where "required_refinement f = ''add '' @ field_str field @ '' '' @ v"
    and "affected_plan_refs f \<noteq> []" and "holds_ref field v q" and "plan_grows p q"
proof -
  from assms obtain field v where m: "match_refinement (required_refinement f) = Some (field, v)"
    and ne: "affected_plan_refs f \<noteq> []"
    and ap: "applyRefs p (affected_plan_refs f) field v False = (q, ch)"
    and ok: "ch \<or> list_ex (\<lambda>s. step_id s \<in> set (affected_plan_refs f) \<and> v \<in> set (refs_of field s)) (steps q)"
    by (auto simp: applyFinding_def split: option.splits if_splits prod.splits)
  have "holds_ref field v q"
    using ok applyRefs_holds [of p "affected_plan_refs f" field v False] ap
    by (auto simp: holds_ref_def list_ex_iff)
  moreover have "plan_grows p q" using applyRefs_grows [of p "affected_plan_refs f" field v False] ap by simp
  ultimately show ?thesis using that match_refinement_SomeD [OF m] ne by blast
qed

text \<open>A finding has been applied to a plan that holds its reference.\<close>

definition applied :: "Plan \<Rightarrow> AuditFinding \<Rightarrow> bool" where
  "applied q f \<longleftrightarrow> (\<exists>field v. required_refinement f = ''add '' @ field_str field @ '' '' @ v \<and>
     holds_ref field v q)"

lemma applied_grows: "plan_grows p q \<Longrightarrow> applied p f \<Longrightarrow> applied q f"
  unfolding applied_def using holds_ref_grows by blast

lemma applyFindings_ok:
  "applyFindings audit p changed fs = Inr (q, ch) \<Longrightarrow> plan_grows p q \<and> (\<forall>f \<in> set fs. applied q f)"
proof (induction fs arbitrary: p changed)
  case (Cons f fs)
  then obtain r c where r: "applyFinding audit p f = Inr (r, c)"
    and rest: "applyFindings audit r (c \<or> changed) fs = Inr (q, ch)"
    by (auto split: sum.splits prod.splits)
  note IH = Cons.IH [OF rest]
  from r obtain field v where "required_refinement f = ''add '' @ field_str field @ '' '' @ v"
    "holds_ref field v r" "plan_grows p r" by (rule applyFinding_ok)
  then have "applied r f" and "plan_grows p r" unfolding applied_def by blast+
  with IH show ?case by (auto intro: plan_grows_trans applied_grows)
qed simp

lemma applyAudit_ok:
  assumes "applyAudit b audit = Inr q"
  shows "plan_grows (plan b) q" and "\<And>f. f \<in> set (findings audit) \<Longrightarrow> applied q f"
proof -
  from assms obtain p ch where p: "applyFindings audit (plan b) False (findings audit) = Inr (p, ch)"
    and q: "q = p \<or> (\<exists>rev ev. q = p\<lparr>revision := rev, revision_evidence := ev\<rparr>)"
    by (auto simp: applyAudit_def Let_def split: sum.splits prod.splits if_splits)
  have g: "plan_grows p q" using q by (auto simp: plan_grows_trim)
  from applyFindings_ok [OF p] g show "plan_grows (plan b) q"
    and "\<And>f. f \<in> set (findings audit) \<Longrightarrow> applied q f"
    by (blast intro: plan_grows_trans applied_grows)+
qed

lemma reference_findings_member:
  "x \<in> set ids \<Longrightarrow> x \<notin> represented br (plan b) \<Longrightarrow>
    (ar, prefix @ x, step_refs b, ''add '' @ field_str (GAP_REFERENCE_FIELDS br) @ '' '' @ x)
      \<in> set (reference_findings b ar prefix br ids)"
  unfolding reference_findings_def set_map set_filter by (rule image_eqI [of _ _ x]) simp_all

lemma raw_refinement_in_audit:
  "(ar, fnd, refs, refinement) \<in> set (raw_findings b) \<Longrightarrow>
    \<exists>f \<in> set (plannerFindings b). required_refinement f = refinement"
proof -
  assume "(ar, fnd, refs, refinement) \<in> set (raw_findings b)"
  then obtain i where i: "i < length (raw_findings b)" "raw_findings b ! i = (ar, fnd, refs, refinement)"
    by (auto simp: in_set_conv_nth)
  then have "(i + 1, ar, fnd, refs, refinement) \<in> set (List.enumerate 1 (raw_findings b))"
    by (auto simp: in_set_enumerate_eq)
  then show ?thesis by (force simp: plannerFindings_def number_finding_def)
qed

lemma missing_in_audit:
  assumes "(br, x) \<in> missing b (plan b)"
  shows "\<exists>f \<in> set (plannerFindings b).
    required_refinement f = ''add '' @ field_str (GAP_REFERENCE_FIELDS br) @ '' '' @ x"
proof -
  have "\<exists>ar fnd refs. (ar, fnd, refs, ''add '' @ field_str (GAP_REFERENCE_FIELDS br) @ '' '' @ x)
      \<in> set (raw_findings b)"
  proof -
    from assms have m: "x \<in> set (required_ids b (plan b) br)" "x \<notin> represented br (plan b)"
      by (simp_all add: missing_def)
    show ?thesis
      using reference_findings_member [OF m]
      unfolding raw_findings_def set_append by (cases br) blast+
  qed
  then show ?thesis using raw_refinement_in_audit by blast
qed

section \<open>Properties\<close>

text \<open>
  C15.  Planner and Refactor together leave no gap: whenever Refactor accepts
  the Planner's own audit of a bundle, the plan it returns has every required
  requirement, criterion, assertion and schema referenced in some step, so the
  coverage check of Gap Analysis on it finds nothing and Gap Analysis is a
  no-op; and the plan is the researched plan grown by references only.
\<close>

theorem refactor_of_planner_audit_leaves_no_gap:
  assumes "applyAudit b (planner_audit b runId) = Inr q"
  shows "detectGaps b q = [] \<and> gap_loop b q [] = (q, [], None) \<and> plan_grows (plan b) q"
proof -
  note ok = applyAudit_ok [OF assms]
  have "x \<in> represented br q" if req: "x \<in> set (required_ids b q br)" for br x
  proof (cases "x \<in> represented br (plan b)")
    case True
    with holds_ref_grows [OF ok(1)] show ?thesis by (simp add: holds_ref_represented [symmetric])
  next
    case False
    with req have "(br, x) \<in> missing b (plan b)"
      by (simp add: missing_def required_ids_grows [OF ok(1)])
    from missing_in_audit [OF this] obtain f where f: "f \<in> set (plannerFindings b)"
      "required_refinement f = ''add '' @ field_str (GAP_REFERENCE_FIELDS br) @ '' '' @ x" by blast
    from ok(2) [of f] f(1) have "applied q f" by (simp add: planner_audit_def)
    with f(2) field_space_inj have "holds_ref (GAP_REFERENCE_FIELDS br) x q"
      unfolding applied_def by metis
    then show ?thesis by (simp add: holds_ref_represented)
  qed
  then have "detectGaps b q = []" by (auto simp: detectGaps_empty missing_def)
  with ok(1) gap_loop_done show ?thesis by blast
qed

definition sample_bundle :: ResearchBundle where
  "sample_bundle =
     \<lparr>prompt = \<lparr>prompt_id = ''q'', prompt_intent = ''i'', requested_outcome = ''o'',
        prompt_context = [], research_direction = []\<rparr>,
      researcher = \<lparr>researcher_id = ''r'', ra_prompt_id = ''q'', ra_plan_id = ''p'', ra_schema_id = ''sch'',
        ra_fixture_id = ''f'', ra_goal_id = ''g'', ra_validation_id = ''v'', ra_requirement_ids = [''r1''],
        ra_evidence = [], success_definition = \<lparr>success_criteria_ids = [''g1''],
          sd_success_meaning = ''m'', sd_evidence_ids = []\<rparr>\<rparr>,
      plan = gap_plan [''r1''],
      schema_artifact = \<lparr>schema_id = ''sch'', sa_researcher_id = ''r'', sa_target = ''plan'',
        schema_document = [], sa_evidence_ids = []\<rparr>,
      fixture = \<lparr>fixture_id = ''f'', fx_researcher_id = ''r'', plan_assertions =
        [\<lparr>assertion_id = ''a1'', operator = OpExists, pa_target = ''t'', pa_expected = None,
          pa_evidence_ids = []\<rparr>]\<rparr>,
      goal = \<lparr>goal_id = ''g'', goal_researcher_id = ''r'', objective = ''o'', goal_success_meaning = ''m'',
        success_criteria = [\<lparr>criterion_id = ''g1'', sc_statement = '''', sc_measurement = '''',
          sc_expected_result = '''', sc_evidence_ids = []\<rparr>]\<rparr>,
      validation = \<lparr>validation_id = ''v'', vd_researcher_id = ''r'', vd_plan_id = ''p'',
        vd_schema_validation = \<lparr>sr_plan_id = ''p'', sr_schema_id = ''sch''\<rparr>,
        vd_fixture_validation = \<lparr>fr_plan_id = ''p'', fr_fixture_id = ''f'', assertion_ids = [''a1'']\<rparr>,
        vd_goal_validation = \<lparr>gr_plan_id = ''p'', gr_goal_id = ''g'', criterion_ids = [''g1'']\<rparr>\<rparr>\<rparr>"

definition refined_plan :: Plan where
  "refined_plan = (case applyAudit sample_bundle (planner_audit sample_bundle ''run'') of
      Inr q \<Rightarrow> q | Inl _ \<Rightarrow> plan sample_bundle)"

lemma refactor_of_planner_audit_leaves_no_gap_witness:
  "detectGaps sample_bundle refined_plan = [] \<and> detectGaps sample_bundle (plan sample_bundle) \<noteq> []"
proof -
  have "\<not> isl (applyAudit sample_bundle (planner_audit sample_bundle ''run''))" by code_simp
  then obtain q where q: "applyAudit sample_bundle (planner_audit sample_bundle ''run'') = Inr q"
    by (cases "applyAudit sample_bundle (planner_audit sample_bundle ''run'')") auto
  have "detectGaps sample_bundle (plan sample_bundle) \<noteq> []" by code_simp
  with refactor_of_planner_audit_leaves_no_gap [OF q] q show ?thesis by (simp add: refined_plan_def)
qed

end
