(* ===== verification/Human_Review.thy ===== *)
theory Human_Review
  imports Disk_Files Planner_Refactor
begin

text \<open>
  The two human gates and the store they share: \<open>backend/runtime/artifact-store.ts\<close>,
  \<open>plan-review.ts\<close> and \<open>build-review.ts\<close>.  The reviews rely on the interface
  \<open>ArtifactStore\<close>; its laws are a locale, interpreted on the model of
  \<open>FileArtifactStore\<close>.
\<close>

section \<open>Artifact store\<close>

text \<open>\<open>create\<close> and \<open>remove\<close> are optional methods of the interface.\<close>

record ('w, 'v) ArtifactStore =
  as_create :: "(string \<Rightarrow> string \<Rightarrow> 'v \<Rightarrow> ('w, fs_error, bool) eff) option"
  as_save :: "string \<Rightarrow> string \<Rightarrow> 'v \<Rightarrow> ('w, fs_error, string) eff"
  as_load :: "string \<Rightarrow> string \<Rightarrow> ('w, fs_error, 'v) eff"
  as_remove :: "(string \<Rightarrow> string \<Rightarrow> ('w, fs_error, unit) eff) option"

definition enoent :: fs_error where
  "enoent = OtherCode ''ENOENT''"

definition loadOptionalArtifact :: "('w, 'v) ArtifactStore \<Rightarrow> string \<Rightarrow> string \<Rightarrow> ('w, fs_error, 'v option) eff" where
  "loadOptionalArtifact A runId name = catchM (bindM (as_load A runId name) (\<lambda>v. returnM (Some v)))
     (\<lambda>error. if error = enoent then returnM None else throwM error)"

text \<open>A name of an artifact is plain when it has no slash; a view is the stored value by run and name.\<close>

definition plain :: "string \<Rightarrow> bool" where
  "plain n \<longleftrightarrow> CHR ''/'' \<notin> set n"

locale artifact_store =
  fixes A :: "('w, 'v) ArtifactStore"
    and view :: "'w \<Rightarrow> string \<Rightarrow> string \<Rightarrow> 'v option"
  assumes save_ok: "plain n \<Longrightarrow> plain m \<Longrightarrow> as_save A r n v w = (Inr p, w') \<Longrightarrow>
      view w' s m = (if s = r \<and> m = n then Some v else view w s m)"
    and save_err: "plain n \<Longrightarrow> plain m \<Longrightarrow> as_save A r n v w = (Inl e, w') \<Longrightarrow> view w' s m = view w s m"
    and create_ok: "as_create A = Some c \<Longrightarrow> plain n \<Longrightarrow> plain m \<Longrightarrow> c r n v w = (Inr b, w') \<Longrightarrow>
      view w' s m = (if b \<and> s = r \<and> m = n then Some v else view w s m) \<and> (b \<longrightarrow> view w r n = None)"
    and create_err: "as_create A = Some c \<Longrightarrow> plain n \<Longrightarrow> plain m \<Longrightarrow> c r n v w = (Inl e, w') \<Longrightarrow> view w' s m = view w s m"
    and load_ok: "plain n \<Longrightarrow> as_load A r n w = (Inr v, w') \<Longrightarrow> view w r n = Some v"
    and load_view: "plain n \<Longrightarrow> as_load A r n w = (x, w') \<Longrightarrow> view w' = view w"
begin

lemma optional_view: "plain n \<Longrightarrow> loadOptionalArtifact A r n w = (x, w') \<Longrightarrow>
    view w' = view w \<and> (\<forall>v. x = Inr (Some v) \<longrightarrow> view w r n = Some v)"
  by (auto simp: loadOptionalArtifact_def eff_simps dest: load_ok load_view split: prod.splits sum.splits if_splits)

lemma create_keeps:
  assumes "as_create A = Some c" and "plain n" and "plain m" and "c r n v w = (x, w')" and "view w s m = Some y"
  shows "view w' s m = Some y"
  using assms create_ok [OF assms(1-3), of r v w _ w' s] create_err [OF assms(1-3), of r v w _ w' s]
  by (cases x) (fastforce split: if_splits)+

end

section \<open>The file implementation\<close>

text \<open>The disk and the number of uuids drawn; \<open>uuid\<close> is the sequence \<open>randomUUID\<close> draws from.\<close>

type_synonym 'v store_disk = "'v fs \<times> nat"

definition file_call :: "('v, 'a) fs_call \<Rightarrow> ('v store_disk, fs_error, 'a) eff" where
  "file_call m = (\<lambda>(d, n). case m d of (r, d') \<Rightarrow> (r, (d', n)))"

definition artifact_path :: "string \<Rightarrow> string \<Rightarrow> string \<Rightarrow> string" where
  "artifact_path dir runId name = dir @ ''/'' @ runId @ ''/'' @ name @ ''.json''"

definition write_new :: "string \<Rightarrow> 'v \<Rightarrow> ('v, unit) fs_call" where
  "write_new p c d = (if existsSync d p then (Inl EEXIST, d) else writeFileSync p c d)"

definition copy_file :: "string \<Rightarrow> string \<Rightarrow> 'v fs \<Rightarrow> 'v fs" where
  "copy_file p q d = (case file_at d p of
      None \<Rightarrow> d | Some f \<Rightarrow> d\<lparr>fs_files := AList.update q f (fs_files d)\<rparr>)"

definition link :: "string \<Rightarrow> string \<Rightarrow> ('v, unit) fs_call" where
  "link p q d = (if existsSync d q then (Inl EEXIST, d) else write_call (copy_file p q) id d)"

definition file_create :: "(nat \<Rightarrow> string) \<Rightarrow> string \<Rightarrow> string \<Rightarrow> string \<Rightarrow> 'v \<Rightarrow> ('v store_disk, fs_error, bool) eff" where
  "file_create uuid dir runId name v = (\<lambda>(d, n).
     (let path = artifact_path dir runId name; temp = tmp_name path (uuid n) in
      thenM (file_call mkdirSync)
        (finallyM
          (thenM (file_call (write_new temp v))
            (catchM (thenM (file_call (link temp path)) (returnM True))
              (\<lambda>error. if error = EEXIST then returnM False else throwM error)))
          (catchM (file_call (unlinkSync temp)) (\<lambda>_. returnM ()))) (d, Suc n)))"

definition file_save :: "string \<Rightarrow> string \<Rightarrow> string \<Rightarrow> string \<Rightarrow> 'v \<Rightarrow> ('v store_disk, fs_error, string) eff" where
  "file_save pid dir runId name v = (let path = artifact_path dir runId name; temp = tmp_name path pid in
     thenM (file_call mkdirSync)
     (thenM (file_call (writeFileSync temp v))
     (thenM (file_call (renameSync temp path)) (returnM path))))"

definition file_load :: "string \<Rightarrow> string \<Rightarrow> string \<Rightarrow> ('v store_disk, fs_error, 'v) eff" where
  "file_load dir runId name = file_call (readJson (artifact_path dir runId name))"

definition unlink_existing :: "string \<Rightarrow> ('v, unit) fs_call" where
  "unlink_existing p d = (if existsSync d p then unlinkSync p d else (Inl enoent, d))"

definition file_remove :: "string \<Rightarrow> string \<Rightarrow> string \<Rightarrow> ('v store_disk, fs_error, unit) eff" where
  "file_remove dir runId name = catchM (file_call (unlink_existing (artifact_path dir runId name)))
     (\<lambda>error. if error \<noteq> enoent then throwM error else returnM ())"

definition FileArtifactStore :: "(nat \<Rightarrow> string) \<Rightarrow> string \<Rightarrow> string \<Rightarrow> ('v store_disk, 'v) ArtifactStore" where
  "FileArtifactStore uuid pid dir = \<lparr>as_create = Some (file_create uuid dir), as_save = file_save pid dir,
     as_load = file_load dir, as_remove = Some (file_remove dir)\<rparr>"

definition file_view :: "string \<Rightarrow> 'v store_disk \<Rightarrow> string \<Rightarrow> string \<Rightarrow> 'v option" where
  "file_view dir w runId name = (case file_at (fst w) (artifact_path dir runId name) of
     Some (Some v, _) \<Rightarrow> Some v | _ \<Rightarrow> None)"

lemma artifact_path_inj: "plain n \<Longrightarrow> plain m \<Longrightarrow> artifact_path dir r n = artifact_path dir s m \<longleftrightarrow> r = s \<and> n = m"
  using last_sep_inj [of r "CHR ''/''" "n @ ''.json''" s "m @ ''.json''"] by (auto simp: artifact_path_def plain_def)

lemma artifact_not_temp [simp]: "artifact_path dir r n \<noteq> tmp_name p u" "tmp_name p u \<noteq> artifact_path dir r n"
proof -
  show "artifact_path dir r n \<noteq> tmp_name p u"
  proof
    assume "artifact_path dir r n = tmp_name p u"
    then have "last (artifact_path dir r n) = last (tmp_name p u)" by simp
    then show False by (simp add: artifact_path_def tmp_name_def)
  qed
  then show "tmp_name p u \<noteq> artifact_path dir r n" by metis
qed

text \<open>What each step does to the artifacts: a file call seen through the view.\<close>

lemma file_call_apply: "file_call m (d, n) = (r, w') \<longleftrightarrow> (\<exists>d'. m d = (r, d') \<and> w' = (d', n))"
  by (auto simp: file_call_def split: prod.splits)

lemma view_same: "file_at d = file_at d' \<Longrightarrow> file_view dir (d, n) = file_view dir (d', n')"
  by (simp add: file_view_def fun_eq_iff)

lemma view_changed:
  "changed d f d' \<Longrightarrow> (\<And>r n. f (artifact_path dir r n) = file_at d (artifact_path dir r n)) \<Longrightarrow>
    file_view dir (d', k) = file_view dir (d, k')"
  by (simp add: changed_def file_view_def fun_eq_iff)

lemma save_steps:
  assumes "file_save pid dir r n v (d, k) = (x, w')" and "plain n" and "plain m"
  shows "file_view dir w' s m = (if x \<noteq> Inr (artifact_path dir r n) then file_view dir (d, k) s m
      else if s = r \<and> m = n then Some v else file_view dir (d, k) s m) \<and> (\<forall>p. x = Inr p \<longrightarrow> p = artifact_path dir r n)"
proof -
  let ?p = "artifact_path dir r n" and ?t = "tmp_name (artifact_path dir r n) pid"
  obtain x1 d1 where m: "mkdirSync d = (x1, d1)" by fastforce
  from mkdir_result [OF m] have d1: "changed d (file_at d) d1" .
  then have v1: "file_view dir (d1, k) = file_view dir (d, k)" by (rule view_changed) simp
  obtain x2 d2 where w: "writeFileSync ?t v d1 = (x2, d2)" by fastforce
  from write_file_result [OF w] have d2: "file_view dir (d2, k) = file_view dir (d1, k)"
    by (auto simp: changed_def file_view_def fun_eq_iff)
  obtain x3 d3 where rn: "renameSync ?t ?p d2 = (x3, d3)" by fastforce
  show ?thesis
  proof (cases "isl x1 \<or> isl x2")
    case True
    with assms(1) m w v1 d2 show ?thesis
      by (cases x1; cases x2) (auto simp: file_save_def thenM_apply file_call_def Let_def split: prod.splits)
  next
    case False
    then have x: "x1 = Inr ()" "x2 = Inr ()" by (cases x1; cases x2; simp)+
    from write_file_result [OF w] x have "file_at d2 ?t = Some (Some v, fs_clock d1)" by (auto simp: changed_def)
    from rename_result [OF rn this] have "x3 = Inr () \<and> changed d2 ((file_at d2)(?t := None, ?p \<mapsto> (Some v, fs_clock d1))) d3 \<or>
      (\<exists>e. x3 = Inl e) \<and> changed d2 (file_at d2) d3" by simp
    then have d3: "x3 = Inr () \<and> file_view dir (d3, k) s m = (if s = r \<and> m = n then Some v else file_view dir (d2, k) s m) \<or>
      (\<exists>e. x3 = Inl e) \<and> file_view dir (d3, k) = file_view dir (d2, k)"
      using artifact_path_inj [OF assms(3,2), of dir s r]
      by (auto simp: changed_def file_view_def fun_eq_iff)
    have "(x, w') = (case x3 of Inl e \<Rightarrow> (Inl e, (d3, k)) | Inr _ \<Rightarrow> (Inr ?p, (d3, k)))"
      using assms(1) m w rn x by (simp add: file_save_def thenM_apply file_call_def Let_def returnM_apply split: sum.splits)
    with d3 v1 d2 show ?thesis by (auto split: sum.splits)
  qed
qed

lemma write_new_result:
  assumes "write_new p c d = (x, d')"
  shows "x = Inr () \<and> changed d ((file_at d)(p \<mapsto> (Some c, fs_clock d))) d' \<or>
    (\<exists>e. x = Inl e) \<and> (changed d (file_at d) d' \<or> changed d ((file_at d)(p \<mapsto> (None, fs_clock d))) d')"
  using assms write_file_result [of p c d x d'] by (auto simp: write_new_def changed_def split: if_splits)

lemma link_result:
  assumes "link p q d = (x, d')" and "file_at d p = Some f" and "p \<noteq> q"
  shows "x = Inr () \<and> file_at d q = None \<and> changed d ((file_at d)(q \<mapsto> f)) d' \<or> (\<exists>e. x = Inl e) \<and> changed d (file_at d) d'"
proof -
  have c: "file_at (copy_file p q d0) = (file_at d0)(q \<mapsto> f)" if "file_at d0 p = Some f" for d0 :: "'a fs"
    using that by (simp add: copy_file_def file_at_def update_conv' fun_eq_iff)
  have k: "fs_clock (copy_file p q d0) = fs_clock d0 \<and> fs_read_faults (copy_file p q d0) = fs_read_faults d0" for d0 :: "'a fs"
    by (simp add: copy_file_def split: option.split)
  have t: "file_at (d\<lparr>fs_write_faults := y\<rparr>) = file_at d" for y by (simp add: fun_eq_iff fs_simps)
  show ?thesis using assms c [of "d\<lparr>fs_write_faults := tl (fs_write_faults d)\<rparr>"] k [of "d\<lparr>fs_write_faults := tl (fs_write_faults d)\<rparr>"]
    by (auto simp: link_def existsSync_def write_call_def changed_def t Let_def split: if_splits fault.splits bool.splits)
qed

lemma create_steps:
  assumes "file_create uuid dir r n v (d, k) = (x, w')" and "plain n" and "plain m"
  shows "file_view dir w' s m = (if x = Inr True \<and> s = r \<and> m = n then Some v else file_view dir (d, k) s m) \<and>
    (x = Inr True \<longrightarrow> file_view dir (d, k) r n = None)"
proof -
  let ?p = "artifact_path dir r n" and ?t = "tmp_name (artifact_path dir r n) (uuid k)"
  define body where "body = thenM (file_call (write_new ?t v)) (catchM (thenM (file_call (link ?t ?p)) (returnM True))
              (\<lambda>error. if error = EEXIST then returnM False else throwM error))"
  define goal where "goal z y w \<longleftrightarrow> file_view dir w s m = (if z = Inr True \<and> s = r \<and> m = n then Some v else file_view dir (d, k) s m) \<and>
     (z = Inr True \<longrightarrow> file_view dir (d, k) r n = None) \<and> y" for z :: "fs_error + bool" and y w
  obtain x1 d1 where mk: "mkdirSync d = (x1, d1)" by fastforce
  have v1: "file_view dir (d1, j) = file_view dir (d, k)" for j using mkdir_result [OF mk] by (simp add: changed_def file_view_def fun_eq_iff)
  have body: "goal z True (d', Suc k)" if "body (d1, Suc k) = (z, (d', j))" for z d' j
  proof -
    obtain x2 d2 where w: "write_new ?t v d1 = (x2, d2)" by fastforce
    from write_new_result [OF w] v1 have v2: "file_view dir (d2, Suc k) = file_view dir (d, k)"
      by (auto simp: changed_def file_view_def fun_eq_iff)
    show ?thesis
    proof (cases x2)
      case (Inl e)
      with that w v2 show ?thesis by (auto simp: body_def thenM_apply file_call_def goal_def)
    next
      case (Inr u)
      with write_new_result [OF w] have t: "file_at d2 ?t = Some (Some v, fs_clock d1)" by (auto simp: changed_def)
      obtain x3 d3 where l: "link ?t ?p d2 = (x3, d3)" by fastforce
      have inj: "artifact_path dir s m = ?p \<longleftrightarrow> s = r \<and> m = n" by (rule artifact_path_inj [OF assms(3,2)])
      from link_result [OF l t] have l3: "x3 = Inr () \<and> file_at d2 ?p = None \<and> changed d2 ((file_at d2)(?p \<mapsto> (Some v, fs_clock d1))) d3 \<or>
        (\<exists>e. x3 = Inl e) \<and> changed d2 (file_at d2) d3" by simp
      have b: "body (d1, Suc k) = (case x3 of Inr _ \<Rightarrow> (Inr True, (d3, Suc k))
        | Inl e \<Rightarrow> (if e = EEXIST then Inr False else Inl e, (d3, Suc k)))"
        using w l Inr by (auto simp: body_def thenM_apply catchM_apply file_call_def returnM_apply throwM_apply split: sum.splits)
      from l3 show ?thesis
      proof (elim disjE conjE exE)
        assume h: "x3 = Inr ()" "file_at d2 ?p = None" "changed d2 ((file_at d2)(?p \<mapsto> (Some v, fs_clock d1))) d3"
        then have "file_view dir (d2, Suc k) r n = None" by (simp add: file_view_def)
        moreover have "file_view dir (d3, Suc k) s m = (if s = r \<and> m = n then Some v else file_view dir (d2, Suc k) s m)"
          using h(3) inj by (auto simp: changed_def file_view_def)
        ultimately show ?thesis using that b h(1) v2 by (simp add: goal_def)
      next
        fix e assume h: "x3 = Inl e" "changed d2 (file_at d2) d3"
        then have "file_view dir (d3, Suc k) = file_view dir (d2, Suc k)" by (simp add: changed_def file_view_def fun_eq_iff)
        with that b h(1) v2 show ?thesis by (auto simp: goal_def split: if_splits)
      qed
    qed
  qed
  have un: "file_view dir (d', j) = file_view dir (d0, j)" if "unlinkSync ?t d0 = (y, d')" for d0 d' y j
    using unlink_result [OF that] by (auto simp: changed_def file_view_def fun_eq_iff)
  show ?thesis
  proof (cases x1)
    case (Inl e)
    with assms(1) mk v1 show ?thesis by (auto simp: file_create_def Let_def thenM_apply file_call_def)
  next
    case (Inr u)
    obtain z d2 j where b: "body (d1, Suc k) = (z, (d2, j))" by (metis prod.exhaust)
    obtain y d3 where u: "unlinkSync ?t d2 = (y, d3)" by fastforce
    have fm: "file_call mkdirSync (d, Suc k) = (Inr u, (d1, Suc k))" and fu: "file_call (unlinkSync ?t) (d2, j) = (y, (d3, j))"
      using mk Inr u by (simp_all add: file_call_def)
    have "file_create uuid dir r n v (d, k) =
        thenM (file_call mkdirSync) (finallyM body (catchM (file_call (unlinkSync ?t)) (\<lambda>_. returnM ()))) (d, Suc k)"
      by (simp add: file_create_def body_def Let_def)
    with assms(1) fm b fu have "x = z \<and> w' = (d3, j)"
      by (auto simp: thenM_apply [of "file_call mkdirSync"] finallyM_apply catchM_apply [of "file_call (unlinkSync _)"]
          returnM_apply split: sum.splits)
    with body [OF b] un [OF u] show ?thesis by (simp add: goal_def file_view_def)
  qed
qed

interpretation files: artifact_store "FileArtifactStore uuid pid dir" "file_view dir" for uuid pid dir
proof unfold_locales
  fix n m r v w p w' s
  assume "plain n" "plain m" "as_save (FileArtifactStore uuid pid dir) r n v w = (Inr p, w')"
  then show "file_view dir w' s m = (if s = r \<and> m = n then Some v else file_view dir w s m)"
    using save_steps [of pid dir r n v "fst w" "snd w" "Inr p" w' m s] by (simp add: FileArtifactStore_def)
next
  fix n m r v w e w' s
  assume "plain n" "plain m" "as_save (FileArtifactStore uuid pid dir) r n v w = (Inl e, w')"
  then show "file_view dir w' s m = file_view dir w s m"
    using save_steps [of pid dir r n v "fst w" "snd w" "Inl e" w' m s] by (simp add: FileArtifactStore_def)
next
  fix c n m r v w b w' s
  assume "as_create (FileArtifactStore uuid pid dir) = Some c" "plain n" "plain m" "c r n v w = (Inr b, w')"
  then show "file_view dir w' s m = (if b \<and> s = r \<and> m = n then Some v else file_view dir w s m) \<and> (b \<longrightarrow> file_view dir w r n = None)"
    using create_steps [of uuid dir r n v "fst w" "snd w" "Inr b" w' m s] by (auto simp: FileArtifactStore_def)
next
  fix c n m r v w e w' s
  assume "as_create (FileArtifactStore uuid pid dir) = Some c" "plain n" "plain m" "c r n v w = (Inl e, w')"
  then show "file_view dir w' s m = file_view dir w s m"
    using create_steps [of uuid dir r n v "fst w" "snd w" "Inl e" w' m s] by (auto simp: FileArtifactStore_def)
next
  fix n r w v w'
  assume "as_load (FileArtifactStore uuid pid dir) r n w = (Inr v, w')"
  then show "file_view dir w r n = Some v"
    by (cases w) (auto simp: FileArtifactStore_def file_load_def file_call_def readJson_def read_call_def file_view_def Let_def
        split: prod.splits fault.splits option.splits)
next
  fix n r w x w'
  assume "as_load (FileArtifactStore uuid pid dir) r n w = (x, w')"
  then show "file_view dir w' = file_view dir w"
    by (cases w) (auto simp: FileArtifactStore_def file_load_def file_call_def readJson_def read_call_def file_view_def Let_def
        fun_eq_iff fs_simps split: prod.splits fault.splits)
qed

section \<open>What the reviews store\<close>

datatype ReviewStatus = RvPending | RvApproved | RvCancelled

record PlanReviewEdits =
  pe_objective :: string
  pe_requirements :: "(string \<times> string) list"
  pe_steps :: "(string \<times> string) list"
  pe_notes :: "string list"

record PlanReview =
  pv_run_id :: string
  pv_revision :: nat
  pv_status :: ReviewStatus
  pv_created_at :: string
  pv_confirmed_at :: "string option"
  pv_research :: ResearchBundle
  pv_edits :: PlanReviewEdits

text \<open>\<open>confirmed\<close> and the three validations of a \<open>BuildReview\<close> are literal types, so they are no fields.\<close>

record BuildReview =
  br_run_id :: string
  br_hash :: string
  br_plan_id :: string
  br_revision :: int
  br_status :: ReviewStatus
  br_steps :: "(string \<times> string \<times> string) list"
  br_created_at :: string

record GateRecord =
  gr_review :: BuildReview
  gr_package :: ConfirmedPackage

text \<open>
  Artifacts by what was stored under the name; \<open>ArOther\<close> are the workflow's other
  artifacts.  \<open>load<T>\<close> does not check: a value of another shape has no field the
  reader wants.
\<close>

datatype 'o artifact =
    ArRequest bool
  | ArPlanReview PlanReview
  | ArGate GateRecord
  | ArApproval string
  | ArPackage ConfirmedPackage
  | ArOther 'o

type_synonym ('w, 'o) store = "('w, 'o artifact) ArtifactStore"

definition fs_message :: "fs_error \<Rightarrow> string" where
  "fs_message e = (case e of EPERM \<Rightarrow> ''EPERM'' | EBUSY \<Rightarrow> ''EBUSY'' | EEXIST \<Rightarrow> ''EEXIST'' | OtherCode m \<Rightarrow> m)"

definition lift_fs :: "('w, fs_error, 'a) eff \<Rightarrow> ('w, js_error, 'a) eff" where
  "lift_fs m = (\<lambda>w. case m w of (Inl e, w') \<Rightarrow> (Inl (JsError (fs_message e)), w') | (Inr x, w') \<Rightarrow> (Inr x, w'))"

definition type_error :: js_error where
  "type_error = JsError ''TypeError''"

definition optional :: "('w, 'o) store \<Rightarrow> string \<Rightarrow> string \<Rightarrow> ('w, js_error, 'o artifact option) eff" where
  "optional A runId name = lift_fs (loadOptionalArtifact A runId name)"

section \<open>Build review\<close>

definition BuildReviewError :: "string \<Rightarrow> nat \<Rightarrow> js_error" where
  "BuildReviewError m status = StatusError m status"

definition build_enable :: "('w, 'o) store \<Rightarrow> string \<Rightarrow> ('w, js_error, unit) eff" where
  "build_enable A runId = thenM (lift_fs (as_save A runId ''build-review.request'' (ArRequest True))) (returnM ())"

definition build_enabled :: "('w, 'o) store \<Rightarrow> string \<Rightarrow> ('w, js_error, bool) eff" where
  "build_enabled A runId = bindM (optional A runId ''build-review.request'') (\<lambda>v. returnM (v = Some (ArRequest True)))"

definition build_create :: "('w, 'o) store \<Rightarrow> string \<Rightarrow> string \<Rightarrow> 'o artifact \<Rightarrow> ('w, js_error, bool) eff" where
  "build_create A runId name v = (case as_create A of
      None \<Rightarrow> throwM (BuildReviewError ''Artifact store cannot atomically record build authorization'' 503)
    | Some c \<Rightarrow> lift_fs (c runId name v))"

definition build_get :: "('w, 'o) store \<Rightarrow> string \<Rightarrow> ('w, js_error, BuildReview option) eff" where
  "build_get A runId = bindM (optional A runId ''build-review'') (\<lambda>v. case v of
      None \<Rightarrow> returnM None
    | Some (ArGate g) \<Rightarrow> bindM (optional A runId ''build-approval'') (\<lambda>approval. returnM (Some ((gr_review g)
        \<lparr>br_status := (if approval = Some (ArApproval (br_hash (gr_review g))) then RvApproved else RvPending)\<rparr>)))
    | Some _ \<Rightarrow> bindM (optional A runId ''build-approval'') (\<lambda>_. throwM type_error))"

definition sha256_hex :: "string \<Rightarrow> bool" where
  "sha256_hex h \<longleftrightarrow> length h = 64 \<and> list_all (\<lambda>c. c \<in> set ''abcdef0123456789'') h"

definition all_proofs :: "ConfirmedPackage \<Rightarrow> bool" where
  "all_proofs pkg \<longleftrightarrow> (let t = cc_triple_validation (core pkg) in confirmed pkg \<and> all_valid t \<and>
     sv_result (schema_validation t) = Passed \<and> fv_result (fixture_validation t) = Passed \<and>
     gv_result (goal_validation t) = Passed)"

definition gate_record :: "string \<Rightarrow> ConfirmedPackage \<Rightarrow> string \<Rightarrow> string \<Rightarrow> GateRecord" where
  "gate_record runId pkg hash now = (let p = cc_plan (core pkg) in \<lparr>gr_review = \<lparr>br_run_id = runId, br_hash = hash,
     br_plan_id = plan_id p, br_revision = revision p, br_status = RvPending,
     br_steps = map (\<lambda>s. (step_id s, step_description s, responsibility s)) (steps p), br_created_at = now\<rparr>,
     gr_package = pkg\<rparr>)"

text \<open>What \<open>open\<close> does after \<open>create\<close>: the gate that is there must be this one.\<close>

definition build_existing :: "('w, 'o) store \<Rightarrow> string \<Rightarrow> ConfirmedPackage \<Rightarrow> string \<Rightarrow> ('w, js_error, BuildReview option) eff" where
  "build_existing A runId pkg hash = bindM (lift_fs (as_load A runId ''build-review'')) (\<lambda>existing. case existing of
      ArGate g \<Rightarrow>
        if br_hash (gr_review g) \<noteq> hash \<or> gr_package g \<noteq> pkg
        then throwM (BuildReviewError ''Confirmed package changed; previous build authorization cannot be reused'' 409)
        else build_get A runId
    | _ \<Rightarrow> throwM type_error)"

definition build_open ::
  "('w, 'o) store \<Rightarrow> ('w \<Rightarrow> string) \<Rightarrow> string \<Rightarrow> ConfirmedPackage \<Rightarrow> string \<Rightarrow> ('w, js_error, BuildReview option) eff" where
  "build_open A clock runId pkg hash =
     (if \<not> all_proofs pkg \<or> \<not> sha256_hex hash
      then throwM (BuildReviewError ''Build Ready requires the confirmed package, all valid proofs, and its hash'' 409)
      else bindM (getsM clock) (\<lambda>now.
        thenM (build_create A runId ''build-review'' (ArGate (gate_record runId pkg hash now)))
          (build_existing A runId pkg hash)))"

text \<open>\<open>validateAction\<close>: the JSON schema of an action; \<open>Some (approve, hash)\<close> when it holds.\<close>

definition parse_action :: "json \<Rightarrow> (bool \<times> string) option" where
  "parse_action input = (case input of
      JObj fs \<Rightarrow>
        if set (map fst fs) \<subseteq> {''action'', ''hash''}
        then (case (map_of fs ''action'', map_of fs ''hash'') of
            (Some (JStr a), Some (JStr h)) \<Rightarrow>
              if a \<in> {''approve'', ''return''} \<and> sha256_hex h then Some (a = ''approve'', h) else None
          | _ \<Rightarrow> None)
        else None
    | _ \<Rightarrow> None)"

definition build_decide :: "('w, 'o) store \<Rightarrow> string \<Rightarrow> json \<Rightarrow> ('w, js_error, BuildReview option) eff" where
  "build_decide A runId input = (case parse_action input of
      None \<Rightarrow> throwM (BuildReviewError ''Provide action approve or return and the current confirmation hash'' 400)
    | Some (approve, hash) \<Rightarrow> bindM (optional A runId ''build-review'') (\<lambda>v. case v of
        None \<Rightarrow> throwM (BuildReviewError ''Build is not ready for authorization'' 404)
      | Some (ArGate g) \<Rightarrow>
          if hash \<noteq> br_hash (gr_review g)
          then throwM (BuildReviewError ''Build hash changed; reload Build Ready'' 409)
          else bindM (lift_fs (as_load A runId ''confirmed'')) (\<lambda>current.
            if current \<noteq> ArPackage (gr_package g)
            then throwM (BuildReviewError ''Confirmed package changed; reload Build Ready'' 409)
            else if \<not> approve
            then bindM (build_get A runId) (\<lambda>r. case r of
                None \<Rightarrow> throwM type_error
              | Some gate \<Rightarrow> if br_status gate \<noteq> RvPending
                  then throwM (BuildReviewError ''Build has already been authorized'' 409) else returnM (Some gate))
            else thenM (build_create A runId ''build-approval'' (ArApproval hash))
              (build_get A runId))
      | Some _ \<Rightarrow> throwM type_error))"

definition requireApproved :: "('w, 'o) store \<Rightarrow> string \<Rightarrow> ConfirmedPackage \<Rightarrow> string \<Rightarrow> ('w, js_error, unit) eff" where
  "requireApproved A runId pkg hash = bindM (build_get A runId) (\<lambda>gate.
     bindM (optional A runId ''build-review'') (\<lambda>v.
       if (case gate of None \<Rightarrow> True | Some g \<Rightarrow> br_status g \<noteq> RvApproved \<or> br_hash g \<noteq> hash) \<or>
         (case v of Some (ArGate g) \<Rightarrow> gr_package g \<noteq> pkg | _ \<Rightarrow> True)
       then throwM (BuildReviewError ''Explicit authorization for this confirmed package is required before Builder'' 409)
       else returnM ()))"

text \<open>\<open>wait\<close> polls until the deadline; the number of polls it leaves room for is the first argument.\<close>

fun build_wait :: "nat \<Rightarrow> ('w, 'o) store \<Rightarrow> ('w \<Rightarrow> 'w) \<Rightarrow> ('w \<Rightarrow> bool) \<Rightarrow> string \<Rightarrow> ('w, js_error, unit) eff" where
  "build_wait 0 A sleep terminal runId = throwM (BuildReviewError ''Build authorization ended before confirmation'' 409)"
| "build_wait (Suc n) A sleep terminal runId = bindM (getsM terminal) (\<lambda>t.
     if t then throwM (BuildReviewError ''Build authorization ended before confirmation'' 409)
     else bindM (build_get A runId) (\<lambda>r.
       if (case r of Some g \<Rightarrow> br_status g = RvApproved | None \<Rightarrow> False) then returnM ()
       else thenM (modifyM sleep) (build_wait n A sleep terminal runId)))"

section \<open>Plan review\<close>

definition PlanReviewError :: "string \<Rightarrow> nat \<Rightarrow> js_error" where
  "PlanReviewError m status = StatusError m status"

definition field :: "string \<Rightarrow> json \<Rightarrow> json option" where
  "field k v = (case v of JObj fs \<Rightarrow> map_of fs k | _ \<Rightarrow> None)"

definition nonempty :: "json option \<Rightarrow> js_error + string" where
  "nonempty v = (case v of
      Some (JStr s) \<Rightarrow> if trim s = '''' \<or> int (length s) > 20000
        then Inl (PlanReviewError ''Review fields must contain between 1 and 20000 characters'' 400) else Inr (trim s)
    | _ \<Rightarrow> Inl (PlanReviewError ''Review fields must contain between 1 and 20000 characters'' 400))"

text \<open>\<open>xs.map(f)\<close> for an \<open>f\<close> that may throw.\<close>

fun map_throwing :: "('a \<Rightarrow> 'e + 'b) \<Rightarrow> 'a list \<Rightarrow> 'e + 'b list" where
  "map_throwing f [] = Inr []"
| "map_throwing f (x # xs) = (case f x of Inl e \<Rightarrow> Inl e
     | Inr y \<Rightarrow> (case map_throwing f xs of Inl e \<Rightarrow> Inl e | Inr ys \<Rightarrow> Inr (y # ys)))"

definition keyed_edit :: "json list \<Rightarrow> string \<Rightarrow> string \<Rightarrow> js_error + string \<times> string" where
  "keyed_edit items k i = (case filter (\<lambda>item. field ''id'' item = Some (JStr i)) items of
      [m] \<Rightarrow> (case nonempty (field k m) of Inl e \<Rightarrow> Inl e | Inr s \<Rightarrow> Inr (i, s))
    | _ \<Rightarrow> Inl (PlanReviewError ''Review contains an unknown or duplicate identity'' 400))"

definition keyedEdits :: "json option \<Rightarrow> (string \<times> string) list \<Rightarrow> string \<Rightarrow> js_error + (string \<times> string) list" where
  "keyedEdits items originals k = (case items of
      Some (JArr js) \<Rightarrow> if length js \<noteq> length originals
        then Inl (PlanReviewError ''Keep the draft requirement and task identities'' 400)
        else map_throwing (\<lambda>(i, _). keyed_edit js k i) originals
    | _ \<Rightarrow> Inl (PlanReviewError ''Keep the draft requirement and task identities'' 400))"

definition bind_sum :: "'e + 'a \<Rightarrow> ('a \<Rightarrow> 'e + 'b) \<Rightarrow> 'e + 'b" where
  "bind_sum r f = (case r of Inl e \<Rightarrow> Inl e | Inr x \<Rightarrow> f x)"

definition validatePlanReviewEdits :: "json option \<Rightarrow> PlanReview \<Rightarrow> js_error + PlanReviewEdits" where
  "validatePlanReviewEdits v review = (case v of
      Some e \<Rightarrow>
        (case e of JObj _ \<Rightarrow>
          (case field ''notes'' e of
             Some (JArr notes) \<Rightarrow>
               if length notes > 50 then Inl (PlanReviewError ''At most 50 review notes are supported'' 400)
               else bind_sum (nonempty (field ''objective'' e)) (\<lambda>o'.
                 bind_sum (keyedEdits (field ''requirements'' e) (pe_requirements (pv_edits review)) ''statement'') (\<lambda>rs.
                 bind_sum (keyedEdits (field ''steps'' e) (pe_steps (pv_edits review)) ''description'') (\<lambda>ss.
                 bind_sum (map_throwing (\<lambda>n. nonempty (Some n)) notes) (\<lambda>ns.
                 Inr \<lparr>pe_objective = o', pe_requirements = rs, pe_steps = ss, pe_notes = ns\<rparr>))))
           | _ \<Rightarrow> Inl (PlanReviewError ''At most 50 review notes are supported'' 400))
        | JArr _ \<Rightarrow> Inl (PlanReviewError ''At most 50 review notes are supported'' 400)
        | _ \<Rightarrow> Inl (PlanReviewError ''Review edits are required'' 400))
    | None \<Rightarrow> Inl (PlanReviewError ''Review edits are required'' 400))"

definition note_context :: "string \<Rightarrow> nat \<Rightarrow> string \<Rightarrow> PromptContext" where
  "note_context runId i s = \<lparr>context_id = ''review:'' @ runId @ '':note:'' @ nat_str (i + 1), ctx_statement = s\<rparr>"

text \<open>\<open>list.find(x => x.id === id)!.field\<close> throws a \<open>TypeError\<close> when there is none; \<open>text\<close> is \<open>JSON.stringify\<close>.\<close>

definition edit_of :: "(string \<times> string) list \<Rightarrow> string \<Rightarrow> js_error + string" where
  "edit_of es i = (case map_of es i of None \<Rightarrow> Inl type_error | Some s \<Rightarrow> Inr s)"

definition applyPlanReviewEdits :: "(PlanReviewEdits \<Rightarrow> string) \<Rightarrow> PlanReview \<Rightarrow> js_error + ResearchBundle" where
  "applyPlanReviewEdits json_text review = (let b = pv_research review; ed = pv_edits review; p = plan b in
     bind_sum (map_throwing (\<lambda>r. bind_sum (edit_of (pe_requirements ed) (requirement_id r)) (\<lambda>s. Inr (r\<lparr>req_statement := s\<rparr>)))
       (requirements p)) (\<lambda>rs.
     bind_sum (map_throwing (\<lambda>st. bind_sum (edit_of (pe_steps ed) (step_id st)) (\<lambda>s. Inr (st\<lparr>step_description := s\<rparr>)))
       (steps p)) (\<lambda>ss.
     Inr (b\<lparr>goal := (goal b)\<lparr>objective := pe_objective ed\<rparr>,
       plan := p\<lparr>requirements := rs, steps := ss\<rparr>,
       prompt := (prompt b)\<lparr>prompt_context := prompt_context (prompt b) @
         map (\<lambda>(i, s). note_context (pv_run_id review) i s) (enumerate 0 (pe_notes ed))\<rparr>,
       researcher := (researcher b)\<lparr>ra_evidence := ra_evidence (researcher b) @
         [\<lparr>evidence_id = ''review:'' @ pv_run_id review, ev_source = ''user-plan-review'', ev_statement = json_text ed,
           ev_provenance = ''user-confirmed-draft''\<rparr>]\<rparr>\<rparr>))))"

definition plan_enable :: "('w, 'o) store \<Rightarrow> string \<Rightarrow> ('w, js_error, unit) eff" where
  "plan_enable A runId = thenM (lift_fs (as_save A runId ''review.request'' (ArRequest True))) (returnM ())"

definition plan_get :: "('w, 'o) store \<Rightarrow> string \<Rightarrow> ('w, js_error, 'o artifact option) eff" where
  "plan_get A runId = optional A runId ''review''"

definition draft_review :: "string \<Rightarrow> ResearchBundle \<Rightarrow> string \<Rightarrow> PlanReview" where
  "draft_review runId b now = \<lparr>pv_run_id = runId, pv_revision = 1, pv_status = RvPending, pv_created_at = now,
     pv_confirmed_at = None, pv_research = b,
     pv_edits = \<lparr>pe_objective = objective (goal b),
       pe_requirements = map (\<lambda>r. (requirement_id r, req_statement r)) (requirements (plan b)),
       pe_steps = map (\<lambda>s. (step_id s, step_description s)) (steps (plan b)), pe_notes = []\<rparr>\<rparr>"

definition plan_open :: "('w, 'o) store \<Rightarrow> ('w \<Rightarrow> string) \<Rightarrow> string \<Rightarrow> ResearchBundle \<Rightarrow> ('w, js_error, PlanReview option) eff" where
  "plan_open A clock runId research = bindM (optional A runId ''review.request'') (\<lambda>requested.
     if requested \<noteq> Some (ArRequest True) then returnM None
     else bindM (getsM clock) (\<lambda>now. let review = draft_review runId research now in
       thenM (lift_fs (as_save A runId ''review'' (ArPlanReview review))) (returnM (Some review))))"

text \<open>The checks of a decision; with \<open>Inr\<close> the edits of the decided review.\<close>

definition decision_edits :: "PlanReview \<Rightarrow> json \<Rightarrow> js_error + PlanReviewEdits" where
  "decision_edits review input = (let action = field ''action'' input in
     if pv_status review \<noteq> RvPending then Inl (PlanReviewError ''This review has already been decided'' 409)
     else if field ''revision'' input \<noteq> Some (JNum (of_nat (pv_revision review)))
     then Inl (PlanReviewError ''Review changed; reload the current draft'' 409)
     else if action \<noteq> Some (JStr ''approve'') \<and> action \<noteq> Some (JStr ''cancel'')
     then Inl (PlanReviewError ''Choose approve or cancel'' 400)
     else if action = Some (JStr ''approve'') then validatePlanReviewEdits (field ''edits'' input) review
     else Inr (pv_edits review))"

definition decided_review :: "PlanReview \<Rightarrow> json \<Rightarrow> PlanReviewEdits \<Rightarrow> string \<Rightarrow> PlanReview" where
  "decided_review review input ed now = review\<lparr>pv_edits := ed,
     pv_status := (if field ''action'' input = Some (JStr ''approve'') then RvApproved else RvCancelled),
     pv_revision := pv_revision review + 1, pv_confirmed_at := Some now\<rparr>"

text \<open>
  Decisions about one run wait for each other (\<open>locks\<close>), so in one process a decision
  is one step.
\<close>

definition plan_decide :: "('w, 'o) store \<Rightarrow> ('w \<Rightarrow> string) \<Rightarrow> string \<Rightarrow> json \<Rightarrow> ('w, js_error, PlanReview) eff" where
  "plan_decide A clock runId input = bindM (plan_get A runId) (\<lambda>v. case v of
      None \<Rightarrow> throwM (PlanReviewError ''No draft is awaiting review'' 404)
    | Some (ArPlanReview review) \<Rightarrow>
        bindM (liftM (decision_edits review input)) (\<lambda>ed.
        bindM (getsM clock) (\<lambda>now. let decided = decided_review review input ed now in
          thenM (lift_fs (as_save A runId ''review'' (ArPlanReview decided))) (returnM decided)))
    | Some _ \<Rightarrow> throwM (PlanReviewError ''This review has already been decided'' 409))"

fun plan_wait :: "nat \<Rightarrow> ('w, 'o) store \<Rightarrow> (PlanReviewEdits \<Rightarrow> string) \<Rightarrow> ('w \<Rightarrow> 'w) \<Rightarrow> ('w \<Rightarrow> bool) \<Rightarrow> string \<Rightarrow>
    ('w, js_error, ResearchBundle) eff" where
  "plan_wait 0 A json_text sleep terminal runId = throwM (JsError ''Plan review ended before confirmation'')"
| "plan_wait (Suc n) A json_text sleep terminal runId = bindM (getsM terminal) (\<lambda>t.
     if t then throwM (JsError ''Plan review ended before confirmation'')
     else bindM (plan_get A runId) (\<lambda>v. case v of
         Some (ArPlanReview review) \<Rightarrow>
           if pv_status review = RvCancelled then throwM (JsError ''Plan review cancelled by the user'')
           else if pv_status review = RvApproved then liftM (applyPlanReviewEdits json_text review)
           else thenM (modifyM sleep) (plan_wait n A json_text sleep terminal runId)
       | _ \<Rightarrow> thenM (modifyM sleep) (plan_wait n A json_text sleep terminal runId)))"

section \<open>No build without its authorization\<close>

text \<open>The hashes the user approved in a decision.\<close>

definition approvals :: "json \<Rightarrow> string list" where
  "approvals input = (case parse_action input of Some (True, h) \<Rightarrow> [h] | _ \<Rightarrow> [])"

locale review_store = artifact_store A view
  for A :: "('w, 'o) store" and view
begin

lemma lift_fs_result: "lift_fs m w = (x, w') \<Longrightarrow> \<exists>y. m w = (y, w') \<and> (\<forall>a. x = Inr a \<longleftrightarrow> y = Inr a)"
  by (auto simp: lift_fs_def split: prod.splits sum.splits)

lemma optional_result:
  assumes "optional A r n w = (x, w')" and "plain n"
  shows "view w' = view w" and "x = Inr (Some v) \<Longrightarrow> view w r n = Some v"
  using lift_fs_result [OF assms(1) [unfolded optional_def]] optional_view [OF assms(2)] by blast+

lemma load_result:
  assumes "lift_fs (as_load A r n) w = (x, w')" and "plain n"
  shows "view w' = view w" and "x = Inr v \<Longrightarrow> view w r n = Some v"
proof -
  obtain y where y: "as_load A r n w = (y, w')" "\<forall>a. x = Inr a \<longleftrightarrow> y = Inr a" using lift_fs_result [OF assms(1)] by blast
  with load_view [OF assms(2)] show "view w' = view w" by blast
  show "x = Inr v \<Longrightarrow> view w r n = Some v" using y load_ok [OF assms(2), of r w v w'] by simp
qed

lemma create_result:
  assumes "build_create A r n v w = (x, w')" and "plain n"
  shows "(\<forall>s m. plain m \<longrightarrow> view w' s m = view w s m) \<or>
    view w r n = None \<and> (\<forall>s m. plain m \<longrightarrow> view w' s m = (if s = r \<and> m = n then Some v else view w s m))"
proof (cases "as_create A")
  case None
  with assms(1) show ?thesis by (simp add: build_create_def throwM_apply)
next
  case (Some c)
  with assms(1) obtain y where y: "c r n v w = (y, w')"
    using lift_fs_result [of "c r n v" w x w'] by (auto simp: build_create_def)
  show ?thesis
  proof (cases y)
    case (Inl e)
    with create_err [OF Some assms(2)] y show ?thesis by blast
  next
    case (Inr b)
    with y have "c r n v w = (Inr b, w')" by simp
    from create_ok [OF Some assms(2) _ this] show ?thesis by (cases b) auto
  qed
qed

lemma plain_names [simp]: "plain ''build-review''" "plain ''build-approval''" "plain ''confirmed''" "plain ''review''"
  "plain ''review.request''"
  by (simp_all add: plain_def)

lemma build_get_result:
  assumes "build_get A r w = (x, w')"
  shows "view w' = view w"
    and "x = Inr (Some g) \<Longrightarrow> \<exists>gr. view w r ''build-review'' = Some (ArGate gr) \<and> br_hash g = br_hash (gr_review gr) \<and>
      (br_status g = RvApproved \<longrightarrow> view w r ''build-approval'' = Some (ArApproval (br_hash (gr_review gr))))"
proof -
  obtain y w1 where o: "optional A r ''build-review'' w = (y, w1)" by fastforce
  note v1 = optional_result [OF o]
  obtain z w2 where a: "optional A r ''build-approval'' w1 = (z, w2)" by fastforce
  note v2 = optional_result [OF a]
  have "view w' = view w \<and> (\<forall>g. x = Inr (Some g) \<longrightarrow> (\<exists>gr. view w r ''build-review'' = Some (ArGate gr) \<and>
      br_hash g = br_hash (gr_review gr) \<and>
      (br_status g = RvApproved \<longrightarrow> view w r ''build-approval'' = Some (ArApproval (br_hash (gr_review gr))))))"
    using assms o a v1 v2
    by (cases y) (auto simp: build_get_def bindM_apply returnM_apply throwM_apply split: option.splits artifact.splits sum.splits if_splits)
  then show "view w' = view w" "x = Inr (Some g) \<Longrightarrow> \<exists>gr. view w r ''build-review'' = Some (ArGate gr) \<and>
      br_hash g = br_hash (gr_review gr) \<and>
      (br_status g = RvApproved \<longrightarrow> view w r ''build-approval'' = Some (ArApproval (br_hash (gr_review gr))))" by auto
qed

text \<open>A gate that is opened or decided changes nothing, or publishes one immutable artifact.\<close>

definition same_view :: "'w \<Rightarrow> 'w \<Rightarrow> bool" where
  "same_view w w' \<longleftrightarrow> (\<forall>s m. plain m \<longrightarrow> view w' s m = view w s m)"

definition published :: "string \<Rightarrow> string \<Rightarrow> 'o artifact \<Rightarrow> 'w \<Rightarrow> 'w \<Rightarrow> bool" where
  "published r n v w w' \<longleftrightarrow> view w r n = None \<and> (\<forall>s m. plain m \<longrightarrow> view w' s m = (if s = r \<and> m = n then Some v else view w s m))"

lemma get_after: "bindM (build_get A r) f w = (x, w') \<Longrightarrow> (\<And>y v z v'. f y v = (z, v') \<Longrightarrow> v' = v) \<Longrightarrow> view w' = view w"
  by (erule bindM_cases) (metis build_get_result(1))+

lemma existing_view: "build_existing A r pkg h w = (x, w') \<Longrightarrow> view w' = view w"
  unfolding build_existing_def
  by (erule bindM_cases) (auto dest!: load_result(1) build_get_result(1) simp: throwM_apply split: artifact.splits if_splits)

lemma open_result:
  assumes "build_open A clock r pkg h w = (x, w')"
  shows "same_view w w' \<or> all_proofs pkg \<and> sha256_hex h \<and> published r ''build-review'' (ArGate (gate_record r pkg h (clock w))) w w'"
proof (cases "all_proofs pkg \<and> sha256_hex h")
  case False
  with assms show ?thesis by (auto simp: build_open_def throwM_apply same_view_def)
next
  case True
  from True assms have s: "thenM (build_create A r ''build-review'' (ArGate (gate_record r pkg h (clock w)))) (build_existing A r pkg h) w = (x, w')"
    by (simp add: build_open_def bindM_apply [of "getsM _"] getsM_apply)
  then obtain y w1 where c: "build_create A r ''build-review'' (ArGate (gate_record r pkg h (clock w))) w = (y, w1)"
    and "view w' = view w1" by (cases rule: thenM_cases) (auto dest: existing_view)
  with create_result [OF c] True show ?thesis by (auto simp: same_view_def published_def)
qed

lemma decide_result:
  assumes "build_decide A r input w = (x, w')"
  shows "same_view w w' \<or> (\<exists>h g. parse_action input = Some (True, h) \<and> view w r ''build-review'' = Some (ArGate g) \<and>
    br_hash (gr_review g) = h \<and> view w r ''confirmed'' = Some (ArPackage (gr_package g)) \<and>
    published r ''build-approval'' (ArApproval h) w w')"
proof (cases "parse_action input")
  case None
  with assms show ?thesis by (simp add: build_decide_def throwM_apply same_view_def)
next
  case (Some a)
  obtain approve h where a: "parse_action input = Some (approve, h)" using Some by (cases a) simp
  obtain y w1 where o: "optional A r ''build-review'' w = (y, w1)" by fastforce
  note v1 = optional_result [OF o]
  show ?thesis
  proof (cases "\<exists>g. y = Inr (Some (ArGate g)) \<and> h = br_hash (gr_review g)")
    case False
    with assms a o v1 show ?thesis
      by (cases y) (auto simp: build_decide_def bindM_apply [of "optional _ _ _"] throwM_apply same_view_def
          split: option.splits artifact.splits if_splits)
  next
    case True
    then obtain g where y: "y = Inr (Some (ArGate g))" "h = br_hash (gr_review g)" by blast
    obtain z w2 where l: "lift_fs (as_load A r ''confirmed'') w1 = (z, w2)" by fastforce
    note v2 = load_result [OF l]
    show ?thesis
    proof (cases "z = Inr (ArPackage (gr_package g)) \<and> approve")
      case False
      with assms a o y l v1 v2 show ?thesis
        by (cases z) (auto simp: build_decide_def bindM_apply [of "optional _ _ _"] bindM_apply [of "lift_fs _"] throwM_apply
            returnM_apply same_view_def split: option.splits if_splits dest!: get_after build_get_result(1) elim!: bindM_cases)
    next
      case True
      with assms a o y l have "thenM (build_create A r ''build-approval'' (ArApproval h))
          (build_get A r) w2 = (x, w')"
        by (simp add: build_decide_def bindM_apply [of "optional _ _ _"] bindM_apply [of "lift_fs _"])
      then obtain u w3 where c: "build_create A r ''build-approval'' (ArApproval h) w2 = (u, w3)" and "view w' = view w3"
        by (cases rule: thenM_cases) (auto dest: build_get_result(1))
      with create_result [OF c] True a y v1 v2 show ?thesis by (auto simp: same_view_def published_def)
    qed
  qed
qed

text \<open>
  The gate of a run: a record is a validated package with its hash, an approval is of
  that hash and one the user gave.
\<close>

definition gate_ok :: "string \<Rightarrow> string list \<Rightarrow> 'w \<Rightarrow> bool" where
  "gate_ok r hs w \<longleftrightarrow> (case view w r ''build-review'' of
      None \<Rightarrow> view w r ''build-approval'' = None
    | Some (ArGate g) \<Rightarrow> all_proofs (gr_package g) \<and> sha256_hex (br_hash (gr_review g)) \<and>
        (view w r ''build-approval'' = None \<or>
         view w r ''build-approval'' = Some (ArApproval (br_hash (gr_review g))) \<and> br_hash (gr_review g) \<in> set hs)
    | Some _ \<Rightarrow> False)"

lemma gate_ok_same: "gate_ok r hs w \<Longrightarrow> view w' r ''build-review'' = view w r ''build-review'' \<Longrightarrow>
    view w' r ''build-approval'' = view w r ''build-approval'' \<Longrightarrow> set hs \<subseteq> set hs' \<Longrightarrow> gate_ok r hs' w'"
  by (auto simp: gate_ok_def split: option.splits artifact.splits)

lemma gate_ok_open:
  assumes "gate_ok r hs w" and "build_open A clock r pkg h w = (x, w')"
  shows "gate_ok r hs w'"
  using open_result [OF assms(2)] assms(1)
  by (auto simp: same_view_def published_def gate_ok_def gate_record_def Let_def split: option.splits artifact.splits)

lemma gate_ok_decide:
  assumes "gate_ok r hs w" and "build_decide A r input w = (x, w')"
  shows "gate_ok r (hs @ approvals input) w'"
  using decide_result [OF assms(2)]
proof
  assume "same_view w w'"
  then show ?thesis by (intro gate_ok_same [OF assms(1)]) (simp_all add: same_view_def)
next
  assume "\<exists>h g. parse_action input = Some (True, h) \<and> view w r ''build-review'' = Some (ArGate g) \<and>
    br_hash (gr_review g) = h \<and> view w r ''confirmed'' = Some (ArPackage (gr_package g)) \<and>
    published r ''build-approval'' (ArApproval h) w w'"
  then show ?thesis using assms(1) by (auto simp: published_def gate_ok_def approvals_def)
qed

lemma approved_gate:
  assumes "gate_ok r hs w" and "requireApproved A r pkg h w = (Inr (), w')"
  shows "h \<in> set hs \<and> all_proofs pkg \<and> sha256_hex h"
proof -
  from assms(2) obtain y w1 where g: "build_get A r w = (Inr y, w1)" and rest: "bindM (optional A r ''build-review'') (\<lambda>v.
       if (case y of None \<Rightarrow> True | Some g \<Rightarrow> br_status g \<noteq> RvApproved \<or> br_hash g \<noteq> h) \<or>
         (case v of Some (ArGate g) \<Rightarrow> gr_package g \<noteq> pkg | _ \<Rightarrow> True)
       then throwM (BuildReviewError ''Explicit authorization for this confirmed package is required before Builder'' 409)
       else returnM ()) w1 = (Inr (), w')"
    by (auto simp: requireApproved_def elim: bindM_Inr_elim)
  from rest obtain v w2 where o: "optional A r ''build-review'' w1 = (Inr v, w2)"
    and c: "\<exists>g. y = Some g \<and> br_status g = RvApproved \<and> br_hash g = h" "\<exists>g. v = Some (ArGate g) \<and> gr_package g = pkg"
    by (auto elim!: bindM_Inr_elim simp: throwM_apply split: if_splits option.splits artifact.splits)
  from c obtain b g where y: "y = Some b" "br_status b = RvApproved" "br_hash b = h" and v: "v = Some (ArGate g)" "gr_package g = pkg"
    by blast
  from optional_result(2) [OF o] v build_get_result(1) [OF g] have p: "view w r ''build-review'' = Some (ArGate g)" by simp
  from build_get_result(2) [OF g] y have "br_hash (gr_review g) = h" "view w r ''build-approval'' = Some (ArApproval h)"
    using p by auto
  with p v assms(1) show ?thesis by (auto simp: gate_ok_def)
qed

end

lemma file_reviews_store: "review_store (FileArtifactStore uuid pid dir) (file_view dir)"
  by (rule review_store.intro) (rule files.artifact_store_axioms)

interpretation file_reviews: review_store "FileArtifactStore uuid pid dir" "file_view dir" for uuid pid dir
  by (rule file_reviews_store)

text \<open>
  A run's gate over time: opened by the workflow, decided by requests, the store used by
  others for other artifacts.  The list collects the hashes of approving decisions.
\<close>

inductive gate_reach :: "('w, 'o) store \<Rightarrow> ('w \<Rightarrow> string \<Rightarrow> string \<Rightarrow> 'o artifact option) \<Rightarrow> string \<Rightarrow> 'w \<Rightarrow> string list \<Rightarrow> bool"
  for A view r where
  start: "view w r ''build-review'' = None \<Longrightarrow> view w r ''build-approval'' = None \<Longrightarrow> gate_reach A view r w []"
| opened: "gate_reach A view r w hs \<Longrightarrow> build_open A clock r pkg h w = (x, w') \<Longrightarrow> gate_reach A view r w' hs"
| decided: "gate_reach A view r w hs \<Longrightarrow> build_decide A r input w = (x, w') \<Longrightarrow> gate_reach A view r w' (hs @ approvals input)"
| others: "gate_reach A view r w hs \<Longrightarrow> view w' r ''build-review'' = view w r ''build-review'' \<Longrightarrow>
    view w' r ''build-approval'' = view w r ''build-approval'' \<Longrightarrow> gate_reach A view r w' hs"

lemma gate_reach_ok:
  assumes "review_store A view"
  shows "gate_reach A view r w hs \<Longrightarrow> review_store.gate_ok view r hs w"
proof (induction rule: gate_reach.induct)
  case (start w)
  then show ?case by (simp add: review_store.gate_ok_def [OF assms])
next
  case (opened w hs clock pkg h x w')
  then show ?case using review_store.gate_ok_open [OF assms] by blast
next
  case (decided w hs input x w')
  then show ?case using review_store.gate_ok_decide [OF assms] by blast
next
  case (others w hs w')
  then show ?case using review_store.gate_ok_same [OF assms] by blast
qed

text \<open>
  C39.  The Builder's guard \<open>requireApproved\<close> returns only for a confirmed package
  whose three validations passed, and a hash the user sent in an approving decision,
  whatever other decisions, openings and failures of the store came before.
\<close>

theorem build_needs_approval:
  assumes "review_store A view" and "gate_reach A view r w hs" and "requireApproved A r pkg h w = (Inr (), w')"
  shows "h \<in> set hs \<and> all_proofs pkg \<and> sha256_hex h"
  by (rule review_store.approved_gate [OF assms(1) gate_reach_ok [OF assms(1,2)] assms(3)])

definition gate_package :: ConfirmedPackage where
  "gate_package = \<lparr>confirmed = True, core =
     \<lparr>cc_researcher = researcher sample_bundle, cc_plan = plan sample_bundle,
      cc_schema_artifact = schema_artifact sample_bundle, cc_fixture = fixture sample_bundle,
      cc_goal = goal sample_bundle, cc_validation = validation sample_bundle,
      cc_audit = \<lparr>audit_id = ''a'', au_researcher_id = ''r'', au_plan_id = ''p'', reviewed_areas = [], findings = []\<rparr>,
      cc_gap_analysis = \<lparr>ga_plan_id = ''p'', ga_result = Passed, resolved_gaps = [], gap_0 = True,
        ga_issue_type = None, ga_root_cause = None\<rparr>,
      cc_evaluation = \<lparr>el_plan_id = ''p'', el_result = Passed, el_evidence = [], el_issue_type = None,
        el_root_cause = None\<rparr>,
      cc_triple_validation = \<lparr>tv_plan_id = ''p'', tv_validation_id = ''v'',
        schema_validation = \<lparr>sv_plan_id = ''p'', sv_schema_id = ''s'', sv_result = Passed, sv_evidence = []\<rparr>,
        fixture_validation = \<lparr>fv_plan_id = ''p'', fv_fixture_id = ''f'', assertion_results = [],
          fv_result = Passed, fv_evidence = []\<rparr>,
        goal_validation = \<lparr>gv_plan_id = ''p'', gv_goal_id = ''g'', criterion_results = [],
          gv_result = Passed, gv_evidence = []\<rparr>, all_valid = True\<rparr>\<rparr>\<rparr>"

definition gate_hash :: string where
  "gate_hash = replicate 64 (CHR ''a'')"

definition file_store :: "(unit artifact store_disk, unit) store" where
  "file_store = FileArtifactStore (\<lambda>n. nat_str n) ''1'' ''d''"

definition no_files :: "unit artifact store_disk" where
  "no_files = (\<lparr>fs_files = [], fs_clock = 1, fs_write_faults = [], fs_read_faults = []\<rparr>, 0)"

definition gate_saved :: "unit artifact store_disk" where
  "gate_saved = snd (as_save file_store ''run'' ''confirmed'' (ArPackage gate_package) no_files)"

definition gate_opened :: "unit artifact store_disk" where
  "gate_opened = snd (build_open file_store (\<lambda>_. ''now'') ''run'' gate_package gate_hash gate_saved)"

definition approving :: json where
  "approving = JObj [(''action'', JStr ''approve''), (''hash'', JStr gate_hash)]"

definition gate_approved :: "unit artifact store_disk" where
  "gate_approved = snd (build_decide file_store ''run'' approving gate_opened)"

lemma build_needs_approval_witness:
  "fst (requireApproved file_store ''run'' gate_package gate_hash gate_opened) \<noteq> Inr () \<and>
   fst (requireApproved file_store ''run'' gate_package gate_hash gate_approved) = Inr () \<and> all_proofs gate_package"
proof -
  let ?v = "file_view ''d'' :: unit artifact store_disk \<Rightarrow> _"
  have st: "review_store file_store ?v" unfolding file_store_def by (rule file_reviews_store)
  have "?v gate_saved ''run'' ''build-review'' = None" "?v gate_saved ''run'' ''build-approval'' = None" by code_simp+
  then have "gate_reach file_store ?v ''run'' gate_saved []" by (rule gate_reach.start)
  then have "gate_reach file_store ?v ''run'' gate_opened []" unfolding gate_opened_def
    by (rule gate_reach.opened) (rule prod.collapse [symmetric])
  then have r: "gate_reach file_store ?v ''run'' gate_approved ([] @ approvals approving)" unfolding gate_approved_def
    by (rule gate_reach.decided) (rule prod.collapse [symmetric])
  have n: "case fst (requireApproved file_store ''run'' gate_package gate_hash gate_opened) of Inl _ \<Rightarrow> True | Inr _ \<Rightarrow> False"
    by code_simp
  have "case fst (requireApproved file_store ''run'' gate_package gate_hash gate_approved) of Inl _ \<Rightarrow> False | Inr _ \<Rightarrow> True"
    by code_simp
  then have a: "requireApproved file_store ''run'' gate_package gate_hash gate_approved =
      (Inr (), snd (requireApproved file_store ''run'' gate_package gate_hash gate_approved))"
    by (cases "requireApproved file_store ''run'' gate_package gate_hash gate_approved") (auto split: sum.splits)
  have "fst (requireApproved file_store ''run'' gate_package gate_hash gate_opened) \<noteq> Inr ()" using n by auto
  with build_needs_approval [OF st r a] arg_cong [OF a, of fst] show ?thesis by simp
qed

section \<open>Reviewed plans\<close>

definition text_ok :: "string \<Rightarrow> bool" where
  "text_ok s \<longleftrightarrow> s \<noteq> '''' \<and> length s \<le> 20000"

definition edits_ok :: "PlanReviewEdits \<Rightarrow> bool" where
  "edits_ok ed \<longleftrightarrow> text_ok (pe_objective ed) \<and> list_all (\<lambda>(i, s). text_ok s) (pe_requirements ed) \<and>
     list_all (\<lambda>(i, s). text_ok s) (pe_steps ed) \<and> list_all text_ok (pe_notes ed) \<and> length (pe_notes ed) \<le> 50"

definition edits_match :: "ResearchBundle \<Rightarrow> PlanReviewEdits \<Rightarrow> bool" where
  "edits_match b ed \<longleftrightarrow> map fst (pe_requirements ed) = map requirement_id (requirements (plan b)) \<and>
     map fst (pe_steps ed) = map step_id (steps (plan b))"

lemma map_throwing_Cons: "map_throwing f (x # xs) = Inr ys \<longleftrightarrow>
    (\<exists>y zs. f x = Inr y \<and> map_throwing f xs = Inr zs \<and> ys = y # zs)"
  by (auto split: sum.splits)

lemma map_throwing_Inr: "map_throwing f xs = Inr ys \<longleftrightarrow> list_all2 (\<lambda>x y. f x = Inr y) xs ys"
proof (induction xs arbitrary: ys)
  case (Cons x xs)
  then show ?case unfolding map_throwing_Cons list_all2_Cons1 by blast
qed auto

lemma map_throwing_total:
  assumes "\<And>x. x \<in> set xs \<Longrightarrow> \<exists>y. f x = Inr y"
  shows "\<exists>ys. map_throwing f xs = Inr ys"
  using assms
proof (induction xs)
  case (Cons x xs)
  then obtain y zs where "f x = Inr y" "map_throwing f xs = Inr zs" by fastforce
  then show ?case by simp
qed simp

lemma bind_sum_Inr: "bind_sum r f = Inr y \<longleftrightarrow> (\<exists>x. r = Inr x \<and> f x = Inr y)"
  by (simp add: bind_sum_def split: sum.split)

lemma length_trim: "length (trim s) \<le> length s"
proof -
  have "length (dropWhile is_space (rev (dropWhile is_space s))) \<le> length (dropWhile is_space s)"
    by (metis length_dropWhile_le length_rev)
  also have "\<dots> \<le> length s" by (rule length_dropWhile_le)
  finally show ?thesis by (simp add: trim_def)
qed

lemma nonempty_ok: "nonempty v = Inr s \<Longrightarrow> text_ok s"
  using length_trim by (fastforce simp: nonempty_def text_ok_def split: option.splits json.splits if_splits intro: order_trans)

lemma keyedEdits_ok:
  assumes "keyedEdits items originals k = Inr es"
  shows "map fst es = map fst originals \<and> list_all (\<lambda>(i, s). text_ok s) es"
proof -
  from assms obtain js where "map_throwing (\<lambda>(i, _). keyed_edit js k i) originals = Inr es"
    by (auto simp: keyedEdits_def split: option.splits json.splits if_splits)
  then have all: "list_all2 (\<lambda>x y. (case x of (i, _) \<Rightarrow> keyed_edit js k i) = Inr y) originals es" by (simp add: map_throwing_Inr)
  have one: "keyed_edit js k i = Inr e \<Longrightarrow> fst e = i \<and> text_ok (snd e)" for i e
    by (auto simp: keyed_edit_def split: list.splits sum.splits dest: nonempty_ok)
  from all show ?thesis
    by (induction rule: list_all2_induct) (auto dest!: one split: prod.splits)
qed

lemma validated_edits:
  assumes "validatePlanReviewEdits v review = Inr ed"
  shows "edits_ok ed" and "map fst (pe_requirements ed) = map fst (pe_requirements (pv_edits review))"
    and "map fst (pe_steps ed) = map fst (pe_steps (pv_edits review))"
proof -
  from assms obtain e nts rs ss ns o' where n: "\<not> 50 < length nts" and e: "nonempty (field ''objective'' e) = Inr o'"
    "keyedEdits (field ''requirements'' e) (pe_requirements (pv_edits review)) ''statement'' = Inr rs"
    "keyedEdits (field ''steps'' e) (pe_steps (pv_edits review)) ''description'' = Inr ss"
    "map_throwing (\<lambda>n. nonempty (Some n)) nts = Inr ns"
    and ed: "ed = \<lparr>pe_objective = o', pe_requirements = rs, pe_steps = ss, pe_notes = ns\<rparr>"
    by (auto simp: validatePlanReviewEdits_def bind_sum_Inr split: option.splits json.splits if_splits)
  from e(4) have "list_all2 (\<lambda>n s. nonempty (Some n) = Inr s) nts ns" by (simp add: map_throwing_Inr)
  then have "list_all text_ok ns" "length ns = length nts"
    by (auto simp: list_all2_conv_all_nth list_all_length dest: nonempty_ok)
  with n nonempty_ok [OF e(1)] keyedEdits_ok [OF e(2)] keyedEdits_ok [OF e(3)] ed show
    "edits_ok ed" "map fst (pe_requirements ed) = map fst (pe_requirements (pv_edits review))"
    "map fst (pe_steps ed) = map fst (pe_steps (pv_edits review))" by (auto simp: edits_ok_def)
qed

lemma edit_found: "map fst es = map k xs \<Longrightarrow> x \<in> set xs \<Longrightarrow> \<exists>s. edit_of es (k x) = Inr s \<and> (k x, s) \<in> set es"
proof -
  assume e: "map fst es = map k xs" and x: "x \<in> set xs"
  have "k x \<in> fst ` set es" using arg_cong [OF e, of set] x by auto
  then obtain s where "map_of es (k x) = Some s" by (metis map_of_eq_None_iff not_None_eq)
  then show ?thesis by (auto simp: edit_of_def dest: map_of_SomeD)
qed

text \<open>What a reviewer cannot change: everything but the four kinds of text.\<close>

definition erase :: "ResearchBundle \<Rightarrow> ResearchBundle" where
  "erase b = b\<lparr>goal := (goal b)\<lparr>objective := ''''\<rparr>,
     plan := (plan b)\<lparr>requirements := map (\<lambda>r. r\<lparr>req_statement := ''''\<rparr>) (requirements (plan b)),
       steps := map (\<lambda>s. s\<lparr>step_description := ''''\<rparr>) (steps (plan b))\<rparr>,
     prompt := (prompt b)\<lparr>prompt_context := []\<rparr>, researcher := (researcher b)\<lparr>ra_evidence := []\<rparr>\<rparr>"

definition reviewed :: "ResearchBundle \<Rightarrow> PlanReviewEdits \<Rightarrow> ResearchBundle \<Rightarrow> bool" where
  "reviewed b0 ed b \<longleftrightarrow> erase b = erase b0 \<and> objective (goal b) = pe_objective ed \<and>
     list_all (\<lambda>r. (requirement_id r, req_statement r) \<in> set (pe_requirements ed)) (requirements (plan b)) \<and>
     list_all (\<lambda>s. (step_id s, step_description s) \<in> set (pe_steps ed)) (steps (plan b)) \<and>
     map ctx_statement (prompt_context (prompt b)) = map ctx_statement (prompt_context (prompt b0)) @ pe_notes ed \<and>
     (\<exists>e. ra_evidence (researcher b) = ra_evidence (researcher b0) @ [e])"

lemma apply_reviewed:
  assumes "edits_match (pv_research rv) (pv_edits rv)"
  shows "\<exists>b. applyPlanReviewEdits json_text rv = Inr b \<and> reviewed (pv_research rv) (pv_edits rv) b"
proof -
  let ?b = "pv_research rv" and ?ed = "pv_edits rv"
  let ?fr = "\<lambda>r. bind_sum (edit_of (pe_requirements ?ed) (requirement_id r)) (\<lambda>s. Inr (r\<lparr>req_statement := s\<rparr>))"
  let ?fs = "\<lambda>st. bind_sum (edit_of (pe_steps ?ed) (step_id st)) (\<lambda>s. Inr (st\<lparr>step_description := s\<rparr>))"
  from assms have m: "map fst (pe_requirements ?ed) = map requirement_id (requirements (plan ?b))"
    "map fst (pe_steps ?ed) = map step_id (steps (plan ?b))" by (simp_all add: edits_match_def)
  have "\<exists>rs. map_throwing ?fr (requirements (plan ?b)) = Inr rs"
    using edit_found [OF m(1)] by (intro map_throwing_total) (fastforce simp: bind_sum_def)
  then obtain rs where rs: "map_throwing ?fr (requirements (plan ?b)) = Inr rs" by blast
  have "\<exists>ss. map_throwing ?fs (steps (plan ?b)) = Inr ss"
    using edit_found [OF m(2)] by (intro map_throwing_total) (fastforce simp: bind_sum_def)
  then obtain ss where ss: "map_throwing ?fs (steps (plan ?b)) = Inr ss" by blast
  have r1: "map (\<lambda>r. r\<lparr>req_statement := ''''\<rparr>) rs = map (\<lambda>r. r\<lparr>req_statement := ''''\<rparr>) (requirements (plan ?b)) \<and>
      list_all (\<lambda>r. (requirement_id r, req_statement r) \<in> set (pe_requirements ?ed)) rs"
    using rs [unfolded map_throwing_Inr]
    by (induction rule: list_all2_induct) (auto simp: bind_sum_Inr edit_of_def split: option.splits dest: map_of_SomeD)
  have s1: "map (\<lambda>s. s\<lparr>step_description := ''''\<rparr>) ss = map (\<lambda>s. s\<lparr>step_description := ''''\<rparr>) (steps (plan ?b)) \<and>
      list_all (\<lambda>s. (step_id s, step_description s) \<in> set (pe_steps ?ed)) ss"
    using ss [unfolded map_throwing_Inr]
    by (induction rule: list_all2_induct) (auto simp: bind_sum_Inr edit_of_def split: option.splits dest: map_of_SomeD)
  have nts: "map ctx_statement (map (\<lambda>(i, s). note_context r i s) (enumerate n xs)) = xs" for r n xs
    by (induction xs arbitrary: n) (simp_all add: note_context_def)
  show ?thesis using rs ss r1 s1
    by (simp add: applyPlanReviewEdits_def Let_def bind_sum_def reviewed_def erase_def nts del: map_map)
qed

definition plan_ok :: "string \<Rightarrow> ResearchBundle \<Rightarrow> PlanReview \<Rightarrow> bool" where
  "plan_ok r research rv \<longleftrightarrow> pv_research rv = research \<and> pv_run_id rv = r \<and> edits_match research (pv_edits rv) \<and>
     (pv_status rv = RvApproved \<longrightarrow> edits_ok (pv_edits rv))"

lemma draft_ok: "plan_ok r research (draft_review r research now)"
  by (simp add: plan_ok_def draft_review_def edits_match_def o_def)

text \<open>A run's review over time, like the gate: opened with its research, decided, left alone by others.\<close>

inductive plan_reach :: "('w, 'o) store \<Rightarrow> ('w \<Rightarrow> string \<Rightarrow> string \<Rightarrow> 'o artifact option) \<Rightarrow> string \<Rightarrow> ResearchBundle \<Rightarrow> 'w \<Rightarrow> bool"
  for A view r research where
  start: "view w r ''review'' = None \<Longrightarrow> plan_reach A view r research w"
| opened: "plan_reach A view r research w \<Longrightarrow> plan_open A clock r research w = (x, w') \<Longrightarrow> plan_reach A view r research w'"
| decided: "plan_reach A view r research w \<Longrightarrow> plan_decide A clock r input w = (x, w') \<Longrightarrow> plan_reach A view r research w'"
| others: "plan_reach A view r research w \<Longrightarrow> view w' r ''review'' = view w r ''review'' \<Longrightarrow> plan_reach A view r research w'"

context review_store
begin

lemma save_review:
  assumes "lift_fs (as_save A r ''review'' v) w = (x, w')"
  shows "view w' r ''review'' = view w r ''review'' \<or> view w' r ''review'' = Some v"
proof -
  obtain y where "as_save A r ''review'' v w = (y, w')" using lift_fs_result [OF assms] by blast
  then show ?thesis using save_ok [of "''review''" "''review''" r v w _ w' r] save_err [of "''review''" "''review''" r v w _ w' r]
    by (cases y) auto
qed

lemma plan_open_result:
  assumes "plan_open A clock r research w = (x, w')"
  shows "view w' r ''review'' = view w r ''review'' \<or> (\<exists>now. view w' r ''review'' = Some (ArPlanReview (draft_review r research now)))"
proof -
  obtain y w1 where o: "optional A r ''review.request'' w = (y, w1)" by fastforce
  note v1 = optional_result(1) [OF o]
  show ?thesis
  proof (cases "y = Inr (Some (ArRequest True))")
    case False
    with assms o v1 show ?thesis
      by (cases y) (auto simp: plan_open_def bindM_apply returnM_apply split: if_splits)
  next
    case True
    with assms o have "thenM (lift_fs (as_save A r ''review'' (ArPlanReview (draft_review r research (clock w1)))))
        (returnM (Some (draft_review r research (clock w1)))) w1 = (x, w')"
      by (simp add: plan_open_def bindM_apply getsM_apply Let_def)
    then show ?thesis using v1 by (cases rule: thenM_cases) (auto simp: returnM_apply dest!: save_review)
  qed
qed

lemma plan_decide_result:
  assumes "plan_decide A clock r input w = (x, w')"
  shows "view w' r ''review'' = view w r ''review'' \<or> (\<exists>rv ed st n t. view w r ''review'' = Some (ArPlanReview rv) \<and>
     (st = RvApproved \<and> (\<exists>v. validatePlanReviewEdits v rv = Inr ed) \<or> st = RvCancelled \<and> ed = pv_edits rv) \<and>
     view w' r ''review'' = Some (ArPlanReview (rv\<lparr>pv_edits := ed, pv_status := st, pv_revision := n, pv_confirmed_at := t\<rparr>)))"
proof -
  obtain y w1 where o: "optional A r ''review'' w = (y, w1)" by fastforce
  note v1 = optional_result [OF o]
  show ?thesis
  proof (cases "\<exists>rv. y = Inr (Some (ArPlanReview rv))")
    case False
    with assms o v1(1) show ?thesis
      by (cases y) (auto simp: plan_decide_def plan_get_def bindM_apply throwM_apply split: option.splits artifact.splits)
  next
    case True
    then obtain rv where y: "y = Inr (Some (ArPlanReview rv))" by blast
    with v1 have rv: "view w r ''review'' = Some (ArPlanReview rv)" by simp
    show ?thesis
    proof (cases "decision_edits rv input")
      case (Inl e)
      with assms o y v1(1) show ?thesis
        by (auto simp: plan_decide_def plan_get_def bindM_apply liftM_apply)
    next
      case (Inr ed)
      define rv' where "rv' = decided_review rv input ed (clock w1)"
      from Inr assms o y have "thenM (lift_fs (as_save A r ''review'' (ArPlanReview rv'))) (returnM rv') w1 = (x, w')"
        by (simp add: plan_decide_def plan_get_def bindM_apply liftM_apply getsM_apply Let_def rv'_def)
      then have saved: "view w' r ''review'' = view w1 r ''review'' \<or> view w' r ''review'' = Some (ArPlanReview rv')"
        by (cases rule: thenM_cases) (auto simp: returnM_apply dest!: save_review)
      have st: "(pv_status rv' = RvApproved \<and> (\<exists>v. validatePlanReviewEdits v rv = Inr ed) \<or>
          pv_status rv' = RvCancelled \<and> ed = pv_edits rv)"
        using Inr by (auto simp: decision_edits_def decided_review_def rv'_def Let_def split: if_splits)
      have "rv' = rv\<lparr>pv_edits := ed, pv_status := pv_status rv', pv_revision := pv_revision rv', pv_confirmed_at := pv_confirmed_at rv'\<rparr>"
        by (simp add: rv'_def decided_review_def)
      with saved have "view w' r ''review'' = view w r ''review'' \<or> view w' r ''review'' = Some (ArPlanReview
          (rv\<lparr>pv_edits := ed, pv_status := pv_status rv', pv_revision := pv_revision rv', pv_confirmed_at := pv_confirmed_at rv'\<rparr>))"
        using v1(1) by simp
      with rv st show ?thesis by blast
    qed
  qed
qed

lemma plan_reach_ok: "plan_reach A view r research w \<Longrightarrow> view w r ''review'' = Some (ArPlanReview rv) \<Longrightarrow> plan_ok r research rv"
proof (induction arbitrary: rv rule: plan_reach.induct)
  case (opened w clock x w')
  from plan_open_result [OF opened.hyps(2)] opened.IH opened.prems draft_ok show ?case by force
next
  case (decided w clock input x w')
  from plan_decide_result [OF decided.hyps(2)] show ?case
  proof (elim disjE exE conjE)
    assume "view w' r ''review'' = view w r ''review''"
    with decided show ?thesis by simp
  next
    fix rv0 ed st n t v
    assume h: "view w r ''review'' = Some (ArPlanReview rv0)" "st = RvApproved" "validatePlanReviewEdits v rv0 = Inr ed"
      "view w' r ''review'' = Some (ArPlanReview (rv0\<lparr>pv_edits := ed, pv_status := st, pv_revision := n, pv_confirmed_at := t\<rparr>))"
    with decided.IH [OF h(1)] validated_edits [OF h(3)] decided.prems show ?thesis
      by (auto simp: plan_ok_def edits_match_def)
  next
    fix rv0 ed st n t
    assume h: "view w r ''review'' = Some (ArPlanReview rv0)" "st = RvCancelled" "ed = pv_edits rv0"
      "view w' r ''review'' = Some (ArPlanReview (rv0\<lparr>pv_edits := ed, pv_status := st, pv_revision := n, pv_confirmed_at := t\<rparr>))"
    with decided.IH [OF h(1)] decided.prems show ?thesis by (auto simp: plan_ok_def)
  qed
qed simp_all

lemma approved_plan:
  assumes "plan_reach A view r research w" and "plan_get A r w = (Inr (Some (ArPlanReview rv)), w')"
    and "pv_status rv = RvApproved"
  shows "edits_ok (pv_edits rv) \<and> (\<exists>b. applyPlanReviewEdits json_text rv = Inr b \<and> reviewed research (pv_edits rv) b)"
proof -
  from optional_result(2) [OF assms(2) [unfolded plan_get_def]] have "view w r ''review'' = Some (ArPlanReview rv)" by simp
  from plan_reach_ok [OF assms(1) this] assms(3) apply_reviewed [of rv json_text] show ?thesis by (auto simp: plan_ok_def)
qed

end

text \<open>
  C40.  An approved review, whatever request approved it, holds checked edits and can be
  applied without a type error: the bundle that goes to the Planner has exactly the
  draft's identities and structure, only the four kinds of text are the reviewer's, each of them
  present and within its bounds.
\<close>

theorem approved_review_applies:
  assumes "review_store A view" and "plan_reach A view r research w"
    and "plan_get A r w = (Inr (Some (ArPlanReview rv)), w')" and "pv_status rv = RvApproved"
  shows "edits_ok (pv_edits rv) \<and> (\<exists>b. applyPlanReviewEdits json_text rv = Inr b \<and> reviewed research (pv_edits rv) b)"
  by (rule review_store.approved_plan [OF assms])

definition review_opened :: "unit artifact store_disk" where
  "review_opened = snd (plan_open file_store (\<lambda>_. ''t'') ''run'' sample_bundle (snd (plan_enable file_store ''run'' no_files)))"

definition keyed_texts :: "string \<Rightarrow> (string \<times> string) list \<Rightarrow> json" where
  "keyed_texts k es = JArr (map (\<lambda>(i, _). JObj [(''id'', JStr i), (k, JStr ''x'')]) es)"

definition plan_approval :: json where
  "plan_approval = (let ed = pv_edits (draft_review ''run'' sample_bundle ''t'') in JObj [(''action'', JStr ''approve''),
     (''revision'', JNum 1), (''edits'', JObj [(''objective'', JStr ''x''),
       (''requirements'', keyed_texts ''statement'' (pe_requirements ed)),
       (''steps'', keyed_texts ''description'' (pe_steps ed)), (''notes'', JArr [JStr ''y ''])])])"

definition review_decided :: "unit artifact store_disk" where
  "review_decided = snd (plan_decide file_store (\<lambda>_. ''t'') ''run'' plan_approval review_opened)"

lemma approved_review_applies_witness:
  "\<exists>rv b. fst (plan_get file_store ''run'' review_decided) = Inr (Some (ArPlanReview rv)) \<and> pv_status rv = RvApproved \<and>
     applyPlanReviewEdits (\<lambda>_. ''{}'') rv = Inr b \<and> erase b = erase sample_bundle \<and> pe_notes (pv_edits rv) = [''y'']"
proof -
  let ?v = "file_view ''d'' :: unit artifact store_disk \<Rightarrow> _"
  let ?e = "snd (plan_enable file_store ''run'' no_files)"
  have st: "review_store file_store ?v" unfolding file_store_def by (rule file_reviews_store)
  have "?v ?e ''run'' ''review'' = None" by code_simp
  then have "plan_reach file_store ?v ''run'' sample_bundle ?e" by (rule plan_reach.start)
  then have "plan_reach file_store ?v ''run'' sample_bundle review_opened" unfolding review_opened_def
    by (rule plan_reach.opened) (rule prod.collapse [symmetric])
  then have r: "plan_reach file_store ?v ''run'' sample_bundle review_decided" unfolding review_decided_def
    by (rule plan_reach.decided) (rule prod.collapse [symmetric])
  have "case fst (plan_get file_store ''run'' review_decided) of Inr (Some (ArPlanReview rv)) \<Rightarrow>
      (case pv_status rv of RvApproved \<Rightarrow> pe_notes (pv_edits rv) = [''y''] | _ \<Rightarrow> False) | _ \<Rightarrow> False"
    by code_simp
  then obtain rv where g: "plan_get file_store ''run'' review_decided =
      (Inr (Some (ArPlanReview rv)), snd (plan_get file_store ''run'' review_decided))"
    and a: "pv_status rv = RvApproved" "pe_notes (pv_edits rv) = [''y'']"
    by (cases "plan_get file_store ''run'' review_decided")
      (auto split: sum.splits option.splits artifact.splits ReviewStatus.splits)
  from approved_review_applies [OF st r g a(1)] obtain b where "applyPlanReviewEdits (\<lambda>_. ''{}'') rv = Inr b"
    "reviewed sample_bundle (pv_edits rv) b" by blast
  with a arg_cong [OF g, of fst] show ?thesis by (auto simp: reviewed_def)
qed

end
