(* ===== verification/Run_Repository.thy ===== *)
theory Run_Repository
  imports Disk_Files
begin

text \<open>
  The run snapshots, \<open>backend/runtime/run-repository.ts\<close>: a cache in each process over
  one JSON file per run, shared by the API server and the pipeline worker.  A file
  newer than the cached copy is read again.  The contract is one map from run ids to
  snapshots; the refinement says when the processes together implement it.
\<close>

section \<open>State\<close>

text \<open>A file parses to a snapshot, or to something whose \<open>pipeline_status\<close> is none.\<close>

datatype run_doc = SnapshotDoc RunSnapshot | ForeignDoc

record repository =
  rp_runs :: "(string \<times> RunSnapshot) list"
  rp_diskMtimes :: "(string \<times> nat) list"

definition new_repository :: repository where
  "new_repository = \<lparr>rp_runs = [], rp_diskMtimes = []\<rparr>"

text \<open>A process's repository and the shared disk; a throw is the disk's or the program's.\<close>

datatype repo_error = DiskThrown fs_error | RepoThrown js_error

type_synonym 'a repo_call = "(repository \<times> run_doc fs, repo_error, 'a) eff"

definition on_disk :: "(run_doc, 'a) fs_call \<Rightarrow> 'a repo_call" where
  "on_disk m = (\<lambda>(rp, d). case m d of (Inl e, d') \<Rightarrow> (Inl (DiskThrown e), (rp, d')) | (Inr x, d') \<Rightarrow> (Inr x, (rp, d')))"

definition repo_path :: "string \<Rightarrow> string \<Rightarrow> string" where
  "repo_path dir runId = dir @ ''/'' @ runId @ ''.json''"

definition set_run :: "string \<Rightarrow> RunSnapshot \<Rightarrow> repository \<Rightarrow> repository" where
  "set_run runId r rp = rp\<lparr>rp_runs := AList.update runId r (rp_runs rp)\<rparr>"

definition set_mtime :: "string \<Rightarrow> nat \<Rightarrow> repository \<Rightarrow> repository" where
  "set_mtime p t rp = rp\<lparr>rp_diskMtimes := AList.update p t (rp_diskMtimes rp)\<rparr>"

definition cached_run :: "repository \<Rightarrow> string \<Rightarrow> RunSnapshot option" where
  "cached_run rp runId = map_of (rp_runs rp) runId"

definition known_mtime :: "repository \<Rightarrow> string \<Rightarrow> nat" where
  "known_mtime rp p = (case map_of (rp_diskMtimes rp) p of None \<Rightarrow> 0 | Some t \<Rightarrow> t)"

definition change_repo :: "(repository \<Rightarrow> repository) \<Rightarrow> unit repo_call" where
  "change_repo f = (\<lambda>(rp, d). (Inr (), (f rp, d)))"

section \<open>Operations\<close>

text \<open>\<open>base\<close> is the directory, \<open>None\<close> for a repository in memory only; \<open>u\<close> makes the temporary name.\<close>

definition noteDiskVersion :: "string \<Rightarrow> unit repo_call" where
  "noteDiskVersion p = catchM
     (bindM (on_disk (statSync_mtimeMs p)) (\<lambda>t. change_repo (set_mtime p t))) (\<lambda>_. returnM ())"

definition persist :: "string option \<Rightarrow> string \<Rightarrow> RunSnapshot \<Rightarrow> unit repo_call" where
  "persist base u r = (case base of None \<Rightarrow> returnM () | Some dir \<Rightarrow>
     (let p = repo_path dir (rs_run_id r) in
      thenM (on_disk mkdirSync)
      (thenM (on_disk (write_replacing p u (SnapshotDoc r)))
        (noteDiskVersion p))))"

definition repo_create :: "string option \<Rightarrow> string \<Rightarrow> string \<Rightarrow> RunSnapshot repo_call" where
  "repo_create base u runId = (let r = \<lparr>rs_run_id = runId, pipeline_status = PRunning, rs_test_result = None,
       rs_issue_type = None, current_processor = None, rs_events = [], artifacts = [], hash_proof = None,
       root_cause = None, help_request = None\<rparr> in
     thenM (change_repo (set_run runId r)) (thenM (persist base u r) (returnM r)))"

text \<open>The part of \<open>get\<close> under \<open>existsSync\<close>: the time from \<open>statSync\<close>, 0 if it throws, then perhaps a read.\<close>

definition stat_or_zero :: "string \<Rightarrow> nat repo_call" where
  "stat_or_zero p = catchM (on_disk (statSync_mtimeMs p)) (\<lambda>_. returnM 0)"

definition date_now :: "nat repo_call" where
  "date_now = (\<lambda>(rp, d). (Inr (fs_clock d), (rp, d)))"

definition reload :: "string \<Rightarrow> string \<Rightarrow> nat \<Rightarrow> RunSnapshot option \<Rightarrow> RunSnapshot option repo_call" where
  "reload runId p diskMtime cached = catchM
     (bindM (on_disk (readJson p)) (\<lambda>doc. case doc of
        ForeignDoc \<Rightarrow> returnM None
      | SnapshotDoc r \<Rightarrow>
          thenM (change_repo (set_run runId r))
          (bindM date_now (\<lambda>now.
          thenM (change_repo (set_mtime p (if diskMtime \<noteq> 0 then diskMtime else now)))
            (returnM (Some r))))))
     (\<lambda>_. returnM cached)"

definition repo_get :: "string option \<Rightarrow> string \<Rightarrow> RunSnapshot option repo_call" where
  "repo_get base runId = (\<lambda>(rp, d). case base of
      None \<Rightarrow> (Inr (cached_run rp runId), (rp, d))
    | Some dir \<Rightarrow> (let p = repo_path dir runId in
        if \<not> existsSync d p then (Inr (cached_run rp runId), (rp, d))
        else bindM (stat_or_zero p) (\<lambda>diskMtime.
          if cached_run rp runId = None \<or> diskMtime > known_mtime rp p
          then reload runId p diskMtime (cached_run rp runId)
          else returnM (cached_run rp runId)) (rp, d)))"

definition repo_require :: "string option \<Rightarrow> string \<Rightarrow> RunSnapshot repo_call" where
  "repo_require base runId = bindM (repo_get base runId) (\<lambda>r. case r of
      None \<Rightarrow> throwM (RepoThrown (JsError (''Unknown run '' @ runId)))
    | Some s \<Rightarrow> returnM s)"

text \<open>
  The objects in \<open>runs\<close> are changed in place: the snapshot \<open>require\<close> returned is the
  cached one, so a change reaches the cache before it is persisted.
\<close>

definition repo_change :: "string option \<Rightarrow> string \<Rightarrow> string \<Rightarrow> (RunSnapshot \<Rightarrow> RunSnapshot) \<Rightarrow> RunSnapshot repo_call" where
  "repo_change base u runId f = bindM (repo_require base runId) (\<lambda>r.
     thenM (change_repo (set_run runId (f r))) (thenM (persist base u (f r)) (returnM (f r))))"

definition with_event :: "ProcessingEvent \<Rightarrow> RunSnapshot \<Rightarrow> RunSnapshot" where
  "with_event e r = r\<lparr>rs_events := rs_events r @ [e], current_processor := Some (processor e)\<rparr>"

definition repo_event :: "string option \<Rightarrow> string \<Rightarrow> string \<Rightarrow> ProcessingEvent \<Rightarrow> unit repo_call" where
  "repo_event base u runId e = thenM (repo_change base u runId (with_event e)) (returnM ())"

definition with_artifact :: "string \<Rightarrow> string \<Rightarrow> RunSnapshot \<Rightarrow> RunSnapshot" where
  "with_artifact name path r = r\<lparr>artifacts := AList.update name path (artifacts r)\<rparr>"

definition repo_artifact :: "string option \<Rightarrow> string \<Rightarrow> string \<Rightarrow> string \<Rightarrow> string \<Rightarrow> unit repo_call" where
  "repo_artifact base u runId name path = thenM (repo_change base u runId (with_artifact name path)) (returnM ())"

definition without_artifact :: "string \<Rightarrow> RunSnapshot \<Rightarrow> RunSnapshot" where
  "without_artifact name r = r\<lparr>artifacts := AList.delete name (artifacts r)\<rparr>"

definition removeArtifact :: "string option \<Rightarrow> string \<Rightarrow> string \<Rightarrow> string \<Rightarrow> unit repo_call" where
  "removeArtifact base u runId name = bindM (repo_require base runId) (\<lambda>r.
     if map_of (artifacts r) name = None then returnM ()
     else thenM (change_repo (set_run runId (without_artifact name r)))
       (persist base u (without_artifact name r)))"

record finalization =
  fi_test_result :: TestResult
  fi_hash_proof :: "HashProof option"
  fi_root_cause :: "RootCause option"
  fi_help_request :: "HelpRequest option"
  fi_issue_type :: "IssueType option"

definition finish_check :: "finalization \<Rightarrow> js_error + unit" where
  "finish_check fi =
     (if fi_test_result fi = Failed \<and> fi_root_cause fi = None
      then Inl (JsError ''Failed finalization requires structured issue evidence'')
      else if fi_test_result fi = Passed \<and> (fi_root_cause fi \<noteq> None \<or> fi_issue_type fi \<noteq> None)
      then Inl (JsError ''Passed finalization cannot carry issue fields'')
      else Inr ())"

definition finished :: "finalization \<Rightarrow> RunSnapshot \<Rightarrow> RunSnapshot" where
  "finished fi r = r\<lparr>pipeline_status := PDone, rs_test_result := Some (fi_test_result fi),
     hash_proof := fi_hash_proof fi, root_cause := fi_root_cause fi,
     rs_issue_type := (if fi_root_cause fi = None then None
       else case fi_issue_type fi of None \<Rightarrow> Some RootCauseIssue | Some it \<Rightarrow> Some it),
     help_request := fi_help_request fi\<rparr>"

definition repo_finish :: "string option \<Rightarrow> string \<Rightarrow> string \<Rightarrow> finalization \<Rightarrow> RunSnapshot repo_call" where
  "repo_finish base u runId fi = (case finish_check fi of
      Inl e \<Rightarrow> throwM (RepoThrown e)
    | Inr _ \<Rightarrow> repo_change base u runId (finished fi))"

text \<open>
  \<open>list\<close>: the ids of the cache and of the directory, each read with \<open>get\<close>, sorted by
  their last event, newest first; \<open>cmp\<close> is \<open>localeCompare\<close>.
\<close>

definition file_ids :: "string \<Rightarrow> run_doc fs \<Rightarrow> string list" where
  "file_ids dir d = List.map_filter (\<lambda>p. let n = length dir + 1 in
     if take n p = dir @ ''/'' \<and> CHR ''/'' \<notin> set (drop n p) \<and> length p \<ge> n + 5 \<and> drop (length p - 5) p = ''.json''
     then Some (take (length p - 5 - n) (drop n p)) else None) (map fst (fs_files d))"

fun insert_newest :: "(string \<Rightarrow> string \<Rightarrow> int) \<Rightarrow> ('a \<Rightarrow> string) \<Rightarrow> 'a \<Rightarrow> 'a list \<Rightarrow> 'a list" where
  "insert_newest cmp key x [] = [x]"
| "insert_newest cmp key x (y # ys) = (if cmp (key y) (key x) > 0 then y # insert_newest cmp key x ys else x # y # ys)"

definition last_created :: "RunSnapshot \<Rightarrow> string" where
  "last_created r = (if rs_events r = [] then '''' else created_at (last (rs_events r)))"

fun get_all :: "string option \<Rightarrow> string list \<Rightarrow> RunSnapshot list repo_call" where
  "get_all base [] = returnM []"
| "get_all base (i # ids) = bindM (repo_get base i) (\<lambda>r. bindM (get_all base ids) (\<lambda>rs.
     returnM ((case r of None \<Rightarrow> [] | Some s \<Rightarrow> [s]) @ rs)))"

definition repo_list :: "(string \<Rightarrow> string \<Rightarrow> int) \<Rightarrow> string option \<Rightarrow> RunSnapshot list repo_call" where
  "repo_list cmp base = (\<lambda>(rp, d).
     bindM (get_all base (unique (map fst (rp_runs rp) @ (case base of None \<Rightarrow> [] | Some dir \<Rightarrow> file_ids dir d))))
       (\<lambda>rs. returnM (foldr (insert_newest cmp last_created) rs [])) (rp, d))"

section \<open>The contract\<close>

text \<open>The operations, each with the snapshot it returns, and what they do to one map of runs.\<close>

datatype repo_op =
    OpCreate string
  | OpGet string
  | OpEvent string ProcessingEvent
  | OpArtifact string string string
  | OpRemove string string
  | OpFinish string finalization

fun op_call :: "string option \<Rightarrow> string \<Rightarrow> repo_op \<Rightarrow> RunSnapshot option repo_call" where
  "op_call base u (OpCreate i) = bindM (repo_create base u i) (\<lambda>r. returnM (Some r))"
| "op_call base u (OpGet i) = repo_get base i"
| "op_call base u (OpEvent i e) = thenM (repo_event base u i e) (returnM None)"
| "op_call base u (OpArtifact i name path) = thenM (repo_artifact base u i name path) (returnM None)"
| "op_call base u (OpRemove i name) = thenM (removeArtifact base u i name) (returnM None)"
| "op_call base u (OpFinish i fi) = bindM (repo_finish base u i fi) (\<lambda>r. returnM (Some r))"

type_synonym runs = "string \<rightharpoonup> RunSnapshot"

type_synonym op_result = "repo_error + RunSnapshot option"

definition spec_change :: "string \<Rightarrow> (RunSnapshot \<Rightarrow> RunSnapshot) \<Rightarrow> (RunSnapshot \<Rightarrow> RunSnapshot option) \<Rightarrow> runs \<Rightarrow> op_result \<times> runs" where
  "spec_change i f out m = (case m i of
      None \<Rightarrow> (Inl (RepoThrown (JsError (''Unknown run '' @ i))), m)
    | Some r \<Rightarrow> (Inr (out (f r)), m(i \<mapsto> f r)))"

definition created_run :: "string \<Rightarrow> RunSnapshot" where
  "created_run i = \<lparr>rs_run_id = i, pipeline_status = PRunning, rs_test_result = None,
       rs_issue_type = None, current_processor = None, rs_events = [], artifacts = [], hash_proof = None,
       root_cause = None, help_request = None\<rparr>"

fun spec_op :: "repo_op \<Rightarrow> runs \<Rightarrow> op_result \<times> runs" where
  "spec_op (OpCreate i) m = (Inr (Some (created_run i)), m(i \<mapsto> created_run i))"
| "spec_op (OpGet i) m = (Inr (m i), m)"
| "spec_op (OpEvent i e) m = spec_change i (with_event e) (\<lambda>_. None) m"
| "spec_op (OpArtifact i name path) m = spec_change i (with_artifact name path) (\<lambda>_. None) m"
| "spec_op (OpRemove i name) m = spec_change i (without_artifact name) (\<lambda>_. None) m"
| "spec_op (OpFinish i fi) m = (case finish_check fi of
      Inl e \<Rightarrow> (Inl (RepoThrown e), m) | Inr _ \<Rightarrow> spec_change i (finished fi) Some m)"

fun run_spec :: "repo_op list \<Rightarrow> runs \<Rightarrow> op_result list \<times> runs" where
  "run_spec [] m = ([], m)"
| "run_spec (x # xs) m = (case spec_op x m of (r, m1) \<Rightarrow> (case run_spec xs m1 of (rs, m') \<Rightarrow> (r # rs, m')))"

text \<open>
  Processes by number take turns, one operation each; a step names its process, the
  unique part of the temporary name and the time that passed since the step before.
\<close>

fun run_shared :: "string \<Rightarrow> (nat \<times> string \<times> nat \<times> repo_op) list \<Rightarrow> (nat \<Rightarrow> repository) \<times> run_doc fs \<Rightarrow>
    op_result list \<times> ((nat \<Rightarrow> repository) \<times> run_doc fs)" where
  "run_shared dir [] s = ([], s)"
| "run_shared dir ((k, u, dt, x) # xs) (ps, d) =
     (case op_call (Some dir) u x (ps k, d\<lparr>fs_clock := fs_clock d + dt\<rparr>) of (r, (rp, d')) \<Rightarrow>
       (case run_shared dir xs (ps(k := rp), d') of (rs, s) \<Rightarrow> (r # rs, s)))"

definition directory_of :: "string \<Rightarrow> run_doc fs \<Rightarrow> runs" where
  "directory_of dir d i = (case file_at d (repo_path dir i) of Some (Some (SnapshotDoc r), t) \<Rightarrow> Some r | _ \<Rightarrow> None)"

text \<open>Every run file of the directory holds its own run's snapshot, and no read fails.\<close>

definition clean_directory :: "string \<Rightarrow> run_doc fs \<Rightarrow> bool" where
  "clean_directory dir d \<longleftrightarrow> fs_read_faults d = [] \<and>
     (\<forall>i c t. file_at d (repo_path dir i) = Some (c, t) \<longrightarrow> 0 < t \<and> t \<le> fs_clock d \<and>
       (\<exists>r. c = Some (SnapshotDoc r) \<and> rs_run_id r = i))"

section \<open>Refinement\<close>

text \<open>A cached copy is the file's content, or older than the file by the times noted.\<close>

definition fresh_or_older :: "string \<Rightarrow> run_doc fs \<Rightarrow> repository \<Rightarrow> bool" where
  "fresh_or_older dir d rp \<longleftrightarrow> (\<forall>i r. cached_run rp i = Some r \<longrightarrow>
     (\<exists>r' t. file_at d (repo_path dir i) = Some (Some (SnapshotDoc r'), t) \<and>
       (known_mtime rp (repo_path dir i) < t \<or> known_mtime rp (repo_path dir i) = t \<and> r = r')))"

definition coherent :: "string \<Rightarrow> (nat \<Rightarrow> repository) \<Rightarrow> run_doc fs \<Rightarrow> bool" where
  "coherent dir ps d \<longleftrightarrow> clean_directory dir d \<and> (\<forall>k. fresh_or_older dir d (ps k))"

lemma cached_cases:
  assumes "fresh_or_older dir d rp" and "cached_run rp i = Some r"
  obtains r' t where "file_at d (repo_path dir i) = Some (Some (SnapshotDoc r'), t)"
    and "known_mtime rp (repo_path dir i) \<le> t" and "known_mtime rp (repo_path dir i) = t \<Longrightarrow> r = r'"
proof -
  from assms obtain r' t where "file_at d (repo_path dir i) = Some (Some (SnapshotDoc r'), t)"
    "known_mtime rp (repo_path dir i) < t \<or> known_mtime rp (repo_path dir i) = t \<and> r = r'"
    unfolding fresh_or_older_def by blast
  then show ?thesis using that [of r' t] by auto
qed

text \<open>The clock has moved since every write to a run file.\<close>

definition ticked :: "string \<Rightarrow> run_doc fs \<Rightarrow> bool" where
  "ticked dir d \<longleftrightarrow> 0 < fs_clock d \<and> (\<forall>i c t. file_at d (repo_path dir i) = Some (c, t) \<longrightarrow> t < fs_clock d)"

lemma repo_path_inj [simp]: "repo_path dir i = repo_path dir j \<longleftrightarrow> i = j"
  by (simp add: repo_path_def)

lemma tmp_not_run [simp]: "repo_path dir i \<noteq> tmp_name p u"
proof
  assume "repo_path dir i = tmp_name p u"
  then have "last (repo_path dir i) = last (tmp_name p u)" by simp
  then show False by (simp add: repo_path_def tmp_name_def)
qed

lemma repo_basic [simp]:
  "cached_run (set_run i r rp) j = (if j = i then Some r else cached_run rp j)"
  "cached_run (set_mtime p t rp) j = cached_run rp j"
  "known_mtime (set_run i r rp) q = known_mtime rp q"
  "known_mtime (set_mtime p t rp) q = (if q = p then t else known_mtime rp q)"
  by (simp_all add: cached_run_def set_run_def set_mtime_def known_mtime_def update_conv')

lemma repo_steps [simp]:
  "bindM (on_disk m) f (rp, d) = (case m d of (Inl e, d') \<Rightarrow> (Inl (DiskThrown e), (rp, d')) | (Inr x, d') \<Rightarrow> f x (rp, d'))"
  "thenM (on_disk m) g (rp, d) = (case m d of (Inl e, d') \<Rightarrow> (Inl (DiskThrown e), (rp, d')) | (Inr x, d') \<Rightarrow> g (rp, d'))"
  "thenM (change_repo h) g (rp, d) = g (h rp, d)"
  "bindM date_now k (rp, d) = k (fs_clock d) (rp, d)"
  by (auto simp: bindM_apply thenM_apply on_disk_def change_repo_def date_now_def split: prod.splits sum.splits)

lemma no_read_fault [simp]: "fs_read_faults d = [] \<Longrightarrow> read_call f d = (f d, d)"
  by (simp add: read_call_def next_fault_def)

lemma get_coherent:
  assumes "coherent dir ps d" and "repo_get (Some dir) i (ps k, d) = (x, (rp, d'))"
  shows "x = Inr (directory_of dir d i)" and "d' = d" and "coherent dir (ps(k := rp)) d"
    and "cached_run rp i = directory_of dir d i"
proof -
  let ?p = "repo_path dir i"
  from assms(1) have rf [simp]: "fs_read_faults d = []" and old: "fresh_or_older dir d (ps k)"
    by (auto simp: coherent_def clean_directory_def)
  have "x = Inr (directory_of dir d i) \<and> d' = d \<and> fresh_or_older dir d rp \<and> cached_run rp i = directory_of dir d i"
  proof (cases "file_at d ?p")
    case None
    with old have "cached_run (ps k) i = None" by (cases "cached_run (ps k) i") (auto elim: cached_cases)
    with None assms(2) old show ?thesis by (auto simp: repo_get_def Let_def existsSync_def directory_of_def)
  next
    case (Some f)
    with assms(1) obtain r t where f: "file_at d ?p = Some (Some (SnapshotDoc r), t)" "0 < t"
      by (cases f) (fastforce simp: coherent_def clean_directory_def)
    show ?thesis
    proof (cases "cached_run (ps k) i = None \<or> t > known_mtime (ps k) ?p")
      case True
      with assms(2) f have "x = Inr (Some r)" "d' = d" "rp = set_mtime ?p t (set_run i r (ps k))"
        by (auto simp: repo_get_def Let_def existsSync_def stat_or_zero_def statSync_mtimeMs_def readJson_def reload_def
            eff_simps on_disk_def change_repo_def date_now_def)
      with old f show ?thesis by (auto simp: directory_of_def fresh_or_older_def)
    next
      case False
      then obtain s where s: "cached_run (ps k) i = Some s" by auto
      from old s obtain r' t' where "file_at d ?p = Some (Some (SnapshotDoc r'), t')" "known_mtime (ps k) ?p \<le> t'"
        "known_mtime (ps k) ?p = t' \<Longrightarrow> s = r'" by (rule cached_cases) blast
      with f False s have "cached_run (ps k) i = Some r" by auto
      with False assms(2) f old show ?thesis
        by (auto simp: repo_get_def Let_def existsSync_def stat_or_zero_def statSync_mtimeMs_def
            eff_simps on_disk_def directory_of_def)
    qed
  qed
  with assms(1) show "x = Inr (directory_of dir d i)" "d' = d" "coherent dir (ps(k := rp)) d"
    "cached_run rp i = directory_of dir d i" by (auto simp: coherent_def)
qed

lemma persist_coherent:
  assumes "coherent dir ps d" and "ticked dir d" and "rs_run_id r = i"
    and "persist (Some dir) u r (set_run i r (ps k), d) = (x, (rp, d'))"
  shows "(\<exists>e. x = Inl (DiskThrown e)) \<or> x = Inr () \<and> coherent dir (ps(k := rp)) d' \<and>
    directory_of dir d' = (directory_of dir d)(i \<mapsto> r)"
proof -
  let ?p = "repo_path dir i"
  obtain y1 d1 where m: "mkdirSync d = (y1, d1)" by fastforce
  obtain y2 d2 where w: "write_replacing ?p u (SnapshotDoc r) d1 = (y2, d2)" by fastforce
  show ?thesis
  proof (cases "isl y1 \<or> isl y2")
    case True
    with assms(3,4) m w show ?thesis
      by (cases y1; cases y2) (auto simp: persist_def Let_def)
  next
    case False
    then have y: "y1 = Inr ()" "y2 = Inr ()" by (cases y1; cases y2; simp)+
    from mkdir_result [OF m] have d1: "file_at d1 = file_at d" "fs_clock d1 = fs_clock d" "fs_read_faults d1 = []"
      using assms(1) by (auto simp: changed_def coherent_def clean_directory_def)
    from write_replacing_result [OF w] y d1 have d2: "fs_clock d2 = fs_clock d" "fs_read_faults d2 = []"
      "file_at d2 ?p = Some (Some (SnapshotDoc r), fs_clock d)"
      "\<And>j. j \<noteq> i \<Longrightarrow> file_at d2 (repo_path dir j) = file_at d (repo_path dir j)"
      by (auto simp: replaced_def)
    have x: "x = Inr ()" "d' = d2" "rp = set_mtime ?p (fs_clock d) (set_run i r (ps k))"
      using assms(3,4) m w y d2
      by (auto simp: persist_def Let_def noteDiskVersion_def statSync_mtimeMs_def catchM_apply change_repo_def)
    have dirs: "directory_of dir d2 = (directory_of dir d)(i \<mapsto> r)"
    proof
      fix j
      show "directory_of dir d2 j = ((directory_of dir d)(i \<mapsto> r)) j"
        using d2(3) d2(4) [of j] by (cases "j = i") (simp_all add: directory_of_def)
    qed
    have "clean_directory dir d2" unfolding clean_directory_def
    proof (intro conjI allI impI)
      fix j c t assume f: "file_at d2 (repo_path dir j) = Some (c, t)"
      have "0 < t \<and> t \<le> fs_clock d2 \<and> (\<exists>r. c = Some (SnapshotDoc r) \<and> rs_run_id r = j)"
      proof (cases "j = i")
        case True
        with f d2(1,3) assms(2,3) show ?thesis by (auto simp: ticked_def)
      next
        case False
        with f d2(4) have "file_at d (repo_path dir j) = Some (c, t)" by simp
        with assms(1) d2(1) show ?thesis unfolding coherent_def clean_directory_def by fastforce
      qed
      then show "0 < t" "t \<le> fs_clock d2" "\<exists>r. c = Some (SnapshotDoc r) \<and> rs_run_id r = j" by auto
    qed (rule d2(2))
    moreover have "fresh_or_older dir d2 ((ps(k := rp)) l)" for l unfolding fresh_or_older_def
    proof (intro allI impI)
      fix j s assume c: "cached_run ((ps(k := rp)) l) j = Some s"
      show "\<exists>r' t. file_at d2 (repo_path dir j) = Some (Some (SnapshotDoc r'), t) \<and>
          (known_mtime ((ps(k := rp)) l) (repo_path dir j) < t \<or> known_mtime ((ps(k := rp)) l) (repo_path dir j) = t \<and> s = r')"
      proof (cases "j = i")
        case False
        with c x(3) have "cached_run (ps l) j = Some s" "known_mtime ((ps(k := rp)) l) (repo_path dir j) = known_mtime (ps l) (repo_path dir j)"
          by (auto split: if_splits)
        from assms(1) have "fresh_or_older dir d (ps l)" by (simp add: coherent_def)
        then obtain r0 t0 where "file_at d (repo_path dir j) = Some (Some (SnapshotDoc r0), t0)"
          "known_mtime (ps l) (repo_path dir j) < t0 \<or> known_mtime (ps l) (repo_path dir j) = t0 \<and> s = r0"
          using \<open>cached_run (ps l) j = Some s\<close> unfolding fresh_or_older_def by blast
        with d2(4) [OF False] \<open>known_mtime ((ps(k := rp)) l) _ = _\<close> show ?thesis
          by (intro exI [of _ r0] exI [of _ t0]) simp
      next
        case True
        show ?thesis
        proof (cases "l = k")
          case True
          with c x(3) d2(3) \<open>j = i\<close> show ?thesis by auto
        next
          case False
          with c \<open>j = i\<close> have "cached_run (ps l) i = Some s" by simp
          from assms(1) have "fresh_or_older dir d (ps l)" by (simp add: coherent_def)
          then obtain r0 t0 where t0: "file_at d ?p = Some (Some (SnapshotDoc r0), t0)" "known_mtime (ps l) ?p \<le> t0"
            using \<open>cached_run (ps l) i = Some s\<close> by (rule cached_cases)
          from assms(2) t0(1) have "t0 < fs_clock d" unfolding ticked_def by blast
          with t0(2) False \<open>j = i\<close> d2(3) show ?thesis by auto
        qed
      qed
    qed
    ultimately show ?thesis using x dirs by (simp add: coherent_def)
  qed
qed

text \<open>One in-place change, whatever it is, against the map.\<close>

definition implements :: "string \<Rightarrow> (nat \<Rightarrow> repository) \<Rightarrow> run_doc fs \<Rightarrow> nat \<Rightarrow> op_result \<Rightarrow> repository \<Rightarrow> run_doc fs \<Rightarrow> op_result \<times> runs \<Rightarrow> bool" where
  "implements dir ps d k x rp d' spec \<longleftrightarrow> (\<exists>e. x = Inl (DiskThrown e)) \<or>
     coherent dir (ps(k := rp)) d' \<and> spec = (x, directory_of dir d')"

lemma change_persist_implements:
  assumes "coherent dir ps d" and "ticked dir d" and "rs_run_id r = i"
    and "thenM (change_repo (set_run i r)) (thenM (persist (Some dir) u r) (returnM out)) (ps k, d) = (x, (rp, d'))"
  shows "implements dir ps d k x rp d' (Inr out, (directory_of dir d)(i \<mapsto> r))"
proof -
  obtain y rp1 d1 where p: "persist (Some dir) u r (set_run i r (ps k), d) = (y, (rp1, d1))" by (metis prod.exhaust)
  from persist_coherent [OF assms(1-3) p] assms(4) p show ?thesis
    by (auto simp: implements_def thenM_apply [of "persist _ _ _"] returnM_apply split: sum.splits)
qed

lemma coherent_run_id: "coherent dir ps d \<Longrightarrow> directory_of dir d i = Some r \<Longrightarrow> rs_run_id r = i"
  by (fastforce simp: coherent_def clean_directory_def directory_of_def split: option.splits run_doc.splits)

lemma require_change:
  assumes "coherent dir ps d"
    and "bindM (repo_require (Some dir) i) f (ps k, d) = (x, (rp, d'))"
  obtains (unknown) "directory_of dir d i = None" and "x = Inl (RepoThrown (JsError (''Unknown run '' @ i)))"
      and "d' = d" and "coherent dir (ps(k := rp)) d"
    | (known) r rp1 where "directory_of dir d i = Some r" and "rs_run_id r = i" and "coherent dir (ps(k := rp1)) d"
      and "f r (rp1, d) = (x, (rp, d'))" and "cached_run rp1 i = Some r"
proof -
  obtain y rp1 d1 where g: "repo_get (Some dir) i (ps k, d) = (y, (rp1, d1))" by (metis prod.exhaust)
  note c = get_coherent [OF assms(1) g]
  show ?thesis
  proof (cases "directory_of dir d i")
    case None
    with assms(2) g c show ?thesis by (intro unknown) (auto simp: repo_require_def bindM_apply throwM_apply)
  next
    case (Some r)
    with assms(2) g c have "f r (rp1, d) = (x, (rp, d'))" by (simp add: repo_require_def bindM_apply returnM_apply)
    with Some c coherent_run_id [OF assms(1) Some] show ?thesis by (intro known) auto
  qed
qed

lemma bind_sequence: "bindM (thenM a m) f = thenM a (bindM m f)" "bindM (returnM v) f = f v"
  "bindM (bindM m g) h = bindM m (\<lambda>x. bindM (g x) h)"
  by (rule ext; simp add: thenM_apply bindM_apply returnM_apply split: prod.split sum.split)+

lemma change_implements:
  assumes "coherent dir ps d" and "ticked dir d" and "\<And>r. rs_run_id (f r) = rs_run_id r"
    and "bindM (repo_change (Some dir) u i f) (\<lambda>r. returnM (out r)) (ps k, d) = (x, (rp, d'))"
  shows "implements dir ps d k x rp d' (spec_change i f out (directory_of dir d))"
proof -
  have "bindM (repo_require (Some dir) i) (\<lambda>r. thenM (change_repo (set_run i (f r)))
      (thenM (persist (Some dir) u (f r)) (returnM (out (f r))))) (ps k, d) = (x, (rp, d'))"
    using assms(4) by (simp add: repo_change_def bind_sequence)
  from assms(1) this show ?thesis
  proof (cases rule: require_change)
    case unknown
    then show ?thesis by (simp add: implements_def spec_change_def)
  next
    case (known r rp1)
    from known(4) have "thenM (change_repo (set_run i (f r)))
      (thenM (persist (Some dir) u (f r)) (returnM (out (f r)))) ((ps(k := rp1)) k, d) = (x, (rp, d'))" by simp
    from change_persist_implements [OF known(3) assms(2) _ this, unfolded implements_def fun_upd_upd] known(1,2) assms(3) show ?thesis
      by (simp add: implements_def spec_change_def)
  qed
qed

lemma then_none: "thenM (thenM m (returnM ())) (returnM None) = bindM m (\<lambda>_. returnM None)"
  by (rule ext) (simp add: thenM_apply bindM_apply returnM_apply split: prod.split sum.split)

lemma change_run_id [simp]:
  "rs_run_id (with_event e r) = rs_run_id r" "rs_run_id (with_artifact n p r) = rs_run_id r"
  "rs_run_id (without_artifact n r) = rs_run_id r" "rs_run_id (finished fi r) = rs_run_id r"
  by (simp_all add: with_event_def with_artifact_def without_artifact_def finished_def)

lemma remove_implements:
  assumes "coherent dir ps d" and "ticked dir d"
    and "thenM (removeArtifact (Some dir) u i name) (returnM None) (ps k, d) = (x, (rp, d'))"
  shows "implements dir ps d k x rp d' (spec_change i (without_artifact name) (\<lambda>_. None) (directory_of dir d))"
proof -
  have "bindM (repo_require (Some dir) i) (\<lambda>r. if map_of (artifacts r) name = None then returnM None
      else thenM (change_repo (set_run i (without_artifact name r)))
        (thenM (persist (Some dir) u (without_artifact name r)) (returnM None))) (ps k, d) = (x, (rp, d'))"
    using assms(3) by (auto simp: removeArtifact_def bindM_apply thenM_apply returnM_apply split: prod.splits sum.splits)
  from assms(1) this show ?thesis
  proof (cases rule: require_change)
    case unknown
    then show ?thesis by (simp add: implements_def spec_change_def)
  next
    case (known r rp1)
    show ?thesis
    proof (cases "map_of (artifacts r) name = None")
      case True
      then have same: "without_artifact name r = r" by (simp add: without_artifact_def delete_id map_of_eq_None_iff)
      from True known(4) have "x = Inr None" "rp = rp1" "d' = d" by (simp_all add: returnM_apply)
      with known(1,3) same show ?thesis by (simp add: implements_def spec_change_def map_upd_triv)
    next
      case False
      with known(4) have "thenM (change_repo (set_run i (without_artifact name r)))
        (thenM (persist (Some dir) u (without_artifact name r)) (returnM None)) ((ps(k := rp1)) k, d) = (x, (rp, d'))" by simp
      from change_persist_implements [OF known(3) assms(2) _ this, unfolded implements_def fun_upd_upd] known(1,2) show ?thesis
        by (simp add: implements_def spec_change_def)
    qed
  qed
qed

lemma op_implements:
  assumes "coherent dir ps d" and "ticked dir d" and "op_call (Some dir) u y (ps k, d) = (x, (rp, d'))"
  shows "implements dir ps d k x rp d' (spec_op y (directory_of dir d))"
proof (cases y)
  case (OpCreate i)
  with assms(3) have "thenM (change_repo (set_run i (created_run i))) (thenM (persist (Some dir) u (created_run i))
      (returnM (Some (created_run i)))) (ps k, d) = (x, (rp, d'))"
    by (simp add: repo_create_def created_run_def Let_def bind_sequence)
  from change_persist_implements [OF assms(1,2) _ this] OpCreate show ?thesis by (simp add: created_run_def)
next
  case (OpGet i)
  with get_coherent [OF assms(1), of i k x rp d'] assms(3) show ?thesis by (simp add: implements_def)
next
  case (OpEvent i e)
  with change_implements [OF assms(1,2), of "with_event e" u i "\<lambda>_. None" k x rp d'] assms(3) show ?thesis
    by (simp add: repo_event_def then_none)
next
  case (OpArtifact i name path)
  with change_implements [OF assms(1,2), of "with_artifact name path" u i "\<lambda>_. None" k x rp d'] assms(3) show ?thesis
    by (simp add: repo_artifact_def then_none)
next
  case (OpRemove i name)
  with remove_implements [OF assms(1,2)] assms(3) show ?thesis by simp
next
  case (OpFinish i fi)
  show ?thesis
  proof (cases "finish_check fi")
    case (Inl e)
    with OpFinish assms show ?thesis by (auto simp: repo_finish_def bindM_apply throwM_apply implements_def)
  next
    case (Inr v)
    with OpFinish assms(3) change_implements [OF assms(1,2), of "finished fi" u i Some k x rp d'] show ?thesis
      by (simp add: repo_finish_def)
  qed
qed

lemma coherent_tick:
  assumes "coherent dir ps d" and "0 < dt"
  shows "coherent dir ps (d\<lparr>fs_clock := fs_clock d + dt\<rparr>)" and "ticked dir (d\<lparr>fs_clock := fs_clock d + dt\<rparr>)"
    and "directory_of dir (d\<lparr>fs_clock := fs_clock d + dt\<rparr>) = directory_of dir d"
  using assms unfolding coherent_def clean_directory_def fresh_or_older_def ticked_def directory_of_def fun_eq_iff
  by (fastforce simp: fs_simps)+

lemma shared_refines:
  "coherent dir ps d \<Longrightarrow> list_all (\<lambda>(k, u, dt, y). 0 < dt) turns \<Longrightarrow>
   run_shared dir turns (ps, d) = (rs, (ps', d')) \<Longrightarrow> list_all (\<lambda>r. \<forall>e. r \<noteq> Inl (DiskThrown e)) rs \<Longrightarrow>
   coherent dir ps' d' \<and> run_spec (map (\<lambda>(k, u, dt, y). y) turns) (directory_of dir d) = (rs, directory_of dir d')"
proof (induction turns arbitrary: ps d rs)
  case (Cons s turns)
  obtain k u dt y where s: "s = (k, u, dt, y)" by (cases s)
  let ?d = "d\<lparr>fs_clock := fs_clock d + dt\<rparr>"
  from Cons.prems(2) s have "0 < dt" by simp
  note tick = coherent_tick [OF Cons.prems(1) this]
  obtain x rp d1 where op: "op_call (Some dir) u y (ps k, ?d) = (x, (rp, d1))" by (metis prod.exhaust)
  obtain rs1 where rest: "run_shared dir turns (ps(k := rp), d1) = (rs1, (ps', d'))" and rs: "rs = x # rs1"
    using Cons.prems(3) s op by (auto split: prod.splits)
  from Cons.prems(4) rs op_implements [OF tick(1,2) op] tick(3)
  have c: "coherent dir (ps(k := rp)) d1" "spec_op y (directory_of dir d) = (x, directory_of dir d1)"
    by (auto simp: implements_def)
  from Cons.IH [OF c(1) _ rest] Cons.prems(2,4) rs c(2) s show ?case by simp
qed simp

text \<open>
  C38.  Any number of processes share the directory, each with its own
  cache, and run operations in any order.  As long as no operation failed on the disk
  (single faults of the rename are absorbed) and time passed between
  operations, every operation returns what it returns on one map from run ids to snapshots,
  and the directory holds that map: no process ever sees another's stale copy.
\<close>

theorem repository_refines_map:
  assumes "clean_directory dir d" and "list_all (\<lambda>(k, u, dt, y). 0 < dt) turns"
    and "run_shared dir turns (\<lambda>_. new_repository, d) = (rs, (ps', d'))"
    and "list_all (\<lambda>r. \<forall>e. r \<noteq> Inl (DiskThrown e)) rs"
  shows "run_spec (map (\<lambda>(k, u, dt, y). y) turns) (directory_of dir d) = (rs, directory_of dir d')"
proof -
  have "coherent dir (\<lambda>_. new_repository) d"
    using assms(1) by (simp add: coherent_def fresh_or_older_def new_repository_def cached_run_def)
  from shared_refines [OF this assms(2-4)] show ?thesis by simp
qed

text \<open>Two processes on one run: the worker finishes it, the server sees it, under a failing rename.\<close>

definition empty_disk :: "run_doc fs" where
  "empty_disk = \<lparr>fs_files = [], fs_clock = 1, fs_write_faults = [NoFault, NoFault, Fault EPERM False], fs_read_faults = []\<rparr>"

definition passing_finish :: finalization where
  "passing_finish = \<lparr>fi_test_result = Passed, fi_hash_proof = None, fi_root_cause = None, fi_help_request = None,
     fi_issue_type = None\<rparr>"

definition two_process_turns :: "(nat \<times> string \<times> nat \<times> repo_op) list" where
  "two_process_turns = [(0, ''a'', 1, OpCreate ''r''), (1, ''b'', 1, OpFinish ''r'' passing_finish), (0, ''c'', 1, OpGet ''r'')]"

lemma repository_refines_map_witness:
  "fst (run_shared ''d'' two_process_turns (\<lambda>_. new_repository, empty_disk)) =
   [Inr (Some (created_run ''r'')), Inr (Some (finished passing_finish (created_run ''r''))),
    Inr (Some (finished passing_finish (created_run ''r'')))]"
proof -
  obtain rs ps' d' where r: "run_shared ''d'' two_process_turns (\<lambda>_. new_repository, empty_disk) = (rs, (ps', d'))"
    by (metis prod.exhaust)
  have "list_all (\<lambda>r. case r of Inl (DiskThrown e) \<Rightarrow> False | _ \<Rightarrow> True)
      (fst (run_shared ''d'' two_process_turns (\<lambda>_. new_repository, empty_disk)))" by code_simp
  with r have ok: "list_all (\<lambda>r. \<forall>e. r \<noteq> Inl (DiskThrown e)) rs"
    by (auto simp: list_all_iff split: sum.splits repo_error.splits)
  have "clean_directory ''d'' empty_disk" by (simp add: clean_directory_def empty_disk_def file_at_def)
  moreover have "list_all (\<lambda>(k, u, dt, y). 0 < dt) two_process_turns" by (simp add: two_process_turns_def)
  ultimately have "run_spec (map (\<lambda>(k, u, dt, y). y) two_process_turns) (directory_of ''d'' empty_disk) = (rs, directory_of ''d'' d')"
    using r ok by (rule repository_refines_map)
  moreover have "directory_of ''d'' empty_disk = Map.empty"
    by (simp add: directory_of_def empty_disk_def file_at_def fun_eq_iff)
  ultimately show ?thesis using r
    by (simp add: two_process_turns_def spec_change_def passing_finish_def finish_check_def split: if_splits)
qed

text \<open>
  What the two hypotheses exclude.  Without time between two writes, or when another process writes between
  the rename and the \<open>statSync\<close> that notes the time, a process keeps serving its own
  outdated copy.
\<close>

lemma same_time_stale_example:
  "fst (run_shared ''d'' [(0, ''a'', 1, OpCreate ''r''), (1, ''b'', 0, OpFinish ''r'' passing_finish), (0, ''c'', 1, OpGet ''r'')]
     (\<lambda>_. new_repository, empty_disk)) ! 2 = Inr (Some (created_run ''r''))"
  by code_simp

lemma note_race_example:
  "(case write_replacing (repo_path ''d'' ''r'') ''a'' (SnapshotDoc (created_run ''r''))
      (empty_disk\<lparr>fs_write_faults := []\<rparr>) of (_, d1) \<Rightarrow>
     (case repo_finish (Some ''d'') ''b'' ''r'' passing_finish (new_repository, d1\<lparr>fs_clock := 2\<rparr>) of (_, (_, d2)) \<Rightarrow>
       (case thenM (change_repo (set_run ''r'' (created_run ''r''))) (noteDiskVersion (repo_path ''d'' ''r''))
          (new_repository, d2\<lparr>fs_clock := 3\<rparr>) of (_, (rp, d3)) \<Rightarrow>
         (fst (repo_get (Some ''d'') ''r'' (rp, d3)), map_option (map_option (\<lambda>x. case x of SnapshotDoc s \<Rightarrow> pipeline_status s | ForeignDoc \<Rightarrow> PRunning) \<circ> fst)
            (file_at d3 (repo_path ''d'' ''r''))))))
   = (Inr (Some (created_run ''r'')), Some (Some PDone))"
  by code_simp

end
