(* ===== verification/Event_Log.thy ===== *)
theory Event_Log
  imports Contracts
begin

text \<open>
  The processing events of a run: the append-only store of JSON lines,
  \<open>backend/task/event/event-store.ts\<close>, and the event bus over it,
  \<open>backend/runtime/event-bus.ts\<close>.  Uuids, random bytes and the clock are the
  record \<open>bus_host\<close>.
\<close>

section \<open>The files\<close>

text \<open>
  A line is the JSON text of an event or anything the loader skips (blank,
  unparseable, no \<open>event_id\<close>).  A process killed while appending leaves a torn
  tail, a last line without its newline; what is appended next continues it.
\<close>

datatype line = LineEvent ProcessingEvent | LineSkipped

record event_file =
  ef_lines :: "line list"
  ef_torn :: bool

definition append_line :: "ProcessingEvent \<Rightarrow> event_file option \<Rightarrow> event_file" where
  "append_line e file = (case file of
      None \<Rightarrow> \<lparr>ef_lines = [LineEvent e], ef_torn = False\<rparr>
    | Some f \<Rightarrow> \<lparr>ef_lines = ef_lines f @ [if ef_torn f then LineSkipped else LineEvent e], ef_torn = False\<rparr>)"

definition safe_char :: "char \<Rightarrow> bool" where
  "safe_char c \<longleftrightarrow> (let n = of_char c :: nat in
     48 \<le> n \<and> n \<le> 57 \<or> 65 \<le> n \<and> n \<le> 90 \<or> 97 \<le> n \<and> n \<le> 122 \<or> c \<in> {CHR ''.'', CHR ''_'', CHR ''-''})"

definition safeRunId :: "string \<Rightarrow> string" where
  "safeRunId runId = map (\<lambda>c. if safe_char c then c else CHR ''_'') runId"

section \<open>The store\<close>

text \<open>The root directory's files by name without \<open>.jsonl\<close>, next to the two fields of the class.\<close>

record event_store =
  es_files :: "(string \<times> event_file) list"
  es_cache :: "(string \<times> ProcessingEvent list) list"
  es_ids :: "string set"

definition load_line :: "line \<Rightarrow> ProcessingEvent list \<times> string set \<Rightarrow> ProcessingEvent list \<times> string set" where
  "load_line l acc = (case acc of (events, ids) \<Rightarrow> (case l of
      LineSkipped \<Rightarrow> (events, ids)
    | LineEvent e \<Rightarrow>
        if event_id e = '''' then (events, ids)
        else if event_id e \<in> ids then (events, ids)
        else (events @ [e], insert (event_id e) ids)))"

definition store_load :: "string \<Rightarrow> event_store \<Rightarrow> ProcessingEvent list \<times> event_store" where
  "store_load runId st = (case map_of (es_cache st) runId of
      Some events \<Rightarrow> (events, st)
    | None \<Rightarrow>
        (case fold load_line (case map_of (es_files st) (safeRunId runId) of None \<Rightarrow> [] | Some f \<Rightarrow> ef_lines f)
            ([], es_ids st) of
          (events, ids) \<Rightarrow>
            (events, st\<lparr>es_cache := AList.update runId events (es_cache st), es_ids := ids\<rparr>)))"

definition store_append :: "ProcessingEvent \<Rightarrow> (event_store, js_error, unit) eff" where
  "store_append event st = (case store_load (run_id event) st of (events, st1) \<Rightarrow>
     if event_id event \<in> es_ids st1
     then (Inl (JsError (''duplicate processing event '' @ event_id event)), st1)
     else (let name = safeRunId (run_id event) in
       (Inr (), st1\<lparr>es_files := AList.update name (append_line event (map_of (es_files st1) name)) (es_files st1),
          es_cache := AList.update (run_id event) (events @ [event]) (es_cache st1),
          es_ids := insert (event_id event) (es_ids st1)\<rparr>)))"

definition store_last :: "string \<Rightarrow> event_store \<Rightarrow> ProcessingEvent option \<times> event_store" where
  "store_last runId st = (case store_load runId st of (events, st1) \<Rightarrow>
     (if events = [] then None else Some (last events), st1))"

definition runIds :: "event_store \<Rightarrow> string list" where
  "runIds st = map fst (es_files st)"

text \<open>A new process over the same directory.\<close>

definition reopen :: "event_store \<Rightarrow> event_store" where
  "reopen st = st\<lparr>es_cache := [], es_ids := {}\<rparr>"

section \<open>The bus\<close>

record EventData =
  ed_test_result :: "TestResult option"
  ed_issue_type :: "IssueType option"
  ed_issue :: "RootCause option"
  ed_artifact_id :: "string option"
  ed_message :: "string option"
  ed_scope :: "ProcessingScope option"

definition no_data :: EventData where
  "no_data = \<lparr>ed_test_result = None, ed_issue_type = None, ed_issue = None, ed_artifact_id = None,
     ed_message = None, ed_scope = None\<rparr>"

text \<open>
  A subscriber acts on the world beside the bus and may throw.  Two registrations
  of one callback are one entry of a JavaScript \<open>Set\<close>: the entries carry a number
  that identifies the callback.  The function \<open>subscribe\<close> returns keeps the \<open>Set\<close> object it
  added to, even after the map has another one: \<open>eb_sets\<close> are the objects, the map holds
  their numbers.
\<close>

type_synonym 'w subscriber = "nat \<times> (ProcessingEvent \<Rightarrow> ('w, js_error, unit) eff)"

record 'w event_bus =
  eb_sequence :: "(string \<times> nat) list"
  eb_traceIds :: "(string \<times> string) list"
  eb_history :: "(string \<times> ProcessingEvent list) list"
  eb_seen :: "(string \<times> string set) list"
  eb_sets :: "'w subscriber list list"
  eb_subscribers :: "(string \<times> nat) list"
  eb_observers :: "'w subscriber list"
  eb_store :: "event_store option"

definition new_bus :: "event_store option \<Rightarrow> 'w event_bus" where
  "new_bus store = \<lparr>eb_sequence = [], eb_traceIds = [], eb_history = [], eb_seen = [], eb_sets = [], eb_subscribers = [],
     eb_observers = [], eb_store = store\<rparr>"

definition or_zero :: "nat option \<Rightarrow> nat" where
  "or_zero x = (case x of None \<Rightarrow> 0 | Some n \<Rightarrow> n)"

definition seen_ids :: "'w event_bus \<Rightarrow> string \<Rightarrow> string set" where
  "seen_ids b runId = (case map_of (eb_seen b) runId of None \<Rightarrow> {} | Some s \<Rightarrow> s)"

definition hasSeen :: "'w event_bus \<Rightarrow> string \<Rightarrow> string \<Rightarrow> bool" where
  "hasSeen b runId eventId \<longleftrightarrow> eventId \<in> seen_ids b runId"

definition markSeen :: "string \<Rightarrow> string \<Rightarrow> 'w event_bus \<Rightarrow> 'w event_bus" where
  "markSeen runId eventId b = b\<lparr>eb_seen := AList.update runId (insert eventId (seen_ids b runId)) (eb_seen b)\<rparr>"

definition trace_of :: "string \<Rightarrow> string option" where
  "trace_of tp = (let parts = split_on (CHR ''-'') tp in
     if length parts = 4 then Some (parts ! 1) else None)"

definition set_trace :: "string \<Rightarrow> string \<Rightarrow> 'w event_bus \<Rightarrow> 'w event_bus" where
  "set_trace runId tp b = (case (if tp = '''' then None else trace_of tp) of
      None \<Rightarrow> b | Some t \<Rightarrow> b\<lparr>eb_traceIds := AList.update runId t (eb_traceIds b)\<rparr>)"

definition bus_load :: "string \<Rightarrow> 'w event_bus \<Rightarrow> ProcessingEvent list \<times> 'w event_bus" where
  "bus_load runId b = (case map_of (eb_history b) runId of
      Some h \<Rightarrow> (h, b)
    | None \<Rightarrow>
        (let (h, st) = (case eb_store b of
               None \<Rightarrow> ([], None)
             | Some s \<Rightarrow> (case store_load runId s of (events, s') \<Rightarrow> (events, Some s')));
             b1 = b\<lparr>eb_store := st, eb_history := AList.update runId h (eb_history b),
                eb_sequence := AList.update runId (if h = [] then 0 else sequence (last h)) (eb_sequence b)\<rparr>;
             b2 = fold (\<lambda>e. markSeen runId (event_id e)) h b1
         in (h, case h of [] \<Rightarrow> b2 | e # _ \<Rightarrow> set_trace runId (traceparent e) b2)))"

definition history_of :: "'w event_bus \<Rightarrow> string \<Rightarrow> ProcessingEvent list" where
  "history_of b runId = (case map_of (eb_history b) runId of None \<Rightarrow> [] | Some h \<Rightarrow> h)"

definition push_history :: "string \<Rightarrow> ProcessingEvent \<Rightarrow> 'w event_bus \<Rightarrow> 'w event_bus" where
  "push_history runId e b = b\<lparr>eb_history := AList.update runId (history_of b runId @ [e]) (eb_history b)\<rparr>"

text \<open>The bus with the world its subscribers act on.\<close>

type_synonym 'w bus_state = "'w event_bus \<times> 'w"

definition store_event :: "ProcessingEvent \<Rightarrow> ('w bus_state, js_error, unit) eff" where
  "store_event e = (\<lambda>(b, w). case eb_store b of
      None \<Rightarrow> (Inr (), (b, w))
    | Some s \<Rightarrow> (case store_append e s of (r, s') \<Rightarrow> (r, (b\<lparr>eb_store := Some s'\<rparr>, w))))"

definition in_world :: "('w, js_error, 'a) eff \<Rightarrow> ('w bus_state, js_error, 'a) eff" where
  "in_world m = (\<lambda>(b, w). case m w of (r, w') \<Rightarrow> (r, (b, w')))"

definition subscribers_of :: "'w event_bus \<Rightarrow> string \<Rightarrow> 'w subscriber list" where
  "subscribers_of b runId = (case map_of (eb_subscribers b) runId of None \<Rightarrow> [] | Some i \<Rightarrow> eb_sets b ! i)"

definition notify :: "string \<Rightarrow> ProcessingEvent \<Rightarrow> ('w bus_state, js_error, unit) eff" where
  "notify runId e = (\<lambda>(b, w).
     thenM (forM (eb_observers b) (\<lambda>(k, sub). in_world (sub e)))
       (forM (subscribers_of b runId) (\<lambda>(k, sub). in_world (sub e))) (b, w))"

record 'w bus_host =
  bh_uuid :: "'w \<Rightarrow> string \<times> 'w"
  bh_trace :: "'w \<Rightarrow> string \<times> 'w"
  bh_span :: "'w \<Rightarrow> string \<times> 'w"
  bh_now :: "'w \<Rightarrow> string \<times> 'w"

definition take_from :: "('w \<Rightarrow> 'a \<times> 'w) \<Rightarrow> ('w bus_state, js_error, 'a) eff" where
  "take_from f = (\<lambda>(b, w). case f w of (x, w') \<Rightarrow> (Inr x, (b, w')))"

definition change_bus :: "('w event_bus \<Rightarrow> 'w event_bus) \<Rightarrow> ('w bus_state, js_error, unit) eff" where
  "change_bus f = (\<lambda>(b, w). (Inr (), (f b, w)))"

definition truthy_text :: "string option \<Rightarrow> string option" where
  "truthy_text x = (if x = Some '''' then None else x)"

definition default_issue :: "string \<Rightarrow> IssueType \<Rightarrow> string option \<Rightarrow> RootCause" where
  "default_issue proc it msg = \<lparr>rc_issue = (case msg of None \<Rightarrow> proc @ '' failed'' | Some m \<Rightarrow> m),
     rc_expected = proc @ '' completes successfully'',
     rc_actual = (case msg of None \<Rightarrow> proc @ '' reported '' @ IssueType_str it | Some m \<Rightarrow> m),
     rc_evidence_ids = [], rc_required_correction = ''Correct the '' @ proc @ '' failure'',
     rc_recheck_target = proc\<rparr>"

text \<open>The two data checks of \<open>emit\<close>, and the issue fields it derives.\<close>

definition emit_check :: "ExecutionStatus \<Rightarrow> EventData \<Rightarrow> js_error + unit" where
  "emit_check st d =
     (if ed_test_result d = Some Passed \<and> (ed_issue_type d \<noteq> None \<or> ed_issue d \<noteq> None)
      then Inl (JsError ''Passed processing events cannot carry issue fields'')
      else if st = EFailed \<and> ed_test_result d \<noteq> None
      then Inl (JsError ''Failed stage execution cannot claim a completed test result'')
      else Inr ())"

definition emit_issue_type :: "ExecutionStatus \<Rightarrow> EventData \<Rightarrow> IssueType option" where
  "emit_issue_type st d = (case ed_issue_type d of
      Some it \<Rightarrow> Some it
    | None \<Rightarrow> if ed_test_result d = Some Failed \<or> st = EFailed then Some RootCauseIssue else None)"

definition emit_issue :: "string \<Rightarrow> ExecutionStatus \<Rightarrow> EventData \<Rightarrow> RootCause option" where
  "emit_issue proc st d = (case ed_issue d of
      Some i \<Rightarrow> Some i
    | None \<Rightarrow> map_option (\<lambda>it. default_issue proc it (ed_message d)) (emit_issue_type st d))"

definition emit_event ::
  "string \<Rightarrow> string \<Rightarrow> ExecutionStatus \<Rightarrow> EventData \<Rightarrow> nat \<Rightarrow> ProcessingEvent list \<Rightarrow> string \<Rightarrow> string \<Rightarrow> string \<Rightarrow> string \<Rightarrow>
   ProcessingEvent" where
  "emit_event r p st d seq h t sp uuid now = \<lparr>event_id = uuid, sequence = seq, run_id = r,
           scope = (case ed_scope d of None \<Rightarrow> WORKFLOW | Some s \<Rightarrow> s), processor = p,
           execution_status = st, test_result = ed_test_result d, issue_type = emit_issue_type st d,
           issue = emit_issue p st d, artifact_id = truthy_text (ed_artifact_id d),
           message = truthy_text (ed_message d), created_at = now,
           causation_id = (if h = [] then None else Some (event_id (last h))),
           correlation_id = ''run:'' @ r,
           traceparent = ''00-'' @ t @ ''-'' @ sp @ ''-01''\<rparr>"

definition emit ::
  "'w bus_host \<Rightarrow> string \<Rightarrow> string \<Rightarrow> ExecutionStatus \<Rightarrow> EventData \<Rightarrow> ('w bus_state, js_error, ProcessingEvent) eff" where
  "emit bh runId proc st d = (\<lambda>(b0, w0).
     (let (h, b) = bus_load runId b0; seq = or_zero (map_of (eb_sequence b) runId) + 1 in
      thenM (change_bus (\<lambda>b. b\<lparr>eb_sequence := AList.update runId seq (eb_sequence b)\<rparr>))
      (bindM (case map_of (eb_traceIds b) runId of Some t \<Rightarrow> returnM t | None \<Rightarrow> take_from (bh_trace bh)) (\<lambda>traceId.
      thenM (change_bus (\<lambda>b. b\<lparr>eb_traceIds := AList.update runId traceId (eb_traceIds b)\<rparr>))
      (bindM (take_from (bh_span bh)) (\<lambda>spanId.
      thenM (liftM (emit_check st d))
      (bindM (take_from (bh_uuid bh)) (\<lambda>uuid. bindM (take_from (bh_now bh)) (\<lambda>now.
      let e = emit_event runId proc st d seq h traceId spanId uuid now in
      thenM (change_bus (markSeen runId uuid))
      (thenM (store_event e)
      (thenM (change_bus (push_history runId e))
      (thenM (notify runId e) (returnM e))))))))))) (b, w0)))"

definition ingest :: "ProcessingEvent \<Rightarrow> ('w bus_state, js_error, bool) eff" where
  "ingest e = (\<lambda>(b0, w0).
     (if event_id e = '''' \<or> run_id e = '''' then (Inr False, (b0, w0))
      else (let runId = run_id e; b = snd (bus_load runId b0) in
        if hasSeen b runId (event_id e) then (Inr False, (b, w0))
        else thenM (change_bus (markSeen runId (event_id e)))
          (thenM (store_event e)
          (thenM (change_bus (push_history runId e))
          (thenM (change_bus (\<lambda>b. if sequence e > or_zero (map_of (eb_sequence b) runId)
             then b\<lparr>eb_sequence := AList.update runId (sequence e) (eb_sequence b)\<rparr> else b))
          (thenM (change_bus (\<lambda>b. if map_of (eb_traceIds b) runId = None then set_trace runId (traceparent e) b else b))
          (thenM (notify runId e) (returnM True)))))) (b, w0))))"

definition bus_list :: "string \<Rightarrow> ('w bus_state, js_error, ProcessingEvent list) eff" where
  "bus_list runId = (\<lambda>(b, w). case bus_load runId b of (h, b') \<Rightarrow> (Inr h, (b', w)))"

definition add_subscriber :: "'w subscriber \<Rightarrow> 'w subscriber list \<Rightarrow> 'w subscriber list" where
  "add_subscriber s subs = (if fst s \<in> fst ` set subs then subs else subs @ [s])"

definition observe :: "'w subscriber \<Rightarrow> 'w event_bus \<Rightarrow> 'w event_bus" where
  "observe s b = b\<lparr>eb_observers := add_subscriber s (eb_observers b)\<rparr>"

definition unobserve :: "nat \<Rightarrow> 'w event_bus \<Rightarrow> 'w event_bus" where
  "unobserve k b = b\<lparr>eb_observers := filter (\<lambda>s. fst s \<noteq> k) (eb_observers b)\<rparr>"

text \<open>\<open>subscribe\<close> also returns the number of the \<open>Set\<close> its unsubscribe function \<open>unsubscribe runId i k\<close> keeps.\<close>

definition subscribe :: "string \<Rightarrow> 'w subscriber \<Rightarrow> 'w event_bus \<Rightarrow> nat \<times> 'w event_bus" where
  "subscribe runId s b = (case map_of (eb_subscribers b) runId of
      Some i \<Rightarrow> (i, b\<lparr>eb_sets := (eb_sets b)[i := add_subscriber s (eb_sets b ! i)]\<rparr>)
    | None \<Rightarrow> (length (eb_sets b), b\<lparr>eb_sets := eb_sets b @ [[s]],
        eb_subscribers := AList.update runId (length (eb_sets b)) (eb_subscribers b)\<rparr>))"

definition unsubscribe :: "string \<Rightarrow> nat \<Rightarrow> nat \<Rightarrow> 'w event_bus \<Rightarrow> 'w event_bus" where
  "unsubscribe runId i k b = (let subs = filter (\<lambda>s. fst s \<noteq> k) (eb_sets b ! i) in
     b\<lparr>eb_sets := (eb_sets b)[i := subs],
       eb_subscribers := (if subs = [] then AList.delete runId (eb_subscribers b) else eb_subscribers b)\<rparr>)"

section \<open>Seen events\<close>

text \<open>
  The invariant of a bus: the ids of a loaded history are distinct and all seen;
  the store's cached lists have distinct ids, all in its id set.
\<close>

definition ids_in :: "ProcessingEvent list \<Rightarrow> string set \<Rightarrow> bool" where
  "ids_in es ids \<longleftrightarrow> distinct (map event_id es) \<and> event_id ` set es \<subseteq> ids"

definition store_ok :: "event_store \<Rightarrow> bool" where
  "store_ok st \<longleftrightarrow> (\<forall>es \<in> snd ` set (es_cache st). ids_in es (es_ids st))"

definition bus_ok :: "'w event_bus \<Rightarrow> bool" where
  "bus_ok b \<longleftrightarrow> (\<forall>r. ids_in (history_of b r) (seen_ids b r)) \<and> list_all store_ok (case eb_store b of None \<Rightarrow> [] | Some st \<Rightarrow> [st])"

lemma ids_in_mono: "ids_in es ids \<Longrightarrow> ids \<subseteq> ids' \<Longrightarrow> ids_in es ids'"
  by (auto simp: ids_in_def)

lemma ids_in_Nil [simp]: "ids_in [] ids"
  by (simp add: ids_in_def)

lemma ids_in_snoc: "ids_in es ids \<Longrightarrow> event_id e \<notin> ids \<Longrightarrow> ids_in (es @ [e]) (insert (event_id e) ids)"
  by (auto simp: ids_in_def)

lemma store_ok_update:
  assumes "store_ok st" and "ids_in es ids" and "es_ids st \<subseteq> ids"
  shows "store_ok (st\<lparr>es_cache := AList.update r es (es_cache st), es_ids := ids\<rparr>)"
proof -
  have "ids_in x ids" if "x \<in> snd ` set (AList.update r es (es_cache st))" for x
  proof -
    from that set_update_subset [of r es "es_cache st"] have "x = es \<or> x \<in> snd ` set (es_cache st)" by fastforce
    with assms show ?thesis by (auto simp: store_ok_def intro: ids_in_mono)
  qed
  then show ?thesis by (simp add: store_ok_def)
qed

lemma load_lines:
  "fold load_line ls (es, ids) = (es', ids') \<Longrightarrow> ids_in es ids \<Longrightarrow> ids_in es' ids' \<and> ids \<subseteq> ids'"
proof (induction ls arbitrary: es ids)
  case (Cons l ls)
  obtain es1 ids1 where s: "load_line l (es, ids) = (es1, ids1)" by fastforce
  with Cons.prems(2) have "ids_in es1 ids1 \<and> ids \<subseteq> ids1"
    by (auto simp: load_line_def intro: ids_in_snoc split: line.splits if_splits)
  with Cons.IH [of es1 ids1] Cons.prems(1) s show ?case by auto
qed simp

lemma store_load_ok:
  assumes "store_ok st" and "store_load r st = (es, st')"
  shows "store_ok st' \<and> ids_in es (es_ids st')"
proof (cases "map_of (es_cache st) r")
  case (Some cached)
  then have "cached \<in> snd ` set (es_cache st)" by (force dest: map_of_SomeD)
  with Some assms show ?thesis by (auto simp: store_load_def store_ok_def)
next
  case None
  obtain es1 ids1 where f: "fold load_line (case map_of (es_files st) (safeRunId r) of None \<Rightarrow> [] | Some f \<Rightarrow> ef_lines f)
      ([], es_ids st) = (es1, ids1)" by fastforce
  from load_lines [OF f] have l: "ids_in es1 ids1" "es_ids st \<subseteq> ids1" by auto
  from f None assms(2) have "es = es1" "st' = st\<lparr>es_cache := AList.update r es1 (es_cache st), es_ids := ids1\<rparr>"
    by (auto simp: store_load_def)
  with store_ok_update [OF assms(1) l] l show ?thesis by simp
qed

lemma store_append_ok:
  assumes "store_ok st" and "store_append e st = (x, st')"
  shows "store_ok st'"
proof -
  obtain es st1 where l: "store_load (run_id e) st = (es, st1)" by fastforce
  note s = store_load_ok [OF assms(1) l]
  show ?thesis
  proof (cases "event_id e \<in> es_ids st1")
    case True with l s assms(2) show ?thesis by (simp add: store_append_def)
  next
    case False
    then have "ids_in (es @ [e]) (insert (event_id e) (es_ids st1))" using s by (simp add: ids_in_snoc)
    from store_ok_update [OF s [THEN conjunct1] this, of "run_id e"] False l assms(2) show ?thesis
      by (fastforce simp: store_append_def store_ok_def Let_def)
  qed
qed

lemma seen_mark: "seen_ids (markSeen r i b) s = (if s = r then insert i (seen_ids b r) else seen_ids b s)"
  by (simp add: markSeen_def seen_ids_def update_conv)

lemma seen_mark_all: "seen_ids (fold (\<lambda>e. markSeen r (event_id e)) es b) s =
  (if s = r then event_id ` set es \<union> seen_ids b r else seen_ids b s)"
  by (induction es arbitrary: b) (auto simp: seen_mark)

lemma mark_frame [simp]:
  "eb_history (markSeen r i b) = eb_history b" "eb_store (markSeen r i b) = eb_store b"
  "eb_history (set_trace r t b) = eb_history b" "eb_seen (set_trace r t b) = eb_seen b"
  "eb_store (set_trace r t b) = eb_store b"
  by (simp_all add: markSeen_def set_trace_def split: option.splits)

lemma mark_all_frame [simp]:
  "eb_history (fold (\<lambda>e. markSeen r (event_id e)) es b) = eb_history b"
  "eb_store (fold (\<lambda>e. markSeen r (event_id e)) es b) = eb_store b"
  by (induction es arbitrary: b) auto

lemma seen_frame [simp]:
  "seen_ids (set_trace r t b) s = seen_ids b s"
  "seen_ids (b\<lparr>eb_store := x, eb_history := y, eb_sequence := z\<rparr>) s = seen_ids b s"
  by (simp_all add: seen_ids_def)

text \<open>What loading a run not yet loaded does.\<close>

lemma bus_load_new:
  assumes "map_of (eb_history b) r = None"
  obtains h b' where "bus_load r b = (h, b')" and "eb_history b' = AList.update r h (eb_history b)"
    and "\<And>s. seen_ids b' s = (if s = r then event_id ` set h \<union> seen_ids b r else seen_ids b s)"
    and "(case eb_store b of None \<Rightarrow> ([], None)
      | Some s \<Rightarrow> (case store_load r s of (events, s') \<Rightarrow> (events, Some s'))) = (h, eb_store b')"
proof -
  obtain h st where st: "(case eb_store b of None \<Rightarrow> ([], None)
      | Some s \<Rightarrow> (case store_load r s of (events, s') \<Rightarrow> (events, Some s'))) = (h, st)" by fastforce
  define b2 where "b2 = fold (\<lambda>e. markSeen r (event_id e)) h (b\<lparr>eb_store := st, eb_history := AList.update r h (eb_history b),
      eb_sequence := AList.update r (if h = [] then 0 else sequence (last h)) (eb_sequence b)\<rparr>)"
  have "bus_load r b = (h, case h of [] \<Rightarrow> b2 | e # _ \<Rightarrow> set_trace r (traceparent e) b2)"
    using st assms by (cases h) (simp_all add: bus_load_def Let_def b2_def)
  moreover have "eb_history b2 = AList.update r h (eb_history b)" "eb_store b2 = st"
    and "\<And>s. seen_ids b2 s = (if s = r then event_id ` set h \<union> seen_ids b r else seen_ids b s)"
    by (simp_all add: b2_def seen_mark_all)
  ultimately show ?thesis using st by (cases h) (auto intro: that)
qed

lemma bus_load_ok:
  assumes "bus_ok b" and "bus_load r b = (h, b')"
  shows "bus_ok b'" and "history_of b' r = h" and "map_of (eb_history b') r = Some h"
    and "seen_ids b s \<subseteq> seen_ids b' s"
    and "map_of (eb_history b) s = Some x \<Longrightarrow> map_of (eb_history b') s = Some x"
proof -
  have "bus_ok b' \<and> history_of b' r = h \<and> map_of (eb_history b') r = Some h \<and> seen_ids b s \<subseteq> seen_ids b' s \<and>
    (map_of (eb_history b) s = Some x \<longrightarrow> map_of (eb_history b') s = Some x)"
  proof (cases "map_of (eb_history b) r")
    case (Some h0)
    with assms show ?thesis by (auto simp: bus_load_def history_of_def)
  next
    case None
    then obtain h' b2 where b: "bus_load r b = (h', b2)" "eb_history b2 = AList.update r h' (eb_history b)"
      "\<And>s. seen_ids b2 s = (if s = r then event_id ` set h' \<union> seen_ids b r else seen_ids b s)"
      "(case eb_store b of None \<Rightarrow> ([], None)
        | Some s \<Rightarrow> (case store_load r s of (events, s') \<Rightarrow> (events, Some s'))) = (h', eb_store b2)"
      by (rule bus_load_new) blast
    from b(4) assms(1) have "distinct (map event_id h')" "list_all store_ok (case eb_store b2 of None \<Rightarrow> [] | Some st \<Rightarrow> [st])"
      by (auto simp: bus_ok_def ids_in_def split: option.splits prod.splits dest: store_load_ok)
    with assms b(1-3) None show ?thesis
      by (auto simp: bus_ok_def ids_in_def history_of_def update_conv split: if_splits)
  qed
  then show "bus_ok b'" "history_of b' r = h" "map_of (eb_history b') r = Some h" "seen_ids b s \<subseteq> seen_ids b' s"
    "map_of (eb_history b) s = Some x \<Longrightarrow> map_of (eb_history b') s = Some x" by auto
qed

text \<open>
  One recorded event: the id is marked, the store appends, the history grows; then
  sequence numbers, trace ids and the world may change, but neither history nor ids.
\<close>

definition same_ids :: "'w event_bus \<Rightarrow> 'w event_bus \<Rightarrow> bool" where
  "same_ids b c \<longleftrightarrow> eb_history c = eb_history b \<and> eb_seen c = eb_seen b \<and> eb_store c = eb_store b"

lemma same_ids_basic [simp]:
  "same_ids b b" "same_ids c (b\<lparr>eb_sequence := x\<rparr>) \<longleftrightarrow> same_ids c b"
  "same_ids c (b\<lparr>eb_traceIds := y\<rparr>) \<longleftrightarrow> same_ids c b" "same_ids c (set_trace r t b) \<longleftrightarrow> same_ids c b"
  by (simp_all add: same_ids_def)

lemma change_then [simp]: "thenM (change_bus f) m (b, w) = m (f b, w)"
  by (simp add: thenM_apply change_bus_def)

lemma same_ids_trans: "same_ids a b \<Longrightarrow> same_ids b c \<Longrightarrow> same_ids a c"
  by (simp add: same_ids_def)

lemma same_ids_ok: "same_ids b c \<Longrightarrow> bus_ok c \<longleftrightarrow> bus_ok b"
  by (simp add: same_ids_def bus_ok_def history_of_def seen_ids_def)

lemma in_world_bus: "in_world m (b, w) = (r, (b', w')) \<Longrightarrow> b' = b"
  by (auto simp: in_world_def split: prod.splits)

lemma notify_each: "forM subs (\<lambda>(k, sub). in_world (sub e)) (b, w) = (r, (b', w')) \<Longrightarrow> b' = b"
  by (induction subs arbitrary: w)
    (auto simp: returnM_apply elim!: thenM_cases dest: in_world_bus)

lemma notify_bus: "notify runId e (b, w) = (r, (b', w')) \<Longrightarrow> b' = b"
  unfolding notify_def by (auto elim!: thenM_cases dest!: notify_each)

definition recorded :: "string \<Rightarrow> ProcessingEvent \<Rightarrow> 'w event_bus \<Rightarrow> 'w event_bus \<Rightarrow> bool" where
  "recorded r e b b' \<longleftrightarrow> (\<exists>c. eb_seen c = eb_seen (markSeen r (event_id e) b) \<and>
     list_all store_ok (case eb_store c of None \<Rightarrow> [] | Some st \<Rightarrow> [st]) \<and>
     (eb_history c = eb_history b \<or> eb_history c = AList.update r (history_of b r @ [e]) (eb_history b)) \<and> same_ids c b')"

lemma recorded_ok:
  assumes "bus_ok b" and "event_id e \<notin> seen_ids b r" and "map_of (eb_history b) r \<noteq> None" and "recorded r e b b'"
  shows "bus_ok b'" and "event_id e \<in> seen_ids b' r" and "seen_ids b s \<subseteq> seen_ids b' s"
    and "map_of (eb_history b) s \<noteq> None \<Longrightarrow> map_of (eb_history b') s \<noteq> None"
proof -
  from assms(4) obtain c where c: "eb_seen c = eb_seen (markSeen r (event_id e) b)"
     "list_all store_ok (case eb_store c of None \<Rightarrow> [] | Some st \<Rightarrow> [st])"
     "eb_history c = eb_history b \<or> eb_history c = AList.update r (history_of b r @ [e]) (eb_history b)" "same_ids c b'"
    unfolding recorded_def by blast
  have s: "seen_ids c t = (if t = r then insert (event_id e) (seen_ids b r) else seen_ids b t)" for t
    using c(1) seen_mark [of r "event_id e" b t] by (simp add: seen_ids_def)
  have h: "history_of c t = history_of b t \<or> t = r \<and> history_of c t = history_of b r @ [e]" for t
    using c(3) by (cases "t = r") (auto simp: history_of_def update_conv)
  have "ids_in (history_of c t) (seen_ids c t)" for t
    using h [of t] assms(1,2) ids_in_snoc [of "history_of b r" "seen_ids b r" e]
      ids_in_mono [OF _ subset_insertI, of "history_of b r" "seen_ids b r" "event_id e"]
    by (auto simp: s bus_ok_def)
  with c(2) have "bus_ok c" by (simp add: bus_ok_def)
  with same_ids_ok [OF c(4)] show "bus_ok b'" by simp
  have b': "seen_ids b' = seen_ids c" "eb_history b' = eb_history c" using c(4) by (auto simp: same_ids_def seen_ids_def)
  show "event_id e \<in> seen_ids b' r" "seen_ids b s \<subseteq> seen_ids b' s" by (auto simp: b' s)
  show "map_of (eb_history b) s \<noteq> None \<Longrightarrow> map_of (eb_history b') s \<noteq> None"
    using c(3) by (auto simp: b' update_conv)
qed

lemma store_event_result:
  assumes "list_all store_ok (case eb_store b of None \<Rightarrow> [] | Some st \<Rightarrow> [st])"
    and "store_event e (b, w) = (r, (b', w'))"
  shows "eb_seen b' = eb_seen b \<and> eb_history b' = eb_history b \<and>
    list_all store_ok (case eb_store b' of None \<Rightarrow> [] | Some st \<Rightarrow> [st])"
  using assms by (auto simp: store_event_def split: option.splits prod.splits dest: store_append_ok)

lemma record_steps:
  assumes "thenM (change_bus (markSeen r (event_id e))) (thenM (store_event e)
      (thenM (change_bus (push_history r e)) tail)) (b, w) = (x, (b', w'))"
    and "\<And>c v x c' v'. tail (c, v) = (x, (c', v')) \<Longrightarrow> same_ids c c'"
    and "bus_ok b"
  shows "recorded r e b b'"
proof -
  let ?b = "markSeen r (event_id e) b"
  from assms(1) have "thenM (store_event e) (thenM (change_bus (push_history r e)) tail) (?b, w) = (x, (b', w'))"
    by simp
  then show ?thesis
  proof (cases rule: thenM_cases)
    case (stopped err)
    then have "store_event e (?b, w) = (Inl err, (b', w'))" by simp
    from store_event_result [OF _ this] assms(3) show ?thesis unfolding recorded_def
      by (intro exI [of _ b']) (auto simp: bus_ok_def)
  next
    case (went_on u s1)
    obtain c v where s1: "s1 = (c, v)" by fastforce
    from went_on s1 have st: "store_event e (?b, w) = (Inr u, (c, v))" by simp
    have "list_all store_ok (case eb_store ?b of None \<Rightarrow> [] | Some st \<Rightarrow> [st])" using assms(3) by (simp add: bus_ok_def)
    note c = store_event_result [OF this st]
    from went_on s1 have "tail (push_history r e c, v) = (x, (b', w'))"
      by simp
    from assms(2) [OF this] have "same_ids (push_history r e c) b'" .
    with c show ?thesis unfolding recorded_def
      by (intro exI [of _ "push_history r e c"]) (auto simp: push_history_def history_of_def)
  qed
qed

lemma notify_keeps: "thenM (notify r e) (returnM y) (c, v) = (x, (c', v')) \<Longrightarrow> c' = c \<and> x \<noteq> Inr z \<or> c' = c \<and> x = Inr y"
  by (auto simp: returnM_apply elim!: thenM_cases dest: notify_bus)

lemma ingest_result:
  assumes "bus_ok b" and "ingest e (b, w) = (x, (b', w'))"
  shows "b' = b \<and> x = Inr False \<or>
    (\<exists>h b1. bus_load (run_id e) b = (h, b1) \<and> (b' = b1 \<and> x = Inr False \<and> event_id e \<in> seen_ids b1 (run_id e) \<or>
      event_id e \<notin> seen_ids b1 (run_id e) \<and> recorded (run_id e) e b1 b' \<and> x \<noteq> Inr False))"
proof -
  obtain h b1 where l: "bus_load (run_id e) b = (h, b1)" by fastforce
  note ok = bus_load_ok [OF assms(1) l]
  show ?thesis
  proof (cases "event_id e = '''' \<or> run_id e = '''' \<or> event_id e \<in> seen_ids b1 (run_id e)")
    case True
    with assms(2) l show ?thesis by (auto simp: ingest_def Let_def hasSeen_def split: if_splits)
  next
    case False
    with assms(2) l have rest: "thenM (change_bus (markSeen (run_id e) (event_id e)))
          (thenM (store_event e)
          (thenM (change_bus (push_history (run_id e) e))
          (thenM (change_bus (\<lambda>b. if sequence e > or_zero (map_of (eb_sequence b) (run_id e))
             then b\<lparr>eb_sequence := AList.update (run_id e) (sequence e) (eb_sequence b)\<rparr> else b))
          (thenM (change_bus (\<lambda>b. if map_of (eb_traceIds b) (run_id e) = None then set_trace (run_id e) (traceparent e) b else b))
          (thenM (notify (run_id e) e) (returnM True)))))) (b1, w) = (x, (b', w'))"
      by (simp add: ingest_def Let_def hasSeen_def)
    have "recorded (run_id e) e b1 b'"
      by (rule record_steps [OF rest _ ok(1)])
        (auto elim!: thenM_cases dest!: notify_bus simp: returnM_apply split: if_splits)
    moreover have "x \<noteq> Inr False" using rest
      by (auto elim!: thenM_cases simp: returnM_apply)
    ultimately have "recorded (run_id e) e b1 b' \<and> x \<noteq> Inr False" ..
    with l False show ?thesis by auto
  qed
qed


text \<open>
  \<open>emit\<close> stops before it recorded anything, or records an event under the uuid it
  drew, which is new by the law of \<open>randomUUID\<close>.
\<close>

definition drawn_uuid :: "'w bus_host \<Rightarrow> string \<Rightarrow> 'w event_bus \<Rightarrow> 'w \<Rightarrow> string" where
  "drawn_uuid bh r b w = (let w1 = (if map_of (eb_traceIds b) r = None then snd (bh_trace bh w) else w)
     in fst (bh_uuid bh (snd (bh_span bh w1))))"

definition fresh_uuid :: "'w bus_host \<Rightarrow> string \<Rightarrow> 'w event_bus \<Rightarrow> 'w \<Rightarrow> bool" where
  "fresh_uuid bh r b w \<longleftrightarrow> (let b1 = snd (bus_load r b) in drawn_uuid bh r b1 w \<notin> seen_ids b1 r)"

lemma take_from_then:
  "bindM (take_from f) m (b, w) = (case f w of (x, w') \<Rightarrow> m x (b, w'))"
  by (simp add: bindM_apply take_from_def split: prod.split)

lemma returnM_then: "bindM (returnM a) m s = m a s"
  by (simp add: bindM_apply returnM_apply)

definition emit_tail :: "string \<Rightarrow> ProcessingEvent \<Rightarrow> ('w bus_state, js_error, ProcessingEvent) eff" where
  "emit_tail r e = thenM (change_bus (markSeen r (event_id e))) (thenM (store_event e)
        (thenM (change_bus (push_history r e)) (thenM (notify r e) (returnM e))))"

lemma emit_unfold:
  assumes "bus_load r b = (h, b1)"
    and "(case map_of (eb_traceIds b1) r of Some t \<Rightarrow> (t, w) | None \<Rightarrow> bh_trace bh w) = (t, w1)"
    and "bh_span bh w1 = (sp, w2)" and "bh_uuid bh w2 = (uuid, w3)" and "bh_now bh w3 = (now, w4)"
  shows "emit bh r p st d (b, w) =
    (let seq = or_zero (map_of (eb_sequence b1) r) + 1;
         c = b1\<lparr>eb_sequence := AList.update r seq (eb_sequence b1), eb_traceIds := AList.update r t (eb_traceIds b1)\<rparr>
     in case emit_check st d of Inl err \<Rightarrow> (Inl err, (c, w2))
        | Inr _ \<Rightarrow> emit_tail r (emit_event r p st d seq h t sp uuid now) (c, w4))"
proof -
  have check: "thenM (liftM x) m s = (case x of Inl err \<Rightarrow> (Inl err, s) | Inr _ \<Rightarrow> m s)"
    for x :: "js_error + unit" and m and s :: "'a bus_state"
    by (simp add: thenM_apply liftM_apply split: sum.split)
  have id: "event_id (emit_event r p st d seq h t sp uuid now) = uuid" for seq
    by (simp add: emit_event_def)
  show ?thesis
  proof (cases "map_of (eb_traceIds b1) r")
    case None
    with assms(2-) show ?thesis
      by (simp add: emit_def assms(1) Let_def take_from_then check emit_tail_def id cong: sum.case_cong)
  next
    case (Some t0)
    with assms(2-) show ?thesis
      by (simp add: emit_def assms(1) Let_def take_from_then returnM_then check emit_tail_def id cong: sum.case_cong)
  qed
qed

lemma emit_result:
  assumes "bus_ok b" and "emit bh r p st d (b, w) = (x, (b', w'))" and "fresh_uuid bh r b w"
  obtains (stopped) "same_ids (snd (bus_load r b)) b'" and "isl x"
    | (recorded) c e where "same_ids (snd (bus_load r b)) c" and "recorded r e c b'" and "event_id e \<notin> seen_ids c r"
proof -
  obtain h b1 where l: "bus_load r b = (h, b1)" by fastforce
  obtain t w1 where t: "(case map_of (eb_traceIds b1) r of Some t \<Rightarrow> (t, w) | None \<Rightarrow> bh_trace bh w) = (t, w1)" by fastforce
  obtain sp w2 where sp: "bh_span bh w1 = (sp, w2)" by fastforce
  obtain uuid w3 where uuid: "bh_uuid bh w2 = (uuid, w3)" by fastforce
  obtain now w4 where now: "bh_now bh w3 = (now, w4)" by fastforce
  define seq where "seq = or_zero (map_of (eb_sequence b1) r) + 1"
  define c where "c = b1\<lparr>eb_sequence := AList.update r seq (eb_sequence b1), eb_traceIds := AList.update r t (eb_traceIds b1)\<rparr>"
  define e where "e = emit_event r p st d seq h t sp uuid now"
  have m: "(case emit_check st d of Inl err \<Rightarrow> (Inl err, (c, w2)) | Inr _ \<Rightarrow> emit_tail r e (c, w4)) = (x, (b', w'))"
    using emit_unfold [OF l t sp uuid now, of p st d] assms(2) unfolding c_def seq_def e_def Let_def by (rule subst)
  have c: "same_ids b1 c" by (simp add: c_def)
  have "uuid = drawn_uuid bh r b1 w"
    using t sp uuid by (auto simp: drawn_uuid_def split: option.splits)
  with assms(3) l c have fresh: "event_id e \<notin> seen_ids c r"
    by (simp add: fresh_uuid_def e_def emit_event_def same_ids_def seen_ids_def)
  show ?thesis
  proof (cases "emit_check st d")
    case (Inl err)
    with m c l show ?thesis by (intro stopped) auto
  next
    case (Inr u)
    with m have "thenM (change_bus (markSeen r (event_id e))) (thenM (store_event e)
        (thenM (change_bus (push_history r e)) (thenM (notify r e) (returnM e)))) (c, w4) = (x, (b', w'))"
      by (simp add: emit_tail_def)
    then have "recorded r e c b'"
    proof (rule record_steps)
      show "bus_ok c" using bus_load_ok(1) [OF assms(1) l] same_ids_ok [OF c] by simp
    qed (auto elim!: thenM_cases dest!: notify_bus simp: returnM_apply)
    with c l fresh show ?thesis by (intro recorded) auto
  qed
qed

section \<open>Every delivery recorded once\<close>

text \<open>
  The states a bus goes through: a process starts over the directory's files,
  emits, receives deliveries, lists runs and changes its observers, while the
  world moves on by itself.
\<close>

inductive bus_reach :: "'w bus_host \<Rightarrow> 'w event_bus \<Rightarrow> 'w \<Rightarrow> bool" for bh where
  start: "bus_reach bh (new_bus (map_option reopen store)) w"
| emit: "bus_reach bh b w \<Longrightarrow> fresh_uuid bh r b w \<Longrightarrow> emit bh r p st d (b, w) = (x, (b', w')) \<Longrightarrow> bus_reach bh b' w'"
| ingest: "bus_reach bh b w \<Longrightarrow> ingest e (b, w) = (x, (b', w')) \<Longrightarrow> bus_reach bh b' w'"
| list: "bus_reach bh b w \<Longrightarrow> bus_list r (b, w) = (x, (b', w')) \<Longrightarrow> bus_reach bh b' w'"
| subscriptions: "bus_reach bh b w \<Longrightarrow> b' \<in> {observe s b, unobserve k b, snd (subscribe r s b), unsubscribe r i k b} \<Longrightarrow>
    bus_reach bh b' w"
| world: "bus_reach bh b w \<Longrightarrow> bus_reach bh b w'"

lemma same_ids_subscriptions:
  "b' \<in> {observe s b, unobserve k b, snd (subscribe r s b), unsubscribe r i k b} \<Longrightarrow> same_ids b b'"
  by (auto simp: same_ids_def observe_def unobserve_def subscribe_def unsubscribe_def Let_def split: option.splits)

lemma same_ids_history: "same_ids b c \<Longrightarrow> map_of (eb_history c) r = map_of (eb_history b) r"
  by (simp add: same_ids_def)

lemma start_ok: "bus_ok (new_bus (map_option reopen store))"
  by (cases store) (simp_all add: bus_ok_def new_bus_def history_of_def store_ok_def reopen_def)

lemma bus_reach_ok: "bus_reach bh b w \<Longrightarrow> bus_ok b"
proof (induction rule: bus_reach.induct)
  case (start store w)
  show ?case by (rule start_ok)
next
  case (emit b w r p st d x b' w')
  obtain h b1 where l: "bus_load r b = (h, b1)" by fastforce
  note ok = bus_load_ok [OF emit.IH l]
  from emit.IH emit.hyps(3,2) show ?case
  proof (cases rule: emit_result)
    case stopped
    with ok(1) l show ?thesis by (simp add: same_ids_ok)
  next
    case (recorded c e)
    from recorded(1) ok(1) l have c: "bus_ok c" by (simp add: same_ids_ok)
    from same_ids_history [OF recorded(1), of r] ok(3) l have "map_of (eb_history c) r \<noteq> None" by simp
    from recorded_ok(1) [OF c recorded(3) this recorded(2)] show ?thesis .
  qed
next
  case (ingest b w e x b' w')
  from ingest_result [OF ingest.IH ingest.hyps(2)] ingest.IH show ?case
  proof (elim disjE exE conjE)
    fix h b1 assume l: "bus_load (run_id e) b = (h, b1)" and n: "event_id e \<notin> seen_ids b1 (run_id e)"
      and rec: "recorded (run_id e) e b1 b'"
    note ok = bus_load_ok [OF ingest.IH l]
    from ok(3) have "map_of (eb_history b1) (run_id e) \<noteq> None" by simp
    from recorded_ok(1) [OF ok(1) n this rec] show ?thesis .
  qed (auto dest: bus_load_ok(1))
next
  case (list b w r x b' w')
  then show ?case by (auto simp: bus_list_def split: prod.splits dest: bus_load_ok(1))
next
  case (subscriptions b w b' s k r i)
  then show ?case using same_ids_ok [OF same_ids_subscriptions] by blast
qed

lemma history_loaded: "e \<in> set (history_of b r) \<Longrightarrow> map_of (eb_history b) r = Some (history_of b r)"
  by (cases "map_of (eb_history b) r") (simp_all add: history_of_def)

lemma ingest_seen:
  assumes "map_of (eb_history b) (run_id e) = Some h" and "event_id e \<in> seen_ids b (run_id e)"
  shows "ingest e (b, w) = (Inr False, (b, w))"
  using assms by (simp add: ingest_def bus_load_def hasSeen_def Let_def)

lemma ingest_redelivered:
  assumes "bus_ok b" and "ingest e (b, w) = (x, (b', w'))" and "event_id e \<noteq> ''''" and "run_id e \<noteq> ''''"
  shows "ingest e (b', v) = (Inr False, (b', v))"
proof -
  obtain h b1 where l: "bus_load (run_id e) b = (h, b1)" by fastforce
  note ok = bus_load_ok [OF assms(1) l]
  show ?thesis
  proof (cases "event_id e \<in> seen_ids b1 (run_id e)")
    case True
    with assms(2-4) l have "b' = b1" by (simp add: ingest_def hasSeen_def)
    with True ok(3) show ?thesis by (simp add: ingest_seen)
  next
    case False
    have "x \<noteq> Inr False \<or> b' \<noteq> b" if "recorded (run_id e) e b1 b'" for x :: "js_error + bool"
      using that False ok(4) by (metis (full_types) recorded_ok(2) [OF ok(1) False _ that] ok(3) option.distinct(1) subsetD)
    from ingest_result [OF assms(1,2)] l False have "recorded (run_id e) e b1 b' \<or> b' = b \<and> x = Inr False" by auto
    moreover have "\<not> (b' = b \<and> x = Inr False)"
    proof
      assume "b' = b \<and> x = Inr False"
      with assms(2-4) l False show False
        by (auto simp: ingest_def hasSeen_def Let_def returnM_apply elim!: thenM_cases)
    qed
    ultimately have rec: "recorded (run_id e) e b1 b'" by blast
    from ok(3) have "map_of (eb_history b1) (run_id e) \<noteq> None" by simp
    note new = recorded_ok [OF ok(1) False this rec]
    from new(4) [of "run_id e"] ok(3) obtain h' where "map_of (eb_history b') (run_id e) = Some h'" by auto
    with new(2) show ?thesis by (rule ingest_seen [rotated])
  qed
qed

text \<open>
  C36.  In every state a bus reaches, whatever is emitted, delivered,
  loaded from files or thrown by a subscriber, the events in the history of a run have distinct
  ids; a delivery of an event already in its run's history changes nothing; and once a
  well-formed event was delivered, whatever came of it, delivering it again answers
  \<open>False\<close> and changes nothing.  The host's only promise is that an emitted event's uuid is new.
\<close>

theorem event_once:
  assumes "bus_reach bh b w"
  shows "distinct (map event_id (history_of b r)) \<and>
    (\<forall>e \<in> set (history_of b r). run_id e = r \<longrightarrow> ingest e (b, w) = (Inr False, (b, w))) \<and>
    (\<forall>e x b' w' v. event_id e \<noteq> '''' \<longrightarrow> run_id e \<noteq> '''' \<longrightarrow> ingest e (b, w) = (x, (b', w')) \<longrightarrow>
      ingest e (b', v) = (Inr False, (b', v)))"
proof (intro conjI ballI allI impI)
  note ok = bus_reach_ok [OF assms]
  then have ids: "ids_in (history_of b r) (seen_ids b r)" by (simp add: bus_ok_def)
  then show "distinct (map event_id (history_of b r))" by (simp add: ids_in_def)
  fix e assume "e \<in> set (history_of b r)" "run_id e = r"
  with ids show "ingest e (b, w) = (Inr False, (b, w))"
    by (intro ingest_seen) (auto simp: ids_in_def dest: history_loaded)
next
  fix e x b' w' v
  assume "event_id e \<noteq> ''''" "run_id e \<noteq> ''''" "ingest e (b, w) = (x, (b', w'))"
  with ingest_redelivered [OF bus_reach_ok [OF assms]] show "ingest e (b', v) = (Inr False, (b', v))" by blast
qed

definition counting_host :: "nat bus_host" where
  "counting_host = \<lparr>bh_uuid = (\<lambda>n. (replicate n (CHR ''u''), Suc n)), bh_trace = (\<lambda>n. (''t'', n)),
     bh_span = (\<lambda>n. (''s'', n)), bh_now = (\<lambda>n. (''now'', n))\<rparr>"

definition bus_event :: "string \<Rightarrow> nat \<Rightarrow> ProcessingEvent" where
  "bus_event i n = emit_event ''r'' ''p'' ECompleted no_data n [] ''t'' ''s'' i ''now''"

definition bus_of :: "(js_error + 'a) \<times> 'w bus_state \<Rightarrow> 'w event_bus" where
  "bus_of x = fst (snd x)"

text \<open>A delivery after an emission, over a store; then the delivery repeated.\<close>

definition sample_bus :: "nat event_bus" where
  "sample_bus = bus_of (ingest (bus_event ''x'' 7) (bus_of (emit counting_host ''r'' ''p'' ERunning no_data
     (new_bus (map_option reopen (Some \<lparr>es_files = [], es_cache = [], es_ids = {}\<rparr>)), 1)), 2))"

lemma sample_bus_reached: "bus_reach counting_host sample_bus 2"
proof -
  let ?b0 = "new_bus (map_option reopen (Some \<lparr>es_files = [], es_cache = [], es_ids = {}\<rparr>)) :: nat event_bus"
  have fresh: "fresh_uuid counting_host ''r'' ?b0 1"
    by (simp add: fresh_uuid_def drawn_uuid_def new_bus_def bus_load_def store_load_def reopen_def seen_ids_def Let_def)
  obtain x b1 w1 where e: "emit counting_host ''r'' ''p'' ERunning no_data (?b0, 1) = (x, (b1, w1))" by (metis prod.exhaust)
  obtain y b2 w2 where i: "ingest (bus_event ''x'' 7) (b1, 2) = (y, (b2, w2))" by (metis prod.exhaust)
  from bus_reach.emit [OF bus_reach.start fresh e] have "bus_reach counting_host b1 2" by (rule bus_reach.world)
  from bus_reach.ingest [OF this i] have "bus_reach counting_host b2 2" by (rule bus_reach.world)
  moreover have "sample_bus = b2" using e i by (simp add: sample_bus_def bus_of_def)
  ultimately show ?thesis by simp
qed

lemma event_once_witness:
  "map event_id (history_of sample_bus ''r'') = [''u'', ''x''] \<and>
   ingest (bus_event ''x'' 7) (sample_bus, 2) = (Inr False, (sample_bus, 2))"
proof
  show h: "map event_id (history_of sample_bus ''r'') = [''u'', ''x'']" by code_simp
  have "event_id e = ''x'' \<Longrightarrow> e \<in> set (history_of sample_bus ''r'') \<Longrightarrow> True" for e by simp
  have "bus_event ''x'' 7 \<in> set (history_of sample_bus ''r'')" by code_simp
  moreover have "run_id (bus_event ''x'' 7) = ''r''" by code_simp
  ultimately show "ingest (bus_event ''x'' 7) (sample_bus, 2) = (Inr False, (sample_bus, 2))"
    using event_once [OF sample_bus_reached, of "''r''"] by blast
qed

text \<open>
  Three limits.  A line appended after a torn tail continues it, and is gone for the
  next process.  A restarted bus continues from the sequence number of the last
  line, not the greatest one, and repeats a number after interleaved writers.
  An unsubscribe function called a second time removes the subscribers that came after it.
\<close>

lemma torn_tail_example:
  "(case store_append (bus_event ''x'' 2) \<lparr>es_files = [(''r'', \<lparr>ef_lines = [LineEvent (bus_event ''a'' 1)], ef_torn = True\<rparr>)],
       es_cache = [], es_ids = {}\<rparr> of (r, st) \<Rightarrow>
     (r, map event_id (fst (store_load ''r'' st)), map event_id (fst (store_load ''r'' (reopen st)))))
   = (Inr (), [''a'', ''x''], [''a''])"
  by code_simp

lemma repeated_sequence_example:
  "(case emit counting_host ''r'' ''p'' ERunning no_data (new_bus (Some \<lparr>es_files = [(''r'', \<lparr>ef_lines =
       [LineEvent (bus_event ''a'' 1), LineEvent (bus_event ''b'' 3), LineEvent (bus_event ''c'' 2)],
       ef_torn = False\<rparr>)], es_cache = [], es_ids = {}\<rparr>), 1) of (r, (b, w)) \<Rightarrow> map sequence (history_of b ''r''))
   = [1, 3, 2, 3]"
  by code_simp

lemma double_unsubscribe_example:
  "(let quiet = (\<lambda>_. returnM ()); (i, b1) = subscribe ''r'' (1, quiet) (new_bus None :: nat event_bus);
        (j, b2) = subscribe ''r'' (2, quiet) (unsubscribe ''r'' i 1 b1) in
     (map fst (subscribers_of b2 ''r''), subscribers_of (unsubscribe ''r'' i 1 b2) ''r'')) = ([2], [])"
  by (simp add: subscribe_def unsubscribe_def new_bus_def subscribers_of_def)

end
