(* ===== verification/Run_Services.thy ===== *)
theory Run_Services
  imports Human_Review Run_Repository Event_Log
begin

text \<open>
  What a run is driven with: the artifact store, the run repository and the event bus, as
  the pipeline (\<open>backend/pipeline/context.ts\<close>) and the workflow runtime
  (\<open>backend/runtime/workflow-runtime.ts\<close>) use them.  The two drivers see the record
  \<open>RunServices\<close>; its laws are the locale \<open>run_services\<close>, interpreted at the end on the file
  store, the repository and the bus of this library.
\<close>

named_theorems svc_frames

section \<open>The services\<close>

record ('w, 'o) RunServices =
  svc_store :: "('w, 'o) store"
  svc_get :: "string \<Rightarrow> ('w, js_error, RunSnapshot option) eff"
  svc_artifact :: "string \<Rightarrow> string \<Rightarrow> string \<Rightarrow> ('w, js_error, unit) eff"
  svc_finish :: "string \<Rightarrow> finalization \<Rightarrow> ('w, js_error, RunSnapshot) eff"
  svc_emit :: "string \<Rightarrow> string \<Rightarrow> ExecutionStatus \<Rightarrow> EventData \<Rightarrow> ('w, js_error, unit) eff"

text \<open>\<open>runs.require\<close>, and a save that is also recorded in the run's snapshot.\<close>

definition svc_require :: "('w, 'o) RunServices \<Rightarrow> string \<Rightarrow> ('w, js_error, RunSnapshot) eff" where
  "svc_require S runId = bindM (svc_get S runId) (\<lambda>s. case s of
     None \<Rightarrow> throwM (JsError (''Unknown run '' @ runId)) | Some r \<Rightarrow> returnM r)"

definition saveArtifact :: "('w, 'o) RunServices \<Rightarrow> string \<Rightarrow> string \<Rightarrow> 'o artifact \<Rightarrow> ('w, js_error, string) eff" where
  "saveArtifact S runId name v = bindM (lift_fs (as_save (svc_store S) runId name v)) (\<lambda>path.
     thenM (svc_artifact S runId name path) (returnM path))"

text \<open>
  A snapshot without what the bus's observer adds to it: an event changes a run's events and
  its current processor, and nothing else.
\<close>

definition settled :: "RunSnapshot \<Rightarrow> RunSnapshot" where
  "settled r = r\<lparr>rs_events := [], current_processor := None\<rparr>"

lemma settled_simps [simp]:
  "settled (with_event e r) = settled r" "settled (with_artifact n p r) = with_artifact n p (settled r)"
  "settled (finished fi r) = finished fi (settled r)" "settled (settled r) = settled r"
  "pipeline_status (settled r) = pipeline_status r" "artifacts (settled r) = artifacts r"
  "rs_test_result (settled r) = rs_test_result r" "root_cause (settled r) = root_cause r"
  "hash_proof (settled r) = hash_proof r" "rs_issue_type (settled r) = rs_issue_type r"
  "help_request (settled r) = help_request r"
  by (simp_all add: settled_def with_event_def with_artifact_def finished_def)

section \<open>The laws\<close>

text \<open>
  \<open>view\<close> are the stored artifacts and \<open>recs\<close> the settled snapshots.  A call that fails has
  left the snapshot as it was, or changed as asked (the cache is changed before it is
  persisted).
\<close>

locale run_services = review_store "svc_store S" view
  for S :: "('w, 'o) RunServices" and view +
  fixes recs :: "'w \<Rightarrow> string \<rightharpoonup> RunSnapshot"
  assumes get_law: "svc_get S r w = (x, w') \<Longrightarrow> view w' = view w \<and> recs w' = recs w \<and>
      (\<forall>s. x = Inr s \<longrightarrow> map_option settled s = recs w r)"
    and artifact_law: "svc_artifact S r n p w = (y, w') \<Longrightarrow> view w' = view w \<and>
      ((\<exists>e. y = Inl e) \<and> recs w' = recs w \<or> (\<exists>s. recs w r = Some s \<and> recs w' = (recs w)(r \<mapsto> with_artifact n p s)))"
    and finish_law: "svc_finish S r fi w = (z, w') \<Longrightarrow> view w' = view w \<and>
      ((\<exists>e. z = Inl e) \<and> recs w' = recs w \<or>
       (\<exists>s. recs w r = Some s \<and> recs w' = (recs w)(r \<mapsto> finished fi s) \<and> (\<forall>t. z = Inr t \<longrightarrow> settled t = finished fi s)))"
    and emit_law: "svc_emit S r p st d w = (u, w') \<Longrightarrow> view w' = view w \<and> recs w' = recs w"
    and save_recs: "as_save (svc_store S) r n v w = (q, w') \<Longrightarrow> recs w' = recs w"
    and load_law: "as_load (svc_store S) r n w = (q', w') \<Longrightarrow> view w' = view w \<and> recs w' = recs w"
    and create_recs: "as_create (svc_store S) = Some c \<Longrightarrow> c r n v w = (q'', w') \<Longrightarrow> recs w' = recs w"
begin

lemma require_result:
  assumes "svc_require S r w = (x, w')"
  shows "view w' = view w" and "recs w' = recs w" and "x = Inr s \<Longrightarrow> recs w r = Some (settled s)"
proof -
  obtain y w1 where g: "svc_get S r w = (y, w1)" by fastforce
  from get_law [OF g] assms g show "view w' = view w" "recs w' = recs w" "x = Inr s \<Longrightarrow> recs w r = Some (settled s)"
    by (auto simp: svc_require_def bindM_apply throwM_apply returnM_apply split: sum.splits option.splits)
qed

lemma save_result:
  assumes "lift_fs (as_save (svc_store S) r n v) w = (x, w')" and "plain n" and "plain m"
  shows "view w' s m = (if (\<exists>p. x = Inr p) \<and> s = r \<and> m = n then Some v else view w s m)" and "recs w' = recs w"
proof -
  obtain y where y: "as_save (svc_store S) r n v w = (y, w')" "\<forall>a. x = Inr a \<longleftrightarrow> y = Inr a"
    using lift_fs_result [OF assms(1)] by blast
  from save_recs [OF y(1)] show "recs w' = recs w" .
  show "view w' s m = (if (\<exists>p. x = Inr p) \<and> s = r \<and> m = n then Some v else view w s m)"
    using y save_ok [OF assms(2,3), of r v w _ w' s] save_err [OF assms(2,3), of r v w _ w' s] by (cases y) auto
qed

text \<open>A recorded save: the artifact is there and its name is in the snapshot.\<close>

lemma saveArtifact_result:
  assumes "saveArtifact S r n v w = (x, w')" and "plain n" and "plain m"
  shows "s \<noteq> r \<or> m \<noteq> n \<Longrightarrow> view w' s m = view w s m"
    and "x = Inr p \<Longrightarrow> view w' r n = Some v \<and> (\<exists>t. recs w r = Some t \<and> recs w' = (recs w)(r \<mapsto> with_artifact n p t))"
    and "recs w' = recs w \<or> (\<exists>p t. recs w r = Some t \<and> recs w' = (recs w)(r \<mapsto> with_artifact n p t))"
proof -
  obtain y w1 where y: "lift_fs (as_save (svc_store S) r n v) w = (y, w1)" by fastforce
  note s1 = save_result [OF y assms(2)]
  have "(s \<noteq> r \<or> m \<noteq> n \<longrightarrow> view w' s m = view w s m) \<and>
    (\<forall>p. x = Inr p \<longrightarrow> view w' r n = Some v \<and> (\<exists>t. recs w r = Some t \<and> recs w' = (recs w)(r \<mapsto> with_artifact n p t))) \<and>
    (recs w' = recs w \<or> (\<exists>p t. recs w r = Some t \<and> recs w' = (recs w)(r \<mapsto> with_artifact n p t)))"
  proof (cases y)
    case (Inl e)
    with assms(1) y have "x = Inl e" "w' = w1" by (simp_all add: saveArtifact_def bindM_apply)
    with s1(1) [OF assms(3)] s1(2) [OF assms(3)] Inl show ?thesis by simp
  next
    case (Inr p)
    obtain z w2 where a: "svc_artifact S r n p w1 = (z, w2)" by fastforce
    from assms(1) y Inr a have e: "(x, w') = (case z of Inl e \<Rightarrow> Inl e | Inr _ \<Rightarrow> Inr p, w2)"
      by (simp add: saveArtifact_def bindM_apply thenM_apply returnM_apply split: sum.splits)
    with artifact_law [OF a] s1(1) [OF assms(3), of s] s1(1) [OF assms(2), of r] s1(2) [OF assms(2)] Inr show ?thesis
      by (auto split: sum.splits)
  qed
  then show "s \<noteq> r \<or> m \<noteq> n \<Longrightarrow> view w' s m = view w s m"
    "x = Inr p \<Longrightarrow> view w' r n = Some v \<and> (\<exists>t. recs w r = Some t \<and> recs w' = (recs w)(r \<mapsto> with_artifact n p t))"
    "recs w' = recs w \<or> (\<exists>p t. recs w r = Some t \<and> recs w' = (recs w)(r \<mapsto> with_artifact n p t))" by blast+
qed

text \<open>A verdict, once given, stays under every operation but \<open>finish\<close>.\<close>

lemma saveArtifact_verdict:
  assumes "saveArtifact S r n v w = (x, w')" and "plain n" and "recs w s = Some t"
  shows "\<exists>t'. recs w' s = Some t' \<and> t'\<lparr>artifacts := []\<rparr> = t\<lparr>artifacts := []\<rparr>"
  using saveArtifact_result(3) [OF assms(1,2) assms(2)] assms(3) by (auto simp: with_artifact_def)

end

section \<open>The deployment of this library\<close>

text \<open>
  The file store and a repository in memory; \<open>uuid\<close>, \<open>pid\<close> and \<open>dir\<close> are the store's.
  The bus has no store of its own here and one observer, the one that
  \<open>backend/index.ts\<close> registers to put every event into its run's snapshot.
\<close>

type_synonym 'o disks = "'o artifact store_disk \<times> (repository \<times> run_doc fs)"

type_synonym 'o deployment = "('o disks) event_bus \<times> 'o disks"

definition repo_js :: "repo_error \<Rightarrow> js_error" where
  "repo_js e = (case e of DiskThrown f \<Rightarrow> JsError (fs_message f) | RepoThrown j \<Rightarrow> j)"

definition on_store :: "('o artifact store_disk, 'e, 'a) eff \<Rightarrow> ('o deployment, 'e, 'a) eff" where
  "on_store m = (\<lambda>(b, (s, p)). case m s of (r, s') \<Rightarrow> (r, (b, (s', p))))"

definition on_repo :: "'a repo_call \<Rightarrow> ('o disks, js_error, 'a) eff" where
  "on_repo m = (\<lambda>(s, p). case m p of (r, p') \<Rightarrow> (case r of Inl e \<Rightarrow> Inl (repo_js e) | Inr x \<Rightarrow> Inr x, (s, p')))"

definition bus_observer :: "ProcessingEvent \<Rightarrow> ('o disks, js_error, unit) eff" where
  "bus_observer e = on_repo (bindM (repo_get None (run_id e)) (\<lambda>snapshot.
     case snapshot of None \<Rightarrow> returnM () | Some _ \<Rightarrow> repo_event None '''' (run_id e) e))"

text \<open>The bus host: every draw takes the next number of the store's uuid counter.\<close>

definition draw :: "'o disks \<Rightarrow> string \<times> 'o disks" where
  "draw = (\<lambda>((d, n), p). (nat_str n, ((d, Suc n), p)))"

definition draw_host :: "'o disks bus_host" where
  "draw_host = \<lparr>bh_uuid = draw, bh_trace = draw, bh_span = draw, bh_now = draw\<rparr>"

definition observed_bus :: "'o disks event_bus \<Rightarrow> 'o disks event_bus" where
  "observed_bus b = b\<lparr>eb_subscribers := [], eb_observers := [(0, bus_observer)], eb_store := None\<rparr>"

definition deployed_emit ::
  "string \<Rightarrow> string \<Rightarrow> ExecutionStatus \<Rightarrow> EventData \<Rightarrow> ('o deployment, js_error, unit) eff" where
  "deployed_emit r p st d = (\<lambda>(b, u). bindM (emit draw_host r p st d) (\<lambda>_. returnM ()) (observed_bus b, u))"

definition deployed :: "(nat \<Rightarrow> string) \<Rightarrow> string \<Rightarrow> string \<Rightarrow> ('o deployment, 'o) RunServices" where
  "deployed uuid pid dir = (let A = FileArtifactStore uuid pid dir in
     \<lparr>svc_store = \<lparr>as_create = map_option (\<lambda>c r n v. on_store (c r n v)) (as_create A),
        as_save = (\<lambda>r n v. on_store (as_save A r n v)), as_load = (\<lambda>r n. on_store (as_load A r n)),
        as_remove = map_option (\<lambda>d r n. on_store (d r n)) (as_remove A)\<rparr>,
      svc_get = (\<lambda>r. in_world (on_repo (repo_get None r))),
      svc_artifact = (\<lambda>r n p. in_world (on_repo (repo_artifact None '''' r n p))),
      svc_finish = (\<lambda>r fi. in_world (on_repo (repo_finish None '''' r fi))),
      svc_emit = deployed_emit\<rparr>)"

definition deployed_view :: "string \<Rightarrow> 'o deployment \<Rightarrow> string \<Rightarrow> string \<Rightarrow> 'o artifact option" where
  "deployed_view dir w = file_view dir (fst (snd w))"

definition deployed_recs :: "'o deployment \<Rightarrow> string \<rightharpoonup> RunSnapshot" where
  "deployed_recs w r = map_option settled (cached_run (fst (snd (snd w))) r)"

lemma memory_calls [simp]:
  "repo_get None r (rp, d) = (Inr (cached_run rp r), (rp, d))"
  "repo_change None u r f (rp, d) = (case cached_run rp r of
     None \<Rightarrow> (Inl (RepoThrown (JsError (''Unknown run '' @ r))), (rp, d)) | Some s \<Rightarrow> (Inr (f s), (set_run r (f s) rp, d)))"
  by (simp_all add: repo_get_def repo_change_def repo_require_def persist_def eff_simps change_repo_def split: option.split)

lemma in_world_apply: "in_world m (b, u) = (r, w') \<longleftrightarrow> (\<exists>u'. m u = (r, u') \<and> w' = (b, u'))"
  by (auto simp: in_world_def split: prod.splits)

lemma on_repo_apply: "on_repo m (s, p) = (case m p of (r, p') \<Rightarrow> (case r of Inl e \<Rightarrow> Inl (repo_js e) | Inr x \<Rightarrow> Inr x, (s, p')))"
  by (simp add: on_repo_def)

lemma deployed_recs_set:
  "deployed_recs (b, (s, (set_run r t rp, d))) = (deployed_recs (b, (s, (rp, d))))(r \<mapsto> settled t)"
  "deployed_recs (b, (s, (rp, d))) r = map_option settled (cached_run rp r)"
  by (auto simp: deployed_recs_def fun_eq_iff)

text \<open>An event leaves the artifacts and the settled snapshots alone.\<close>

definition bus_keeps :: "string \<Rightarrow> 'o deployment \<Rightarrow> 'o deployment \<Rightarrow> bool" where
  "bus_keeps dir v w \<longleftrightarrow> deployed_view dir w = deployed_view dir v \<and> deployed_recs w = deployed_recs v \<and>
     eb_subscribers (fst w) = [] \<and> eb_observers (fst w) = [(0, bus_observer)] \<and> eb_store (fst w) = None"

lemma observer_keeps: "keepsM (bus_keeps dir v) (in_world (bus_observer e))"
  by (auto simp: keepsM_def bus_observer_def in_world_def on_repo_apply bus_keeps_def deployed_view_def eff_simps
      repo_event_def fun_eq_iff deployed_recs_def split: option.splits prod.splits) (metis option.simps(9))

lemma draw_keeps: "keepsM (bus_keeps dir v) (take_from draw)"
  by (auto simp: keepsM_def take_from_def draw_def bus_keeps_def deployed_view_def deployed_recs_def file_view_def
      fun_eq_iff split: prod.splits)

lemma change_keeps:
  "(\<And>b. eb_subscribers (f b) = eb_subscribers b \<and> eb_observers (f b) = eb_observers b \<and> eb_store (f b) = eb_store b) \<Longrightarrow>
    keepsM (bus_keeps dir v) (change_bus f)"
  by (auto simp: keepsM_def change_bus_def bus_keeps_def deployed_view_def deployed_recs_def fun_eq_iff)

lemma emit_keeps: "keepsM (bus_keeps dir v) (emit draw_host r p st d)"
  unfolding keepsM_def
proof (intro allI impI)
  fix s assume s: "bus_keeps dir v s"
  obtain b0 u0 where s0: "s = (b0, u0)" by (rule prod.exhaust)
  obtain h b where l: "bus_load r b0 = (h, b)" by fastforce
  have f: "eb_subscribers (set_trace r' t x) = eb_subscribers x" "eb_observers (set_trace r' t x) = eb_observers x"
    "eb_subscribers (fold (\<lambda>e. markSeen r' (event_id e)) es x) = eb_subscribers x"
    "eb_observers (fold (\<lambda>e. markSeen r' (event_id e)) es x) = eb_observers x"
    for r' t es and x :: "'a disks event_bus"
    by (simp add: set_trace_def split: option.splits) (simp add: set_trace_def split: option.splits,
      (induction es arbitrary: x; simp add: markSeen_def)+)
  have k: "bus_keeps dir v (b, u0)" using s l s0
    by (auto simp: bus_keeps_def deployed_view_def deployed_recs_def fun_eq_iff bus_load_def Let_def f split: option.splits list.splits)
  have nt: "keepsM (bus_keeps dir v) (notify r e)" for e
    unfolding keepsM_def
  proof (intro allI impI)
    fix x assume x: "bus_keeps dir v x"
    then have n: "notify r e x = thenM (thenM (in_world (bus_observer e)) (returnM ())) (returnM ()) x"
      by (auto simp: notify_def bus_keeps_def subscribers_of_def split: prod.splits)
    have "keepsM (bus_keeps dir v) (thenM (thenM (in_world (bus_observer e)) (returnM ())) (returnM ()))"
      by (intro keepsM_then keepsM_return observer_keeps)
    from keepsMD [OF this x] n show "bus_keeps dir v (snd (notify r e x))" by simp
  qed
  have store: "keepsM (bus_keeps dir v) (store_event e)" for e
    by (auto simp: keepsM_def store_event_def bus_keeps_def split: prod.splits)
  have trace: "keepsM (bus_keeps dir v) (case x of Some t \<Rightarrow> returnM t | None \<Rightarrow> take_from draw)" for x
    by (cases x) (simp_all add: draw_keeps keepsM_return)
  have "keepsM (bus_keeps dir v) (thenM (change_bus (\<lambda>b. b\<lparr>eb_sequence := AList.update r (or_zero (map_of (eb_sequence b') r) + 1) (eb_sequence b)\<rparr>))
      (bindM (case map_of (eb_traceIds b') r of Some t \<Rightarrow> returnM t | None \<Rightarrow> take_from (bh_trace draw_host)) (\<lambda>traceId.
      thenM (change_bus (\<lambda>b. b\<lparr>eb_traceIds := AList.update r traceId (eb_traceIds b)\<rparr>))
      (bindM (take_from (bh_span draw_host)) (\<lambda>spanId.
      thenM (liftM (emit_check st d))
      (bindM (take_from (bh_uuid draw_host)) (\<lambda>uuid. bindM (take_from (bh_now draw_host)) (\<lambda>now.
      let e = emit_event r p st d (or_zero (map_of (eb_sequence b') r) + 1) h traceId spanId uuid now in
      thenM (change_bus (markSeen r uuid))
      (thenM (store_event e)
      (thenM (change_bus (push_history r e))
      (thenM (notify r e) (returnM e))))))))))))" for b' :: "'a disks event_bus"
    unfolding Let_def draw_host_def bus_host.simps
    by (intro keepsM_bind keepsM_then keepsM_lift keepsM_return nt store trace draw_keeps change_keeps)
      (simp_all add: markSeen_def push_history_def)
  from keepsMD [OF this k] show "bus_keeps dir v (snd (emit draw_host r p st d s))"
    by (simp add: s0 emit_def l Let_def)
qed

lemma deployed_emit_keeps:
  assumes "deployed_emit r p st d w = (x, w')"
  shows "deployed_view dir w' = deployed_view dir w \<and> deployed_recs w' = deployed_recs w"
proof -
  let ?v = "(observed_bus (fst w), snd w)"
  have "bus_keeps dir ?v ?v" by (simp add: bus_keeps_def observed_bus_def)
  moreover have "keepsM (bus_keeps dir ?v) (bindM (emit draw_host r p st d) (\<lambda>_. returnM ()))"
    by (intro keepsM_bind keepsM_return emit_keeps)
  ultimately have "bus_keeps dir ?v (snd (bindM (emit draw_host r p st d) (\<lambda>_. returnM ()) ?v))"
    by (rule keepsMD [rotated])
  then have "bus_keeps dir ?v w'" using assms by (simp add: deployed_emit_def case_prod_beta)
  then show ?thesis by (simp add: bus_keeps_def deployed_view_def deployed_recs_def fun_eq_iff)
qed

lemma on_store_apply: "on_store m (b, (s, p)) = (x, w') \<longleftrightarrow> (\<exists>s'. m s = (x, s') \<and> w' = (b, (s', p)))"
  by (auto simp: on_store_def split: prod.splits)





lemma on_repo_cases:
  assumes "in_world (on_repo m) w = (x, w')"
  obtains b s p r p' where "w = (b, (s, p))" and "m p = (r, p')" and "w' = (b, (s, p'))"
    and "x = (case r of Inl e \<Rightarrow> Inl (repo_js e) | Inr y \<Rightarrow> Inr y)"
proof -
  obtain b s p where w: "w = (b, (s, p))" by (metis prod.exhaust)
  obtain r p' where m: "m p = (r, p')" by (rule prod.exhaust)
  from that [OF w m] assms w m show thesis by (auto simp: in_world_apply on_repo_apply)
qed

lemma on_store_cases:
  assumes "on_store m w = (x, w')"
  obtains b s p s' where "w = (b, (s, p))" and "m s = (x, s')" and "w' = (b, (s', p))"
proof -
  obtain b s p where w: "w = (b, (s, p))" by (metis prod.exhaust)
  from that [OF w] assms w show thesis by (auto simp: on_store_apply)
qed

interpretation deployment: run_services "deployed uuid pid dir" "deployed_view dir" deployed_recs
  for uuid pid dir
proof unfold_locales
  fix n m r v w p w' s
  assume "plain n" "plain m" "as_save (svc_store (deployed uuid pid dir)) r n v w = (Inr p, w')"
  then show "deployed_view dir w' s m = (if s = r \<and> m = n then Some v else deployed_view dir w s m)"
    by (auto simp: deployed_def Let_def deployed_view_def elim!: on_store_cases dest!: files.save_ok [rotated 2, where s = s and m = m])
next
  fix n m r v w e w' s
  assume "plain n" "plain m" "as_save (svc_store (deployed uuid pid dir)) r n v w = (Inl e, w')"
  then show "deployed_view dir w' s m = deployed_view dir w s m"
    by (auto simp: deployed_def Let_def deployed_view_def elim!: on_store_cases dest!: files.save_err [rotated 2, where s = s and m = m])
next
  fix c n m r v w b w' s
  assume "as_create (svc_store (deployed uuid pid dir)) = Some c" "plain n" "plain m" "c r n v w = (Inr b, w')"
  then show "deployed_view dir w' s m = (if b \<and> s = r \<and> m = n then Some v else deployed_view dir w s m) \<and>
      (b \<longrightarrow> deployed_view dir w r n = None)"
    by (auto simp: deployed_def Let_def deployed_view_def elim!: on_store_cases dest!: files.create_ok [rotated 3, where s = s and m = m])
next
  fix c n m r v w e w' s
  assume "as_create (svc_store (deployed uuid pid dir)) = Some c" "plain n" "plain m" "c r n v w = (Inl e, w')"
  then show "deployed_view dir w' s m = deployed_view dir w s m"
    by (auto simp: deployed_def Let_def deployed_view_def elim!: on_store_cases dest!: files.create_err [rotated 3, where s = s and m = m])
next
  fix n r w v w'
  assume "plain n" "as_load (svc_store (deployed uuid pid dir)) r n w = (Inr v, w')"
  then show "deployed_view dir w r n = Some v"
    by (auto simp: deployed_def Let_def deployed_view_def elim!: on_store_cases dest!: files.load_ok [rotated 1])
next
  fix n r w x w'
  assume "plain n" "as_load (svc_store (deployed uuid pid dir)) r n w = (x, w')"
  then show "deployed_view dir w' = deployed_view dir w"
    by (auto simp: deployed_def Let_def deployed_view_def fun_eq_iff elim!: on_store_cases dest!: files.load_view [rotated 1])
next
  fix r w x w'
  assume "svc_get (deployed uuid pid dir) r w = (x, w')"
  then show "deployed_view dir w' = deployed_view dir w \<and> deployed_recs w' = deployed_recs w \<and>
      (\<forall>s. x = Inr s \<longrightarrow> map_option settled s = deployed_recs w r)"
    by (auto simp: deployed_def Let_def deployed_view_def deployed_recs_def fun_eq_iff elim!: on_repo_cases)
next
  fix r n p w x w'
  assume "svc_artifact (deployed uuid pid dir) r n p w = (x, w')"
  then show "deployed_view dir w' = deployed_view dir w \<and> ((\<exists>e. x = Inl e) \<and> deployed_recs w' = deployed_recs w \<or>
      (\<exists>s. deployed_recs w r = Some s \<and> deployed_recs w' = (deployed_recs w)(r \<mapsto> with_artifact n p s)))"
    by (auto simp: deployed_def Let_def repo_artifact_def thenM_apply returnM_apply deployed_recs_set deployed_view_def fun_eq_iff
        elim!: on_repo_cases split: option.splits)
next
  fix r fi w x w'
  assume "svc_finish (deployed uuid pid dir) r fi w = (x, w')"
  then show "deployed_view dir w' = deployed_view dir w \<and> ((\<exists>e. x = Inl e) \<and> deployed_recs w' = deployed_recs w \<or>
      (\<exists>s. deployed_recs w r = Some s \<and> deployed_recs w' = (deployed_recs w)(r \<mapsto> finished fi s) \<and>
        (\<forall>t. x = Inr t \<longrightarrow> settled t = finished fi s)))"
    by (auto simp: deployed_def Let_def repo_finish_def throwM_apply deployed_recs_set deployed_view_def fun_eq_iff
        elim!: on_repo_cases split: option.splits sum.splits)
next
  fix r n w x w'
  assume "as_load (svc_store (deployed uuid pid dir)) r n w = (x, w')"
  then show "deployed_view dir w' = deployed_view dir w \<and> deployed_recs w' = deployed_recs w"
    by (auto simp: deployed_def FileArtifactStore_def file_load_def file_call_def readJson_def read_call_def file_view_def
        Let_def deployed_view_def deployed_recs_set fun_eq_iff fs_simps elim!: on_store_cases split: prod.splits fault.splits)
next
  fix r p st d w x w'
  assume "svc_emit (deployed uuid pid dir) r p st d w = (x, w')"
  then show "deployed_view dir w' = deployed_view dir w \<and> deployed_recs w' = deployed_recs w"
    by (intro deployed_emit_keeps) (simp add: deployed_def Let_def)
qed (auto simp: deployed_def FileArtifactStore_def Let_def deployed_recs_def elim!: on_store_cases)

end
