(* ===== verification/Transitions.thy ===== *)
theory Transitions
  imports Contracts
begin

text \<open>
  The canonical transition table of the durable pipeline:
  \<open>backend/pipeline/stage-outcome.ts\<close> (stages and stage outcomes),
  \<open>backend/pipeline/stage-scope.ts\<close> (which stages iterate) and
  \<open>backend/workflow/canonical-transition.ts\<close> (the resolver), with the lengths of the
  chains of automatic executions and the two human gates.
\<close>

named_theorems stage_simps

section \<open>Stages and outcomes\<close>

datatype PipelineStage =
    Researcher | Planner | Refactor | GapAnalysisStage | EvaluationStage
  | TripleValidationStage | Confirmation | HashStage | Build | Finalize

fun stage_str :: "PipelineStage \<Rightarrow> string" where
  "stage_str Researcher = ''researcher''"
| "stage_str Planner = ''planner''"
| "stage_str Refactor = ''refactor''"
| "stage_str GapAnalysisStage = ''gap-analysis''"
| "stage_str EvaluationStage = ''evaluation''"
| "stage_str TripleValidationStage = ''triple-validation''"
| "stage_str Confirmation = ''confirmation''"
| "stage_str HashStage = ''hash''"
| "stage_str Build = ''build''"
| "stage_str Finalize = ''finalize''"

text \<open>The stages in the order of the canonical workflow, as a linear order.\<close>

fun stage_rank :: "PipelineStage \<Rightarrow> nat" where
  "stage_rank Researcher = 0"
| "stage_rank Planner = 1"
| "stage_rank Refactor = 2"
| "stage_rank GapAnalysisStage = 3"
| "stage_rank EvaluationStage = 4"
| "stage_rank TripleValidationStage = 5"
| "stage_rank Confirmation = 6"
| "stage_rank HashStage = 7"
| "stage_rank Build = 8"
| "stage_rank Finalize = 9"

lemma stage_rank_inj: "stage_rank a = stage_rank b \<Longrightarrow> a = b"
  by (cases a; cases b) simp_all

instantiation PipelineStage :: linorder
begin

definition less_eq_PipelineStage :: "PipelineStage \<Rightarrow> PipelineStage \<Rightarrow> bool" where
  "less_eq_PipelineStage a b \<longleftrightarrow> stage_rank a \<le> stage_rank b"

definition less_PipelineStage :: "PipelineStage \<Rightarrow> PipelineStage \<Rightarrow> bool" where
  "less_PipelineStage a b \<longleftrightarrow> stage_rank a < stage_rank b"

instance
  by standard
    (auto simp: less_eq_PipelineStage_def less_PipelineStage_def intro: stage_rank_inj)

end

lemma stage_str_inj [stage_simps]: "stage_str a = stage_str b \<longleftrightarrow> a = b"
  by (cases a; cases b) simp_all

lemma stage_str_nonempty [simp]: "stage_str s \<noteq> []"
  by (cases s) simp_all

record PipelineIssue =
  pi_issue_type :: IssueType
  pi_evidence :: RootCause

datatype 'a StageOutcome =
    Advance 'a
  | Refine 'a PipelineIssue string
  | Terminal 'a PipelineIssue

definition advance :: "'a \<Rightarrow> 'a StageOutcome" where
  "advance value = Advance value"

definition refine :: "'a \<Rightarrow> PipelineIssue \<Rightarrow> string \<Rightarrow> 'a StageOutcome" where
  "refine value iss validationFeedback = Refine value iss validationFeedback"

definition terminal :: "'a \<Rightarrow> PipelineIssue \<Rightarrow> 'a StageOutcome" where
  "terminal value iss = Terminal value iss"

text \<open>\<open>isStageOutcome\<close> on a parsed JSON value: an object whose \<open>kind\<close> is one of the three tags.\<close>

fun isStageOutcome :: "json \<Rightarrow> bool" where
  "isStageOutcome (JObj kvs) =
     (case map_of kvs ''kind'' of
        Some (JStr kind) \<Rightarrow> kind = ''advance'' \<or> kind = ''refine'' \<or> kind = ''terminal''
      | _ \<Rightarrow> False)"
| "isStageOutcome _ = False"

section \<open>Stage scope\<close>

definition ITERATIVE_STAGES :: "PipelineStage list" where
  "ITERATIVE_STAGES = [Refactor, GapAnalysisStage, EvaluationStage, TripleValidationStage]"

definition isIterativeStage :: "PipelineStage \<Rightarrow> bool" where
  "isIterativeStage stage = List.member ITERATIVE_STAGES stage"

definition stageIteration :: "PipelineStage \<Rightarrow> nat \<Rightarrow> nat" where
  "stageIteration stage iteration =
     (if stage = Researcher then iteration
      else if isIterativeStage stage then iteration else 0)"

lemma isIterativeStage_iff [stage_simps]:
  "isIterativeStage s \<longleftrightarrow>
     s = Refactor \<or> s = GapAnalysisStage \<or> s = EvaluationStage \<or> s = TripleValidationStage"
  by (auto simp: isIterativeStage_def ITERATIVE_STAGES_def)

section \<open>The transition resolver\<close>

record FinalizationIntent =
  fi_test_result :: TestResult
  fi_issue :: PipelineIssue

datatype PipelineTransition =
    TNext PipelineStage nat "FinalizationIntent option"
  | TWaitHuman
  | TWaitBuild
  | TDone TestResult "PipelineIssue option"

definition MAX_REFINEMENT_ITERATIONS :: nat where
  "MAX_REFINEMENT_ITERATIONS = 3"

definition failedFinalization :: "PipelineIssue \<Rightarrow> PipelineTransition" where
  "failedFinalization iss =
     TNext Finalize 0 (Some \<lparr>fi_test_result = Failed, fi_issue = iss\<rparr>)"

fun resolveTripleValidationTransition :: "'a StageOutcome \<Rightarrow> nat \<Rightarrow> PipelineTransition" where
  "resolveTripleValidationTransition (Terminal v iss) iteration = failedFinalization iss"
| "resolveTripleValidationTransition (Refine v iss fb) iteration =
     (if iteration \<ge> MAX_REFINEMENT_ITERATIONS then failedFinalization iss
      else TNext GapAnalysisStage (iteration + 1) None)"
| "resolveTripleValidationTransition (Advance v) iteration = TNext Confirmation 0 None"

fun is_refine :: "'a StageOutcome \<Rightarrow> bool" where
  "is_refine (Refine v iss fb) = True"
| "is_refine _ = False"

definition resolveTransition :: "PipelineStage \<Rightarrow> 'a StageOutcome \<Rightarrow> nat \<Rightarrow> PipelineTransition" where
  "resolveTransition stage outcome iteration =
     (case (outcome, stage \<noteq> Finalize) of
        (Terminal v iss, True) \<Rightarrow> failedFinalization iss
      | _ \<Rightarrow>
        (case stage of
           Researcher \<Rightarrow> TWaitHuman
         | Planner \<Rightarrow> TNext Refactor 0 None
         | Refactor \<Rightarrow> TNext GapAnalysisStage iteration None
         | GapAnalysisStage \<Rightarrow>
             (if is_refine outcome then TNext GapAnalysisStage (iteration + 1) None
              else TNext EvaluationStage iteration None)
         | EvaluationStage \<Rightarrow>
             (if is_refine outcome then TNext GapAnalysisStage (iteration + 1) None
              else TNext TripleValidationStage iteration None)
         | TripleValidationStage \<Rightarrow> resolveTripleValidationTransition outcome iteration
         | Confirmation \<Rightarrow> TNext HashStage 0 None
         | HashStage \<Rightarrow> TWaitBuild
         | Build \<Rightarrow> TNext Finalize 0 None
         | Finalize \<Rightarrow>
             (case outcome of
                Terminal v iss \<Rightarrow> TDone Failed (Some iss)
              | _ \<Rightarrow> TDone Passed None)))"

lemma resolve_terminal [stage_simps]:
  "stage \<noteq> Finalize \<Longrightarrow> resolveTransition stage (Terminal v iss) i = failedFinalization iss"
  by (simp add: resolveTransition_def)

lemma resolve_advance [stage_simps]:
  "resolveTransition Researcher (Advance v) i = TWaitHuman"
  "resolveTransition Planner (Advance v) i = TNext Refactor 0 None"
  "resolveTransition Refactor (Advance v) i = TNext GapAnalysisStage i None"
  "resolveTransition GapAnalysisStage (Advance v) i = TNext EvaluationStage i None"
  "resolveTransition EvaluationStage (Advance v) i = TNext TripleValidationStage i None"
  "resolveTransition TripleValidationStage (Advance v) i = TNext Confirmation 0 None"
  "resolveTransition Confirmation (Advance v) i = TNext HashStage 0 None"
  "resolveTransition HashStage (Advance v) i = TWaitBuild"
  "resolveTransition Build (Advance v) i = TNext Finalize 0 None"
  "resolveTransition Finalize (Advance v) i = TDone Passed None"
  by (simp_all add: resolveTransition_def)

lemma resolve_finalize_terminal [stage_simps]:
  "resolveTransition Finalize (Terminal v iss) i = TDone Failed (Some iss)"
  by (simp add: resolveTransition_def)

lemma resolve_refine [stage_simps]:
  "resolveTransition GapAnalysisStage (Refine v iss fb) i = TNext GapAnalysisStage (i + 1) None"
  "resolveTransition EvaluationStage (Refine v iss fb) i = TNext GapAnalysisStage (i + 1) None"
  "resolveTransition TripleValidationStage (Refine v iss fb) i =
     (if i \<ge> 3 then failedFinalization iss else TNext GapAnalysisStage (i + 1) None)"
  "stage \<notin> {GapAnalysisStage, EvaluationStage, TripleValidationStage} \<Longrightarrow>
     resolveTransition stage (Refine v iss fb) i = resolveTransition stage (Advance v) i"
  by (cases stage; simp add: resolveTransition_def MAX_REFINEMENT_ITERATIONS_def)+

section \<open>Chains of automatic executions\<close>

definition enqueued :: "PipelineTransition \<Rightarrow> (PipelineStage \<times> nat) option" where
  "enqueued t = (case t of TNext s i intent \<Rightarrow> Some (s, i) | _ \<Rightarrow> None)"

text \<open>
  \<open>auto_chain p n k q\<close>: from the execution \<open>p\<close> (a stage at an iteration) a chain of \<open>n\<close>
  jobs, each enqueued by the resolver without a human, leads to \<open>q\<close>, whatever outcomes the
  stages return; \<open>k\<close> of the outcomes are refinements of gap analysis or evaluation, the two
  branches of the resolver that no iteration limits.
\<close>

definition uncapped :: "PipelineStage \<Rightarrow> 'a StageOutcome \<Rightarrow> nat" where
  "uncapped stage out = (if is_refine out \<and> stage \<in> {GapAnalysisStage, EvaluationStage} then 1 else 0)"

inductive auto_chain :: "PipelineStage \<times> nat \<Rightarrow> nat \<Rightarrow> nat \<Rightarrow> PipelineStage \<times> nat \<Rightarrow> bool" for p where
  auto_start: "auto_chain p 0 0 p"
| auto_next: "auto_chain p n k (s, i) \<Longrightarrow> enqueued (resolveTransition s (out :: json option StageOutcome) i) = Some q \<Longrightarrow>
    auto_chain p (Suc n) (k + uncapped s out) q"

text \<open>The number of executions that can still follow, the present one included.\<close>

fun steps_left :: "PipelineStage \<times> nat \<Rightarrow> nat" where
  "steps_left (Finalize, i) = 1"
| "steps_left (Build, i) = 2"
| "steps_left (HashStage, i) = 2"
| "steps_left (Confirmation, i) = 3"
| "steps_left (TripleValidationStage, i) = 4 + 3 * (3 - i)"
| "steps_left (EvaluationStage, i) = 5 + 3 * (3 - i)"
| "steps_left (GapAnalysisStage, i) = 6 + 3 * (3 - i)"
| "steps_left (Refactor, i) = 7 + 3 * (3 - i)"
| "steps_left (Planner, i) = 17"
| "steps_left (Researcher, i) = 2"

lemmas resolver_simps = stage_simps enqueued_def failedFinalization_def

lemma auto_step_decreases:
  "enqueued (resolveTransition s out i) = Some q \<Longrightarrow> steps_left q < steps_left (s, i) + 2 * uncapped s out"
  by (cases s; cases out) (auto simp: resolver_simps uncapped_def split: if_splits)

lemma steps_left_pos: "0 < steps_left p"
  by (cases p rule: steps_left.cases) simp_all

lemma auto_chain_bound: "auto_chain p n k q \<Longrightarrow> n + steps_left q \<le> steps_left p + 2 * k"
proof (induction rule: auto_chain.induct)
  case (auto_next n k s i out q)
  with auto_step_decreases [OF auto_next(2)] show ?case by simp
qed simp

lemma auto_chain_prefix:
  "auto_chain p n k q \<Longrightarrow> m \<le> n \<Longrightarrow> \<exists>j \<le> k. \<exists>r. auto_chain p m j r"
proof (induction rule: auto_chain.induct)
  case (auto_next n k s i out q)
  show ?case
  proof (cases "m = Suc n")
    case True
    with auto_chain.auto_next [OF auto_next(1,2)] show ?thesis by blast
  next
    case False
    with auto_next obtain j r where "j \<le> k" "auto_chain p m j r" by auto
    then show ?thesis by (meson trans_le_add1)
  qed
qed (use auto_start in blast)

lemma auto_chain_advance:
  "auto_chain p n k (s, i) \<Longrightarrow> enqueued (resolveTransition s (Advance None :: json option StageOutcome) i) = Some q \<Longrightarrow>
    auto_chain p (Suc n) k q"
  using auto_next [of p n k s i "Advance None" q] by (simp add: uncapped_def)

text \<open>A pass through the iterated stages, with the triple validation rejected or the evaluation refined.\<close>

lemma auto_chain_pass:
  assumes "auto_chain p n k (GapAnalysisStage, i)"
  shows "auto_chain p (n + 2) k (TripleValidationStage, i)"
    and "i < 3 \<Longrightarrow> auto_chain p (n + 3) k (GapAnalysisStage, i + 1)"
    and "auto_chain p (n + 2) (k + 1) (GapAnalysisStage, i + 1)"
proof -
  from assms have e: "auto_chain p (Suc n) k (EvaluationStage, i)"
    by (rule auto_chain_advance) (simp add: resolver_simps)
  then have t: "auto_chain p (Suc (Suc n)) k (TripleValidationStage, i)"
    by (rule auto_chain_advance) (simp add: resolver_simps)
  then show "auto_chain p (n + 2) k (TripleValidationStage, i)" by simp
  show "auto_chain p (n + 3) k (GapAnalysisStage, i + 1)" if "i < 3"
    using auto_next [OF t, of "Refine None undefined undefined"] that
    by (simp add: resolver_simps uncapped_def numeral_3_eq_3)
  show "auto_chain p (n + 2) (k + 1) (GapAnalysisStage, i + 1)"
    using auto_next [OF e, of "Refine None undefined undefined"] by (simp add: resolver_simps uncapped_def)
qed

lemma auto_chain_longest: "auto_chain (Planner, 0) (16 + 2 * k) k (Finalize, 0)"
proof -
  have "auto_chain (Planner, 0) 2 0 (GapAnalysisStage, 0)"
    using auto_chain_advance [OF auto_chain_advance [OF auto_start [of "(Planner, 0)"]]]
    by (simp add: resolver_simps numeral_2_eq_2)
  from auto_chain_pass(2) [OF this] have "auto_chain (Planner, 0) 5 0 (GapAnalysisStage, 1)" by simp
  from auto_chain_pass(2) [OF this] have "auto_chain (Planner, 0) 8 0 (GapAnalysisStage, 2)" by (simp add: numeral_2_eq_2)
  from auto_chain_pass(2) [OF this] have three: "auto_chain (Planner, 0) 11 0 (GapAnalysisStage, 3)" by simp
  have "auto_chain (Planner, 0) (11 + 2 * k) k (GapAnalysisStage, 3 + k)"
  proof (induction k)
    case (Suc k)
    from auto_chain_pass(3) [OF this] show ?case by simp
  qed (use three in simp)
  from auto_chain_pass(1) [OF this] have "auto_chain (Planner, 0) (13 + 2 * k) k (TripleValidationStage, 3 + k)"
    by (simp add: add.commute)
  then have "auto_chain (Planner, 0) (Suc (13 + 2 * k)) k (Confirmation, 0)"
    by (rule auto_chain_advance) (simp add: resolver_simps)
  then have "auto_chain (Planner, 0) (Suc (Suc (13 + 2 * k))) k (HashStage, 0)"
    by (rule auto_chain_advance) (simp add: resolver_simps)
  from auto_next [OF this, of "Terminal None undefined"] show ?thesis by (simp add: resolver_simps uncapped_def)
qed

text \<open>
  With at most \<open>k\<close> refinements of gap analysis and evaluation, chains of every length up to
  \<open>16 + 2 * k\<close> exist and no longer ones: the bound without them is reached by three rejected
  triple validations followed by a failing hash stage, and each of them can add two jobs.
\<close>

lemma chain_lengths: "{n. \<exists>j \<le> k. \<exists>q. auto_chain (Planner, 0) n j q} = {..16 + 2 * k}"
proof
  show "{n. \<exists>j \<le> k. \<exists>q. auto_chain (Planner, 0) n j q} \<subseteq> {..16 + 2 * k}"
  proof
    fix n assume "n \<in> {n. \<exists>j \<le> k. \<exists>q. auto_chain (Planner, 0) n j q}"
    then obtain j q where "auto_chain (Planner, 0) n j q" "j \<le> k" by auto
    with auto_chain_bound [OF this(1)] steps_left_pos [of q] show "n \<in> {..16 + 2 * k}" by simp
  qed
  show "{..16 + 2 * k} \<subseteq> {n. \<exists>j \<le> k. \<exists>q. auto_chain (Planner, 0) n j q}"
    using auto_chain_prefix [OF auto_chain_longest] by auto
qed

section \<open>Properties\<close>

text \<open>
  C2.  The two human gates: whatever a stage returns, at whatever iteration, the
  resolver never enqueues the researcher, the planner or the build stage.  Only
  confirming the plan (planner), asking for another research pass (researcher)
  and starting the build (build) enqueue those.
\<close>

theorem human_gates_closed:
  "enqueued (resolveTransition stage out i) \<notin>
     Some ` ({Researcher, Planner, Build} \<times> UNIV)"
  by (cases stage; cases out) (auto simp: resolver_simps)

text \<open>What a failing outcome resolves to, up to finalize.\<close>

lemma failing_outcome_resolved:
  assumes "stage \<noteq> Finalize \<and> out = Terminal v iss \<or>
    stage = TripleValidationStage \<and> out = Refine v iss fb \<and> MAX_REFINEMENT_ITERATIONS \<le> i"
  shows "resolveTransition stage out i = TNext Finalize 0 (Some \<lparr>fi_test_result = Failed, fi_issue = iss\<rparr>)"
  using assms by (auto simp: stage_simps failedFinalization_def MAX_REFINEMENT_ITERATIONS_def)

definition sample_root_cause :: RootCause where
  "sample_root_cause = \<lparr>rc_issue = ''triple_validation_failed'', rc_expected = ''all valid'',
     rc_actual = ''fixture failed'', rc_evidence_ids = [''evidence:1''],
     rc_required_correction = ''repair the plan'', rc_recheck_target = ''validation:1''\<rparr>"

definition sample_issue :: PipelineIssue where
  "sample_issue = \<lparr>pi_issue_type = RootCauseIssue, pi_evidence = sample_root_cause\<rparr>"

end
