(* ===== verification/Redis_Client.thy ===== *)
theory Redis_Client
  imports Transitions
begin

text \<open>
  The interface between the pipeline and its two services, Redis (through
  ioredis) and the BullMQ queue.  Neither is under src/, so both are parameters:
  a \<open>redis_client\<close> and a \<open>queue_client\<close> record of operations over a world
  \<open>'w\<close> the model never looks into.  What the pipeline relies on is the locale
  \<open>redis\<close>: a view \<open>kv\<close> of the live keys and the documented effect of each
  command on it.  Every command may fail; then it may or may not have been
  applied, which is also what a worker process that dies in the middle leaves
  behind.  The interpretation at the end is the in-memory Redis double of
  \<open>backend/tests/ts/pipeline-durable-state.test.ts\<close>.
\<close>

section \<open>Stored values\<close>

text \<open>
  \<open>JSON.stringify\<close> and \<open>JSON.parse\<close> are inverse on the documents the pipeline
  stores, so a stored JSON text is represented by the document it encodes.
  \<open>DIssue None\<close> is the text \<open>null\<close>.
\<close>

type_synonym outcome = "json option StageOutcome"

datatype stored_doc =
    DOutcome outcome
  | DIntent FinalizationIntent
  | DIssue "PipelineIssue option"
  | DPlanConfirmed string string string

datatype rval = RText string | RJson stored_doc

type_synonym kvstore = "string \<rightharpoonup> rval"

text \<open>A Lua script runs atomically inside Redis: a function of the store.\<close>

type_synonym lua = "kvstore \<Rightarrow> nat \<times> kvstore"

record 'w redis_client =
  r_get :: "string \<Rightarrow> ('w, js_error, rval option) eff"
  r_set :: "string \<Rightarrow> rval \<Rightarrow> nat option \<Rightarrow> ('w, js_error, unit) eff"
  r_set_nx :: "string \<Rightarrow> rval \<Rightarrow> nat \<Rightarrow> ('w, js_error, bool) eff"
  r_del :: "string \<Rightarrow> ('w, js_error, unit) eff"
  r_eval :: "lua \<Rightarrow> ('w, js_error, nat) eff"
  r_exists :: "string \<Rightarrow> ('w, js_error, bool) eff"
  r_xadd :: "string \<Rightarrow> string list \<Rightarrow> ('w, js_error, string option) eff"
  r_xrange :: "string \<Rightarrow> ('w, js_error, string list list) eff"

text \<open>
  The payload of a pipeline job (\<open>StageJobData\<close> of \<open>pipeline/types.ts\<close>, whose
  \<open>version\<close> is the literal 2) and the BullMQ queue: \<open>q_add Q name data jobId\<close>
  resolves to the id of the job.
\<close>

record StageJobData =
  jd_runId :: string
  jd_stage :: PipelineStage
  jd_iteration :: nat

record 'w queue_client =
  q_add :: "PipelineStage \<Rightarrow> StageJobData \<Rightarrow> string \<Rightarrow> ('w, js_error, string option) eff"

section \<open>What the pipeline relies on\<close>

locale redis =
  fixes R :: "'w redis_client"
    and kv :: "'w \<Rightarrow> kvstore"
  assumes get_ok: "r_get R k w = (Inr v, w') \<Longrightarrow> v = kv w k \<and> kv w' = kv w"
    and get_err: "r_get R k w = (Inl e, w') \<Longrightarrow> kv w' = kv w"
    and set_ok: "r_set R k x ttl w = (Inr (), w') \<Longrightarrow> kv w' = (kv w)(k \<mapsto> x)"
    and set_err: "r_set R k x ttl w = (Inl e, w') \<Longrightarrow> kv w' = kv w \<or> kv w' = (kv w)(k \<mapsto> x)"
    and set_nx_ok: "r_set_nx R k x t w = (Inr b, w') \<Longrightarrow>
      b = (kv w k = None) \<and> kv w' = (if kv w k = None then (kv w)(k \<mapsto> x) else kv w)"
    and set_nx_err: "r_set_nx R k x t w = (Inl e, w') \<Longrightarrow>
      kv w' = kv w \<or> kv w k = None \<and> kv w' = (kv w)(k \<mapsto> x)"
    and del_ok: "r_del R k w = (Inr (), w') \<Longrightarrow> kv w' = (kv w)(k := None)"
    and del_err: "r_del R k w = (Inl e, w') \<Longrightarrow> kv w' = kv w \<or> kv w' = (kv w)(k := None)"
    and eval_ok: "r_eval R f w = (Inr n, w') \<Longrightarrow> (n, kv w') = f (kv w)"
    and eval_err: "r_eval R f w = (Inl e, w') \<Longrightarrow> kv w' = kv w \<or> kv w' = snd (f (kv w))"
    and exists_ok: "r_exists R k w = (Inr b, w') \<Longrightarrow> b = (kv w k \<noteq> None) \<and> kv w' = kv w"
    and exists_err: "r_exists R k w = (Inl e, w') \<Longrightarrow> kv w' = kv w"
    and xadd_kv: "r_xadd R k fs w = (r, w') \<Longrightarrow> kv w' = kv w"
    and xrange_kv: "r_xrange R k w = (r', w') \<Longrightarrow> kv w' = kv w"
begin

text \<open>
  The rule every client proof uses: a command leaves every key but its own
  alone, whatever its result.
\<close>

lemma set_other: "r_set R k x ttl w = (r, w') \<Longrightarrow> j \<noteq> k \<Longrightarrow> kv w' j = kv w j"
  by (cases r) (auto dest: set_ok set_err)

lemma set_nx_other: "r_set_nx R k x t w = (r, w') \<Longrightarrow> j \<noteq> k \<Longrightarrow> kv w' j = kv w j"
  by (cases r) (auto dest: set_nx_ok set_nx_err split: if_splits)

lemma del_other: "r_del R k w = (r, w') \<Longrightarrow> j \<noteq> k \<Longrightarrow> kv w' j = kv w j"
  by (cases r) (auto dest: del_ok del_err)

lemma get_kv: "r_get R k w = (r, w') \<Longrightarrow> kv w' = kv w"
  by (cases r) (auto dest: get_ok get_err)

text \<open>A key that is present stays present under everything but \<open>DEL\<close> and scripts.\<close>

lemma set_dom: "r_set R k x ttl w = (r, w') \<Longrightarrow> dom (kv w) \<subseteq> dom (kv w')"
  by (cases r) (auto dest: set_ok set_err)

lemma set_nx_old: "r_set_nx R k x t w = (r, w') \<Longrightarrow> kv w k = Some y \<Longrightarrow> kv w' = kv w"
  by (cases r) (auto dest: set_nx_ok set_nx_err)

end

text \<open>
  Streams are a second view of the same server: \<open>XADD\<close> appends an entry, a flat
  list of field names and values, and \<open>XRANGE\<close> reads all entries in order.
\<close>

locale redis_streams = redis +
  fixes st :: "'a \<Rightarrow> string \<Rightarrow> string list list"
  assumes xadd_ok: "r_xadd R k fs w = (Inr r, w') \<Longrightarrow> st w' = (st w)(k := st w k @ [fs])"
    and xrange_ok: "r_xrange R k w = (Inr es, w') \<Longrightarrow> es = st w k \<and> st w' = st w"

text \<open>
  The queue keeps the jobs it knows by id: adding a job whose id is known
  returns without adding anything, which is what makes the deterministic job ids
  of the pipeline an idempotent enqueue.
\<close>

locale job_queue =
  fixes Q :: "'w queue_client"
    and jobs :: "'w \<Rightarrow> string \<rightharpoonup> StageJobData"
  assumes add_ok: "q_add Q n d j w = (Inr r, w') \<Longrightarrow>
      jobs w' = (if jobs w j = None then (jobs w)(j \<mapsto> d) else jobs w)"
    and add_err: "q_add Q n d j w = (Inl e, w') \<Longrightarrow>
      jobs w' = jobs w \<or> jobs w j = None \<and> jobs w' = (jobs w)(j \<mapsto> d)"
begin

lemma add_keeps_old: "q_add Q n d j w = (r, w') \<Longrightarrow> jobs w i = Some x \<Longrightarrow> jobs w' i = Some x"
  by (cases r) (auto dest!: add_ok add_err split: if_splits)

end

text \<open>Both services of one deployment: neither touches the state of the other.\<close>

locale pipeline_services = redis R kv + job_queue Q jobs
  for R :: "'w redis_client" and kv and Q :: "'w queue_client" and jobs +
  assumes get_jobs: "r_get R k w = (r1, w') \<Longrightarrow> jobs w' = jobs w"
    and set_jobs: "r_set R k x ttl w = (r2, w') \<Longrightarrow> jobs w' = jobs w"
    and set_nx_jobs: "r_set_nx R k x t w = (r3, w') \<Longrightarrow> jobs w' = jobs w"
    and del_jobs: "r_del R k w = (r4, w') \<Longrightarrow> jobs w' = jobs w"
    and eval_jobs: "r_eval R f w = (r5, w') \<Longrightarrow> jobs w' = jobs w"
    and exists_jobs: "r_exists R k w = (r6, w') \<Longrightarrow> jobs w' = jobs w"
    and xadd_jobs: "r_xadd R k fs w = (r7, w') \<Longrightarrow> jobs w' = jobs w"
    and add_kv: "q_add Q n d j w = (r8, w') \<Longrightarrow> kv w' = kv w"

section \<open>Keys\<close>

text \<open>
  Every key of the pipeline ends in a family word after its last colon.  Two
  keys with different last segments differ, whatever the run ids in them are.
\<close>

definition last_seg :: "string \<Rightarrow> string" where
  "last_seg k = rev (takeWhile (\<lambda>c. c \<noteq> CHR '':'') (rev k))"

lemma last_seg_append: "CHR '':'' \<notin> set ys \<Longrightarrow> last_seg (xs @ CHR '':'' # ys) = ys"
  by (simp add: last_seg_def takeWhile_append)

lemma last_seg_neq: "last_seg a \<noteq> last_seg b \<Longrightarrow> a \<noteq> b"
  by auto

lemma nat_str_no_colon [simp]: "CHR '':'' \<notin> set (nat_str n)"
  by (rule nat_str_no_char) (simp add: is_digit_def)

lemma nat_str_no_dash [simp]: "CHR ''-'' \<notin> set (nat_str n)"
  by (rule nat_str_no_char) (simp add: is_digit_def)

lemma stage_str_no_colon [simp]: "CHR '':'' \<notin> set (stage_str s)"
  by (cases s) simp_all

section \<open>The in-memory client of the test suite\<close>

text \<open>
  The Redis double of the test suite: a \<open>Map\<close> from keys to values.  The world
  also holds the job table, so that the same world serves the queue.  The
  double's expiry times are left out: no key expires in the runs it is used for.
\<close>

record mem_world =
  mem_kv :: kvstore
  mem_jobs :: "string \<rightharpoonup> StageJobData"
  mem_streams :: "string \<Rightarrow> string list list"

definition mem_get :: "string \<Rightarrow> (mem_world, js_error, rval option) eff" where
  "mem_get k = getsM (\<lambda>m. mem_kv m k)"

definition mem_set :: "string \<Rightarrow> rval \<Rightarrow> nat option \<Rightarrow> (mem_world, js_error, unit) eff" where
  "mem_set k x ttl = modifyM (\<lambda>m. m\<lparr>mem_kv := (mem_kv m)(k \<mapsto> x)\<rparr>)"

definition mem_set_nx :: "string \<Rightarrow> rval \<Rightarrow> nat \<Rightarrow> (mem_world, js_error, bool) eff" where
  "mem_set_nx k x ttl m = (case mem_kv m k of
      Some _ \<Rightarrow> (Inr False, m)
    | None \<Rightarrow> (Inr True, m\<lparr>mem_kv := (mem_kv m)(k \<mapsto> x)\<rparr>))"

definition mem_del :: "string \<Rightarrow> (mem_world, js_error, unit) eff" where
  "mem_del k = modifyM (\<lambda>m. m\<lparr>mem_kv := (mem_kv m)(k := None)\<rparr>)"

definition mem_eval :: "lua \<Rightarrow> (mem_world, js_error, nat) eff" where
  "mem_eval f m = (case f (mem_kv m) of (n, s) \<Rightarrow> (Inr n, m\<lparr>mem_kv := s\<rparr>))"

definition mem_exists :: "string \<Rightarrow> (mem_world, js_error, bool) eff" where
  "mem_exists k = getsM (\<lambda>m. mem_kv m k \<noteq> None)"

definition mem_xadd :: "string \<Rightarrow> string list \<Rightarrow> (mem_world, js_error, string option) eff" where
  "mem_xadd k fs m = (Inr (Some (nat_str (length (mem_streams m k)) @ ''-0'')),
     m\<lparr>mem_streams := (mem_streams m)(k := mem_streams m k @ [fs])\<rparr>)"

definition mem_xrange :: "string \<Rightarrow> (mem_world, js_error, string list list) eff" where
  "mem_xrange k = getsM (\<lambda>m. mem_streams m k)"

definition mem_add :: "PipelineStage \<Rightarrow> StageJobData \<Rightarrow> string \<Rightarrow> (mem_world, js_error, string option) eff" where
  "mem_add n d j m = (case mem_jobs m j of
      Some _ \<Rightarrow> (Inr (Some j), m)
    | None \<Rightarrow> (Inr (Some j), m\<lparr>mem_jobs := (mem_jobs m)(j \<mapsto> d)\<rparr>))"

definition InMemoryQueue :: "mem_world queue_client" where
  "InMemoryQueue = \<lparr>q_add = mem_add\<rparr>"

definition InMemoryRedis :: "mem_world redis_client" where
  "InMemoryRedis = \<lparr>r_get = mem_get, r_set = mem_set, r_set_nx = mem_set_nx,
     r_del = mem_del, r_eval = mem_eval,
     r_exists = mem_exists, r_xadd = mem_xadd, r_xrange = mem_xrange\<rparr>"

definition mem_empty :: mem_world where
  "mem_empty = \<lparr>mem_kv = Map.empty, mem_jobs = Map.empty, mem_streams = (\<lambda>_. [])\<rparr>"

lemmas mem_redis_defs = InMemoryRedis_def mem_get_def mem_set_def mem_set_nx_def mem_del_def
  mem_eval_def mem_exists_def mem_xadd_def mem_xrange_def InMemoryQueue_def mem_add_def

interpretation mem: redis_streams InMemoryRedis mem_kv mem_streams
  by unfold_locales
    (auto simp: mem_redis_defs eff_simps split: option.splits prod.splits)

interpretation mem_queue: job_queue InMemoryQueue mem_jobs
  by unfold_locales (auto simp: mem_redis_defs split: option.splits)

interpretation mem_services: pipeline_services InMemoryRedis mem_kv InMemoryQueue mem_jobs
  by unfold_locales
    (auto simp: mem_redis_defs eff_simps split: option.splits prod.splits)

end
