(* ===== verification/Checkpoints.thy ===== *)
theory Checkpoints
  imports Redis_Client
begin

text \<open>
  \<open>backend/pipeline/checkpoints.ts\<close>: the durable execution and transition
  markers of a stage and the terminal markers of a run.  One definition per
  method of \<open>PipelineCheckpoints\<close>, over the Redis client it is constructed with.
  The client lemmas live in the locale \<open>redis\<close>; they say what each method
  leaves in the store when it returns and when it throws.
\<close>

datatype TransitionState = TransNone | TransPending | TransCommitted

datatype TerminalState = TermNone | TermPending | TermCommitted

record StageIdentity =
  si_runId :: string
  si_stage :: PipelineStage
  si_iteration :: nat

definition THIRTY_DAYS_SECONDS :: nat where
  "THIRTY_DAYS_SECONDS = 60 * 60 * 24 * 30"

section \<open>Keys\<close>

definition baseKey :: "StageIdentity \<Rightarrow> string" where
  "baseKey idn = join '':''
     [''oneshot'', ''run'', si_runId idn, ''iteration'', nat_str (si_iteration idn),
      ''stage'', stage_str (si_stage idn)]"

definition outcomeKey :: "StageIdentity \<Rightarrow> string" where
  "outcomeKey idn = baseKey idn @ '':outcome''"

definition executedKey :: "StageIdentity \<Rightarrow> string" where
  "executedKey idn = baseKey idn @ '':executed''"

definition transitionKey :: "StageIdentity \<Rightarrow> string" where
  "transitionKey idn = baseKey idn @ '':transition''"

definition finalizationIntentKey :: "string \<Rightarrow> string" where
  "finalizationIntentKey runId = ''oneshot:run:'' @ runId @ '':finalization-intent''"

definition builderIntentKey :: "string \<Rightarrow> string" where
  "builderIntentKey runId = ''oneshot:run:'' @ runId @ '':builder-intent''"

definition terminalStateKey :: "string \<Rightarrow> string" where
  "terminalStateKey runId = ''oneshot:run:'' @ runId @ '':terminal-state''"

definition terminalIssueKey :: "string \<Rightarrow> string" where
  "terminalIssueKey runId = ''oneshot:run:'' @ runId @ '':terminal-issue''"

lemma last_seg_snoc:
  "ys = CHR '':'' # zs \<Longrightarrow> CHR '':'' \<notin> set zs \<Longrightarrow> last_seg (xs @ ys) = zs"
  by (simp add: last_seg_append)

lemma key_last_seg [stage_simps]:
  "last_seg (outcomeKey i) = ''outcome''"
  "last_seg (executedKey i) = ''executed''"
  "last_seg (transitionKey i) = ''transition''"
  "last_seg (finalizationIntentKey r) = ''finalization-intent''"
  "last_seg (builderIntentKey r) = ''builder-intent''"
  "last_seg (terminalStateKey r) = ''terminal-state''"
  "last_seg (terminalIssueKey r) = ''terminal-issue''"
  unfolding outcomeKey_def executedKey_def transitionKey_def finalizationIntentKey_def
    builderIntentKey_def terminalStateKey_def terminalIssueKey_def
    append_assoc [symmetric]
  by (rule last_seg_snoc [OF refl], simp)+

lemma key_neq [simp]:
  "outcomeKey i \<noteq> executedKey j" "executedKey j \<noteq> outcomeKey i"
  "outcomeKey i \<noteq> transitionKey j" "transitionKey j \<noteq> outcomeKey i"
  "executedKey i \<noteq> transitionKey j" "transitionKey j \<noteq> executedKey i"
  "outcomeKey i \<noteq> finalizationIntentKey r" "finalizationIntentKey r \<noteq> outcomeKey i"
  "executedKey i \<noteq> finalizationIntentKey r" "finalizationIntentKey r \<noteq> executedKey i"
  "transitionKey i \<noteq> finalizationIntentKey r" "finalizationIntentKey r \<noteq> transitionKey i"
  "outcomeKey i \<noteq> terminalStateKey r" "terminalStateKey r \<noteq> outcomeKey i"
  "executedKey i \<noteq> terminalStateKey r" "terminalStateKey r \<noteq> executedKey i"
  "transitionKey i \<noteq> terminalStateKey r" "terminalStateKey r \<noteq> transitionKey i"
  "outcomeKey i \<noteq> terminalIssueKey r" "terminalIssueKey r \<noteq> outcomeKey i"
  "executedKey i \<noteq> terminalIssueKey r" "terminalIssueKey r \<noteq> executedKey i"
  "transitionKey i \<noteq> terminalIssueKey r" "terminalIssueKey r \<noteq> transitionKey i"
  "terminalStateKey r \<noteq> terminalIssueKey q" "terminalIssueKey q \<noteq> terminalStateKey r"
  "outcomeKey i \<noteq> builderIntentKey r" "builderIntentKey r \<noteq> outcomeKey i"
  "executedKey i \<noteq> builderIntentKey r" "builderIntentKey r \<noteq> executedKey i"
  by (rule last_seg_neq, simp add: key_last_seg)+

lemma baseKey_eq:
  "baseKey idn = ((''oneshot:run:'' @ si_runId idn @ '':iteration'') @ CHR '':'' #
     nat_str (si_iteration idn) @ '':stage'') @ CHR '':'' # stage_str (si_stage idn)"
  by (simp add: baseKey_def join_def)

text \<open>Distinct stage executions have distinct keys, for every run id.\<close>

lemma baseKey_inj [stage_simps]: "baseKey i = baseKey j \<longleftrightarrow> i = j"
proof
  assume eq: "baseKey i = baseKey j"
  let ?pre = "\<lambda>i. (''oneshot:run:'' @ si_runId i @ '':iteration'') @ CHR '':'' # nat_str (si_iteration i)"
  have 1: "?pre i @ '':stage'' = ?pre j @ '':stage'' \<and> stage_str (si_stage i) = stage_str (si_stage j)"
    using last_sep_inj [OF eq [unfolded baseKey_eq]] by simp
  then have "?pre i = ?pre j" by simp
  from last_sep_inj [OF this]
  have "''oneshot:run:'' @ si_runId i @ '':iteration'' = ''oneshot:run:'' @ si_runId j @ '':iteration''
      \<and> nat_str (si_iteration i) = nat_str (si_iteration j)" by simp
  then have "si_runId i = si_runId j" and "si_iteration i = si_iteration j"
    by (simp_all add: nat_str_inj)
  moreover from 1 have "si_stage i = si_stage j" by (simp add: stage_str_inj)
  ultimately show "i = j" by simp
qed simp

lemma stage_key_inj [simp]:
  "outcomeKey i = outcomeKey j \<longleftrightarrow> i = j"
  "executedKey i = executedKey j \<longleftrightarrow> i = j"
  "transitionKey i = transitionKey j \<longleftrightarrow> i = j"
  by (simp_all add: outcomeKey_def executedKey_def transitionKey_def baseKey_inj)

section \<open>Documents read back\<close>

text \<open>
  \<open>raw ? JSON.parse(raw) : null\<close>: a missing or empty value is \<open>null\<close>; a text
  that is no document of the expected family makes the parse throw.
\<close>

definition parse_error :: js_error where
  "parse_error = JsError ''Unexpected token in JSON''"

fun parse_raw :: "(stored_doc \<Rightarrow> 'a option) \<Rightarrow> rval option \<Rightarrow> js_error + 'a option" where
  "parse_raw sel None = Inr None"
| "parse_raw sel (Some (RText t)) = (if t = '''' then Inr None else Inl parse_error)"
| "parse_raw sel (Some (RJson d)) =
     (case sel d of Some x \<Rightarrow> Inr (Some x) | None \<Rightarrow> Inl parse_error)"

fun as_outcome :: "stored_doc \<Rightarrow> outcome option" where
  "as_outcome (DOutcome x) = Some x"
| "as_outcome _ = None"

fun as_intent :: "stored_doc \<Rightarrow> FinalizationIntent option" where
  "as_intent (DIntent x) = Some x"
| "as_intent _ = None"

fun as_issue :: "stored_doc \<Rightarrow> PipelineIssue option option" where
  "as_issue (DIssue x) = Some x"
| "as_issue _ = None"

section \<open>The methods\<close>

definition recordBuilderIntent :: "'w redis_client \<Rightarrow> string \<Rightarrow> string \<Rightarrow> ('w, js_error, bool) eff" where
  "recordBuilderIntent R now_iso runId =
     r_set_nx R (builderIntentKey runId) (RText now_iso) THIRTY_DAYS_SECONDS"

definition saveFinalizationIntent ::
  "'w redis_client \<Rightarrow> string \<Rightarrow> FinalizationIntent \<Rightarrow> ('w, js_error, unit) eff" where
  "saveFinalizationIntent R runId intent =
     r_set R (finalizationIntentKey runId) (RJson (DIntent intent)) (Some THIRTY_DAYS_SECONDS)"

definition loadFinalizationIntent ::
  "'w redis_client \<Rightarrow> string \<Rightarrow> ('w, js_error, FinalizationIntent option) eff" where
  "loadFinalizationIntent R runId =
     bindM (r_get R (finalizationIntentKey runId)) (\<lambda>raw. liftM (parse_raw as_intent raw))"

definition isExecuted :: "'w redis_client \<Rightarrow> StageIdentity \<Rightarrow> ('w, js_error, bool) eff" where
  "isExecuted R idn =
     bindM (r_get R (executedKey idn)) (\<lambda>v. returnM (v = Some (RText ''1'')))"

definition loadOutcome :: "'w redis_client \<Rightarrow> StageIdentity \<Rightarrow> ('w, js_error, outcome option) eff" where
  "loadOutcome R idn =
     bindM (r_get R (outcomeKey idn)) (\<lambda>raw. liftM (parse_raw as_outcome raw))"

text \<open>
  The Lua text of \<open>SAVE_EXECUTION_SCRIPT\<close>: with a lease token (\<open>ARGV[3]\<close>) that
  the lock key (\<open>KEYS[3]\<close>) does not hold, nothing is written.
\<close>

definition SAVE_EXECUTION_SCRIPT :: "string \<Rightarrow> string \<Rightarrow> string \<Rightarrow> rval \<Rightarrow> string \<Rightarrow> lua" where
  "SAVE_EXECUTION_SCRIPT key1 key2 key3 arg1 arg3 st =
     (if arg3 \<noteq> '''' \<and> st key3 \<noteq> Some (RText arg3) then (0, st)
      else (1, st(key1 \<mapsto> arg1, key2 \<mapsto> RText ''1'')))"

record lease =
  lease_key :: string
  lease_token :: string

definition saveExecution ::
  "'w redis_client \<Rightarrow> StageIdentity \<Rightarrow> outcome \<Rightarrow> lease option \<Rightarrow> ('w, js_error, unit) eff" where
  "saveExecution R idn out ls =
     bindM (r_eval R (SAVE_EXECUTION_SCRIPT (outcomeKey idn) (executedKey idn)
         (case ls of Some l \<Rightarrow> lease_key l | None \<Rightarrow> ''oneshot:no-lease'')
         (RJson (DOutcome out))
         (case ls of Some l \<Rightarrow> lease_token l | None \<Rightarrow> '''')))
       (\<lambda>result. if result \<noteq> 1
          then throwM (JsError (''Lease ownership lost before committing '' @ stage_str (si_stage idn)))
          else returnM ())"

fun transition_of :: "rval option \<Rightarrow> TransitionState" where
  "transition_of (Some (RText t)) =
     (if t = ''pending'' then TransPending
      else if t = ''committed'' then TransCommitted else TransNone)"
| "transition_of _ = TransNone"

definition getTransitionState :: "'w redis_client \<Rightarrow> StageIdentity \<Rightarrow> ('w, js_error, TransitionState) eff" where
  "getTransitionState R idn =
     bindM (r_get R (transitionKey idn)) (\<lambda>v. returnM (transition_of v))"

definition markTransitionPending :: "'w redis_client \<Rightarrow> StageIdentity \<Rightarrow> ('w, js_error, unit) eff" where
  "markTransitionPending R idn =
     r_set R (transitionKey idn) (RText ''pending'') (Some THIRTY_DAYS_SECONDS)"

definition markTransitionCommitted :: "'w redis_client \<Rightarrow> StageIdentity \<Rightarrow> ('w, js_error, unit) eff" where
  "markTransitionCommitted R idn =
     r_set R (transitionKey idn) (RText ''committed'') (Some THIRTY_DAYS_SECONDS)"

fun terminal_of :: "rval option \<Rightarrow> TerminalState" where
  "terminal_of (Some (RText t)) =
     (if t = ''pending'' then TermPending
      else if t = ''committed'' then TermCommitted else TermNone)"
| "terminal_of _ = TermNone"

definition getTerminalState :: "'w redis_client \<Rightarrow> string \<Rightarrow> ('w, js_error, TerminalState) eff" where
  "getTerminalState R runId =
     bindM (r_get R (terminalStateKey runId)) (\<lambda>v. returnM (terminal_of v))"

text \<open>A parse failure of the terminal issue is swallowed and reads as \<open>null\<close>.\<close>

definition getTerminalIssue :: "'w redis_client \<Rightarrow> string \<Rightarrow> ('w, js_error, PipelineIssue option) eff" where
  "getTerminalIssue R runId =
     bindM (r_get R (terminalIssueKey runId)) (\<lambda>raw.
       returnM (case parse_raw as_issue raw of
          Inr (Some i) \<Rightarrow> i
        | Inr None \<Rightarrow> None
        | Inl e \<Rightarrow> None))"

definition markTerminalPending ::
  "'w redis_client \<Rightarrow> string \<Rightarrow> PipelineIssue option \<Rightarrow> ('w, js_error, PipelineIssue option) eff" where
  "markTerminalPending R runId iss =
     bindM (r_set_nx R (terminalStateKey runId) (RText ''pending'') THIRTY_DAYS_SECONDS) (\<lambda>acquired.
       if acquired then
         thenM (r_set R (terminalIssueKey runId) (RJson (DIssue iss)) (Some THIRTY_DAYS_SECONDS))
               (returnM iss)
       else getTerminalIssue R runId)"

definition markTerminalCommitted :: "'w redis_client \<Rightarrow> string \<Rightarrow> ('w, js_error, unit) eff" where
  "markTerminalCommitted R runId =
     r_set R (terminalStateKey runId) (RText ''committed'') (Some THIRTY_DAYS_SECONDS)"

section \<open>What the methods leave in the store\<close>

text \<open>
  The invariant of the store: an executed marker never stands without its
  outcome.
\<close>

definition ckpt_inv :: "kvstore \<Rightarrow> bool" where
  "ckpt_inv m \<longleftrightarrow> (\<forall>i. m (executedKey i) = Some (RText ''1'') \<longrightarrow>
     (\<exists>x. m (outcomeKey i) = Some (RJson (DOutcome x))))"

lemma ckpt_inv_upd:
  "ckpt_inv m \<Longrightarrow> last_seg k \<notin> {''outcome'', ''executed''} \<Longrightarrow> ckpt_inv (m(k := v))"
  by (auto simp: ckpt_inv_def key_last_seg)

lemma ckpt_inv_save:
  "ckpt_inv m \<Longrightarrow> ckpt_inv (m(outcomeKey i \<mapsto> RJson (DOutcome x), executedKey i \<mapsto> RText ''1''))"
  by (auto simp: ckpt_inv_def)

context redis
begin

lemma isExecuted_ok:
  "isExecuted R i w = (Inr b, w') \<Longrightarrow> b = (kv w (executedKey i) = Some (RText ''1'')) \<and> kv w' = kv w"
  by (auto simp: isExecuted_def eff_simps split: prod.splits sum.splits dest: get_ok)

lemma loadOutcome_ok:
  "loadOutcome R i w = (Inr v, w') \<Longrightarrow>
     parse_raw as_outcome (kv w (outcomeKey i)) = Inr v \<and> kv w' = kv w"
  by (auto simp: loadOutcome_def eff_simps split: prod.splits sum.splits dest: get_ok)

lemma getTransitionState_ok:
  "getTransitionState R i w = (Inr t, w') \<Longrightarrow> t = transition_of (kv w (transitionKey i)) \<and> kv w' = kv w"
  by (auto simp: getTransitionState_def eff_simps split: prod.splits sum.splits dest: get_ok)

lemma getTerminalState_ok:
  "getTerminalState R r w = (Inr t, w') \<Longrightarrow> t = terminal_of (kv w (terminalStateKey r)) \<and> kv w' = kv w"
  by (auto simp: getTerminalState_def eff_simps split: prod.splits sum.splits dest: get_ok)

lemma reads_keep:
  "kv (snd (isExecuted R i w)) = kv w"
  "kv (snd (loadOutcome R i w)) = kv w"
  "kv (snd (getTransitionState R i w)) = kv w"
  "kv (snd (getTerminalState R r w)) = kv w"
  "kv (snd (getTerminalIssue R r w)) = kv w"
  "kv (snd (loadFinalizationIntent R r w)) = kv w"
  by (auto simp: isExecuted_def loadOutcome_def getTransitionState_def getTerminalState_def
      getTerminalIssue_def loadFinalizationIntent_def eff_simps split: prod.splits sum.splits
      dest: get_kv)

lemma saveExecution_ok:
  assumes "saveExecution R i x ls w = (Inr u, w')"
  shows "kv w' = (kv w)(outcomeKey i \<mapsto> RJson (DOutcome x), executedKey i \<mapsto> RText ''1'')"
    and "ls = Some l \<Longrightarrow> lease_token l \<noteq> '''' \<Longrightarrow> kv w (lease_key l) = Some (RText (lease_token l))"
  using assms
  by (auto simp: saveExecution_def eff_simps SAVE_EXECUTION_SCRIPT_def
      split: prod.splits sum.splits if_splits dest!: eval_ok)

lemma saveExecution_cases:
  assumes "saveExecution R i x ls w = (r, w')"
  shows "kv w' = kv w \<or>
    kv w' = (kv w)(outcomeKey i \<mapsto> RJson (DOutcome x), executedKey i \<mapsto> RText ''1'')"
  using assms
  by (auto simp: saveExecution_def eff_simps SAVE_EXECUTION_SCRIPT_def
      split: prod.splits sum.splits if_splits dest!: eval_ok eval_err)

lemma saveExecution_lost:
  assumes "lease_token l \<noteq> ''''" and "kv w (lease_key l) \<noteq> Some (RText (lease_token l))"
    and "saveExecution R i x (Some l) w = (r, w')"
  shows "(\<exists>e. r = Inl e) \<and> kv w' = kv w"
  using assms
  by (auto simp: saveExecution_def eff_simps SAVE_EXECUTION_SCRIPT_def
      split: prod.splits sum.splits if_splits dest!: eval_ok eval_err)

lemma markTransitionCommitted_ok:
  "markTransitionCommitted R i w = (Inr u, w') \<Longrightarrow> kv w' = (kv w)(transitionKey i \<mapsto> RText ''committed'')"
  by (auto simp: markTransitionCommitted_def dest: set_ok)

lemma markTransitionPending_ok:
  "markTransitionPending R i w = (Inr u, w') \<Longrightarrow> kv w' = (kv w)(transitionKey i \<mapsto> RText ''pending'')"
  by (auto simp: markTransitionPending_def dest: set_ok)

lemma markTerminalPending_first:
  assumes "kv w (terminalStateKey r) = None" and "markTerminalPending R r iss w = (Inr agreed, w')"
  shows "agreed = iss \<and> kv w' = (kv w)(terminalStateKey r \<mapsto> RText ''pending'',
    terminalIssueKey r \<mapsto> RJson (DIssue iss))"
  using assms
  by (auto simp: markTerminalPending_def eff_simps split: prod.splits sum.splits if_splits
      dest!: set_nx_ok set_ok)

lemma markTerminalPending_later:
  assumes "kv w (terminalStateKey r) = Some v"
    and "kv w (terminalIssueKey r) = Some (RJson (DIssue first))"
    and "markTerminalPending R r iss w = (Inr agreed, w')"
  shows "agreed = first \<and> kv w' = kv w"
  using assms
  by (auto simp: markTerminalPending_def getTerminalIssue_def eff_simps
      split: prod.splits sum.splits if_splits dest!: set_nx_ok get_ok)

end

end
