(* ===== verification/Idempotency.thy ===== *)
theory Idempotency
  imports Checkpoints
begin

text \<open>
  \<open>backend/pipeline/idempotency.ts\<close>, the completion markers and the token lock
  around a stage execution, and the run-level research revision of
  \<open>backend/pipeline/stage-scope.ts\<close>.  The random token and the clock are
  arguments.  The lemmas are the lock's contract: at most one holder, and only
  the holder can renew or release.
\<close>

section \<open>Keys\<close>

definition completedKey :: "string \<Rightarrow> string \<Rightarrow> nat \<Rightarrow> string" where
  "completedKey runId stage iteration =
     ''oneshot:run:'' @ runId @ '':stage:'' @ stage @ '':'' @ nat_str iteration @ '':completed''"

definition lockKey :: "string \<Rightarrow> string \<Rightarrow> string" where
  "lockKey runId stage = ''oneshot:run:'' @ runId @ '':stage:'' @ stage @ '':lock''"

definition researchRevisionKey :: "string \<Rightarrow> string" where
  "researchRevisionKey runId = ''oneshot:run:'' @ runId @ '':researcher-revision''"

lemma idem_key_last_seg [stage_simps]:
  "last_seg (completedKey r s i) = ''completed''"
  "last_seg (lockKey r s) = ''lock''"
  "last_seg (researchRevisionKey r) = ''researcher-revision''"
  unfolding completedKey_def lockKey_def researchRevisionKey_def append_assoc [symmetric]
  by (rule last_seg_snoc [OF refl], simp)+

lemma lock_key_neq [simp]:
  "lockKey r s \<noteq> outcomeKey i" "outcomeKey i \<noteq> lockKey r s"
  "lockKey r s \<noteq> executedKey i" "executedKey i \<noteq> lockKey r s"
  "lockKey r s \<noteq> transitionKey i" "transitionKey i \<noteq> lockKey r s"
  "lockKey r s \<noteq> completedKey q t n" "completedKey q t n \<noteq> lockKey r s"
  "completedKey r s n \<noteq> outcomeKey i" "outcomeKey i \<noteq> completedKey r s n"
  "completedKey r s n \<noteq> executedKey i" "executedKey i \<noteq> completedKey r s n"
  "completedKey r s n \<noteq> transitionKey i" "transitionKey i \<noteq> completedKey r s n"
  by (rule last_seg_neq, simp add: key_last_seg idem_key_last_seg)+

section \<open>Operations\<close>

definition isCompleted :: "'w redis_client \<Rightarrow> string \<Rightarrow> string \<Rightarrow> nat \<Rightarrow> ('w, js_error, bool) eff" where
  "isCompleted R runId stage iteration = r_exists R (completedKey runId stage iteration)"

definition markCompleted ::
  "'w redis_client \<Rightarrow> string \<Rightarrow> string \<Rightarrow> string \<Rightarrow> nat \<Rightarrow> ('w, js_error, unit) eff" where
  "markCompleted R now_iso runId stage iteration =
     r_set R (completedKey runId stage iteration) (RText now_iso) (Some THIRTY_DAYS_SECONDS)"

definition acquire ::
  "'w redis_client \<Rightarrow> string \<Rightarrow> string \<Rightarrow> string \<Rightarrow> nat \<Rightarrow> ('w, js_error, string option) eff" where
  "acquire R token runId stage ttlSeconds =
     bindM (isCompleted R runId stage 0) (\<lambda>completed.
       if completed then returnM None
       else bindM (r_set_nx R (lockKey runId stage) (RText token) ttlSeconds) (\<lambda>ok.
         returnM (if ok then Some token else None)))"

text \<open>
  \<open>EXPIRE\<close> only moves the expiry time, which the view of live keys does not
  show, and returns 1 on a key that is there.
\<close>

definition RENEW_LOCK_SCRIPT :: "string \<Rightarrow> string \<Rightarrow> lua" where
  "RENEW_LOCK_SCRIPT key token st = (if st key = Some (RText token) then (1, st) else (0, st))"

definition RELEASE_LOCK_SCRIPT :: "string \<Rightarrow> string \<Rightarrow> lua" where
  "RELEASE_LOCK_SCRIPT key token st =
     (if st key = Some (RText token) then (1, st(key := None)) else (0, st))"

definition renew :: "'w redis_client \<Rightarrow> string \<Rightarrow> string \<Rightarrow> string \<Rightarrow> ('w, js_error, bool) eff" where
  "renew R runId stage token =
     bindM (r_eval R (RENEW_LOCK_SCRIPT (lockKey runId stage) token)) (\<lambda>n. returnM (n = 1))"

definition release :: "'w redis_client \<Rightarrow> string \<Rightarrow> string \<Rightarrow> string \<Rightarrow> ('w, js_error, bool) eff" where
  "release R runId stage token =
     bindM (r_eval R (RELEASE_LOCK_SCRIPT (lockKey runId stage) token)) (\<lambda>n. returnM (n = 1))"

text \<open>
  \<open>Number(raw)\<close> on the texts this key holds, decimal numerals; any other text,
  which no code writes here, reads as \<open>NaN\<close> and so as revision 0.
\<close>

definition revision_of :: "rval option \<Rightarrow> nat" where
  "revision_of raw = (case raw of
      Some (RText t) \<Rightarrow> (case str_nat t of Some n \<Rightarrow> n | None \<Rightarrow> 0)
    | _ \<Rightarrow> 0)"

definition getCurrentResearchRevision :: "'w redis_client \<Rightarrow> string \<Rightarrow> ('w, js_error, nat) eff" where
  "getCurrentResearchRevision R runId =
     bindM (r_get R (researchRevisionKey runId)) (\<lambda>raw. returnM (revision_of raw))"

text \<open>The second half of the increment, after the current revision has been read.\<close>

definition writeNextRevision :: "'w redis_client \<Rightarrow> string \<Rightarrow> nat \<Rightarrow> ('w, js_error, nat) eff" where
  "writeNextRevision R runId current =
     thenM (r_set R (researchRevisionKey runId) (RText (nat_str (current + 1))) None)
       (returnM (current + 1))"

definition incrementResearchRevision :: "'w redis_client \<Rightarrow> string \<Rightarrow> ('w, js_error, nat) eff" where
  "incrementResearchRevision R runId =
     bindM (getCurrentResearchRevision R runId) (writeNextRevision R runId)"

section \<open>The lock's contract\<close>

lemmas idem_defs = isCompleted_def markCompleted_def acquire_def renew_def release_def
  RENEW_LOCK_SCRIPT_def RELEASE_LOCK_SCRIPT_def

context redis
begin

lemma acquire_some:
  assumes "acquire R token r s ttl w = (Inr (Some t), w')"
  shows "t = token \<and> kv w (lockKey r s) = None \<and> kv w' = (kv w)(lockKey r s \<mapsto> RText token)"
  using assms
  by (auto simp: idem_defs eff_simps split: prod.splits sum.splits if_splits
      dest!: exists_ok set_nx_ok)

lemma acquire_held:
  assumes "kv w (lockKey r s) = Some v" and "acquire R token r s ttl w = (res, w')"
  shows "res \<noteq> Inr (Some t) \<and> kv w' = kv w"
  using assms
  by (auto simp: idem_defs eff_simps split: prod.splits sum.splits if_splits
      dest!: exists_ok exists_err set_nx_ok set_nx_err)

lemma isCompleted_kv: "isCompleted R r s i w = (res, w') \<Longrightarrow> kv w' = kv w"
  by (cases res) (auto simp: isCompleted_def dest: exists_ok exists_err)

lemma acquire_other:
  assumes "acquire R token r s ttl w = (res, w')" and "k \<noteq> lockKey r s"
  shows "kv w' k = kv w k"
  using assms
  by (auto simp: acquire_def eff_simps split: prod.splits sum.splits if_splits
      dest!: isCompleted_kv dest: set_nx_other)

lemma release_foreign:
  assumes "kv w (lockKey r s) \<noteq> Some (RText token)" and "release R r s token w = (res, w')"
  shows "kv w' = kv w \<and> res \<noteq> Inr True"
  using assms
  by (auto simp: idem_defs eff_simps split: prod.splits sum.splits if_splits
      dest!: eval_ok eval_err)

lemma release_own:
  assumes "kv w (lockKey r s) = Some (RText token)" and "release R r s token w = (Inr b, w')"
  shows "b \<and> kv w' = (kv w)(lockKey r s := None)"
  using assms
  by (auto simp: idem_defs eff_simps split: prod.splits sum.splits if_splits
      dest!: eval_ok eval_err)

lemma release_other:
  assumes "release R r s token w = (res, w')" and "k \<noteq> lockKey r s"
  shows "kv w' k = kv w k"
  using assms
  by (auto simp: idem_defs eff_simps split: prod.splits sum.splits if_splits
      dest!: eval_ok eval_err)

lemma renew_keeps:
  assumes "renew R r s token w = (res, w')"
  shows "kv w' = kv w \<and> (res = Inr True \<longrightarrow> kv w (lockKey r s) = Some (RText token))"
  using assms
  by (auto simp: idem_defs eff_simps split: prod.splits sum.splits if_splits
      dest!: eval_ok eval_err)

lemma markCompleted_other:
  "markCompleted R now r s i w = (res, w') \<Longrightarrow> k \<noteq> completedKey r s i \<Longrightarrow> kv w' k = kv w k"
  by (auto simp: markCompleted_def dest: set_other)

lemma increment_ok:
  assumes "incrementResearchRevision R r w = (Inr n, w')"
  shows "n = revision_of (kv w (researchRevisionKey r)) + 1 \<and>
    kv w' = (kv w)(researchRevisionKey r \<mapsto> RText (nat_str n))"
  using assms
  by (auto simp: incrementResearchRevision_def getCurrentResearchRevision_def
      writeNextRevision_def eff_simps split: prod.splits sum.splits dest!: get_ok set_ok)

end

section \<open>Properties\<close>

text \<open>
  C4.  Mutual exclusion of stage executions: over any Redis, while the store
  holds one worker's token, an acquire is refused, and a release or a renewal
  with another token does not report success; all three leave the whole store as
  it is.  And an acquire that succeeds found the lock free and left it with the
  acquirer's token.
\<close>

theorem lock_exclusive:
  assumes "redis R kv"
    and "kv w (lockKey r s) = Some (RText holder)" and "other \<noteq> holder"
    and "acquire R token r s ttl v = (Inr (Some t), v')"
  shows "fst (acquire R token r s ttl w) \<notin> range (\<lambda>t. Inr (Some t)) \<and>
    fst (release R r s other w) \<noteq> Inr True \<and> fst (renew R r s other w) \<noteq> Inr True \<and>
    kv (snd (acquire R token r s ttl w)) = kv w \<and>
    kv (snd (release R r s other w)) = kv w \<and> kv (snd (renew R r s other w)) = kv w \<and>
    t = token \<and> kv v (lockKey r s) = None \<and> kv v' = (kv v)(lockKey r s \<mapsto> RText token)"
  using redis.acquire_held [OF assms(1,2) prod.collapse [symmetric]]
    redis.release_foreign [OF assms(1) _ prod.collapse [symmetric], of w r s other]
    redis.renew_keeps [OF assms(1) prod.collapse [symmetric], of r s other w]
    redis.acquire_some [OF assms(1,4)] assms(2,3)
  by auto

definition locked_world :: mem_world where
  "locked_world = mem_empty\<lparr>mem_kv := [lockKey ''run'' ''build:0'' \<mapsto> RText ''A'']\<rparr>"

lemma lock_exclusive_witness:
  "fst (acquire InMemoryRedis ''B'' ''run'' ''build:0'' 60 locked_world) \<notin> range (\<lambda>t. Inr (Some t)) \<and>
   mem_kv (snd (release InMemoryRedis ''run'' ''build:0'' ''B'' locked_world)) = mem_kv locked_world"
proof -
  have held: "mem_kv locked_world (lockKey ''run'' ''build:0'') = Some (RText ''A'')"
    by (simp add: locked_world_def)
  have free: "acquire InMemoryRedis ''B'' ''run'' ''build:0'' 60 mem_empty =
      (Inr (Some ''B''), mem_empty\<lparr>mem_kv := [lockKey ''run'' ''build:0'' \<mapsto> RText ''B'']\<rparr>)"
    by (simp add: idem_defs eff_simps mem_redis_defs mem_empty_def)
  show ?thesis
    using lock_exclusive [OF mem.redis_axioms held _ free, of "''B''"] by simp
qed

text \<open>
  The research revision: an increment that returns gives the successor of
  the revision the store held and a later read gives exactly the returned value,
  so increments one after the other count up by one each.
\<close>

theorem revision_increments:
  assumes "redis R kv"
    and "incrementResearchRevision R r w = (Inr n, w1)"
    and "getCurrentResearchRevision R r w1 = (Inr m, w2)"
  shows "m = n \<and> n = revision_of (kv w (researchRevisionKey r)) + 1"
  using redis.increment_ok [OF assms(1,2)] assms(3)
  by (auto simp: getCurrentResearchRevision_def eff_simps revision_of_def str_nat_str
      split: prod.splits sum.splits dest!: redis.get_ok [OF assms(1)])

lemma revision_increments_witness:
  "revision_of (Some (RText ''41'')) + 1 = 42"
proof -
  let ?w = "mem_empty\<lparr>mem_kv := [researchRevisionKey ''run'' \<mapsto> RText ''41'']\<rparr>"
  have r: "revision_of (Some (RText ''41'')) = 41"
    by code_simp
  let ?w1 = "?w\<lparr>mem_kv := [researchRevisionKey ''run'' \<mapsto> RText (nat_str 42)]\<rparr>"
  have 1: "incrementResearchRevision InMemoryRedis ''run'' ?w = (Inr 42, ?w1)"
    by (simp add: incrementResearchRevision_def getCurrentResearchRevision_def
        writeNextRevision_def mem_redis_defs eff_simps r)
  have 2: "getCurrentResearchRevision InMemoryRedis ''run'' ?w1 = (Inr 42, ?w1)"
    by (simp add: getCurrentResearchRevision_def mem_redis_defs eff_simps revision_of_def str_nat_str)
  show ?thesis
    using revision_increments [OF mem.redis_axioms 1 2] by simp
qed

text \<open>
  The increment reads and writes in two commands, not one.  Two increments whose
  reads both come before the writes lose one: the revision moves by one only.
\<close>

lemma increment_not_atomic:
  assumes "redis R kv"
    and "getCurrentResearchRevision R r w0 = (Inr a, w1)"
    and "getCurrentResearchRevision R r w1 = (Inr b, w2)"
    and "writeNextRevision R r a w2 = (Inr m, w3)"
    and "writeNextRevision R r b w3 = (Inr n, w4)"
  shows "m = n \<and> revision_of (kv w4 (researchRevisionKey r)) = a + 1"
  using assms(2-)
  by (auto simp: getCurrentResearchRevision_def writeNextRevision_def eff_simps
      revision_of_def str_nat_str split: prod.splits sum.splits
      dest!: redis.get_ok [OF assms(1)] redis.set_ok [OF assms(1)])

end
