(* ===== verification/Pipeline_Queue.thy ===== *)
theory Pipeline_Queue
  imports Idempotency
begin

text \<open>
  \<open>backend/pipeline/queue.ts\<close>, the deterministic job ids and the enqueue, and
  \<open>backend/pipeline/history.ts\<close>, the per-run history kept in a Redis stream.
\<close>

section \<open>History\<close>

datatype HistoryType = HQueued | HStarted | HCompleted | HFailed | HSkipped | HWaiting | HConfirmed | HRetrying

fun history_type_str :: "HistoryType \<Rightarrow> string" where
  "history_type_str HQueued = ''queued''"
| "history_type_str HStarted = ''started''"
| "history_type_str HCompleted = ''completed''"
| "history_type_str HFailed = ''failed''"
| "history_type_str HSkipped = ''skipped''"
| "history_type_str HWaiting = ''waiting''"
| "history_type_str HConfirmed = ''confirmed''"
| "history_type_str HRetrying = ''retrying''"

record HistoryEvent =
  he_runId :: string
  he_stage :: string
  he_type :: HistoryType
  he_iteration :: "nat option"
  he_message :: "string option"
  he_jobId :: "string option"
  he_attempt :: "nat option"

text \<open>
  An event read back.  Its type is the stored text (the source casts it), and a
  numeric text that is no decimal numeral reads as \<open>NaN\<close>, here \<open>None\<close>.  A
  missing field reads as \<open>undefined\<close>.
\<close>

record HistoryRecord =
  hx_runId :: "string option"
  hx_stage :: "string option"
  hx_type :: "string option"
  hx_timestamp :: "string option"
  hx_iteration :: "nat option"
  hx_message :: "string option"
  hx_jobId :: "string option"
  hx_attempt :: "nat option"

definition historyKey :: "string \<Rightarrow> string" where
  "historyKey runId = ''oneshot:run:'' @ runId @ '':history''"

definition or_else :: "'a option \<Rightarrow> 'a \<Rightarrow> 'a" where
  "or_else x d = (case x of Some y \<Rightarrow> y | None \<Rightarrow> d)"

definition history_fields :: "HistoryEvent \<Rightarrow> string \<Rightarrow> string list" where
  "history_fields ev timestamp =
     [''runId'', he_runId ev, ''stage'', he_stage ev, ''type'', history_type_str (he_type ev),
      ''timestamp'', timestamp, ''iteration'', nat_str (or_else (he_iteration ev) 0),
      ''message'', or_else (he_message ev) '''', ''jobId'', or_else (he_jobId ev) '''',
      ''attempt'', nat_str (or_else (he_attempt ev) 0)]"

definition history_append ::
  "'w redis_client \<Rightarrow> nat \<Rightarrow> string \<Rightarrow> HistoryEvent \<Rightarrow> ('w, js_error, string) eff" where
  "history_append R now_ms now_iso ev =
     bindM (r_xadd R (historyKey (he_runId ev)) (history_fields ev now_iso)) (\<lambda>hid.
       returnM (or_else hid (nat_str now_ms @ ''-0'')))"

text \<open>The loop \<open>for (index = 0; index < values.length; index += 2)\<close>; an odd last name gets \<open>undefined\<close>.\<close>

fun fields_object :: "string list \<Rightarrow> (string \<times> string option) list \<Rightarrow> (string \<times> string option) list" where
  "fields_object (name # val # rest) obj = fields_object rest (AList.update name (Some val) obj)"
| "fields_object [name] obj = AList.update name None obj"
| "fields_object [] obj = obj"

definition obj_get :: "(string \<times> string option) list \<Rightarrow> string \<Rightarrow> string option" where
  "obj_get obj name = (case map_of obj name of Some v \<Rightarrow> v | None \<Rightarrow> None)"

text \<open>\<open>Number(object.x ?? 0)\<close> and \<open>object.x || undefined\<close>.\<close>

definition number_field :: "string option \<Rightarrow> nat option" where
  "number_field v = (case v of None \<Rightarrow> Some 0 | Some t \<Rightarrow> if t = '''' then Some 0 else str_nat t)"

definition text_field :: "string option \<Rightarrow> string option" where
  "text_field v = (case v of Some t \<Rightarrow> if t = '''' then None else Some t | None \<Rightarrow> None)"

definition history_record :: "string list \<Rightarrow> HistoryRecord" where
  "history_record vals = (let obj = fields_object vals [] in
     \<lparr>hx_runId = obj_get obj ''runId'', hx_stage = obj_get obj ''stage'',
      hx_type = obj_get obj ''type'', hx_timestamp = obj_get obj ''timestamp'',
      hx_iteration = number_field (obj_get obj ''iteration''),
      hx_message = text_field (obj_get obj ''message''),
      hx_jobId = text_field (obj_get obj ''jobId''),
      hx_attempt = number_field (obj_get obj ''attempt'')\<rparr>)"

definition history_list :: "'w redis_client \<Rightarrow> string \<Rightarrow> ('w, js_error, HistoryRecord list) eff" where
  "history_list R runId =
     bindM (r_xrange R (historyKey runId)) (\<lambda>records. returnM (map history_record records))"

definition history_clear :: "'w redis_client \<Rightarrow> string \<Rightarrow> ('w, js_error, unit) eff" where
  "history_clear R runId = r_del R (historyKey runId)"

lemma history_roundtrip:
  "history_record (history_fields ev ts) =
     \<lparr>hx_runId = Some (he_runId ev), hx_stage = Some (he_stage ev),
      hx_type = Some (history_type_str (he_type ev)), hx_timestamp = Some ts,
      hx_iteration = Some (or_else (he_iteration ev) 0), hx_message = text_field (he_message ev),
      hx_jobId = text_field (he_jobId ev), hx_attempt = Some (or_else (he_attempt ev) 0)\<rparr>"
  by (simp add: history_record_def history_fields_def obj_get_def number_field_def str_nat_str
      text_field_def or_else_def split: option.split)

context redis
begin

lemma history_append_kv:
  "history_append R ms ts ev w = (res, w') \<Longrightarrow> kv w' = kv w"
  by (auto simp: history_append_def eff_simps split: prod.splits sum.splits dest: xadd_kv)

end

section \<open>Jobs\<close>

definition stageJobId :: "string \<Rightarrow> PipelineStage \<Rightarrow> nat \<Rightarrow> string" where
  "stageJobId runId stage iteration =
     ''v2-'' @ runId @ ''-'' @ stage_str stage @ ''-'' @ nat_str iteration"

definition enqueueStage ::
  "'w queue_client \<Rightarrow> 'w redis_client \<Rightarrow> nat \<Rightarrow> string \<Rightarrow> string \<Rightarrow> PipelineStage \<Rightarrow> bool \<Rightarrow> nat \<Rightarrow>
     ('w, js_error, string) eff" where
  "enqueueStage Q R now_ms now_iso runId stage history iteration =
     bindM (q_add Q stage \<lparr>jd_runId = runId, jd_stage = stage, jd_iteration = iteration\<rparr>
         (stageJobId runId stage iteration)) (\<lambda>jid.
       let jobId = or_else jid (stageJobId runId stage iteration) in
       thenM (whenM history (bindM (history_append R now_ms now_iso
           \<lparr>he_runId = runId, he_stage = stage_str stage, he_type = HQueued,
            he_iteration = Some iteration, he_message = None, he_jobId = Some jobId,
            he_attempt = None\<rparr>) (\<lambda>_. returnM ())))
         (returnM jobId))"

text \<open>
  Stage names may contain a dash, so a job id is read from the right: the part
  after the last dash of each stage name determines the stage.
\<close>

fun stage_tail :: "PipelineStage \<Rightarrow> string \<times> string" where
  "stage_tail GapAnalysisStage = (''-gap'', ''analysis'')"
| "stage_tail TripleValidationStage = (''-triple'', ''validation'')"
| "stage_tail s = ('''', stage_str s)"

lemma stage_dash: "x @ ''-'' @ stage_str s = (x @ fst (stage_tail s)) @ CHR ''-'' # snd (stage_tail s)"
  by (cases s) simp_all

lemma stage_tail_no_dash: "CHR ''-'' \<notin> set (snd (stage_tail s))"
  by (cases s) simp_all

lemma stage_tail_inj: "snd (stage_tail s) = snd (stage_tail t) \<Longrightarrow> s = t"
  by (cases s; cases t) simp_all

lemma stage_suffix_inj:
  assumes "x @ ''-'' @ stage_str s = y @ ''-'' @ stage_str t"
  shows "x = y \<and> s = t"
proof -
  have "x @ fst (stage_tail s) = y @ fst (stage_tail t) \<and> snd (stage_tail s) = snd (stage_tail t)"
    using last_sep_inj [OF assms [unfolded stage_dash]] stage_tail_no_dash by simp
  then show ?thesis using stage_tail_inj by auto
qed

section \<open>Properties\<close>

text \<open>
  C6.  Job ids are an exact identity of an execution: two jobs share an id only
  if run, stage and iteration agree, for every run id (dashes and digits in it
  included), so the queue's de-duplication never drops a different execution.
\<close>

theorem stageJobId_injective:
  "stageJobId r s i = stageJobId r' s' i' \<longleftrightarrow> r = r' \<and> s = s' \<and> i = i'"
proof
  assume "stageJobId r s i = stageJobId r' s' i'"
  then have "(''v2-'' @ r @ ''-'' @ stage_str s) @ CHR ''-'' # nat_str i =
      (''v2-'' @ r' @ ''-'' @ stage_str s') @ CHR ''-'' # nat_str i'"
    by (simp add: stageJobId_def)
  from last_sep_inj [OF this]
  have "r @ ''-'' @ stage_str s = r' @ ''-'' @ stage_str s'" and "nat_str i = nat_str i'"
    by simp_all
  then show "r = r' \<and> s = s' \<and> i = i'" using stage_suffix_inj by (auto simp: nat_str_inj)
qed simp

text \<open>
  History round trip: after an append that returned, listing the run's
  history gives the records that were there and then one more, which has the
  appended event's run, stage, type, time stamp, iteration and attempt (0 where
  the event names none), and its message and job id unless those are absent or
  empty; the histories of other runs are as before.
\<close>

theorem history_append_list:
  assumes "redis_streams R kv st"
    and "history_append R ms ts ev w = (Inr hid, w1)"
    and "history_list R run w1 = (Inr recs, w2)"
  shows "recs = map history_record (st w (historyKey run)) @
    (if run = he_runId ev then
      [\<lparr>hx_runId = Some (he_runId ev), hx_stage = Some (he_stage ev),
        hx_type = Some (history_type_str (he_type ev)), hx_timestamp = Some ts,
        hx_iteration = Some (or_else (he_iteration ev) 0), hx_message = text_field (he_message ev),
        hx_jobId = text_field (he_jobId ev), hx_attempt = Some (or_else (he_attempt ev) 0)\<rparr>]
     else [])"
  using assms(2,3)
  by (auto simp: history_append_def history_list_def eff_simps history_roundtrip historyKey_def
      split: prod.splits sum.splits dest!: redis_streams.xadd_ok [OF assms(1)]
        redis_streams.xrange_ok [OF assms(1)])

definition sample_event :: HistoryEvent where
  "sample_event = \<lparr>he_runId = ''run'', he_stage = ''planner'', he_type = HStarted,
     he_iteration = Some 2, he_message = None, he_jobId = Some ''j'', he_attempt = Some 1\<rparr>"

lemma history_append_list_witness:
  "fst (history_list InMemoryRedis ''run'' (snd (history_append InMemoryRedis 7 ''t'' sample_event mem_empty)))
     = Inr [\<lparr>hx_runId = Some ''run'', hx_stage = Some ''planner'', hx_type = Some ''started'',
        hx_timestamp = Some ''t'', hx_iteration = Some 2, hx_message = None, hx_jobId = Some ''j'',
        hx_attempt = Some 1\<rparr>]"
proof -
  obtain i w1 where 1: "history_append InMemoryRedis 7 ''t'' sample_event mem_empty = (Inr i, w1)"
    by (simp add: history_append_def eff_simps mem_redis_defs)
  obtain recs w2 where 2: "history_list InMemoryRedis ''run'' w1 = (Inr recs, w2)"
    by (simp add: history_list_def eff_simps mem_redis_defs)
  show ?thesis
    using history_append_list [OF mem.redis_streams_axioms 1 2] 1 2
    by (simp add: sample_event_def mem_empty_def or_else_def text_field_def)
qed

end
