(* ===== verification/Faults.thy ===== *)
theory Faults
  imports Pipeline_Queue
begin

text \<open>
  Fault injection: \<open>backend/pipeline/faults.ts\<close> (the configuration read from
  the environment) and \<open>backend/pipeline/fault-controller.ts\<close> (the faults fired
  around a stage execution).  A fault that kills the worker is the effect
  \<open>ProcessExit\<close>.
\<close>

section \<open>Conversions\<close>

text \<open>
  \<open>String(x)\<close> and \<open>Number(x)\<close> on parsed JSON.  A text converts to a number when it
  is a decimal numeral; other texts count as \<open>NaN\<close> (\<open>None\<close>).  A number prints
  as its integer part: no printed number is a stage or a mode.
\<close>


fun js_string :: "json \<Rightarrow> string" where
  "js_string (JStr s) = s"
| "js_string (JBool b) = (if b then ''true'' else ''false'')"
| "js_string (JNum r) = int_str \<lfloor>r\<rfloor>"
| "js_string JNull = ''null''"
| "js_string (JArr xs) = join '','' (map (\<lambda>x. if x = JNull then '''' else js_string x) xs)"
| "js_string (JObj kvs) = ''[object Object]''"

fun js_number :: "json \<Rightarrow> rat option" where
  "js_number (JNum r) = Some r"
| "js_number (JBool b) = Some (if b then 1 else 0)"
| "js_number JNull = Some 0"
| "js_number (JStr s) = (if trim s = '''' then Some 0 else map_option of_nat (str_nat (trim s)))"
| "js_number _ = None"


text \<open>\<open>spec.name ?? dflt\<close>: a missing field and \<open>null\<close> give the default.\<close>

definition field_or :: "(string \<times> json) list \<Rightarrow> string \<Rightarrow> json \<Rightarrow> json" where
  "field_or spec name dflt = (case map_of spec name of
      None \<Rightarrow> dflt | Some JNull \<Rightarrow> dflt | Some v \<Rightarrow> v)"

section \<open>Configuration\<close>

record FaultConfig =
  fc_stage :: string
  fc_mode :: string
  fc_delayMs :: "rat option"
  fc_minIteration :: nat

fun parseFaultSpec :: "json \<Rightarrow> FaultConfig option" where
  "parseFaultSpec (JObj spec) =
     (let stage = toLowerCase (trim (js_string (field_or spec ''stage'' (JStr ''''))));
          mode = toLowerCase (trim (js_string (field_or spec ''mode'' (JStr ''''))))
      in if stage = '''' \<or> mode = '''' then None
         else Some \<lparr>fc_stage = stage, fc_mode = mode,
           fc_delayMs = js_number (field_or spec ''delayMs'' (JNum 3000)),
           fc_minIteration = (case js_number (field_or spec ''minIteration'' (JNum 0)) of
              Some r \<Rightarrow> if r > 0 then nat \<lfloor>r\<rfloor> else 0
            | None \<Rightarrow> 0)\<rparr>)"
| "parseFaultSpec _ = None"

text \<open>
  The environment variables read.  \<open>PIPELINE_FAULTS\<close> is \<open>None\<close> when it is unset
  or blank, and otherwise what \<open>JSON.parse\<close> makes of it (\<open>None\<close>: it throws).
\<close>

record fault_env =
  PIPELINE_FAULTS_ENABLED :: "string option"
  PIPELINE_FAULTS :: "json option option"
  PIPELINE_FAULT_STAGE :: "string option"
  PIPELINE_FAULT_MODE :: "string option"
  PIPELINE_FAULT_DELAY_MS :: "string option"

definition faultsEnabled :: "fault_env \<Rightarrow> bool" where
  "faultsEnabled env \<longleftrightarrow> PIPELINE_FAULTS_ENABLED env = Some ''true''"

definition env_fields :: "(string \<times> string option) list \<Rightarrow> (string \<times> json) list" where
  "env_fields xs = List.map_filter (\<lambda>(k, v). map_option (\<lambda>t. (k, JStr t)) v) xs"

definition getFaultConfigs :: "fault_env \<Rightarrow> FaultConfig list" where
  "getFaultConfigs env =
     (if \<not> faultsEnabled env then []
      else
        let configs = (case PIPELINE_FAULTS env of
               Some (Some (JArr specs)) \<Rightarrow> List.map_filter parseFaultSpec specs
             | Some (Some parsed) \<Rightarrow> List.map_filter parseFaultSpec [parsed]
             | _ \<Rightarrow> [])
        in if configs \<noteq> [] then configs
           else (case parseFaultSpec (JObj (env_fields
                   [(''stage'', PIPELINE_FAULT_STAGE env), (''mode'', PIPELINE_FAULT_MODE env),
                    (''delayMs'', PIPELINE_FAULT_DELAY_MS env)])) of
                Some legacy \<Rightarrow> [legacy] | None \<Rightarrow> []))"

definition getFaultConfig :: "fault_env \<Rightarrow> FaultConfig option" where
  "getFaultConfig env = (case getFaultConfigs env of c # _ \<Rightarrow> Some c | [] \<Rightarrow> None)"

section \<open>The controller\<close>

definition matchesIteration :: "FaultConfig \<Rightarrow> nat \<Rightarrow> bool" where
  "matchesIteration config iteration \<longleftrightarrow> iteration \<ge> fc_minIteration config"

definition ONE_HOUR_SECONDS :: nat where
  "ONE_HOUR_SECONDS = 60 * 60"

definition faultKey :: "string \<Rightarrow> string \<Rightarrow> string \<Rightarrow> string" where
  "faultKey runId stage tail = ''oneshot:fault:'' @ runId @ '':'' @ stage @ '':'' @ tail"

definition faultMarker :: "string \<Rightarrow> string \<Rightarrow> string \<Rightarrow> nat \<Rightarrow> string" where
  "faultMarker runId stage mode iteration =
     join '':'' [''oneshot'', ''fault'', runId, stage, mode, ''i'' @ nat_str iteration, ''consumed'']"

text \<open>The \<open>switch\<close> of one matching config; \<open>None\<close>: no case matches and the loop goes on.\<close>

definition fire ::
  "'w redis_client \<Rightarrow> string \<Rightarrow> string \<Rightarrow> string \<Rightarrow> ('w, js_error, unit) eff option" where
  "fire R runId stage mode =
     (if mode = ''none'' \<or> mode = ''crash-after-checkpoint'' \<or> mode = ''refine-once''
      then Some (returnM ())
      else if mode = ''delay'' then Some (returnM ())
      else if mode = ''fail-always''
      then Some (throwM (JsError (''[FAULT] Forced permanent failure at '' @ stage)))
      else if mode = ''fail-once''
      then Some (bindM (r_set_nx R (faultKey runId stage ''consumed'') (RText ''1'') ONE_HOUR_SECONDS)
        (\<lambda>first. if first then throwM (JsError (''[FAULT] Forced one-time failure at '' @ stage))
                 else returnM ()))
      else if mode = ''crash-once''
      then Some (bindM (r_set_nx R (faultKey runId stage ''crash-consumed'') (RText ''1'') ONE_HOUR_SECONDS)
        (\<lambda>first. if first then throwM (ProcessExit 91) else returnM ()))
      else if mode = ''crash'' then Some (throwM (ProcessExit 91))
      else None)"

fun apply_faults ::
  "'w redis_client \<Rightarrow> FaultConfig list \<Rightarrow> string \<Rightarrow> string \<Rightarrow> nat \<Rightarrow> ('w, js_error, unit) eff" where
  "apply_faults R [] runId stage iteration = returnM ()"
| "apply_faults R (config # configs) runId stage iteration =
     (if fc_stage config \<noteq> stage \<or> \<not> matchesIteration config iteration
      then apply_faults R configs runId stage iteration
      else (case fire R runId stage (fc_mode config) of
          Some m \<Rightarrow> m
        | None \<Rightarrow> apply_faults R configs runId stage iteration))"

definition apply_fault ::
  "'w redis_client \<Rightarrow> fault_env \<Rightarrow> string \<Rightarrow> string \<Rightarrow> nat \<Rightarrow> ('w, js_error, unit) eff" where
  "apply_fault R env runId stage iteration =
     apply_faults R (getFaultConfigs env) runId stage iteration"

definition configs_for :: "fault_env \<Rightarrow> string \<Rightarrow> string \<Rightarrow> nat \<Rightarrow> FaultConfig list" where
  "configs_for env stage mode iteration =
     filter (\<lambda>c. fc_stage c = stage \<and> fc_mode c = mode \<and> matchesIteration c iteration)
       (getFaultConfigs env)"

definition applyAfterCheckpoint ::
  "'w redis_client \<Rightarrow> fault_env \<Rightarrow> string \<Rightarrow> string \<Rightarrow> nat \<Rightarrow> ('w, js_error, unit) eff" where
  "applyAfterCheckpoint R env runId stage iteration =
     (if configs_for env stage ''crash-after-checkpoint'' iteration = [] then returnM ()
      else bindM (r_set_nx R (faultMarker runId stage ''crash-after-checkpoint'' iteration)
          (RText ''1'') ONE_HOUR_SECONDS)
        (\<lambda>first. if first then throwM (ProcessExit 92) else returnM ()))"

definition shouldInjectRefine ::
  "'w redis_client \<Rightarrow> fault_env \<Rightarrow> string \<Rightarrow> string \<Rightarrow> nat \<Rightarrow> ('w, js_error, bool) eff" where
  "shouldInjectRefine R env runId stage iteration =
     (if configs_for env stage ''refine-once'' iteration = [] then returnM False
      else r_set_nx R (faultMarker runId stage ''refine-once'' iteration) (RText ''1'') ONE_HOUR_SECONDS)"

section \<open>Lemmas\<close>

lemma fault_key_last_seg [stage_simps]:
  "last_seg (faultKey r s ''consumed'') = ''consumed''"
  "last_seg (faultKey r s ''crash-consumed'') = ''crash-consumed''"
  "last_seg (faultMarker r s m i) = ''consumed''"
proof -
  have e: "faultKey r s t = (''oneshot:fault:'' @ r @ '':'' @ s) @ CHR '':'' # t" for t
    by (simp add: faultKey_def)
  show "last_seg (faultKey r s ''consumed'') = ''consumed''"
    and "last_seg (faultKey r s ''crash-consumed'') = ''crash-consumed''"
    unfolding e by (rule last_seg_append, simp)+
  have e: "faultMarker r s m i =
      (''oneshot:fault:'' @ r @ '':'' @ s @ '':'' @ m @ '':i'' @ nat_str i) @ CHR '':'' # ''consumed''"
    by (simp add: faultMarker_def join_def)
  show "last_seg (faultMarker r s m i) = ''consumed''"
    unfolding e by (rule last_seg_append) simp
qed

lemma faults_off: "\<not> faultsEnabled env \<Longrightarrow> getFaultConfigs env = []"
  by (simp add: getFaultConfigs_def)

text \<open>Families of keys: all keys whose last segment is in \<open>F\<close>.\<close>

definition fam :: "string set \<Rightarrow> string set" where
  "fam F = {k. last_seg k \<in> F}"

context redis
begin

lemma op_changes [intro]:
  "only_changes kv K (r_get R k)" "only_changes kv K (r_exists R k)"
  "only_changes kv K (r_xadd R k fs)"
  "k \<in> K \<Longrightarrow> only_changes kv K (r_set R k x ttl)"
  "k \<in> K \<Longrightarrow> only_changes kv K (r_set_nx R k x t)"
  "k \<in> K \<Longrightarrow> only_changes kv K (r_del R k)"
  "(\<And>m j. j \<notin> K \<Longrightarrow> snd (f m) j = m j) \<Longrightarrow> only_changes kv K (r_eval R f)"
proof -
  assume f: "\<And>m j. j \<notin> K \<Longrightarrow> snd (f m) j = m j"
  have "kv s' j = kv s j" if "r_eval R f s = (r, s')" and "j \<notin> K" for s r s' j
    using that f [OF that(2), of "kv s"]
    by (cases r) (auto dest!: eval_ok eval_err dest: arg_cong [of _ _ snd])
  then show "only_changes kv K (r_eval R f)" by (auto simp: only_changes_def)
next
  have "only_changes kv K (r_exists R k)"
    unfolding only_changes_def
    by (metis exists_err exists_ok old.sum.exhaust)
  then show "only_changes kv K (r_exists R k)" .
qed (auto simp: only_changes_def dest: get_kv xadd_kv set_other set_nx_other del_other)

lemma fault_changes:
  "{''consumed'', ''crash-consumed''} \<subseteq> F \<Longrightarrow> only_changes kv (fam F) (apply_fault R env r s i)"
  "{''consumed'', ''crash-consumed''} \<subseteq> F \<Longrightarrow> only_changes kv (fam F) (applyAfterCheckpoint R env r s i)"
  "{''consumed'', ''crash-consumed''} \<subseteq> F \<Longrightarrow> only_changes kv (fam F) (shouldInjectRefine R env r s i)"
proof -
  assume F: "{''consumed'', ''crash-consumed''} \<subseteq> F"
  have fire: "fire R r s mode = Some m \<Longrightarrow> only_changes kv (fam F) m" for mode m
    using F by (auto simp: fire_def fam_def fault_key_last_seg split: if_splits
        intro!: only_changes_intros op_changes)
  have "only_changes kv (fam F) (apply_faults R cs r s i)" for cs
    by (induction cs) (auto split: option.split intro: fire)
  then show "only_changes kv (fam F) (apply_fault R env r s i)"
    by (simp add: apply_fault_def)
  show "only_changes kv (fam F) (applyAfterCheckpoint R env r s i)"
    unfolding applyAfterCheckpoint_def using F
    by (intro only_changes_intros op_changes) (auto simp: fam_def fault_key_last_seg)
  show "only_changes kv (fam F) (shouldInjectRefine R env r s i)"
    unfolding shouldInjectRefine_def using F
    by (intro only_changes_intros op_changes) (auto simp: fam_def fault_key_last_seg)
qed

end

end
