(* ===== verification/Run_Stage.thy ===== *)
theory Run_Stage
  imports Faults
begin

text \<open>
  \<open>backend/pipeline/run-stage.ts\<close>: one stage execution with its lease, its
  durable outcome and its history, and the wiring of its collaborators in
  \<open>backend/pipeline/worker.ts\<close>.  What \<open>execute\<close> does is a parameter; so is the
  flag the renewal timer sets, read when \<open>execute\<close> has returned.
\<close>

section \<open>Input and result\<close>

record 'w stage_lock =
  lk_acquire :: "string \<Rightarrow> string \<Rightarrow> ('w, js_error, string option) eff"
  lk_release :: "string \<Rightarrow> string \<Rightarrow> string \<Rightarrow> ('w, js_error, bool) eff"
  lk_lockKey :: "string \<Rightarrow> string \<Rightarrow> string"

record 'w stage_faults =
  sf_apply :: "string \<Rightarrow> string \<Rightarrow> nat \<Rightarrow> ('w, js_error, unit) eff"
  sf_applyAfterCheckpoint :: "(string \<Rightarrow> string \<Rightarrow> nat \<Rightarrow> ('w, js_error, unit) eff) option"

record 'w run_stage_input =
  in_identity :: StageIdentity
  in_history :: "HistoryEvent \<Rightarrow> ('w, js_error, string) eff"
  in_execute :: "('w, js_error, outcome) eff"
  in_lock :: "'w stage_lock option"
  in_leaseLost :: "'w \<Rightarrow> bool"
  in_faults :: "'w stage_faults option"
  in_markCompleted :: "('w, js_error, unit) eff option"
  in_jobId :: "string option"
  in_attemptsMade :: "nat option"

record RunStageResult =
  skipped :: bool
  rr_outcome :: outcome

section \<open>The stage\<close>

definition stage_log ::
  "'w run_stage_input \<Rightarrow> HistoryType \<Rightarrow> string option \<Rightarrow> ('w, js_error, unit) eff" where
  "stage_log inp ty msg =
     bindM (in_history inp
       \<lparr>he_runId = si_runId (in_identity inp), he_stage = stage_str (si_stage (in_identity inp)),
        he_type = ty, he_iteration = Some (si_iteration (in_identity inp)), he_message = msg,
        he_jobId = in_jobId inp, he_attempt = Some (or_else (in_attemptsMade inp) 0 + 1)\<rparr>)
       (\<lambda>_. returnM ())"

definition loadPersistedOutcome ::
  "'w redis_client \<Rightarrow> 'w run_stage_input \<Rightarrow> ('w, js_error, RunStageResult option) eff" where
  "loadPersistedOutcome R inp =
     bindM (isExecuted R (in_identity inp)) (\<lambda>executed.
       if \<not> executed then returnM None
       else bindM (loadOutcome R (in_identity inp)) (\<lambda>out. case out of
           None \<Rightarrow> throwM (JsError (''Stage '' @ stage_str (si_stage (in_identity inp)) @
             '' is marked executed but has no persisted outcome.''))
         | Some x \<Rightarrow> thenM (stage_log inp HSkipped (Some
             ''Stage already executed; persisted outcome loaded; agent not rerun.''))
             (returnM (Some \<lparr>skipped = True, rr_outcome = x\<rparr>))))"

definition leaseStage :: "StageIdentity \<Rightarrow> string" where
  "leaseStage idn = stage_str (si_stage idn) @ '':'' @ nat_str (si_iteration idn)"

definition stage_lease :: "'w run_stage_input \<Rightarrow> string option \<Rightarrow> lease option" where
  "stage_lease inp token = (case (in_lock inp, token) of
      (Some lock, Some t) \<Rightarrow>
        Some \<lparr>lease_key = lk_lockKey lock (si_runId (in_identity inp)) (leaseStage (in_identity inp)),
              lease_token = t\<rparr>
    | _ \<Rightarrow> None)"

definition opt_unit :: "('w, js_error, unit) eff option \<Rightarrow> ('w, js_error, unit) eff" where
  "opt_unit m = (case m of Some x \<Rightarrow> x | None \<Rightarrow> returnM ())"

text \<open>The \<open>try\<close> block; \<open>token\<close> is the lease token of the lock, if there is a lock.\<close>

definition executeStage ::
  "'w redis_client \<Rightarrow> 'w run_stage_input \<Rightarrow> string option \<Rightarrow> ('w, js_error, RunStageResult) eff" where
  "executeStage R inp token =
     (let idn = in_identity inp; run = si_runId idn; st = stage_str (si_stage idn); i = si_iteration idn in
      thenM (stage_log inp HStarted None)
     (thenM (opt_unit (map_option (\<lambda>f. sf_apply f run st i) (in_faults inp)))
     (bindM (in_execute inp) (\<lambda>out.
      bindM (getsM (in_leaseLost inp)) (\<lambda>lost.
      if lost then throwM (JsError (''Lease ownership lost while executing '' @ st))
      else thenM (saveExecution R idn out (stage_lease inp token))
          (thenM (opt_unit (in_markCompleted inp))
          (thenM (stage_log inp HCompleted None)
          (thenM (opt_unit (case in_faults inp of
                Some f \<Rightarrow> map_option (\<lambda>g. g run st i) (sf_applyAfterCheckpoint f)
              | None \<Rightarrow> None))
            (returnM \<lparr>skipped = False, rr_outcome = out\<rparr>)))))))))"

definition guardedStage ::
  "'w redis_client \<Rightarrow> 'w run_stage_input \<Rightarrow> string option \<Rightarrow> ('w, js_error, RunStageResult) eff" where
  "guardedStage R inp token =
     try_finally
       (try_catch (executeStage R inp token)
         (\<lambda>e. thenM (stage_log inp HFailed (Some (error_message e))) (throwM e)))
       (case (in_lock inp, token) of
          (Some lock, Some t) \<Rightarrow>
            bindM (lk_release lock (si_runId (in_identity inp)) (leaseStage (in_identity inp)) t)
              (\<lambda>_. returnM ())
        | _ \<Rightarrow> returnM ())"

definition runStage ::
  "'w redis_client \<Rightarrow> 'w run_stage_input \<Rightarrow> ('w, js_error, RunStageResult) eff" where
  "runStage R inp =
     bindM (loadPersistedOutcome R inp) (\<lambda>recovered. case recovered of
         Some res \<Rightarrow> returnM res
       | None \<Rightarrow> (case in_lock inp of
           None \<Rightarrow> guardedStage R inp None
         | Some lock \<Rightarrow>
             bindM (lk_acquire lock (si_runId (in_identity inp)) (leaseStage (in_identity inp))) (\<lambda>tok.
               if tok = None \<or> tok = Some ''''
               then bindM (loadPersistedOutcome R inp) (\<lambda>raced. case raced of
                    Some res \<Rightarrow> returnM res
                  | None \<Rightarrow> throwM (JsError (''Stage '' @ stage_str (si_stage (in_identity inp)) @
                      '' already has an active execution lock for run '' @ si_runId (in_identity inp))))
               else guardedStage R inp tok)))"

section \<open>The worker's wiring\<close>

text \<open>
  What \<open>worker.ts\<close> passes: the token lock, the fault controller, the completion
  marker and the optional history, over one Redis.  Token and clock are
  arguments.
\<close>

definition idempotencyLock :: "'w redis_client \<Rightarrow> string \<Rightarrow> 'w stage_lock" where
  "idempotencyLock R token =
     \<lparr>lk_acquire = (\<lambda>r s. acquire R token r s 60), lk_release = (\<lambda>r s t. release R r s t),
      lk_lockKey = lockKey\<rparr>"

definition faultInjector :: "'w redis_client \<Rightarrow> fault_env \<Rightarrow> 'w stage_faults" where
  "faultInjector R env =
     \<lparr>sf_apply = apply_fault R env, sf_applyAfterCheckpoint = Some (applyAfterCheckpoint R env)\<rparr>"

record job_context =
  jc_token :: string
  jc_now_ms :: nat
  jc_now_iso :: string
  jc_env :: fault_env
  jc_history :: bool
  jc_jobId :: "string option"
  jc_attemptsMade :: "nat option"

definition worker_input ::
  "'w redis_client \<Rightarrow> job_context \<Rightarrow> ('w \<Rightarrow> bool) \<Rightarrow> StageIdentity \<Rightarrow> ('w, js_error, outcome) eff \<Rightarrow>
     'w run_stage_input" where
  "worker_input R jc lost idn exec =
     \<lparr>in_identity = idn,
      in_history = (if jc_history jc then history_append R (jc_now_ms jc) (jc_now_iso jc)
        else (\<lambda>_. returnM '''')),
      in_execute = exec, in_lock = Some (idempotencyLock R (jc_token jc)), in_leaseLost = lost,
      in_faults = Some (faultInjector R (jc_env jc)),
      in_markCompleted = Some (markCompleted R (jc_now_iso jc) (si_runId idn)
        (stage_str (si_stage idn)) (si_iteration idn)),
      in_jobId = jc_jobId jc, in_attemptsMade = jc_attemptsMade jc\<rparr>"

section \<open>Frames\<close>

text \<open>
  The checkpoint keys, and a collaborator that writes none of them.  Only
  \<open>saveExecution\<close> does.
\<close>

definition ckpt_keys :: "string set" where
  "ckpt_keys = fam {''outcome'', ''executed''}"

definition spares_checkpoints :: "('w \<Rightarrow> kvstore) \<Rightarrow> ('w, js_error, 'a) eff \<Rightarrow> bool" where
  "spares_checkpoints kv m \<longleftrightarrow> only_changes kv (- ckpt_keys) m"

definition collaborators_spare :: "('w \<Rightarrow> kvstore) \<Rightarrow> 'w run_stage_input \<Rightarrow> bool" where
  "collaborators_spare kv inp \<longleftrightarrow>
     (\<forall>ev. spares_checkpoints kv (in_history inp ev)) \<and>
     spares_checkpoints kv (in_execute inp) \<and>
     (\<forall>lock. in_lock inp = Some lock \<longrightarrow>
        (\<forall>r s. spares_checkpoints kv (lk_acquire lock r s)) \<and>
        (\<forall>r s t. spares_checkpoints kv (lk_release lock r s t))) \<and>
     (\<forall>f. in_faults inp = Some f \<longrightarrow>
        (\<forall>r s i. spares_checkpoints kv (sf_apply f r s i)) \<and>
        (\<forall>g. sf_applyAfterCheckpoint f = Some g \<longrightarrow> (\<forall>r s i. spares_checkpoints kv (g r s i)))) \<and>
     (\<forall>m. in_markCompleted inp = Some m \<longrightarrow> spares_checkpoints kv m)"

lemma ckpt_keys_mem [simp]:
  "outcomeKey i \<in> ckpt_keys" "executedKey i \<in> ckpt_keys"
  "lockKey r s \<notin> ckpt_keys" "completedKey r s n \<notin> ckpt_keys"
  by (simp_all add: ckpt_keys_def fam_def key_last_seg idem_key_last_seg)

lemma sparesD:
  "spares_checkpoints kv m \<Longrightarrow> m w = (r, w') \<Longrightarrow> k \<in> ckpt_keys \<Longrightarrow> kv w' k = kv w k"
  by (auto simp: spares_checkpoints_def dest: only_changesD)

context redis
begin

lemma lock_spares:
  "spares_checkpoints kv (acquire R t r s ttl)"
  "spares_checkpoints kv (release R r s t)"
  "spares_checkpoints kv (markCompleted R now r s i)"
  "spares_checkpoints kv (history_append R ms now ev)"
  unfolding spares_checkpoints_def only_changes_def
  using acquire_other release_other markCompleted_other history_append_kv
    ckpt_keys_mem(3,4)
  by (metis ComplI)+

lemma faults_spare:
  "spares_checkpoints kv (apply_fault R env r s i)"
  "spares_checkpoints kv (applyAfterCheckpoint R env r s i)"
  "spares_checkpoints kv (shouldInjectRefine R env r s i)"
proof -
  have fam: "fam {''consumed'', ''crash-consumed''} \<subseteq> - ckpt_keys"
    by (auto simp: fam_def ckpt_keys_def)
  show "spares_checkpoints kv (apply_fault R env r s i)"
    and "spares_checkpoints kv (applyAfterCheckpoint R env r s i)"
    and "spares_checkpoints kv (shouldInjectRefine R env r s i)"
    unfolding spares_checkpoints_def
    using fault_changes [OF subset_refl] by (blast intro: only_changes_mono [OF _ fam])+
qed

lemma worker_collaborators_spare:
  assumes "spares_checkpoints kv exec"
  shows "collaborators_spare kv (worker_input R jc lost idn exec)"
proof -
  have "spares_checkpoints kv (returnM x)" for x :: string
    by (auto simp: spares_checkpoints_def)
  with assms show ?thesis
    by (simp add: collaborators_spare_def worker_input_def idempotencyLock_def
        faultInjector_def lock_spares faults_spare)
qed

end

section \<open>Executions\<close>

text \<open>The store agrees on the checkpoint keys, up to what a save of \<open>out\<close> writes.\<close>

definition same_ckpt :: "kvstore \<Rightarrow> kvstore \<Rightarrow> bool" where
  "same_ckpt m n \<longleftrightarrow> (\<forall>k \<in> ckpt_keys. m k = n k)"

definition saved :: "StageIdentity \<Rightarrow> outcome \<Rightarrow> kvstore \<Rightarrow> kvstore" where
  "saved idn out m = m(outcomeKey idn \<mapsto> RJson (DOutcome out), executedKey idn \<mapsto> RText ''1'')"

lemma same_ckpt_refl [simp]: "same_ckpt m m"
  by (simp add: same_ckpt_def)

lemma same_ckpt_trans: "same_ckpt a b \<Longrightarrow> same_ckpt b c \<Longrightarrow> same_ckpt a c"
  by (simp add: same_ckpt_def)

lemma same_ckpt_saved: "same_ckpt a b \<Longrightarrow> same_ckpt (saved i x a) (saved i x b)"
  by (simp add: same_ckpt_def saved_def)

lemma spares_same: "spares_checkpoints kv m \<Longrightarrow> m w = (r, w') \<Longrightarrow> same_ckpt (kv w') (kv w)"
  by (simp add: same_ckpt_def sparesD)

lemma spares_opt_unit:
  "(\<And>x. m = Some x \<Longrightarrow> spares_checkpoints kv x) \<Longrightarrow> spares_checkpoints kv (opt_unit m)"
  by (cases m) (auto simp: opt_unit_def spares_checkpoints_def)

lemma spares_seq:
  "spares_checkpoints kv m \<Longrightarrow> (\<And>x. spares_checkpoints kv (f x)) \<Longrightarrow> spares_checkpoints kv (bindM m f)"
  "spares_checkpoints kv m \<Longrightarrow> spares_checkpoints kv n \<Longrightarrow> spares_checkpoints kv (thenM m n)"
  "spares_checkpoints kv (returnM x)"
  "spares_checkpoints kv (throwM e)"
  by (auto simp: spares_checkpoints_def)

lemma spares_stage_log:
  "collaborators_spare kv inp \<Longrightarrow> spares_checkpoints kv (stage_log inp ty msg)"
  by (auto simp: stage_log_def collaborators_spare_def intro!: spares_seq)

lemma spares_parts:
  assumes "collaborators_spare kv inp"
  shows "spares_checkpoints kv (opt_unit (map_option (\<lambda>f. sf_apply f r s i) (in_faults inp)))"
    and "spares_checkpoints kv (opt_unit (in_markCompleted inp))"
    and "spares_checkpoints kv (opt_unit (case in_faults inp of
                Some f \<Rightarrow> map_option (\<lambda>g. g r s i) (sf_applyAfterCheckpoint f)
              | None \<Rightarrow> None))"
    and "spares_checkpoints kv (in_execute inp)"
  using assms by (auto simp: collaborators_spare_def intro!: spares_opt_unit split: option.splits)

text \<open>
  How an attempt ends: it left the checkpoint keys alone and threw, or it saved
  the outcome \<open>execute\<close> returned; then it threw later or returned that outcome.
  Where a lease was held, the lease was intact when the outcome was saved.
\<close>

definition attempt_ends ::
  "('w \<Rightarrow> kvstore) \<Rightarrow> 'w run_stage_input \<Rightarrow> string option \<Rightarrow> 'w \<Rightarrow> js_error + RunStageResult \<Rightarrow> 'w \<Rightarrow> bool" where
  "attempt_ends kv inp token w res w' \<longleftrightarrow>
     same_ckpt (kv w') (kv w) \<and> (\<exists>e. res = Inl e) \<or>
     (\<exists>out v v'. in_execute inp v = (Inr out, v') \<and> \<not> in_leaseLost inp v' \<and>
        same_ckpt (kv w') (saved (in_identity inp) out (kv w)) \<and>
        (\<forall>l. stage_lease inp token = Some l \<and> lease_token l \<noteq> '''' \<longrightarrow>
           kv v' (lease_key l) = Some (RText (lease_token l))) \<and>
        (res = Inr \<lparr>skipped = False, rr_outcome = out\<rparr> \<or> (\<exists>e. res = Inl e)))"

lemma attempt_ends_thrown: "same_ckpt (kv w') (kv w) \<Longrightarrow> attempt_ends kv inp token w (Inl e) w'"
  by (simp add: attempt_ends_def)

lemma attempt_ends_before:
  "attempt_ends kv inp token v res w' \<Longrightarrow> same_ckpt (kv v) (kv w) \<Longrightarrow> attempt_ends kv inp token w res w'"
  unfolding attempt_ends_def by (blast intro: same_ckpt_trans same_ckpt_saved)

lemma attempt_ends_after:
  "attempt_ends kv inp token w res v \<Longrightarrow> same_ckpt (kv w') (kv v) \<Longrightarrow> attempt_ends kv inp token w res w'"
  unfolding attempt_ends_def by (blast intro: same_ckpt_trans)

lemma attempt_ends_after_error:
  "attempt_ends kv inp token w res v \<Longrightarrow> same_ckpt (kv w') (kv v) \<Longrightarrow> attempt_ends kv inp token w (Inl e) w'"
  unfolding attempt_ends_def by (blast intro: same_ckpt_trans)

context redis
begin

lemma saveExecution_attempt:
  assumes "saveExecution R i x ls w = (r, w')"
  shows "(kv w' = kv w \<and> (\<exists>e. r = Inl e)) \<or>
    (kv w' = saved i x (kv w) \<and>
     (\<forall>l. ls = Some l \<and> lease_token l \<noteq> '''' \<longrightarrow> kv w (lease_key l) = Some (RText (lease_token l))))"
  using assms
  by (auto simp: saveExecution_def saved_def eff_simps SAVE_EXECUTION_SCRIPT_def
      split: prod.splits sum.splits if_splits dest!: eval_ok eval_err)

text \<open>Everything after \<open>execute\<close>: the save, then steps that spare the checkpoint keys.\<close>

lemma commit_ends:
  assumes exec: "in_execute inp v = (Inr out, w)" and alive: "\<not> in_leaseLost inp w"
    and "tail_ok": "spares_checkpoints kv tail_m"
    and run: "thenM (saveExecution R (in_identity inp) out (stage_lease inp token))
        (thenM tail_m (returnM \<lparr>skipped = False, rr_outcome = out\<rparr>)) w = (res, w')"
  shows "attempt_ends kv inp token w res w'"
  using run
proof (cases rule: thenM_cases)
  case (stopped e)
  then show ?thesis
    using saveExecution_attempt [OF stopped(1)] exec alive
    unfolding attempt_ends_def by (metis same_ckpt_refl)
next
  case (went_on u w1)
  from saveExecution_attempt [OF went_on(1)]
  have s1: "kv w1 = saved (in_identity inp) out (kv w)"
    and lease: "\<forall>l. stage_lease inp token = Some l \<and> lease_token l \<noteq> '''' \<longrightarrow>
      kv w (lease_key l) = Some (RText (lease_token l))" by auto
  have "same_ckpt (kv w') (saved (in_identity inp) out (kv w)) \<and>
    (res = Inr \<lparr>skipped = False, rr_outcome = out\<rparr> \<or> (\<exists>e. res = Inl e))"
    using went_on(2) spares_same [OF tail_ok, of w1, unfolded s1]
    by (auto elim!: thenM_cases simp: returnM_apply)
  with exec alive lease show ?thesis unfolding attempt_ends_def by blast
qed

lemma executeStage_ends:
  assumes c: "collaborators_spare kv inp" and run: "executeStage R inp token w = (res, w')"
  shows "attempt_ends kv inp token w res w'"
proof -
  let ?i = "in_identity inp"
  let ?tail = "thenM (opt_unit (in_markCompleted inp)) (thenM (stage_log inp HCompleted None)
    (opt_unit (case in_faults inp of
       Some f \<Rightarrow> map_option (\<lambda>g. g (si_runId ?i) (stage_str (si_stage ?i)) (si_iteration ?i))
         (sf_applyAfterCheckpoint f)
     | None \<Rightarrow> None)))"
  have tail: "spares_checkpoints kv ?tail"
    by (intro spares_seq spares_parts [OF c] spares_stage_log [OF c])
  note parts = spares_same [OF spares_stage_log [OF c]] spares_same [OF spares_parts(1) [OF c]]
    spares_same [OF spares_parts(4) [OF c]]
  have assoc: "thenM a (thenM b (thenM d n)) = thenM (thenM a (thenM b d)) n" for a b d n
    by (auto simp: thenM_def bindM_def fun_eq_iff split: prod.splits sum.splits)
  from run show ?thesis
    unfolding executeStage_def Let_def
  proof (cases rule: thenM_cases)
    case (stopped e)
    show ?thesis unfolding stopped(2) by (rule attempt_ends_thrown [OF parts(1) [OF stopped(1)]])
  next
    case (went_on u w1)
    from went_on(2) show ?thesis
    proof (cases rule: thenM_cases)
      case (stopped e)
      show ?thesis unfolding stopped(2)
        by (rule attempt_ends_thrown
            [OF same_ckpt_trans [OF parts(2) [OF stopped(1)] parts(1) [OF went_on(1)]]])
    next
      case inner: (went_on u2 w2)
      have s2: "same_ckpt (kv w2) (kv w)"
        using parts(1) [OF went_on(1)] parts(2) [OF inner(1)] same_ckpt_trans by blast
      from inner(2) show ?thesis
      proof (cases rule: bindM_cases)
        case (stopped e)
        show ?thesis unfolding stopped(2)
          by (rule attempt_ends_thrown [OF same_ckpt_trans [OF parts(3) [OF stopped(1)] s2]])
      next
        case ex: (went_on out w3)
        have s3: "same_ckpt (kv w3) (kv w)"
          using parts(3) [OF ex(1)] s2 same_ckpt_trans by blast
        show ?thesis
        proof (cases "in_leaseLost inp w3")
          case True
          with ex(2) have "\<exists>e. res = Inl e" and "w' = w3" by (auto simp: eff_simps)
          with s3 show ?thesis by (auto simp: attempt_ends_def)
        next
          case False
          with ex(2) have "thenM (saveExecution R ?i out (stage_lease inp token))
              (thenM ?tail (returnM \<lparr>skipped = False, rr_outcome = out\<rparr>)) w3 = (res, w')"
            by (simp add: assoc [symmetric] bindM_apply getsM_apply)
          from commit_ends [OF ex(1) False tail this] s3 show ?thesis
            by (rule attempt_ends_before)
        qed
      qed
    qed
  qed
qed

end

context redis
begin

lemma guardedStage_ends:
  assumes c: "collaborators_spare kv inp" and run: "guardedStage R inp token w = (res, w')"
  shows "attempt_ends kv inp token w res w'"
proof -
  let ?h = "\<lambda>e. thenM (stage_log inp HFailed (Some (error_message e))) (throwM e :: ('w, js_error, RunStageResult) eff)"
  let ?fin = "case (in_lock inp, token) of
      (Some lock, Some t) \<Rightarrow>
        bindM (lk_release lock (si_runId (in_identity inp)) (leaseStage (in_identity inp)) t) (\<lambda>_. returnM ())
    | _ \<Rightarrow> returnM ()"
  have h: "spares_checkpoints kv (?h e)" for e
    by (intro spares_seq spares_stage_log [OF c])
  have fin: "spares_checkpoints kv ?fin"
    using c by (auto simp: collaborators_spare_def intro!: spares_seq split: option.splits)
  obtain r1 w1 where ex: "executeStage R inp token w = (r1, w1)" by fastforce
  note e1 = executeStage_ends [OF c ex]
  obtain r2 w2 where tc: "try_catch (executeStage R inp token) ?h w = (r2, w2)" by fastforce
  have e2: "attempt_ends kv inp token w r2 w2"
  proof (cases r1)
    case (Inl e)
    show ?thesis
    proof (cases "is_exit e")
      case True
      with tc ex Inl e1 show ?thesis by (simp add: try_catch_apply)
    next
      case False
      with tc ex Inl have he: "?h e w1 = (r2, w2)" by (simp add: try_catch_apply)
      then have "\<exists>e'. r2 = Inl e'" by (auto elim!: thenM_cases simp: throwM_apply)
      with spares_same [OF h he] e1 show ?thesis by (auto intro: attempt_ends_after_error)
    qed
  next
    case (Inr x)
    with tc ex e1 show ?thesis by (simp add: try_catch_apply)
  qed
  from run tc have "w' = w2 \<and> res = r2 \<or>
      (\<exists>u. ?fin w2 = (u, w') \<and> (res = r2 \<or> (\<exists>e. res = Inl e)))"
    by (auto simp: guardedStage_def try_finally_apply split: sum.splits prod.splits if_splits)
  with e2 spares_same [OF fin] show ?thesis
    by (auto intro: attempt_ends_after attempt_ends_after_error)
qed

lemma loadPersisted_fresh:
  assumes "kv w (executedKey (in_identity inp)) \<noteq> Some (RText ''1'')"
    and "loadPersistedOutcome R inp w = (res, w')"
  shows "kv w' = kv w \<and> (res = Inr None \<or> (\<exists>e. res = Inl e))"
  using assms(2)
proof (cases rule: bindM_cases [OF assms(2) [unfolded loadPersistedOutcome_def]])
  case (1 e)
  with reads_keep(1) [of "in_identity inp" w] show ?thesis by simp
next
  case (2 b w1)
  with isExecuted_ok [OF 2(1)] assms(1) show ?thesis by (simp add: returnM_apply)
qed

lemma loadPersisted_executed:
  assumes "kv w (executedKey (in_identity inp)) = Some (RText ''1'')"
    and "loadPersistedOutcome R inp w = (Inr res, w')"
  shows "\<exists>x. res = Some \<lparr>skipped = True, rr_outcome = x\<rparr> \<and>
    kv w (outcomeKey (in_identity inp)) = Some (RJson (DOutcome x))"
  using assms(2)
proof (cases rule: bindM_cases [OF assms(2) [unfolded loadPersistedOutcome_def]])
  case (2 b w1)
  have b: "b" and k1: "kv w1 = kv w" using isExecuted_ok [OF 2(1)] assms(1) by auto
  from 2(2) b obtain x w2 where lo: "loadOutcome R (in_identity inp) w1 = (Inr (Some x), w2)"
    and res: "res = Some \<lparr>skipped = True, rr_outcome = x\<rparr>"
    by (auto simp: eff_simps split: prod.splits sum.splits option.splits)
  have "parse_raw as_outcome (kv w (outcomeKey (in_identity inp))) = Inr (Some x)"
    using loadOutcome_ok [OF lo] k1 by simp
  then have "kv w (outcomeKey (in_identity inp)) = Some (RJson (DOutcome x))"
    by (cases "kv w (outcomeKey (in_identity inp))" rule: parse_raw.cases [of "(as_outcome, _)", simplified])
      (auto split: if_splits option.splits stored_doc.splits elim: as_outcome.elims)
  with res show ?thesis by blast
qed simp

lemma runStage_executed_ok:
  assumes "kv w (executedKey (in_identity inp)) = Some (RText ''1'')"
    and "runStage R inp w = (Inr res, w')"
  shows "skipped res \<and> kv w (outcomeKey (in_identity inp)) = Some (RJson (DOutcome (rr_outcome res)))"
  using assms(2) unfolding runStage_def
proof (cases rule: bindM_cases)
  case (went_on rec w1)
  from loadPersisted_executed [OF assms(1) went_on(1)] went_on(2)
  show ?thesis by (auto simp: returnM_apply)
qed simp

text \<open>An executed stage never reaches \<open>execute\<close>: every other part of the input is unused.\<close>

lemma runStage_executed_frame:
  assumes "kv w (executedKey (in_identity inp)) = Some (RText ''1'')"
  shows "runStage R (inp\<lparr>in_execute := e, in_lock := l, in_faults := f, in_markCompleted := m\<rparr>) w = runStage R inp w"
proof -
  let ?inp = "inp\<lparr>in_execute := e, in_lock := l, in_faults := f, in_markCompleted := m\<rparr>"
  have load: "loadPersistedOutcome R ?inp = loadPersistedOutcome R inp"
  proof -
    have i: "in_identity ?inp = in_identity inp" by simp
    have l: "stage_log ?inp = stage_log inp" by (intro ext) (simp add: stage_log_def)
    show ?thesis unfolding loadPersistedOutcome_def i l by (rule refl)
  qed
  obtain r w1 where l1: "loadPersistedOutcome R inp w = (r, w1)" by fastforce
  show ?thesis
  proof (cases r)
    case (Inl err)
    with l1 load show ?thesis by (simp add: runStage_def bindM_apply)
  next
    case (Inr rec)
    from loadPersisted_executed [OF assms l1 [unfolded Inr]] l1 load Inr
    show ?thesis by (auto simp: runStage_def bindM_apply)
  qed
qed

lemma runStage_executed_spares:
  assumes c: "collaborators_spare kv inp"
    and ex: "kv w (executedKey (in_identity inp)) = Some (RText ''1'')"
    and run: "runStage R inp w = (res, w')" and k: "k \<in> ckpt_keys"
  shows "kv w' k = kv w k"
proof -
  have "only_changes kv (- ckpt_keys) (stage_log inp ty msg)" for ty msg
    using spares_stage_log [OF c] by (simp add: spares_checkpoints_def)
  then have load: "only_changes kv (- ckpt_keys) (loadPersistedOutcome R inp)"
    unfolding loadPersistedOutcome_def isExecuted_def loadOutcome_def
    by (intro only_changes_intros op_changes)
  from run show ?thesis unfolding runStage_def
  proof (cases rule: bindM_cases)
    case (stopped e)
    with only_changesD [OF load stopped(1)] k show ?thesis by simp
  next
    case (went_on rec w1)
    from loadPersisted_executed [OF ex went_on(1)] went_on(2) have "w' = w1"
      by (auto simp: returnM_apply)
    with only_changesD [OF load went_on(1)] k show ?thesis by simp
  qed
qed

text \<open>
  How the whole call ends when the stage was not executed before.  With a lock,
  the attempt ran under the token an acquire returned.
\<close>

lemma runStage_fresh_ends:
  assumes c: "collaborators_spare kv inp"
    and fresh: "kv w (executedKey (in_identity inp)) \<noteq> Some (RText ''1'')"
    and run: "runStage R inp w = (res, w')"
  shows "(same_ckpt (kv w') (kv w) \<and> (\<exists>e. res = Inl e)) \<or>
    (\<exists>token. attempt_ends kv inp token w res w' \<and>
      (\<forall>lock. in_lock inp = Some lock \<longrightarrow> token \<noteq> None \<and> token \<noteq> Some '''' \<and>
        (\<exists>u v. lk_acquire lock (si_runId (in_identity inp)) (leaseStage (in_identity inp)) u = (Inr token, v))))"
proof -
  let ?idn = "in_identity inp"
  have ld: "kv v' = kv v \<and> (r = Inr None \<or> (\<exists>e. r = Inl e))"
    if "loadPersistedOutcome R inp v = (r, v')" and "same_ckpt (kv v) (kv w)" for v r v'
    using loadPersisted_fresh [OF _ that(1)] fresh that(2) by (simp add: same_ckpt_def)
  obtain r w1 where l1: "loadPersistedOutcome R inp w = (r, w1)" by fastforce
  show ?thesis
  proof (cases r)
    case (Inl e)
    with run l1 ld [OF l1] show ?thesis by (auto simp: runStage_def bindM_apply)
  next
    case (Inr rec)
    with ld [OF l1] have rec: "rec = None" and k1: "kv w1 = kv w" by auto
    show ?thesis
    proof (cases "in_lock inp")
      case None
      with run l1 Inr rec have "guardedStage R inp None w1 = (res, w')"
        by (simp add: runStage_def bindM_apply)
      from guardedStage_ends [OF c this] have "attempt_ends kv inp None w res w'"
        by (rule attempt_ends_before) (simp add: k1)
      with None show ?thesis by auto
    next
      case (Some lock)
      let ?acq = "lk_acquire lock (si_runId ?idn) (leaseStage ?idn)"
      have sp: "spares_checkpoints kv ?acq" using c Some by (simp add: collaborators_spare_def)
      obtain a w2 where a: "?acq w1 = (a, w2)" by fastforce
      have s2: "same_ckpt (kv w2) (kv w)" using spares_same [OF sp a] k1 by simp
      obtain r2 w3 where l2: "loadPersistedOutcome R inp w2 = (r2, w3)" by fastforce
      show ?thesis
      proof (cases "\<exists>token. a = Inr token \<and> token \<noteq> None \<and> token \<noteq> Some ''''")
        case True
        then obtain token where tok: "a = Inr token" "token \<noteq> None" "token \<noteq> Some ''''" by auto
        with run l1 Inr rec Some a have "guardedStage R inp token w2 = (res, w')"
          by (auto simp: runStage_def bindM_apply)
        from guardedStage_ends [OF c this] s2 have "attempt_ends kv inp token w res w'"
          by (rule attempt_ends_before)
        with tok a Some show ?thesis by auto
      next
        case False
        with run l1 Inr rec Some a l2 ld [OF l2 s2] s2
        have "same_ckpt (kv w') (kv w) \<and> (\<exists>e. res = Inl e)"
          by (auto simp: runStage_def bindM_apply throwM_apply split: sum.splits option.splits)
        then show ?thesis by blast
      qed
    qed
  qed
qed

end

context redis
begin

lemma attempt_atomic:
  assumes "spares_checkpoints kv exec"
    and "kv w (executedKey idn) \<noteq> Some (RText ''1'')"
    and "runStage R (worker_input R jc lost idn exec) w = (res, w')"
  shows "(same_ckpt (kv w') (kv w) \<and> (\<exists>e. res = Inl e)) \<or>
    (\<exists>out v v'. exec v = (Inr out, v') \<and>
      kv v' (lockKey (si_runId idn) (leaseStage idn)) = Some (RText (jc_token jc)) \<and>
      same_ckpt (kv w') (saved idn out (kv w)) \<and>
      (res = Inr \<lparr>skipped = False, rr_outcome = out\<rparr> \<or> (\<exists>e. res = Inl e)))"
proof -
  let ?inp = "worker_input R jc lost idn exec"
  have c: "collaborators_spare kv ?inp"
    by (rule worker_collaborators_spare [OF assms(1)])
  have i: "in_identity ?inp = idn" and ex: "in_execute ?inp = exec"
    and lk: "in_lock ?inp = Some (idempotencyLock R (jc_token jc))"
    by (simp_all add: worker_input_def)
  from runStage_fresh_ends [OF c _ assms(3), unfolded i, OF assms(2)]
  show ?thesis
  proof (elim disjE exE conjE)
    fix token
    assume ends: "attempt_ends kv ?inp token w res w'"
      and lock: "\<forall>lock. in_lock ?inp = Some lock \<longrightarrow> token \<noteq> None \<and> token \<noteq> Some '''' \<and>
        (\<exists>u v. lk_acquire lock (si_runId idn) (leaseStage idn) u = (Inr token, v))"
    from lock [rule_format, OF lk] obtain t u v where t: "token = Some t" "t \<noteq> ''''"
      and acq: "acquire R (jc_token jc) (si_runId idn) (leaseStage idn) 60 u = (Inr (Some t), v)"
      by (auto simp: idempotencyLock_def)
    have "t = jc_token jc"
      using acquire_some [OF acq] by simp
    then have "stage_lease ?inp token =
        Some \<lparr>lease_key = lockKey (si_runId idn) (leaseStage idn), lease_token = jc_token jc\<rparr>"
      and "jc_token jc \<noteq> ''''"
      using t by (simp_all add: stage_lease_def lk i idempotencyLock_def)
    with ends show ?thesis unfolding attempt_ends_def i ex by auto
  qed blast
qed

end

section \<open>Properties\<close>

text \<open>
  A durably executed stage is never run again: once the executed marker
  stands, a further call does the same whatever its \<open>execute\<close>, lock, faults and
  completion marker are, so none of them is reached; and if it returns, it
  returns the stored outcome as skipped.
\<close>

theorem executed_never_rerun:
  assumes "redis R kv" and "kv w (executedKey (in_identity inp)) = Some (RText ''1'')"
  shows "runStage R (inp\<lparr>in_execute := e, in_lock := l, in_faults := f, in_markCompleted := m\<rparr>) w
      = runStage R inp w \<and>
    (case runStage R inp w of
       (Inl err, w') \<Rightarrow> True
     | (Inr res, w') \<Rightarrow> skipped res \<and>
         kv w (outcomeKey (in_identity inp)) = Some (RJson (DOutcome (rr_outcome res))))"
  using redis.runStage_executed_frame [OF assms] redis.runStage_executed_ok [OF assms]
  by (auto split: prod.splits sum.splits)

text \<open>
  C9.  A stage attempt of a worker is all or nothing, wherever it stops (an
  error of a service, a fault, a process exit included): either it threw and no
  execution marker and no outcome changed, for any stage; or \<open>execute\<close> returned
  an outcome while the stage lock still held this worker's token, exactly this
  outcome and the executed marker of this stage were written, and a normal
  return gives that outcome.  A worker whose lease another one took over while
  it executed therefore commits nothing.
\<close>

theorem stage_attempt_atomic:
  assumes "redis R kv" and "spares_checkpoints kv exec"
    and "kv w (executedKey idn) \<noteq> Some (RText ''1'')"
    and "runStage R (worker_input R jc lost idn exec) w = (res, w')"
  shows "(same_ckpt (kv w') (kv w) \<and> (\<exists>e. res = Inl e)) \<or>
    (\<exists>out v v'. exec v = (Inr out, v') \<and>
      kv v' (lockKey (si_runId idn) (leaseStage idn)) = Some (RText (jc_token jc)) \<and>
      same_ckpt (kv w') (saved idn out (kv w)) \<and>
      (res = Inr \<lparr>skipped = False, rr_outcome = out\<rparr> \<or> (\<exists>e. res = Inl e)))"
  using redis.attempt_atomic [OF assms] .

definition no_faults :: fault_env where
  "no_faults = \<lparr>PIPELINE_FAULTS_ENABLED = None, PIPELINE_FAULTS = None, PIPELINE_FAULT_STAGE = None,
     PIPELINE_FAULT_MODE = None, PIPELINE_FAULT_DELAY_MS = None\<rparr>"

definition sample_job :: job_context where
  "sample_job = \<lparr>jc_token = ''T1'', jc_now_ms = 5, jc_now_iso = ''now'', jc_env = no_faults,
     jc_history = True, jc_jobId = Some ''v2-run-build-0'', jc_attemptsMade = Some 0\<rparr>"

definition sample_identity :: StageIdentity where
  "sample_identity = \<lparr>si_runId = ''run'', si_stage = Build, si_iteration = 0\<rparr>"

definition executed_world :: mem_world where
  "executed_world = mem_empty\<lparr>mem_kv := saved sample_identity (Advance None) Map.empty\<rparr>"

text \<open>An \<open>execute\<close> that loses the lease: another worker takes the lock meanwhile.\<close>

definition overtaken :: "(mem_world, js_error, outcome) eff" where
  "overtaken = thenM (mem_set (lockKey ''run'' ''build:0'') (RText ''T2'') None) (returnM (Advance None))"

lemma executed_never_rerun_witness:
  "runStage InMemoryRedis (worker_input InMemoryRedis sample_job (\<lambda>_. False) sample_identity overtaken) executed_world
   = runStage InMemoryRedis (worker_input InMemoryRedis sample_job (\<lambda>_. False) sample_identity
       (throwM (JsError ''agent''))) executed_world"
proof -
  let ?i = "\<lambda>ex. worker_input InMemoryRedis sample_job (\<lambda>_. False) sample_identity ex"
  have marked: "mem_kv executed_world (executedKey (in_identity (?i overtaken))) = Some (RText ''1'')"
    by (simp add: executed_world_def saved_def worker_input_def)
  have upd: "(?i overtaken)\<lparr>in_execute := throwM (JsError ''agent''), in_lock := in_lock (?i overtaken),
      in_faults := in_faults (?i overtaken), in_markCompleted := in_markCompleted (?i overtaken)\<rparr> =
      ?i (throwM (JsError ''agent''))"
    by (simp add: worker_input_def)
  show ?thesis
    using executed_never_rerun [OF mem.redis_axioms marked,
        where e = "throwM (JsError ''agent'')" and l = "in_lock (?i overtaken)"
          and f = "in_faults (?i overtaken)" and m = "in_markCompleted (?i overtaken)"]
    by (simp only: upd)
qed

lemma stage_attempt_atomic_witness:
  "same_ckpt (mem_kv (snd (runStage InMemoryRedis
      (worker_input InMemoryRedis sample_job (\<lambda>_. False) sample_identity overtaken) mem_empty))) Map.empty"
proof -
  have key: "leaseStage sample_identity = ''build:0''"
    by code_simp
  have sp: "spares_checkpoints mem_kv overtaken"
    unfolding overtaken_def
    by (intro spares_seq) (auto simp: spares_checkpoints_def only_changes_def mem_set_def eff_simps ckpt_keys_mem)
  have fresh: "mem_kv mem_empty (executedKey sample_identity) \<noteq> Some (RText ''1'')"
    by (simp add: mem_empty_def)
  have lost: "mem_kv v' (lockKey (si_runId sample_identity) (leaseStage sample_identity)) = Some (RText ''T2'')"
    if "overtaken v = (Inr out, v')" for v out v'
    using that unfolding key by (auto simp: overtaken_def mem_set_def eff_simps sample_identity_def)
  show ?thesis
    using stage_attempt_atomic [OF mem.redis_axioms sp fresh prod.collapse [symmetric], of sample_job "\<lambda>_. False"]
    by (auto simp: mem_empty_def sample_job_def dest!: lost)
qed

end
