(* ===== verification/Apply_Transition.thy ===== *)
theory Apply_Transition
  imports Run_Stage
begin

text \<open>
  \<open>backend/pipeline/apply-transition.ts\<close> and \<open>backend/pipeline/reconcile.ts\<close>:
  the durable transition after a stage (pending, side effect, committed) and its
  recovery after a crash.  The human gate, the build gate and the terminal
  service are the fields of \<open>transition_services\<close>, as in the source; theory
  \<open>Transition_Services\<close> models the ones the worker passes.
\<close>

section \<open>Operations\<close>

record 'w transition_services =
  ts_waitForHuman :: "string \<Rightarrow> ('w, js_error, unit) eff"
  ts_waitForBuild :: "(string \<Rightarrow> ('w, js_error, unit) eff) option"
  ts_finish :: "string \<Rightarrow> TestResult \<Rightarrow> PipelineIssue option \<Rightarrow> ('w, js_error, unit) eff"

definition transition_effect ::
  "'w redis_client \<Rightarrow> 'w queue_client \<Rightarrow> 'w transition_services \<Rightarrow> StageIdentity \<Rightarrow>
     PipelineTransition \<Rightarrow> ('w, js_error, unit) eff" where
  "transition_effect R Q sv idn transition = (case transition of
      TNext stage iteration finalization \<Rightarrow>
        thenM (case finalization of
            Some intent \<Rightarrow> saveFinalizationIntent R (si_runId idn) intent
          | None \<Rightarrow> returnM ())
        (bindM (q_add Q stage
            \<lparr>jd_runId = si_runId idn, jd_stage = stage, jd_iteration = iteration\<rparr>
            (stageJobId (si_runId idn) stage iteration)) (\<lambda>_. returnM ()))
    | TWaitHuman \<Rightarrow> ts_waitForHuman sv (si_runId idn)
    | TWaitBuild \<Rightarrow> (case ts_waitForBuild sv of
          None \<Rightarrow> throwM (JsError ''Build authorization transition service is unavailable'')
        | Some f \<Rightarrow> f (si_runId idn))
    | TDone testResult iss \<Rightarrow> ts_finish sv (si_runId idn) testResult iss)"

definition applyTransition ::
  "'w redis_client \<Rightarrow> 'w queue_client \<Rightarrow> 'w transition_services \<Rightarrow> StageIdentity \<Rightarrow>
     PipelineTransition \<Rightarrow> ('w, js_error, unit) eff" where
  "applyTransition R Q sv idn transition =
     bindM (getTransitionState R idn) (\<lambda>state.
       if state = TransCommitted then returnM ()
       else thenM (whenM (state = TransNone) (markTransitionPending R idn))
           (thenM (transition_effect R Q sv idn transition)
             (markTransitionCommitted R idn)))"

record ReconcileResult =
  recovered :: bool
  reason :: string

definition reconcileStage ::
  "'w redis_client \<Rightarrow> 'w queue_client \<Rightarrow> 'w transition_services \<Rightarrow> StageIdentity \<Rightarrow>
     ('w, js_error, ReconcileResult) eff" where
  "reconcileStage R Q sv idn =
     bindM (isExecuted R idn) (\<lambda>executed.
       if \<not> executed then returnM \<lparr>recovered = False, reason = ''Stage has not completed execution.''\<rparr>
       else bindM (getTransitionState R idn) (\<lambda>transitionState.
         if transitionState = TransCommitted
         then returnM \<lparr>recovered = False, reason = ''Transition is already committed.''\<rparr>
         else bindM (loadOutcome R idn) (\<lambda>loaded. case loaded of
             None \<Rightarrow> throwM (JsError (''Executed stage '' @ stage_str (si_stage idn) @
               '' has no persisted outcome.''))
           | Some out \<Rightarrow>
               thenM (applyTransition R Q sv idn
                   (resolveTransition (si_stage idn) out (si_iteration idn)))
                 (returnM \<lparr>recovered = True, reason = ''Uncommitted transition recovered.''\<rparr>))))"

section \<open>The enqueueing transition, attempt by attempt\<close>

text \<open>The job table with the job of one execution added, unless its id is already there.\<close>

definition job_added ::
  "string \<Rightarrow> PipelineStage \<Rightarrow> nat \<Rightarrow> (string \<rightharpoonup> StageJobData) \<Rightarrow> string \<rightharpoonup> StageJobData" where
  "job_added run s i J =
     (if J (stageJobId run s i) = None
      then J(stageJobId run s i \<mapsto> \<lparr>jd_runId = run, jd_stage = s, jd_iteration = i\<rparr>) else J)"

lemma job_added_idem [simp]: "job_added r s i (job_added r s i J) = job_added r s i J"
  by (simp add: job_added_def)

definition committed :: "kvstore \<Rightarrow> StageIdentity \<Rightarrow> bool" where
  "committed m idn \<longleftrightarrow> m (transitionKey idn) = Some (RText ''committed'')"

lemma transition_of_committed: "transition_of v = TransCommitted \<longleftrightarrow> v = Some (RText ''committed'')"
  by (cases v rule: transition_of.cases) auto

text \<open>
  The state of a transition to \<open>(s, i)\<close> between attempts, \<open>J\<close> the job table
  before the first: the job may have been added, and has been if the transition
  is committed.
\<close>

definition between ::
  "('w \<Rightarrow> kvstore) \<Rightarrow> ('w \<Rightarrow> string \<rightharpoonup> StageJobData) \<Rightarrow> StageIdentity \<Rightarrow> PipelineStage \<Rightarrow> nat \<Rightarrow>
     (string \<rightharpoonup> StageJobData) \<Rightarrow> 'w \<Rightarrow> bool" where
  "between kv jobs idn s i J w \<longleftrightarrow>
     (jobs w = J \<or> jobs w = job_added (si_runId idn) s i J) \<and>
     (committed (kv w) idn \<longrightarrow> jobs w = job_added (si_runId idn) s i J)"

context pipeline_services
begin

lemma get_state_keeps:
  "getTransitionState R idn w = (r, w') \<Longrightarrow> kv w' = kv w \<and> jobs w' = jobs w"
  by (auto simp: getTransitionState_def eff_simps split: prod.splits sum.splits
      dest: get_kv get_jobs)

lemma mark_pending_between:
  assumes "markTransitionPending R idn w = (r, w')" and "\<not> committed (kv w) idn"
  shows "jobs w' = jobs w \<and> \<not> committed (kv w') idn"
proof
  show "jobs w' = jobs w"
    using assms(1) set_jobs by (auto simp: markTransitionPending_def)
  show "\<not> committed (kv w') idn" using assms
    by (cases r) (auto simp: markTransitionPending_def committed_def dest!: set_ok set_err)
qed

lemma save_intent_between:
  assumes "(case finalization of
            Some intent \<Rightarrow> saveFinalizationIntent R run intent
          | None \<Rightarrow> returnM ()) w = (r, w')" and "\<not> committed (kv w) idn"
  shows "jobs w' = jobs w \<and> \<not> committed (kv w') idn"
proof (cases finalization)
  case None
  with assms show ?thesis by (simp add: returnM_apply)
next
  case (Some intent)
  with assms(1) have "r_set R (finalizationIntentKey run) (RJson (DIntent intent))
      (Some THIRTY_DAYS_SECONDS) w = (r, w')"
    by (simp add: saveFinalizationIntent_def)
  from set_jobs [OF this] set_other [OF this, of "transitionKey idn"] assms(2)
  show ?thesis by (simp add: committed_def)
qed

lemma add_between:
  assumes "q_add Q s \<lparr>jd_runId = run, jd_stage = s, jd_iteration = i\<rparr> (stageJobId run s i) w = (r, w')"
  shows "kv w' = kv w \<and> (jobs w' = jobs w \<or> jobs w' = job_added run s i (jobs w)) \<and>
    (\<forall>x. r = Inr x \<longrightarrow> jobs w' = job_added run s i (jobs w))"
  using assms add_kv [OF assms]
  by (cases r) (auto simp: job_added_def dest!: add_ok add_err)

lemma next_effect_between:
  assumes "transition_effect R Q sv idn (TNext s i fin) w = (r, w')"
    and "\<not> committed (kv w) idn"
  shows "\<not> committed (kv w') idn \<and>
    (jobs w' = jobs w \<or> jobs w' = job_added (si_runId idn) s i (jobs w)) \<and>
    (\<forall>x. r = Inr x \<longrightarrow> jobs w' = job_added (si_runId idn) s i (jobs w))"
  using assms(1) unfolding transition_effect_def PipelineTransition.case
proof (cases rule: thenM_cases)
  case (stopped e)
  with save_intent_between [OF stopped(1) assms(2)] show ?thesis by simp
next
  case (went_on u w1)
  note a = save_intent_between [OF went_on(1) assms(2)]
  from went_on(2) show ?thesis
  proof (cases rule: bindM_cases)
    case (stopped e)
    with add_between [OF stopped(1)] a show ?thesis by (auto simp: committed_def)
  next
    case b: (went_on x w2)
    with add_between [OF b(1)] a show ?thesis by (auto simp: committed_def returnM_apply)
  qed
qed

lemma mark_committed_jobs:
  "markTransitionCommitted R idn w = (r, w') \<Longrightarrow> jobs w' = jobs w"
  by (auto simp: markTransitionCommitted_def dest: set_jobs)

lemma job_added_cases:
  "a = J \<or> a = job_added r s i J \<Longrightarrow> b = a \<or> b = job_added r s i a \<Longrightarrow> b = J \<or> b = job_added r s i J"
  by auto

text \<open>One attempt keeps the between-attempts state, and ends committed if it returns.\<close>

lemma attempt_between:
  assumes "between kv jobs idn s i J w"
    and "applyTransition R Q sv idn (TNext s i fin) w = (r, w')"
  shows "between kv jobs idn s i J w' \<and>
    (\<forall>x. r = Inr x \<longrightarrow> committed (kv w') idn \<and> jobs w' = job_added (si_runId idn) s i J)"
  using assms(2) unfolding applyTransition_def
proof (cases rule: bindM_cases)
  case (stopped e)
  with get_state_keeps [OF stopped(1)] assms(1) show ?thesis by (simp add: between_def)
next
  case (went_on st w1)
  have st: "st = transition_of (kv w (transitionKey idn))"
    using getTransitionState_ok went_on(1) by blast
  note k1 = get_state_keeps [OF went_on(1)]
  show ?thesis
  proof (cases "committed (kv w) idn")
    case True
    then have "r = Inr () \<and> w' = w1"
      using went_on(2) st by (simp add: committed_def returnM_apply)
    with True k1 assms(1) show ?thesis by (simp add: between_def)
  next
    case False
    then have nc: "st \<noteq> TransCommitted" using st by (simp add: transition_of_committed committed_def)
    from went_on(2) nc have run: "thenM (whenM (st = TransNone) (markTransitionPending R idn))
        (thenM (transition_effect R Q sv idn (TNext s i fin)) (markTransitionCommitted R idn)) w1 = (r, w')"
      by simp
    have nc1: "\<not> committed (kv w1) idn" using False k1 by simp
    have pend: "jobs v' = jobs v \<and> \<not> committed (kv v') idn"
      if "whenM (st = TransNone) (markTransitionPending R idn) v = (r', v')"
        and "\<not> committed (kv v) idn" for v r' v'
      using that mark_pending_between by (auto simp: whenM_apply split: if_splits)
    from run show ?thesis
    proof (cases rule: thenM_cases)
      case (stopped e)
      with pend [OF stopped(1) nc1] k1 assms(1) show ?thesis by (simp add: between_def)
    next
      case p: (went_on u w2)
      note k2 = pend [OF p(1) nc1]
      from p(2) show ?thesis
      proof (cases rule: thenM_cases)
        case (stopped e)
        with next_effect_between [OF stopped(1)] k2 k1 assms(1) show ?thesis
          by (auto simp: between_def)
      next
        case f: (went_on x w3)
        have j3: "jobs w3 = job_added (si_runId idn) s i J"
          using next_effect_between [OF f(1)] k2 k1 assms(1) by (auto simp: between_def)
        with mark_committed_jobs [OF f(2)] markTransitionCommitted_ok [of idn w3] f(2)
        show ?thesis by (auto simp: between_def committed_def)
      qed
    qed
  qed
qed

end

context pipeline_services
begin

lemma applyTransition_committed:
  assumes "committed (kv w) idn" and "applyTransition R Q sv idn tr w = (r, w')"
  shows "kv w' = kv w \<and> jobs w' = jobs w"
  using assms(2) unfolding applyTransition_def
proof (cases rule: bindM_cases)
  case (stopped e)
  with get_state_keeps [OF stopped(1)] show ?thesis by simp
next
  case (went_on st w1)
  with getTransitionState_ok [OF went_on(1)] assms(1) have "w' = w1"
    by (simp add: committed_def returnM_apply)
  with get_state_keeps [OF went_on(1)] show ?thesis by simp
qed

lemma isExecuted_keeps: "isExecuted R idn w = (r, w') \<Longrightarrow> kv w' = kv w \<and> jobs w' = jobs w"
  by (auto simp: isExecuted_def eff_simps split: prod.splits sum.splits dest: get_kv get_jobs)

lemma reconcile_committed:
  assumes "committed (kv w) idn" and "reconcileStage R Q sv idn w = (r, w')"
  shows "kv w' = kv w \<and> jobs w' = jobs w \<and> (\<forall>res. r = Inr res \<longrightarrow> \<not> recovered res)"
  using assms(2) unfolding reconcileStage_def
proof (cases rule: bindM_cases)
  case (stopped e)
  with isExecuted_keeps [OF stopped(1)] show ?thesis by simp
next
  case (went_on executed w1)
  note k1 = isExecuted_keeps [OF went_on(1)]
  show ?thesis
  proof (cases executed)
    case False
    with went_on(2) k1 show ?thesis by (auto simp: returnM_apply)
  next
    case True
    from went_on(2) True have "bindM (getTransitionState R idn) (\<lambda>transitionState.
         if transitionState = TransCommitted
         then returnM \<lparr>recovered = False, reason = ''Transition is already committed.''\<rparr>
         else bindM (loadOutcome R idn) (\<lambda>loaded. case loaded of
             None \<Rightarrow> throwM (JsError (''Executed stage '' @ stage_str (si_stage idn) @
               '' has no persisted outcome.''))
           | Some out \<Rightarrow>
               thenM (applyTransition R Q sv idn
                   (resolveTransition (si_stage idn) out (si_iteration idn)))
                 (returnM \<lparr>recovered = True, reason = ''Uncommitted transition recovered.''\<rparr>))) w1 = (r, w')"
      by simp
    then show ?thesis
    proof (cases rule: bindM_cases)
      case (stopped e)
      with get_state_keeps [OF stopped(1)] k1 show ?thesis by simp
    next
      case st: (went_on st w2)
      note k2 = get_state_keeps [OF st(1)]
      have "st = TransCommitted"
        using getTransitionState_ok [OF st(1)] k1 assms(1) by (simp add: committed_def)
      with st(2) k1 k2 show ?thesis by (auto simp: returnM_apply)
    qed
  qed
qed

end

section \<open>Deliveries\<close>

text \<open>
  \<open>delivered att w w'\<close>: the attempt \<open>att\<close> was made from \<open>w\<close> any number of times
  in which it threw, and then once more in which it returned, ending in \<open>w'\<close>.
  A retry of the queue and a reconcile call after a crash both are such attempts.
\<close>

inductive delivered :: "('w, js_error, 'a) eff \<Rightarrow> 'w \<Rightarrow> 'w \<Rightarrow> bool" for att where
  delivered_now: "att w = (Inr x, w') \<Longrightarrow> delivered att w w'"
| delivered_later: "att w = (Inl e, w1) \<Longrightarrow> delivered att w1 w' \<Longrightarrow> delivered att w w'"

lemma delivered_rule:
  assumes "delivered att w w'" and "I w"
    and "\<And>w r w'. I w \<Longrightarrow> att w = (r, w') \<Longrightarrow> I w' \<and> (\<forall>x. r = Inr x \<longrightarrow> P w')"
  shows "P w'"
  using assms by (induction rule: delivered.induct) blast+

section \<open>Properties\<close>

text \<open>
  C10.  Exactly-once enqueue: however often an attempt to apply the transition
  to the next stage fails on the way (at any Redis or queue call, applied or
  not), once an attempt returns, the job table is the one before the first
  attempt with exactly the next stage's job added (or unchanged where a job of
  this id was there before), and the transition is committed.
\<close>

theorem next_job_enqueued_once:
  assumes "pipeline_services R kv Q jobs"
    and "\<not> committed (kv w) idn"
    and "delivered (applyTransition R Q sv idn (TNext s i fin)) w w'"
  shows "jobs w' = job_added (si_runId idn) s i (jobs w) \<and> committed (kv w') idn"
proof (rule delivered_rule [OF assms(3), where I = "between kv jobs idn s i (jobs w)"])
  show "between kv jobs idn s i (jobs w) w" using assms(2) by (simp add: between_def)
qed (use pipeline_services.attempt_between [OF assms(1)] in blast)

text \<open>
  A committed transition is final: applying any transition of that stage
  execution again, or reconciling the stage, changes neither the store nor the
  job table whether it returns or throws, so a redelivered job has no second
  effect; and reconciling reports that nothing was recovered.
\<close>

theorem committed_transition_final:
  assumes "pipeline_services R kv Q jobs" and "committed (kv w) idn"
  shows "kv (snd (applyTransition R Q sv idn tr w)) = kv w \<and>
    jobs (snd (applyTransition R Q sv idn tr w)) = jobs w \<and>
    kv (snd (reconcileStage R Q sv idn w)) = kv w \<and>
    jobs (snd (reconcileStage R Q sv idn w)) = jobs w \<and>
    (case fst (reconcileStage R Q sv idn w) of Inl e \<Rightarrow> True | Inr res \<Rightarrow> \<not> recovered res)"
  using pipeline_services.applyTransition_committed [OF assms(1,2) prod.collapse [symmetric]]
    pipeline_services.reconcile_committed [OF assms(1,2) prod.collapse [symmetric]]
  by (auto split: sum.splits)

text \<open>A quiet set of services, and two worlds of the witnesses.\<close>

definition quiet_services :: "mem_world transition_services" where
  "quiet_services = \<lparr>ts_waitForHuman = (\<lambda>_. returnM ()), ts_waitForBuild = Some (\<lambda>_. returnM ()),
     ts_finish = (\<lambda>_ _ _. returnM ())\<rparr>"

definition planner_identity :: StageIdentity where
  "planner_identity = \<lparr>si_runId = ''run'', si_stage = Planner, si_iteration = 0\<rparr>"

lemma next_job_enqueued_once_witness:
  "\<exists>w'. delivered (applyTransition InMemoryRedis InMemoryQueue quiet_services planner_identity
      (TNext Refactor 0 None)) mem_empty w' \<and>
    mem_jobs w' = [stageJobId ''run'' Refactor 0 \<mapsto>
      \<lparr>jd_runId = ''run'', jd_stage = Refactor, jd_iteration = 0\<rparr>]"
proof -
  let ?att = "applyTransition InMemoryRedis InMemoryQueue quiet_services planner_identity (TNext Refactor 0 None)"
  obtain w' where w': "?att mem_empty = (Inr (), w')"
    by (simp add: applyTransition_def getTransitionState_def markTransitionPending_def
        markTransitionCommitted_def transition_effect_def eff_simps mem_redis_defs mem_empty_def)
  then have del: "delivered ?att mem_empty w'" by (rule delivered_now)
  have nc: "\<not> committed (mem_kv mem_empty) planner_identity"
    by (simp add: committed_def mem_empty_def)
  from next_job_enqueued_once [OF mem_services.pipeline_services_axioms, OF nc del] del
  show ?thesis by (auto simp: job_added_def mem_empty_def planner_identity_def)
qed

lemma committed_transition_final_witness:
  "mem_jobs (snd (applyTransition InMemoryRedis InMemoryQueue quiet_services planner_identity
      (TNext Refactor 0 None) (mem_empty\<lparr>mem_kv := [transitionKey planner_identity \<mapsto> RText ''committed'']\<rparr>)))
   = Map.empty"
proof -
  let ?w = "mem_empty\<lparr>mem_kv := [transitionKey planner_identity \<mapsto> RText ''committed'']\<rparr>"
  have c: "committed (mem_kv ?w) planner_identity" by (simp add: committed_def)
  from committed_transition_final [OF mem_services.pipeline_services_axioms, OF c]
  show ?thesis by (simp add: mem_empty_def)
qed

end
