(* ===== verification/Plan_Evaluation.thy ===== *)
theory Plan_Evaluation
  imports Planner_Refactor
begin

text \<open>
  The Evaluation agent: \<open>backend/agents/evaluation/tool/evaluate-plan.ts\<close> and
  \<open>evaluation/workflow.ts\<close>.  Nine named checks of the plan against the research
  bundle; the lemma \<open>evaluation_passes_iff\<close> says what they check together.
\<close>

section \<open>The checks\<close>

definition EVALUATION_AREAS :: "string list" where
  "EVALUATION_AREAS =
     [''research alignment'', ''requirement coverage'', ''dependency coherence'', ''plan coherence'',
      ''goal traceability'', ''success-criteria traceability'', ''fixture traceability'',
      ''schema traceability'', ''execution meaning'']"

definition is_alnum :: "char \<Rightarrow> bool" where
  "is_alnum c \<longleftrightarrow> (let n = of_char c :: nat in
     48 \<le> n \<and> n \<le> 57 \<or> 65 \<le> n \<and> n \<le> 90 \<or> 97 \<le> n \<and> n \<le> 122)"


text \<open>\<open>subject.replace(/[^a-z0-9]+/gi, "-").toLowerCase()\<close>\<close>

fun slug :: "string \<Rightarrow> string" where
  "slug [] = []"
| "slug (c # cs) =
     (if is_alnum c then lower_char c # slug cs
      else CHR ''-'' # slug (dropWhile (\<lambda>d. \<not> is_alnum d) cs))"

definition no_gap_in :: "GapFinding list \<Rightarrow> GapBranch \<Rightarrow> bool" where
  "no_gap_in gaps br \<longleftrightarrow> \<not> list_ex (\<lambda>g. affected_branch g = br) gaps"

text \<open>The checks in the order of the source: subject, verdict, detail.\<close>

definition evaluation_checks :: "ResearchBundle \<Rightarrow> Plan \<Rightarrow> (string \<times> bool \<times> string) list" where
  "evaluation_checks b p =
     (let gaps = detectGaps b p in
      [(''research alignment'',
        ra_plan_id (researcher b) = plan_id p \<and> researcher_id (researcher b) = plan_researcher_id p \<and>
        list_all (\<lambda>i. list_ex (\<lambda>r. requirement_id r = i) (requirements p)) (ra_requirement_ids (researcher b)),
        ''Researcher identities and requirements align to plan''),
       (''requirement coverage'', no_gap_in gaps BRequirement,
        ''Every researched requirement maps to a plan step''),
       (''dependency coherence'',
        list_all (\<lambda>d. list_all (\<lambda>x. x \<in> requirement_id ` set (requirements p)) (required_by d)) (dependencies p),
        ''Dependencies resolve to researched requirements''),
       (''plan coherence'',
        list_all (\<lambda>s. list_all (\<lambda>d. d \<in> step_id ` set (steps p) \<and> d \<noteq> step_id s) (depends_on s)) (steps p),
        ''Step dependencies resolve without self-reference''),
       (''goal traceability'', no_gap_in gaps BGoal, ''Every goal criterion maps to plan steps''),
       (''success-criteria traceability'',
        list_all (\<lambda>x. x \<in> criterion_id ` set (success_criteria (goal b)))
          (success_criteria_ids (success_definition (researcher b))),
        ''Researcher success criteria resolve to Goal criteria''),
       (''fixture traceability'',
        list_all (\<lambda>x. x \<in> assertion_id ` set (plan_assertions (fixture b)))
          (assertion_ids (vd_fixture_validation (validation b))) \<and> no_gap_in gaps BFixture,
        ''Routed fixture assertions exist and map to plan''),
       (''schema traceability'', sa_target (schema_artifact b) = ''plan'' \<and> no_gap_in gaps BSchema,
        ''Researcher schema targets plan and is referenced''),
       (''execution meaning'',
        length (steps p) > 0 \<and> list_all (\<lambda>s. length (trim (responsibility s)) > 0) (steps p),
        ''Every plan step names an execution responsibility'')])"

definition evaluation_entry :: "string list \<Rightarrow> string \<times> bool \<times> string \<Rightarrow> EvaluationEvidence" where
  "evaluation_entry ev c = (case c of (subject, ok, detail) \<Rightarrow>
     \<lparr>check_id = ''evaluation:'' @ slug subject, ee_subject = subject,
      ee_finding = (if ok then ''complete: '' else ''incomplete: '') @ detail, ee_evidence_ids = ev\<rparr>)"

definition evaluatePlan :: "ResearchBundle \<Rightarrow> Plan \<Rightarrow> Evaluation" where
  "evaluatePlan b p =
     (let checks = evaluation_checks b p;
          entries = map (evaluation_entry (bundle_evidence_ids b)) checks;
          failed = map fst (filter (\<lambda>(subject, ok, detail). \<not> ok) checks)
      in if failed = []
         then \<lparr>el_plan_id = plan_id p, el_result = Passed, el_evidence = entries,
               el_issue_type = None, el_root_cause = None\<rparr>
         else \<lparr>el_plan_id = plan_id p, el_result = Failed, el_evidence = entries,
               el_issue_type = Some RootCauseIssue, el_root_cause = Some
                 \<lparr>rc_issue = ''Evaluation found incomplete canonical evidence areas'',
                  rc_expected = join '', '' EVALUATION_AREAS, rc_actual = join '', '' failed,
                  rc_evidence_ids = bundle_evidence_ids b,
                  rc_required_correction = ''Correct the failed Evaluation areas'',
                  rc_recheck_target = plan_id p\<rparr>\<rparr>)"

definition evaluation_run ::
  "'w contract_skill \<Rightarrow> ResearchBundle \<Rightarrow> Plan \<Rightarrow> ('w, js_error, Evaluation) eff" where
  "evaluation_run cs b p =
     thenM (cs_validate cs (CEvaluation (evaluatePlan b p))) (returnM (evaluatePlan b p))"

section \<open>What a passed evaluation means\<close>

text \<open>
  The specification of a coherent plan, in the vocabulary of sets: identities
  agree, every required reference is represented, all cross references resolve,
  no step depends on itself, every step names a responsibility.
\<close>

definition coherent_plan :: "ResearchBundle \<Rightarrow> Plan \<Rightarrow> bool" where
  "coherent_plan b p \<longleftrightarrow>
     ra_plan_id (researcher b) = plan_id p \<and> researcher_id (researcher b) = plan_researcher_id p \<and>
     set (ra_requirement_ids (researcher b)) \<subseteq> requirement_id ` set (requirements p) \<and>
     missing b p = {} \<and>
     (\<Union>d \<in> set (dependencies p). set (required_by d)) \<subseteq> requirement_id ` set (requirements p) \<and>
     (\<forall>s \<in> set (steps p). set (depends_on s) \<subseteq> step_id ` set (steps p) - {step_id s}) \<and>
     set (success_criteria_ids (success_definition (researcher b)))
       \<subseteq> criterion_id ` set (success_criteria (goal b)) \<and>
     set (assertion_ids (vd_fixture_validation (validation b)))
       \<subseteq> assertion_id ` set (plan_assertions (fixture b)) \<and>
     sa_target (schema_artifact b) = ''plan'' \<and>
     steps p \<noteq> [] \<and> (\<forall>s \<in> set (steps p). trim (responsibility s) \<noteq> '''')"

lemma no_gap_in_missing:
  "no_gap_in (detectGaps b p) br \<longleftrightarrow> (\<forall>x. (br, x) \<notin> missing b p)"
proof
  assume n: "no_gap_in (detectGaps b p) br"
  show "\<forall>x. (br, x) \<notin> missing b p"
  proof (intro allI notI)
    fix x assume "(br, x) \<in> missing b p"
    then have "gap_key br x \<in> set (remainingGaps b p)" by (force simp: remainingGaps_missing)
    then obtain g where g: "g \<in> set (detectGaps b p)" "gf_key g = gap_key br x"
      by (auto simp: remainingGaps_def)
    with detectGaps_member(3) [OF g(1)] have "affected_branch g = br" by (simp add: gap_key_inj)
    with n g(1) show False by (auto simp: no_gap_in_def list_ex_iff)
  qed
next
  assume "\<forall>x. (br, x) \<notin> missing b p"
  then show "no_gap_in (detectGaps b p) br"
    using detectGaps_member(1) [of _ b p] by (auto simp: no_gap_in_def list_ex_iff)
qed

lemma missing_by_branch:
  "missing b p = {} \<longleftrightarrow> (\<forall>x. (BRequirement, x) \<notin> missing b p) \<and> (\<forall>x. (BGoal, x) \<notin> missing b p) \<and>
     (\<forall>x. (BFixture, x) \<notin> missing b p) \<and> (\<forall>x. (BSchema, x) \<notin> missing b p)"
proof -
  have "missing b p = {} \<longleftrightarrow> (\<forall>br x. (br, x) \<notin> missing b p)" by auto
  also have "\<dots> \<longleftrightarrow> (\<forall>x. (BRequirement, x) \<notin> missing b p) \<and> (\<forall>x. (BGoal, x) \<notin> missing b p) \<and>
     (\<forall>x. (BFixture, x) \<notin> missing b p) \<and> (\<forall>x. (BSchema, x) \<notin> missing b p)"
    by (metis GapBranch.exhaust)
  finally show ?thesis .
qed

lemma failed_empty_iff: "map fst (filter (\<lambda>(s, ok, d). \<not> ok) cs) = [] \<longleftrightarrow> list_all (\<lambda>(s, ok, d). ok) cs"
  by (induction cs) auto

lemma checks_coherent: "list_all (\<lambda>(s, ok, d). ok) (evaluation_checks b p) \<longleftrightarrow> coherent_plan b p"
  unfolding evaluation_checks_def coherent_plan_def missing_by_branch Let_def
  by (simp add: no_gap_in_missing list_all_iff list_ex_iff) (auto simp: subset_iff image_iff)

section \<open>Properties\<close>

text \<open>
  C16.  Evaluation against its specification: the evaluation is Passed exactly
  for coherent plans (identities agree, nothing required is missing, all
  references resolve, no step depends on itself, every step names a
  responsibility); it names the plan, records one entry for each of the nine
  areas in order, and carries a root cause exactly when it failed.
\<close>

theorem evaluation_passes_iff:
  "el_result (evaluatePlan b p) = (if coherent_plan b p then Passed else Failed) \<and>
   el_plan_id (evaluatePlan b p) = plan_id p \<and>
   map ee_subject (el_evidence (evaluatePlan b p)) = EVALUATION_AREAS \<and>
   (el_root_cause (evaluatePlan b p) = None) = coherent_plan b p"
proof -
  have subjects: "map ee_subject (map (evaluation_entry ev) (evaluation_checks b p)) = EVALUATION_AREAS" for ev
    by (simp add: evaluation_checks_def evaluation_entry_def EVALUATION_AREAS_def Let_def)
  show ?thesis
    unfolding evaluatePlan_def Let_def failed_empty_iff checks_coherent using subjects by auto
qed

end
