(* ===== verification/Triple_Validation.thy ===== *)
theory Triple_Validation
  imports Plan_Evaluation
begin

text \<open>
  The proof stages: \<open>backend/validation/deterministic-validation.ts\<close> (the
  adapter over the Python validators), \<open>backend/workflow/triple-validation.ts\<close>
  (three validations and their join), \<open>backend/workflow/confirmation.ts\<close> and
  \<open>backend/workflow/hash.ts\<close>.  The Python validators and the canonical hash are
  parameters.
\<close>

section \<open>The validation lanes\<close>

record payload =
  py_plan :: Plan
  py_validation :: ValidationDefinition
  py_schema_artifact :: SchemaArtifact
  py_fixture :: Fixture
  py_goal :: Goal

text \<open>The four calls the runtime makes to its Python worker lanes.\<close>

record 'w validation_lanes =
  vl_routing :: "payload \<Rightarrow> ('w, js_error, unit) eff"
  vl_schema :: "payload \<Rightarrow> ('w, js_error, SchemaValidationResult) eff"
  vl_fixture :: "payload \<Rightarrow> ('w, js_error, FixtureValidationResult) eff"
  vl_goal :: "payload \<Rightarrow> ('w, js_error, GoalValidationResult) eff"

definition payload_of :: "ResearchBundle \<Rightarrow> Plan \<Rightarrow> payload" where
  "payload_of b p = \<lparr>py_plan = p, py_validation = validation b,
     py_schema_artifact = schema_artifact b, py_fixture = fixture b, py_goal = goal b\<rparr>"

definition validation_assertRouting where
  "validation_assertRouting lanes b p = vl_routing lanes (payload_of b p)"

definition validation_schema where
  "validation_schema lanes b p = vl_schema lanes (payload_of b p)"

definition validation_fixture where
  "validation_fixture lanes b p = vl_fixture lanes (payload_of b p)"

definition validation_goal where
  "validation_goal lanes b p = vl_goal lanes (payload_of b p)"

text \<open>
  \<open>Promise.all\<close> of three calls: a rejected call does not stop the others, and
  the whole rejects with one of the errors, here the first in the array's order.
\<close>

definition all3 ::
  "('w, js_error, 'a) eff \<Rightarrow> ('w, js_error, 'b) eff \<Rightarrow> ('w, js_error, 'c) eff \<Rightarrow>
     ('w, js_error, 'a \<times> 'b \<times> 'c) eff" where
  "all3 f g h w = (case f w of (r1, w1) \<Rightarrow> (case g w1 of (r2, w2) \<Rightarrow> (case h w2 of (r3, w3) \<Rightarrow>
     (case r1 of Inl e \<Rightarrow> Inl e | Inr x \<Rightarrow> (case r2 of Inl e \<Rightarrow> Inl e | Inr y \<Rightarrow>
       (case r3 of Inl e \<Rightarrow> Inl e | Inr z \<Rightarrow> Inr (x, y, z))), w3))))"

definition every_passed :: "TestResult list \<Rightarrow> bool" where
  "every_passed rs = list_all (\<lambda>r. r = Passed) rs"

definition validation_triple ::
  "'w validation_lanes \<Rightarrow> ResearchBundle \<Rightarrow> Plan \<Rightarrow> ('w, js_error, TripleValidation) eff" where
  "validation_triple lanes b p =
     thenM (validation_assertRouting lanes b p)
     (bindM (all3 (validation_schema lanes b p) (validation_fixture lanes b p) (validation_goal lanes b p))
       (\<lambda>(sv, fv, gv). returnM
         \<lparr>tv_plan_id = plan_id p, tv_validation_id = validation_id (validation b),
          schema_validation = sv, fixture_validation = fv, goal_validation = gv,
          all_valid = every_passed [sv_result sv, fv_result fv, gv_result gv]\<rparr>))"

section \<open>Triple validation\<close>

definition triple_schema where
  "triple_schema lanes cs b p = bindM (validation_schema lanes b p) (\<lambda>out.
     thenM (cs_validate cs (CSchemaValidation out)) (returnM out))"

definition triple_fixture where
  "triple_fixture lanes cs b p = bindM (validation_fixture lanes b p) (\<lambda>out.
     thenM (cs_validate cs (CFixtureValidation out)) (returnM out))"

definition triple_goal where
  "triple_goal lanes cs b p = bindM (validation_goal lanes b p) (\<lambda>out.
     thenM (cs_validate cs (CGoalValidation out)) (returnM out))"

definition mismatch :: "string \<Rightarrow> string \<Rightarrow> string \<Rightarrow> string list" where
  "mismatch label actual expected =
     (if actual \<noteq> expected then [label @ '' '' @ actual @ '' != '' @ expected] else [])"

definition join_mismatches ::
  "ResearchBundle \<Rightarrow> Plan \<Rightarrow> SchemaValidationResult \<Rightarrow> FixtureValidationResult \<Rightarrow>
     GoalValidationResult \<Rightarrow> string list" where
  "join_mismatches b p sv fv gv =
     mismatch ''schema plan_id'' (sv_plan_id sv) (plan_id p) @
     mismatch ''fixture plan_id'' (fv_plan_id fv) (plan_id p) @
     mismatch ''goal plan_id'' (gv_plan_id gv) (plan_id p) @
     mismatch ''schema_id'' (sv_schema_id sv) (schema_id (schema_artifact b)) @
     mismatch ''fixture_id'' (fv_fixture_id fv) (fixture_id (fixture b)) @
     mismatch ''goal_id'' (gv_goal_id gv) (goal_id (goal b))"

definition triple_join ::
  "'w contract_skill \<Rightarrow> ResearchBundle \<Rightarrow> Plan \<Rightarrow> SchemaValidationResult \<Rightarrow>
     FixtureValidationResult \<Rightarrow> GoalValidationResult \<Rightarrow> ('w, js_error, TripleValidation) eff" where
  "triple_join cs b p sv fv gv =
     (let mismatches = join_mismatches b p sv fv gv in
      if length mismatches > 0
      then throwM (JsError (''Triple Validation join mismatch: '' @ join ''; '' mismatches))
      else
        let triple = \<lparr>tv_plan_id = plan_id p, tv_validation_id = validation_id (validation b),
              schema_validation = sv, fixture_validation = fv, goal_validation = gv,
              all_valid = every_passed [sv_result sv, fv_result fv, gv_result gv]\<rparr>
        in thenM (cs_validate cs (CTriple triple)) (returnM triple))"

definition triple_run ::
  "'w validation_lanes \<Rightarrow> 'w contract_skill \<Rightarrow> ResearchBundle \<Rightarrow> Plan \<Rightarrow>
     ('w, js_error, TripleValidation) eff" where
  "triple_run lanes cs b p =
     thenM (validation_assertRouting lanes b p)
     (bindM (all3 (triple_schema lanes cs b p) (triple_fixture lanes cs b p) (triple_goal lanes cs b p))
       (\<lambda>(sv, fv, gv). triple_join cs b p sv fv gv))"

section \<open>Confirmation and hash proof\<close>

definition confirmation_run ::
  "'w contract_skill \<Rightarrow> ResearchBundle \<Rightarrow> Plan \<Rightarrow> Audit \<Rightarrow> GapAnalysis \<Rightarrow> Evaluation \<Rightarrow>
     TripleValidation \<Rightarrow> ('w, js_error, ConfirmedPackage) eff" where
  "confirmation_run cs b p audit gap evaluation triple =
     (if \<not> all_valid triple then throwM (JsError ''Triple Validation is not all VALID'')
      else
        let package = \<lparr>confirmed = True, core =
              \<lparr>cc_researcher = researcher b, cc_plan = p, cc_schema_artifact = schema_artifact b,
               cc_fixture = fixture b, cc_goal = goal b, cc_validation = validation b,
               cc_audit = audit, cc_gap_analysis = gap, cc_evaluation = evaluation,
               cc_triple_validation = triple\<rparr>\<rparr>
        in thenM (cs_validate cs (CConfirmed package))
          (thenM (cs_validateReferences cs (core package)) (returnM package)))"

definition hash_create :: "'w contract_skill \<Rightarrow> ConfirmedPackage \<Rightarrow> ('w, js_error, string) eff" where
  "hash_create cs c = cs_createHash cs (core c)"

definition hash_proof_of ::
  "'w contract_skill \<Rightarrow> string \<Rightarrow> string \<Rightarrow> ('w, js_error, HashProof) eff" where
  "hash_proof_of cs createdHash sandboxHash =
     (let proof_doc = \<lparr>canonicalization_id = ''oneshot-jcs-rfc8785-v1'', algorithm = ''sha256'',
          created_hash = createdHash, recomputed_hash = sandboxHash,
          equal_proof = (createdHash = sandboxHash)\<rparr>
      in thenM (cs_validate cs (CHashProof proof_doc)) (returnM proof_doc))"

definition hash_run :: "'w contract_skill \<Rightarrow> ConfirmedPackage \<Rightarrow> ('w, js_error, HashProof) eff" where
  "hash_run cs c =
     bindM (hash_create cs c) (\<lambda>created.
     bindM (cs_verifyHash cs (core c) created) (\<lambda>proof_doc.
       thenM (cs_validate cs (CHashProof proof_doc)) (returnM proof_doc)))"

section \<open>Lemmas\<close>

definition ids_match ::
  "ResearchBundle \<Rightarrow> Plan \<Rightarrow> TripleValidation \<Rightarrow> bool" where
  "ids_match b p t \<longleftrightarrow> tv_plan_id t = plan_id p \<and> tv_validation_id t = validation_id (validation b) \<and>
     sv_plan_id (schema_validation t) = plan_id p \<and> fv_plan_id (fixture_validation t) = plan_id p \<and>
     gv_plan_id (goal_validation t) = plan_id p \<and>
     sv_schema_id (schema_validation t) = schema_id (schema_artifact b) \<and>
     fv_fixture_id (fixture_validation t) = fixture_id (fixture b) \<and>
     gv_goal_id (goal_validation t) = goal_id (goal b)"

definition verdict :: "TripleValidation \<Rightarrow> bool" where
  "verdict t \<longleftrightarrow> sv_result (schema_validation t) = Passed \<and>
     fv_result (fixture_validation t) = Passed \<and> gv_result (goal_validation t) = Passed"

lemma mismatch_empty: "mismatch l a e = [] \<longleftrightarrow> a = e"
  by (simp add: mismatch_def)

lemma join_mismatches_empty:
  "join_mismatches b p sv fv gv = [] \<longleftrightarrow>
     sv_plan_id sv = plan_id p \<and> fv_plan_id fv = plan_id p \<and> gv_plan_id gv = plan_id p \<and>
     sv_schema_id sv = schema_id (schema_artifact b) \<and> fv_fixture_id fv = fixture_id (fixture b) \<and>
     gv_goal_id gv = goal_id (goal b)"
  by (simp add: join_mismatches_def mismatch_empty)

lemma triple_join_ok:
  assumes "triple_join cs b p sv fv gv w = (Inr t, w')"
  shows "ids_match b p t \<and> all_valid t = verdict t \<and> schema_validation t = sv \<and>
    fixture_validation t = fv \<and> goal_validation t = gv"
proof -
  have "join_mismatches b p sv fv gv = []"
    using assms by (auto simp: triple_join_def Let_def throwM_apply split: if_splits)
  moreover from this have "t = \<lparr>tv_plan_id = plan_id p, tv_validation_id = validation_id (validation b),
      schema_validation = sv, fixture_validation = fv, goal_validation = gv,
      all_valid = every_passed [sv_result sv, fv_result fv, gv_result gv]\<rparr>"
    using assms by (auto simp: triple_join_def Let_def eff_simps split: sum.splits prod.splits)
  ultimately show ?thesis
    by (auto simp: join_mismatches_empty ids_match_def verdict_def every_passed_def)
qed

lemma all3_ok:
  "all3 f g h w = (Inr (x, y, z), w') \<Longrightarrow>
    \<exists>w1 w2. f w = (Inr x, w1) \<and> g w1 = (Inr y, w2) \<and> h w2 = (Inr z, w')"
  by (auto simp: all3_def split: prod.splits sum.splits)


section \<open>Properties\<close>

text \<open>
  C17.  Triple validation is sound: a triple it returns belongs to this plan and
  this bundle (plan, validation, schema, fixture and goal identities all agree),
  its three parts are what the three validators returned in this call, and it is
  marked all valid exactly if each of the three is Passed.
\<close>

theorem triple_validation_sound:
  "case triple_run lanes cs b p w of
     (Inl e, w') \<Rightarrow> True
   | (Inr t, w') \<Rightarrow> ids_match b p t \<and> all_valid t = verdict t \<and>
       (\<exists>u u'. vl_schema lanes (payload_of b p) u = (Inr (schema_validation t), u')) \<and>
       (\<exists>u u'. vl_fixture lanes (payload_of b p) u = (Inr (fixture_validation t), u')) \<and>
       (\<exists>u u'. vl_goal lanes (payload_of b p) u = (Inr (goal_validation t), u'))"
proof -
  have "ids_match b p t \<and> all_valid t = verdict t \<and>
       (\<exists>u u'. vl_schema lanes (payload_of b p) u = (Inr (schema_validation t), u')) \<and>
       (\<exists>u u'. vl_fixture lanes (payload_of b p) u = (Inr (fixture_validation t), u')) \<and>
       (\<exists>u u'. vl_goal lanes (payload_of b p) u = (Inr (goal_validation t), u'))"
    if run: "triple_run lanes cs b p w = (Inr t, w')" for t w'
  proof -
    from run obtain sv fv gv v v' where
      "all3 (triple_schema lanes cs b p) (triple_fixture lanes cs b p) (triple_goal lanes cs b p) v = (Inr (sv, fv, gv), v')"
      and join: "triple_join cs b p sv fv gv v' = (Inr t, w')"
      unfolding triple_run_def by (auto elim!: thenM_Inr_elim bindM_Inr_elim)
    from all3_ok [OF this(1)] obtain v1 v2 where
      "triple_schema lanes cs b p v = (Inr sv, v1)" "triple_fixture lanes cs b p v1 = (Inr fv, v2)"
      "triple_goal lanes cs b p v2 = (Inr gv, v')" by blast
    then have "\<exists>u u'. vl_schema lanes (payload_of b p) u = (Inr sv, u')"
      "\<exists>u u'. vl_fixture lanes (payload_of b p) u = (Inr fv, u')"
      "\<exists>u u'. vl_goal lanes (payload_of b p) u = (Inr gv, u')"
      unfolding triple_schema_def triple_fixture_def triple_goal_def validation_schema_def
        validation_fixture_def validation_goal_def by - (auto elim!: bindM_Inr_elim thenM_Inr_elim simp: returnM_apply, blast+)
    with triple_join_ok [OF join] show ?thesis by simp
  qed
  then show ?thesis by (auto split: prod.split sum.split)
qed

text \<open>
  Only validated plans are confirmed: whenever confirmation accepts the
  triple that triple validation returned for a plan, all three validations of
  that very plan are Passed, and the package's core holds exactly the bundle's
  artifacts, this plan, and the audit, gap analysis, evaluation and triple given.
\<close>

theorem confirmation_requires_valid_triple:
  assumes "triple_run lanes cs b p w = (Inr t, w1)"
  shows "case fst (confirmation_run cs b p audit gap evaluation t w1) of
     Inl e \<Rightarrow> True
   | Inr package \<Rightarrow> confirmed package \<and> verdict t \<and> ids_match b p (cc_triple_validation (core package)) \<and>
       core package = \<lparr>cc_researcher = researcher b, cc_plan = p, cc_schema_artifact = schema_artifact b,
               cc_fixture = fixture b, cc_goal = goal b, cc_validation = validation b,
               cc_audit = audit, cc_gap_analysis = gap, cc_evaluation = evaluation,
               cc_triple_validation = t\<rparr>"
proof -
  have t: "ids_match b p t" "all_valid t = verdict t"
  proof -
    from assms obtain sv fv gv v' where "triple_join cs b p sv fv gv v' = (Inr t, w1)"
      unfolding triple_run_def by (auto elim!: thenM_Inr_elim bindM_Inr_elim)
    from triple_join_ok [OF this] show "ids_match b p t" "all_valid t = verdict t" by simp_all
  qed
  then show ?thesis
    by (auto simp: confirmation_run_def Let_def eff_simps split: sum.splits prod.splits)
qed

definition passing_lanes :: "'w validation_lanes" where
  "passing_lanes =
     \<lparr>vl_routing = (\<lambda>_. returnM ()),
      vl_schema = (\<lambda>py. returnM \<lparr>sv_plan_id = plan_id (py_plan py), sv_schema_id = ''sch'',
        sv_result = Passed, sv_evidence = []\<rparr>),
      vl_fixture = (\<lambda>py. returnM \<lparr>fv_plan_id = plan_id (py_plan py), fv_fixture_id = ''f'',
        assertion_results = [], fv_result = Passed, fv_evidence = []\<rparr>),
      vl_goal = (\<lambda>py. returnM \<lparr>gv_plan_id = plan_id (py_plan py), gv_goal_id = ''g'',
        criterion_results = [], gv_result = Passed, gv_evidence = []\<rparr>)\<rparr>"

definition accepting_contracts :: "'w contract_skill" where
  "accepting_contracts = \<lparr>cs_validate = (\<lambda>_. returnM ()), cs_validateReferences = (\<lambda>_. returnM ()),
     cs_createHash = (\<lambda>_. returnM (replicate 64 CHR ''a'')),
     cs_verifyHash = (\<lambda>_ h. returnM \<lparr>canonicalization_id = ''oneshot-jcs-rfc8785-v1'',
       algorithm = ''sha256'', created_hash = h, recomputed_hash = h, equal_proof = True\<rparr>)\<rparr>"

lemma confirmation_requires_valid_triple_witness:
  "\<exists>t. fst (triple_run passing_lanes accepting_contracts sample_bundle (gap_plan [''r1'']) ()) = Inr t \<and> verdict t"
proof -
  obtain t where run: "triple_run passing_lanes accepting_contracts sample_bundle (gap_plan [''r1'']) () = (Inr t, ())"
    and av: "all_valid t"
    by (simp add: every_passed_def triple_run_def all3_def triple_schema_def triple_fixture_def triple_goal_def
        validation_assertRouting_def validation_schema_def validation_fixture_def validation_goal_def
        passing_lanes_def accepting_contracts_def triple_join_def join_mismatches_empty Let_def
        payload_of_def gap_plan_def sample_bundle_def eff_simps)
  obtain c where "fst (confirmation_run accepting_contracts sample_bundle (gap_plan [''r1'']) undefined
      undefined undefined t ()) = Inr c"
    using av by (simp add: confirmation_run_def accepting_contracts_def eff_simps Let_def)
  with confirmation_requires_valid_triple [OF run, of undefined undefined undefined] run
  show ?thesis by simp
qed

end
