(* ===== verification/Sandbox_Types.thy ===== *)
theory Sandbox_Types
  imports Contracts
begin

text \<open>
  The data of the execution sandbox: \<open>backend/sandbox/types.ts\<close>, the interface
  of \<open>sandbox/runner/runner.ts\<close>, and the result of
  \<open>agents/builder/workflow.ts\<close>.  A JavaScript number that counts (bytes, files,
  processes, milliseconds, megabytes) is an \<open>int\<close>, one that may be a fraction
  (seconds, processor share) a \<open>rat\<close>; the processor share can be \<open>NaN\<close>, which is
  \<open>None\<close>.  A field of a literal type
  (\<open>result: "Passed"\<close>, \<open>hash_matched: true\<close>, \<open>issue_type: "Root Cause"\<close>) is the
  constructor of the union.
\<close>

datatype NetworkPolicy = DENY_ALL | ALLOW_SPECIFIC

fun NetworkPolicy_str :: "NetworkPolicy \<Rightarrow> string" where
  "NetworkPolicy_str DENY_ALL = ''DENY_ALL''"
| "NetworkPolicy_str ALLOW_SPECIFIC = ''ALLOW_SPECIFIC''"

record ExecutionAuthorization =
  au_execution_id :: string
  execution_root :: "string option"
  permitted_operations :: "string list option"
  protected_paths :: "string list option"
  timeout_seconds :: rat
  memory_limit_mb :: int
  cpu_limit :: "rat option"
  pid_limit :: int
  network_policy :: NetworkPolicy
  environment_allowlist :: "string list"
  max_output_bytes :: int
  max_files_changed :: int
  max_total_bytes_written :: int

text \<open>\<open>Partial<ExecutionAuthorization>\<close>: every field may be missing.\<close>

record PartialAuthorization =
  pa_execution_id :: "string option"
  pa_execution_root :: "string option"
  pa_permitted_operations :: "string list option"
  pa_protected_paths :: "string list option"
  pa_timeout_seconds :: "rat option"
  pa_memory_limit_mb :: "int option"
  pa_cpu_limit :: "rat option option"
  pa_pid_limit :: "int option"
  pa_network_policy :: "NetworkPolicy option"
  pa_environment_allowlist :: "string list option"
  pa_max_output_bytes :: "int option"
  pa_max_files_changed :: "int option"
  pa_max_total_bytes_written :: "int option"

record SandboxExecutionInput =
  si_package :: ConfirmedPackage
  si_hash :: string
  execution_authorization :: "PartialAuthorization option"

datatype ChangeAction = ChCreated | ChModified | ChDeleted

record FileChangeEvidence =
  fc_path :: string
  fc_action :: ChangeAction
  fc_bytes :: int
  fc_sha256 :: "string option"
  previous_sha256 :: "string option"
  previous_bytes :: "int option"

record ResourceUsageEvidence =
  duration_ms :: int
  peak_memory_mb :: "int option"
  cpu_time_ms :: "int option"

record TimeoutEvidence =
  timed_out :: bool
  limit_seconds :: rat
  elapsed_seconds :: rat

record CleanupResult =
  workspace_cleaned :: bool
  processes_terminated :: bool

record ExecutionEvidence =
  ex_execution_id :: string
  ex_sandbox_id :: string
  confirmed_package_hash :: string
  started_at :: string
  completed_at :: string
  ex_commands :: "string list"
  ex_exit_codes :: "int list"
  stdout_refs :: "string list"
  stderr_refs :: "string list"
  ex_file_changes :: "FileChangeEvidence list"
  ex_bytes_written :: int
  ex_resource_usage :: ResourceUsageEvidence
  ex_timeout_evidence :: "TimeoutEvidence option"
  ex_environment_allowlist_used :: "string list"
  ex_network_policy_used :: string
  ex_cleanup_result :: CleanupResult
  ex_hash_sandbox :: string

record ResearchRequest =
  rr_request_id :: string
  rr_issue :: string
  why_research_is_required :: string
  rr_evidence_ids :: "string list"
  missing_information :: "string list"
  rr_execution_id :: string

record SandboxExecutionPassed =
  sp_execution_id :: string
  sp_sandbox_id :: string
  sp_evidence :: ExecutionEvidence
  hash_sandbox :: string

record SandboxExecutionRootCause =
  sr_execution_id :: string
  sr_sandbox_id :: "string option"
  sr_root_cause :: RootCause
  sr_evidence :: "ExecutionEvidence option"
  sr_help_request :: "HelpRequest option"
  sr_research_request :: "ResearchRequest option"

datatype SandboxExecutionResult =
    SandboxPassed SandboxExecutionPassed
  | SandboxRootCause SandboxExecutionRootCause

fun sx_execution_id :: "SandboxExecutionResult \<Rightarrow> string" where
  "sx_execution_id (SandboxPassed r) = sp_execution_id r"
| "sx_execution_id (SandboxRootCause r) = sr_execution_id r"

section \<open>The runner's and the builder's results\<close>

datatype condition = CdSuccess | CdFailure | CdTimeout | CdResourceExhausted | CdDenied

record RunnerExecutionResult =
  rn_commands :: "string list"
  rn_exit_codes :: "int list"
  stdout_lines :: "string list"
  stderr_lines :: "string list"
  rn_file_changes :: "FileChangeEvidence list"
  rn_bytes_written :: int
  rn_resource_usage :: ResourceUsageEvidence
  rn_timeout_evidence :: "TimeoutEvidence option"
  rn_environment_allowlist_used :: "string list"
  rn_network_policy_used :: string
  rn_cleanup_result :: CleanupResult
  rn_condition :: "condition option"

text \<open>\<open>SandboxExecutionResult & { final_output, output_step_id }\<close>.\<close>

record BuilderWorkflowResult =
  bw_result :: SandboxExecutionResult
  final_output :: "string option"
  output_step_id :: "string option"

end
