(* ===== verification/Pipeline_Stages.thy ===== *)
theory Pipeline_Stages
  imports Run_Services Apply_Transition Triple_Validation Sandbox_Types
begin

text \<open>
  The stage bodies of the durable pipeline: \<open>backend/pipeline/context.ts\<close>, which stage
  reads and writes which artifact, and \<open>backend/pipeline/processors.ts\<close>, what each stage
  does.  The agents are this library's; the language model behind the researcher, the
  sandbox behind the builder and the Python reasoner are fields of \<open>StageServices\<close>.
\<close>

section \<open>Documents\<close>

record CapturedProvider =
  cp_id :: string
  cp_model :: string
  cp_configRevision :: nat
  cp_settings :: "json option"

record FileMutations =
  fm_run_id :: string
  fm_execution_id :: string
  fm_created_at :: string
  fm_records :: "FileChangeEvidence list"

datatype pipeline_doc =
    PdPrompt Prompt
  | PdProvider CapturedProvider
  | PdBundle ResearchBundle
  | PdPlan Plan
  | PdSchema SchemaArtifact
  | PdFixture Fixture
  | PdGoal Goal
  | PdValidation ValidationDefinition
  | PdAudit Audit
  | PdGap GapAnalysis
  | PdEvaluation Evaluation
  | PdTriple TripleValidation
  | PdHashProof HashProof
  | PdBuild BuilderWorkflowResult
  | PdMutations FileMutations
  | PdReasoned json
  | PdCanaryFailed string

type_synonym pipeline_artifact = "pipeline_doc artifact"

type_synonym 'w pipeline_run = "('w, pipeline_doc) RunServices"

text \<open>
  \<open>load<T>\<close> casts what it read.  Every name is written with one type only, so a document of
  another type stands for a file that something else wrote; its reader fails.
\<close>

fun as_prompt where "as_prompt (ArOther (PdPrompt x)) = Some x" | "as_prompt _ = None"
fun as_provider where "as_provider (ArOther (PdProvider x)) = Some x" | "as_provider _ = None"
fun as_bundle where "as_bundle (ArOther (PdBundle x)) = Some x" | "as_bundle _ = None"
fun as_plan where "as_plan (ArOther (PdPlan x)) = Some x" | "as_plan _ = None"
fun as_audit where "as_audit (ArOther (PdAudit x)) = Some x" | "as_audit _ = None"
fun as_gap where "as_gap (ArOther (PdGap x)) = Some x" | "as_gap _ = None"
fun as_evaluation where "as_evaluation (ArOther (PdEvaluation x)) = Some x" | "as_evaluation _ = None"
fun as_triple where "as_triple (ArOther (PdTriple x)) = Some x" | "as_triple _ = None"
fun as_hashProof where "as_hashProof (ArOther (PdHashProof x)) = Some x" | "as_hashProof _ = None"
fun as_build where "as_build (ArOther (PdBuild x)) = Some x" | "as_build _ = None"
fun as_package where "as_package (ArPackage x) = Some x" | "as_package _ = None"

definition load_as :: "(pipeline_artifact \<Rightarrow> 'a option) \<Rightarrow> 'w pipeline_run \<Rightarrow> string \<Rightarrow> string \<Rightarrow> ('w, js_error, 'a) eff" where
  "load_as sel S runId name = bindM (lift_fs (as_load (svc_store S) runId name)) (\<lambda>v. case sel v of
     None \<Rightarrow> throwM type_error | Some x \<Rightarrow> returnM x)"

section \<open>Context\<close>

record 'w PipelineContext =
  px_runId :: string
  px_services :: "'w pipeline_run"
  px_clock :: "'w \<Rightarrow> string"
  px_stageIteration :: nat

definition starts_with :: "string \<Rightarrow> string \<Rightarrow> bool" where
  "starts_with p s \<longleftrightarrow> take (length p) s = p"

definition has_artifact :: "string \<Rightarrow> RunSnapshot \<Rightarrow> bool" where
  "has_artifact name r \<longleftrightarrow> map_of (artifacts r) name \<noteq> None"

definition ctx_load :: "(pipeline_artifact \<Rightarrow> 'a option) \<Rightarrow> 'w PipelineContext \<Rightarrow> string \<Rightarrow> ('w, js_error, 'a) eff" where
  "ctx_load sel ctx name = load_as sel (px_services ctx) (px_runId ctx) name"

definition requireSnapshot :: "'w PipelineContext \<Rightarrow> ('w, js_error, RunSnapshot) eff" where
  "requireSnapshot ctx = svc_require (px_services ctx) (px_runId ctx)"

definition ctx_save :: "'w PipelineContext \<Rightarrow> string \<Rightarrow> pipeline_artifact \<Rightarrow> ('w, js_error, unit) eff" where
  "ctx_save ctx name v = bindM (saveArtifact (px_services ctx) (px_runId ctx) name v) (\<lambda>_. returnM ())"

definition loadPrompt :: "'w PipelineContext \<Rightarrow> ('w, js_error, Prompt) eff" where
  "loadPrompt ctx = bindM (requireSnapshot ctx) (\<lambda>snapshot.
     case List.find (starts_with ''prompt'') (map fst (artifacts snapshot)) of
       None \<Rightarrow> throwM (JsError (''No prompt artifact found for run '' @ px_runId ctx))
     | Some promptId \<Rightarrow> ctx_load as_prompt ctx promptId)"

definition loadProvider :: "'w PipelineContext \<Rightarrow> ('w, js_error, CapturedProvider) eff" where
  "loadProvider ctx = ctx_load as_provider ctx ''provider''"

definition loadResearchBundle :: "'w PipelineContext \<Rightarrow> ('w, js_error, ResearchBundle) eff" where
  "loadResearchBundle ctx = bindM (requireSnapshot ctx) (\<lambda>snapshot.
     if has_artifact ''research.reviewed'' snapshot then ctx_load as_bundle ctx ''research.reviewed''
     else ctx_load as_bundle ctx ''research_bundle'')"

definition loadPlan :: "'w PipelineContext \<Rightarrow> ('w, js_error, Plan) eff" where
  "loadPlan ctx = bindM (requireSnapshot ctx) (\<lambda>snapshot.
     if has_artifact ''plan.reviewed'' snapshot then ctx_load as_plan ctx ''plan.reviewed''
     else ctx_load as_plan ctx ''plan'')"

definition loadAudit :: "'w PipelineContext \<Rightarrow> ('w, js_error, Audit) eff" where
  "loadAudit ctx = ctx_load as_audit ctx ''audit''"

definition loadGapAnalysis :: "'w PipelineContext \<Rightarrow> ('w, js_error, GapAnalysis) eff" where
  "loadGapAnalysis ctx = ctx_load as_gap ctx ''gap_analysis''"

definition loadEvaluation :: "'w PipelineContext \<Rightarrow> ('w, js_error, Evaluation) eff" where
  "loadEvaluation ctx = ctx_load as_evaluation ctx ''evaluation''"

definition loadTripleValidation :: "'w PipelineContext \<Rightarrow> ('w, js_error, TripleValidation) eff" where
  "loadTripleValidation ctx = ctx_load as_triple ctx ''triple_validation''"

definition loadConfirmedPackage :: "'w PipelineContext \<Rightarrow> ('w, js_error, ConfirmedPackage) eff" where
  "loadConfirmedPackage ctx = ctx_load as_package ctx ''confirmed''"

definition loadHashProof :: "'w PipelineContext \<Rightarrow> ('w, js_error, HashProof) eff" where
  "loadHashProof ctx = ctx_load as_hashProof ctx ''hash_proof''"

section \<open>What a stage uses\<close>

record ReasoningEvidence =
  re_source :: string
  re_content :: string
  re_confidence :: nat

record ReasoningTask =
  rt_id :: string
  rt_title :: string
  rt_action :: string
  rt_required :: bool

record ReasoningRequest =
  rq_run_id :: string
  rq_task :: string
  rq_goal :: string
  rq_constraints :: "string list"
  rq_evidence :: "ReasoningEvidence list"
  rq_plan_id :: string
  rq_objective :: string
  rq_status :: string
  rq_tasks :: "ReasoningTask list"

text \<open>
  A resolved provider is the researcher over it: \<open>new ResearcherWorkflow(provider, contracts)\<close>
  has the one method \<open>run\<close>.
\<close>

type_synonym 'w researcher = "Prompt \<Rightarrow> string \<Rightarrow> ('w, js_error, ResearchBundle) eff"

record 'w StageServices =
  ss_resolveForRun :: "string \<Rightarrow> CapturedProvider \<Rightarrow> ('w, js_error, 'w researcher) eff"
  ss_contracts :: "'w contract_skill"
  ss_lanes :: "'w validation_lanes"
  ss_builder :: "ConfirmedPackage \<Rightarrow> string \<Rightarrow> ('w, js_error, BuilderWorkflowResult) eff"
  ss_pythonReasoner :: "(ReasoningRequest \<Rightarrow> ('w, js_error, json) eff) option"

record StageProgress =
  sg_runId :: "string option"
  sg_stage :: PipelineStage
  sg_iteration :: "nat option"
  sg_percent :: nat
  sg_message :: string

type_synonym 'w progress = "StageProgress \<Rightarrow> ('w, js_error, unit) eff"

fun CANONICAL_NAME :: "PipelineStage \<Rightarrow> string" where
  "CANONICAL_NAME Researcher = ''Researcher''"
| "CANONICAL_NAME Planner = ''Planner''"
| "CANONICAL_NAME Refactor = ''Refactor''"
| "CANONICAL_NAME GapAnalysisStage = ''GapAnalysis''"
| "CANONICAL_NAME EvaluationStage = ''Evaluation''"
| "CANONICAL_NAME TripleValidationStage = ''TripleValidation''"
| "CANONICAL_NAME Confirmation = ''Confirmed''"
| "CANONICAL_NAME HashStage = ''CreateHash''"
| "CANONICAL_NAME Build = ''Builder''"
| "CANONICAL_NAME Finalize = ''Finalize''"

definition emitStage :: "'w PipelineContext \<Rightarrow> PipelineStage \<Rightarrow> ExecutionStatus \<Rightarrow> EventData \<Rightarrow> ('w, js_error, unit) eff" where
  "emitStage ctx stage st extra = svc_emit (px_services ctx) (px_runId ctx) (CANONICAL_NAME stage) st
     (extra\<lparr>ed_scope := (case ed_scope extra of None \<Rightarrow> Some WORKFLOW | Some s \<Rightarrow> Some s)\<rparr>)"

definition reportProgress :: "'w progress \<Rightarrow> PipelineStage \<Rightarrow> nat \<Rightarrow> string \<Rightarrow> ('w, js_error, unit) eff" where
  "reportProgress progress stage percent m = progress \<lparr>sg_runId = None, sg_stage = stage, sg_iteration = None,
     sg_percent = percent, sg_message = m\<rparr>"

text \<open>The data of a \<open>Completed\<close> event: the result, the issue of a failed one, the artifact.\<close>

definition completed_data :: "TestResult \<Rightarrow> IssueType option \<Rightarrow> RootCause option \<Rightarrow> string \<Rightarrow> EventData" where
  "completed_data res ty rc i = no_data\<lparr>ed_test_result := Some res, ed_issue_type := (if res = Failed then ty else None),
     ed_issue := (if res = Failed then rc else None), ed_artifact_id := Some i\<rparr>"

section \<open>The stages\<close>

definition runResearcherStage :: "'w PipelineContext \<Rightarrow> 'w StageServices \<Rightarrow> 'w progress \<Rightarrow> ('w, js_error, unit) eff" where
  "runResearcherStage ctx sv progress =
     thenM (reportProgress progress Researcher 10 ''Gathering repository context'')
     (thenM (emitStage ctx Researcher ERunning no_data)
     (bindM (loadPrompt ctx) (\<lambda>pr. bindM (loadProvider ctx) (\<lambda>captured.
      bindM (ss_resolveForRun sv (cp_id captured) captured) (\<lambda>researcher_run.
      bindM (researcher_run pr (px_runId ctx)) (\<lambda>b.
      thenM (ctx_save ctx (''research_bundle.v'' @ nat_str (px_stageIteration ctx)) (ArOther (PdBundle b)))
      (thenM (ctx_save ctx ''research_bundle'' (ArOther (PdBundle b)))
      (thenM (ctx_save ctx ''plan'' (ArOther (PdPlan (plan b))))
      (thenM (ctx_save ctx ''schema_artifact'' (ArOther (PdSchema (schema_artifact b))))
      (thenM (ctx_save ctx ''fixture'' (ArOther (PdFixture (fixture b))))
      (thenM (ctx_save ctx ''goal'' (ArOther (PdGoal (goal b))))
      (thenM (ctx_save ctx ''validation_definition'' (ArOther (PdValidation (validation b))))
      (thenM (emitStage ctx Researcher ECompleted (completed_data Passed None None (researcher_id (researcher b))))
        (reportProgress progress Researcher 100 ''Research complete''))))))))))))))"

definition runPlannerStage :: "'w PipelineContext \<Rightarrow> 'w StageServices \<Rightarrow> 'w progress \<Rightarrow> ('w, js_error, unit) eff" where
  "runPlannerStage ctx sv progress =
     thenM (reportProgress progress Planner 10 ''Reviewing Researcher evidence'')
     (thenM (emitStage ctx Planner ERunning no_data)
     (bindM (loadResearchBundle ctx) (\<lambda>b.
      bindM (planner_run (ss_contracts sv) b (px_runId ctx)) (\<lambda>audit.
      thenM (ctx_save ctx ''audit'' (ArOther (PdAudit audit)))
      (thenM (emitStage ctx Planner ECompleted (completed_data Passed None None (audit_id audit)))
        (reportProgress progress Planner 100 ''Planner audit passed''))))))"

definition runRefactorStage :: "'w PipelineContext \<Rightarrow> 'w StageServices \<Rightarrow> 'w progress \<Rightarrow> ('w, js_error, unit) eff" where
  "runRefactorStage ctx sv progress =
     thenM (reportProgress progress Refactor 10 ''Refining approved plan'')
     (thenM (emitStage ctx Refactor ERunning no_data)
     (bindM (loadResearchBundle ctx) (\<lambda>b. bindM (loadAudit ctx) (\<lambda>audit.
      bindM (refactor_run (ss_contracts sv) b audit) (\<lambda>p.
      thenM (ctx_save ctx ''plan'' (ArOther (PdPlan p)))
      (thenM (emitStage ctx Refactor ECompleted (completed_data Passed None None (plan_id p)))
        (reportProgress progress Refactor 100 ''Plan refactor complete'')))))))"

definition runGapAnalysisStage :: "'w PipelineContext \<Rightarrow> 'w StageServices \<Rightarrow> 'w progress \<Rightarrow> ('w, js_error, unit) eff" where
  "runGapAnalysisStage ctx sv progress =
     thenM (reportProgress progress GapAnalysisStage 10 ''Searching for missing requirements'')
     (thenM (emitStage ctx GapAnalysisStage ERunning no_data)
     (bindM (loadResearchBundle ctx) (\<lambda>b. bindM (loadPlan ctx) (\<lambda>p.
      bindM (gap_run (ss_contracts sv) b p) (\<lambda>(updatedPlan, gap).
      thenM (ctx_save ctx ''plan'' (ArOther (PdPlan updatedPlan)))
      (thenM (ctx_save ctx ''gap_analysis'' (ArOther (PdGap gap)))
      (thenM (emitStage ctx GapAnalysisStage ECompleted
        (completed_data (ga_result gap) (ga_issue_type gap) (ga_root_cause gap) (ga_plan_id gap)))
        (reportProgress progress GapAnalysisStage 100
          (if ga_result gap = Passed then ''No gaps detected''
           else nat_str (length (resolved_gaps gap)) @ '' gap(s) analyzed'')))))))))"

definition buildReasoningRequest :: "string \<Rightarrow> ResearchBundle \<Rightarrow> Plan \<Rightarrow> ReasoningRequest" where
  "buildReasoningRequest runId b p = \<lparr>rq_run_id = runId, rq_task = ''evaluation'',
     rq_goal = requested_outcome (prompt b), rq_constraints = map req_statement (requirements p),
     rq_evidence = map (\<lambda>e. \<lparr>re_source = ev_source e, re_content = ev_statement e, re_confidence = 0\<rparr>)
       (ra_evidence (researcher b)),
     rq_plan_id = plan_id p, rq_objective = requested_outcome (prompt b), rq_status = ''evaluation'',
     rq_tasks = map (\<lambda>s. \<lparr>rt_id = step_id s, rt_title = responsibility s, rt_action = step_description s,
       rt_required = True\<rparr>) (steps p)\<rparr>"

text \<open>The canary: a second opinion whose failure is stored and does not fail the stage.\<close>

definition runPythonEvaluationCanary ::
  "'w PipelineContext \<Rightarrow> 'w StageServices \<Rightarrow> ResearchBundle \<Rightarrow> Plan \<Rightarrow> ('w, js_error, unit) eff" where
  "runPythonEvaluationCanary ctx sv b p = (case ss_pythonReasoner sv of
      None \<Rightarrow> returnM ()
    | Some ask \<Rightarrow> try_catch
        (bindM (ask (buildReasoningRequest (px_runId ctx) b p)) (\<lambda>response.
           ctx_save ctx ''python-evaluation-canary'' (ArOther (PdReasoned response))))
        (\<lambda>e. ctx_save ctx ''python-evaluation-canary'' (ArOther (PdCanaryFailed (error_message e)))))"

definition runEvaluationStage :: "'w PipelineContext \<Rightarrow> 'w StageServices \<Rightarrow> 'w progress \<Rightarrow> ('w, js_error, unit) eff" where
  "runEvaluationStage ctx sv progress =
     thenM (reportProgress progress EvaluationStage 10 ''Evaluating final plan'')
     (thenM (emitStage ctx EvaluationStage ERunning no_data)
     (bindM (loadResearchBundle ctx) (\<lambda>b. bindM (loadPlan ctx) (\<lambda>p.
      bindM (evaluation_run (ss_contracts sv) b p) (\<lambda>ev.
      thenM (ctx_save ctx ''evaluation'' (ArOther (PdEvaluation ev)))
      (thenM (runPythonEvaluationCanary ctx sv b p)
      (thenM (emitStage ctx EvaluationStage ECompleted
        (completed_data (el_result ev) (el_issue_type ev) (el_root_cause ev) (el_plan_id ev)))
        (reportProgress progress EvaluationStage 100 (''Evaluation result: '' @ TestResult_str (el_result ev))))))))))"

definition runTripleValidationStage :: "'w PipelineContext \<Rightarrow> 'w StageServices \<Rightarrow> 'w progress \<Rightarrow> ('w, js_error, unit) eff" where
  "runTripleValidationStage ctx sv progress =
     thenM (reportProgress progress TripleValidationStage 10 ''Starting schema validation'')
     (thenM (emitStage ctx TripleValidationStage ERunning no_data)
     (bindM (loadResearchBundle ctx) (\<lambda>b. bindM (loadPlan ctx) (\<lambda>p.
      thenM (reportProgress progress TripleValidationStage 35 ''Starting fixture validation'')
      (thenM (reportProgress progress TripleValidationStage 65 ''Starting goal validation'')
      (bindM (triple_run (ss_lanes sv) (ss_contracts sv) b p) (\<lambda>triple.
      thenM (ctx_save ctx ''triple_validation'' (ArOther (PdTriple triple)))
      (thenM (emitStage ctx TripleValidationStage ECompleted
        (completed_data (if all_valid triple then Passed else Failed) (Some MissingIssue) None (tv_validation_id triple)))
        (reportProgress progress TripleValidationStage 100
          (if all_valid triple then ''All validation passed'' else ''Validation failed''))))))))))"

definition runConfirmationStage :: "'w PipelineContext \<Rightarrow> 'w StageServices \<Rightarrow> 'w progress \<Rightarrow> ('w, js_error, unit) eff" where
  "runConfirmationStage ctx sv progress =
     thenM (reportProgress progress Confirmation 10 ''Confirming validated package'')
     (thenM (emitStage ctx Confirmation ERunning no_data)
     (bindM (loadResearchBundle ctx) (\<lambda>b. bindM (loadPlan ctx) (\<lambda>p. bindM (loadAudit ctx) (\<lambda>audit.
      bindM (loadGapAnalysis ctx) (\<lambda>gap. bindM (loadEvaluation ctx) (\<lambda>ev. bindM (loadTripleValidation ctx) (\<lambda>triple.
      bindM (confirmation_run (ss_contracts sv) b p audit gap ev triple) (\<lambda>c.
      thenM (ctx_save ctx ''confirmed'' (ArPackage c))
      (thenM (emitStage ctx Confirmation ECompleted
        (completed_data Passed None None (researcher_id (cc_researcher (core c)))))
        (reportProgress progress Confirmation 100 ''Package confirmed'')))))))))))"

definition runHashStage :: "'w PipelineContext \<Rightarrow> 'w StageServices \<Rightarrow> 'w progress \<Rightarrow> ('w, js_error, unit) eff" where
  "runHashStage ctx sv progress =
     thenM (reportProgress progress HashStage 10 ''Creating canonical hash proof'')
     (thenM (emitStage ctx HashStage ERunning no_data)
     (bindM (loadConfirmedPackage ctx) (\<lambda>c. bindM (hash_run (ss_contracts sv) c) (\<lambda>pf.
      thenM (whenM (equal_proof pf) (bindM (build_open (svc_store (px_services ctx)) (px_clock ctx) (px_runId ctx) c
          (created_hash pf)) (\<lambda>_. returnM ())))
      (thenM (ctx_save ctx ''hash_proof'' (ArOther (PdHashProof pf)))
      (thenM (emitStage ctx HashStage ECompleted
        (completed_data (if equal_proof pf then Passed else Failed) (Some RootCauseIssue) None (created_hash pf)))
        (reportProgress progress HashStage 100 (if equal_proof pf then ''Hash proof created'' else ''Hash mismatch''))))))))"

fun sx_evidence :: "SandboxExecutionResult \<Rightarrow> ExecutionEvidence option" where
  "sx_evidence (SandboxPassed r) = Some (sp_evidence r)"
| "sx_evidence (SandboxRootCause r) = sr_evidence r"

definition deriveFileMutations :: "string \<Rightarrow> SandboxExecutionResult \<Rightarrow> FileMutations option" where
  "deriveFileMutations runId result = map_option (\<lambda>evidence. \<lparr>fm_run_id = runId,
     fm_execution_id = sx_execution_id result, fm_created_at = completed_at evidence,
     fm_records = ex_file_changes evidence\<rparr>) (sx_evidence result)"

fun sx_result :: "SandboxExecutionResult \<Rightarrow> TestResult" where
  "sx_result (SandboxPassed r) = Passed"
| "sx_result (SandboxRootCause r) = Failed"

fun sx_root_cause :: "SandboxExecutionResult \<Rightarrow> RootCause option" where
  "sx_root_cause (SandboxPassed r) = None"
| "sx_root_cause (SandboxRootCause r) = Some (sr_root_cause r)"

definition runBuildStage :: "'w PipelineContext \<Rightarrow> 'w StageServices \<Rightarrow> 'w progress \<Rightarrow> ('w, js_error, unit) eff" where
  "runBuildStage ctx sv progress =
     thenM (reportProgress progress Build 10 ''Preparing verified build'')
     (thenM (emitStage ctx Build ERunning no_data)
     (bindM (loadConfirmedPackage ctx) (\<lambda>c. bindM (loadHashProof ctx) (\<lambda>pf.
      thenM (requireApproved (svc_store (px_services ctx)) (px_runId ctx) c (created_hash pf))
      (bindM (hash_create (ss_contracts sv) c) (\<lambda>h.
       if h \<noteq> created_hash pf then throwM (JsError ''Confirmed package no longer matches the authorized hash'')
       else bindM (ss_builder sv c (created_hash pf)) (\<lambda>result.
         thenM (ctx_save ctx ''build_result'' (ArOther (PdBuild result)))
         (thenM (case deriveFileMutations (px_runId ctx) (bw_result result) of
             None \<Rightarrow> returnM () | Some m \<Rightarrow> ctx_save ctx ''file-mutations'' (ArOther (PdMutations m)))
         (thenM (emitStage ctx Build ECompleted (completed_data (sx_result (bw_result result)) (Some RootCauseIssue)
             (sx_root_cause (bw_result result)) (created_hash pf)))
           (reportProgress progress Build 100
             (if sx_result (bw_result result) = Passed then ''Build promoted successfully'' else ''Build failed'')))))))))))"

definition runFinalizeStage :: "'w PipelineContext \<Rightarrow> 'w StageServices \<Rightarrow> 'w progress \<Rightarrow> ('w, js_error, unit) eff" where
  "runFinalizeStage ctx sv progress =
     thenM (reportProgress progress Finalize 10 ''Finalizing workflow'')
     (thenM (emitStage ctx Finalize ERunning no_data)
       (reportProgress progress Finalize 100 ''Workflow finalized''))"

section \<open>What stays\<close>

text \<open>
  The job's stage bodies in one function, and the rule by which a property of the world
  stays under them: it stays under every operation they use.
\<close>

fun stage_body :: "PipelineStage \<Rightarrow> 'w PipelineContext \<Rightarrow> 'w StageServices \<Rightarrow> 'w progress \<Rightarrow> ('w, js_error, unit) eff" where
  "stage_body Researcher = runResearcherStage"
| "stage_body Planner = runPlannerStage"
| "stage_body Refactor = runRefactorStage"
| "stage_body GapAnalysisStage = runGapAnalysisStage"
| "stage_body EvaluationStage = runEvaluationStage"
| "stage_body TripleValidationStage = runTripleValidationStage"
| "stage_body Confirmation = runConfirmationStage"
| "stage_body HashStage = runHashStage"
| "stage_body Build = runBuildStage"
| "stage_body Finalize = runFinalizeStage"

definition gate_names :: "string set" where
  "gate_names = {''build-review'', ''build-approval''}"

definition context_keeps :: "('w \<Rightarrow> bool) \<Rightarrow> 'w PipelineContext \<Rightarrow> bool" where
  "context_keeps P ctx \<longleftrightarrow>
     (\<forall>n v. n \<notin> gate_names \<and> plain n \<longrightarrow> keepsM P (ctx_save ctx n v)) \<and>
     (\<forall>n. keepsM P (lift_fs (as_load (svc_store (px_services ctx)) (px_runId ctx) n))) \<and>
     keepsM P (requireSnapshot ctx) \<and>
     (\<forall>p st d. keepsM P (svc_emit (px_services ctx) (px_runId ctx) p st d)) \<and>
     (\<forall>c h. keepsM P (build_open (svc_store (px_services ctx)) (px_clock ctx) (px_runId ctx) c h)) \<and>
     (\<forall>c h. keepsM P (requireApproved (svc_store (px_services ctx)) (px_runId ctx) c h))"

definition agents_keep :: "('w \<Rightarrow> bool) \<Rightarrow> 'w StageServices \<Rightarrow> bool" where
  "agents_keep P sv \<longleftrightarrow> (let cs = ss_contracts sv; lanes = ss_lanes sv in
     (\<forall>d. keepsM P (cs_validate cs d)) \<and> (\<forall>c. keepsM P (cs_validateReferences cs c)) \<and>
     (\<forall>c. keepsM P (cs_createHash cs c)) \<and> (\<forall>c h. keepsM P (cs_verifyHash cs c h)) \<and>
     (\<forall>y. keepsM P (vl_routing lanes y)) \<and> (\<forall>y. keepsM P (vl_schema lanes y)) \<and>
     (\<forall>y. keepsM P (vl_fixture lanes y)) \<and> (\<forall>y. keepsM P (vl_goal lanes y)) \<and>
     (\<forall>i c. keepsM P (ss_resolveForRun sv i c)) \<and>
     (\<forall>i c w f w' y r. ss_resolveForRun sv i c w = (Inr f, w') \<longrightarrow> keepsM P (f y r)) \<and>
     (\<forall>ask y. ss_pythonReasoner sv = Some ask \<longrightarrow> keepsM P (ask y)))"

lemma keepsM_bind_result:
  assumes "keepsM P m" and "\<And>s x s'. P s \<Longrightarrow> m s = (Inr x, s') \<Longrightarrow> keepsM P (f x)"
  shows "keepsM P (bindM m f)"
  unfolding keepsM_def
proof (intro allI impI)
  fix s assume s: "P s"
  obtain r s1 where m: "m s = (r, s1)" by fastforce
  from keepsMD [OF assms(1) s] m have "P s1" by simp
  with assms(2) [OF s] m show "P (snd (bindM m f s))" by (cases r) (auto simp: bindM_apply keepsM_def)
qed

lemma bindM_cong:
  assumes "keepsM P m" and "P s" and "\<And>x s'. P s' \<Longrightarrow> f x s' = g x s'"
  shows "bindM m f s = bindM m g s"
  using keepsMD [OF assms(1,2)] assms(3) by (auto simp: bindM_apply split: prod.splits sum.splits)

lemma thenM_cong:
  assumes "keepsM P m" and "P s" and "\<And>s'. P s' \<Longrightarrow> f s' = g s'"
  shows "thenM m f s = thenM m g s"
  unfolding thenM_def by (rule bindM_cong [OF assms])

lemma keepsM_try [intro]:
  "keepsM P m \<Longrightarrow> (\<And>e. keepsM P (h e)) \<Longrightarrow> keepsM P (try_catch m h)"
  by (fastforce simp: keepsM_def try_catch_apply split: prod.splits sum.splits if_splits)

lemma keepsM_if: "(b \<Longrightarrow> keepsM P m) \<Longrightarrow> (\<not> b \<Longrightarrow> keepsM P n) \<Longrightarrow> keepsM P (if b then m else n)"
  by simp

lemma keepsM_option: "keepsM P m \<Longrightarrow> (\<And>x. y = Some x \<Longrightarrow> keepsM P (f x)) \<Longrightarrow> keepsM P (case y of None \<Rightarrow> m | Some x \<Rightarrow> f x)"
  by (cases y) auto

lemma keepsM_pair: "(\<And>a b. keepsM P (f a b)) \<Longrightarrow> keepsM P (case y of (a, b) \<Rightarrow> f a b)"
  by (cases y) auto

lemma keepsM_all3: "keepsM P f \<Longrightarrow> keepsM P g \<Longrightarrow> keepsM P h \<Longrightarrow> keepsM P (all3 f g h)"
  by (fastforce simp: keepsM_def all3_def split: prod.splits)

lemmas keepsM_intros = keepsM_return keepsM_throw keepsM_gets keepsM_lift keepsM_bind keepsM_then keepsM_when
  keepsM_try keepsM_if keepsM_option keepsM_pair keepsM_all3

lemma agents_keep_runs:
  assumes "agents_keep P sv"
  shows "keepsM P (planner_run (ss_contracts sv) b r)" "keepsM P (refactor_run (ss_contracts sv) b au)"
    "keepsM P (gap_run (ss_contracts sv) b p)" "keepsM P (evaluation_run (ss_contracts sv) b p)"
    "keepsM P (triple_run (ss_lanes sv) (ss_contracts sv) b p)"
    "keepsM P (confirmation_run (ss_contracts sv) b p au ga ev t)"
    "keepsM P (hash_run (ss_contracts sv) c)" "keepsM P (hash_create (ss_contracts sv) c)"
proof -
  note a = assms [unfolded agents_keep_def Let_def]
  show "keepsM P (planner_run (ss_contracts sv) b r)" "keepsM P (evaluation_run (ss_contracts sv) b p)"
    "keepsM P (hash_create (ss_contracts sv) c)" "keepsM P (hash_run (ss_contracts sv) c)"
    unfolding planner_run_def evaluation_run_def hash_create_def hash_run_def
    using a by (auto intro!: keepsM_intros)
  show "keepsM P (refactor_run (ss_contracts sv) b au)"
    unfolding refactor_run_def using a by (auto intro!: keepsM_intros split: sum.split)
  show "keepsM P (gap_run (ss_contracts sv) b p)"
    unfolding gap_run_def finalize_gap_def Let_def using a by (auto intro!: keepsM_intros split: prod.split option.split)
  show "keepsM P (triple_run (ss_lanes sv) (ss_contracts sv) b p)"
    unfolding triple_run_def triple_schema_def triple_fixture_def triple_goal_def triple_join_def Let_def
      validation_assertRouting_def validation_schema_def validation_fixture_def validation_goal_def
    using a by (auto intro!: keepsM_intros)
  show "keepsM P (confirmation_run (ss_contracts sv) b p au ga ev t)"
    unfolding confirmation_run_def Let_def using a by (auto intro!: keepsM_intros)
qed

lemma plain_simps [simp]:
  "plain []" "plain (c # n) \<longleftrightarrow> c \<noteq> CHR ''/'' \<and> plain n" "plain (nat_str i)"
  using nat_str_no_char [of "CHR ''/''"] by (auto simp: plain_def is_digit_def)

lemma stage_keeps:
  assumes c: "context_keeps P ctx" and a: "agents_keep P sv" and pr: "\<And>x. keepsM P (progress x)"
    and b: "\<And>p h. keepsM P (ss_builder sv p h)"
  shows "keepsM P (stage_body stage ctx sv progress)"
proof -
  have load: "keepsM P (ctx_load sel ctx n)" for sel :: "pipeline_artifact \<Rightarrow> 'b option" and n
    using c unfolding ctx_load_def load_as_def context_keeps_def by (auto intro!: keepsM_intros)
  have req: "keepsM P (requireSnapshot ctx)" using c by (simp add: context_keeps_def)
  have loads: "keepsM P (loadPrompt ctx)" "keepsM P (loadProvider ctx)" "keepsM P (loadResearchBundle ctx)"
    "keepsM P (loadPlan ctx)" "keepsM P (loadAudit ctx)" "keepsM P (loadGapAnalysis ctx)" "keepsM P (loadEvaluation ctx)"
    "keepsM P (loadTripleValidation ctx)" "keepsM P (loadConfirmedPackage ctx)" "keepsM P (loadHashProof ctx)"
    unfolding loadPrompt_def loadProvider_def loadResearchBundle_def loadPlan_def loadAudit_def loadGapAnalysis_def
      loadEvaluation_def loadTripleValidation_def loadConfirmedPackage_def loadHashProof_def
    by (intro keepsM_intros req load)+
  have save: "n \<notin> gate_names \<Longrightarrow> plain n \<Longrightarrow> keepsM P (ctx_save ctx n v)" for n v
    using c by (simp add: context_keeps_def)
  have rest: "keepsM P (emitStage ctx st e d)" "keepsM P (reportProgress progress st n m)"
    "keepsM P (build_open (svc_store (px_services ctx)) (px_clock ctx) (px_runId ctx) pk h)"
    "keepsM P (requireApproved (svc_store (px_services ctx)) (px_runId ctx) pk h)" for st e d n m pk h
    using c pr by (simp_all add: context_keeps_def emitStage_def reportProgress_def)
  have canary: "keepsM P (runPythonEvaluationCanary ctx sv bd p)" for bd p
    unfolding runPythonEvaluationCanary_def using a
    by (intro keepsM_intros save) (auto simp: agents_keep_def Let_def gate_names_def)
  note steps = loads rest canary save b agents_keep_runs [OF a]
  show ?thesis
  proof (cases stage)
    case Researcher
    have found: "keepsM P (f y r)" if "ss_resolveForRun sv i cp w = (Inr f, w')" for i cp w f w' y r
      using a that unfolding agents_keep_def Let_def by blast
    have resolve: "keepsM P (bindM (ss_resolveForRun sv i cp) (\<lambda>f. bindM (f y r) g))" if "\<And>x. keepsM P (g x)" for i cp y r g
      using a that by (intro keepsM_bind_result) (auto simp: agents_keep_def Let_def intro!: keepsM_bind found)
    show ?thesis unfolding Researcher stage_body.simps runResearcherStage_def
      by (rule keepsM_then, rule rest, rule keepsM_then, rule rest, rule keepsM_bind, rule loads, rule keepsM_bind, rule loads,
          rule resolve) (intro keepsM_then steps; simp add: gate_names_def)
  next
    case HashStage
    show ?thesis unfolding HashStage stage_body.simps runHashStage_def
      by (intro keepsM_intros steps) (simp_all add: gate_names_def)
  next
    case Build
    show ?thesis unfolding Build stage_body.simps runBuildStage_def
      by (intro keepsM_intros steps) (simp_all add: gate_names_def)
  qed (simp only: stage_body.simps runPlannerStage_def runRefactorStage_def runGapAnalysisStage_def runEvaluationStage_def
      runTripleValidationStage_def runConfirmationStage_def runFinalizeStage_def,
      (intro keepsM_intros steps; simp add: gate_names_def))+
qed

text \<open>What the agents, the builder and the progress reports leave alone, as a view \<open>f\<close> of the world.\<close>

definition agents_leave :: "('w \<Rightarrow> 'v) \<Rightarrow> 'w StageServices \<Rightarrow> 'w progress \<Rightarrow> bool" where
  "agents_leave f sv progress \<longleftrightarrow> (\<forall>g. agents_keep (\<lambda>w. f w = g) sv \<and> (\<forall>x. keepsM (\<lambda>w. f w = g) (progress x)) \<and>
     (\<forall>c h. keepsM (\<lambda>w. f w = g) (ss_builder sv c h)))"

lemma keepsM_view:
  assumes "\<And>g. keepsM (\<lambda>w. f w = g) m" and "\<And>w w'. f w' = f w \<Longrightarrow> P w \<Longrightarrow> P w'"
  shows "keepsM P m"
  using assms(1) [THEN keepsMD, OF refl] assms(2) by (fastforce simp: keepsM_def)

lemma agents_leave_keep:
  assumes a: "agents_leave f sv progress" and p: "\<And>w w'. f w' = f w \<Longrightarrow> P w \<Longrightarrow> P w'"
  shows "agents_keep P sv" and "keepsM P (progress x)" and "keepsM P (ss_builder sv c h)"
proof -
  note k = keepsM_view [of f _ P, OF _ p]
  note u = a [unfolded agents_leave_def agents_keep_def Let_def]
  show "agents_keep P sv" unfolding agents_keep_def Let_def
  proof (intro conjI allI impI)
    fix i c w g w' y r assume "ss_resolveForRun sv i c w = (Inr g, w')"
    with u have "keepsM (\<lambda>w. f w = z) (g y r)" for z by blast
    then show "keepsM P (g y r)" by (rule k)
  next
    fix ask y assume "ss_pythonReasoner sv = Some ask"
    with u have "keepsM (\<lambda>w. f w = z) (ask y)" for z by blast
    then show "keepsM P (ask y)" by (rule k)
  qed (rule k; simp add: u)+
  show "keepsM P (progress x)" "keepsM P (ss_builder sv c h)" by (rule k; simp add: u)+
qed

lemma stage_keeps_leave:
  assumes "context_keeps P ctx" and "agents_leave f sv progress" and "\<And>w w'. f w' = f w \<Longrightarrow> P w \<Longrightarrow> P w'"
  shows "keepsM P (stage_body stage ctx sv progress)"
  by (rule stage_keeps [OF assms(1) agents_leave_keep [OF assms(2,3)]])

section \<open>No build without validation and authorization\<close>

definition gate_view :: "('w \<Rightarrow> string \<Rightarrow> string \<Rightarrow> 'o artifact option) \<Rightarrow> string \<Rightarrow> 'w \<Rightarrow> 'o artifact option \<times> 'o artifact option" where
  "gate_view view r w = (view w r ''build-review'', view w r ''build-approval'')"

text \<open>
  A run of the pipeline as its build gate sees it: stages in any order, each any number of
  times and with any result, decisions of the user, and steps of others that leave the
  gate's two artifacts alone.  The list collects the hashes the user approved.
\<close>

inductive pipe_reach ::
  "'w pipeline_run \<Rightarrow> ('w \<Rightarrow> string \<Rightarrow> string \<Rightarrow> pipeline_artifact option) \<Rightarrow> string \<Rightarrow> 'w \<Rightarrow> string list \<Rightarrow> bool"
  for S view r where
  start: "view w r ''build-review'' = None \<Longrightarrow> view w r ''build-approval'' = None \<Longrightarrow> pipe_reach S view r w []"
| stage: "pipe_reach S view r w hs \<Longrightarrow> px_services ctx = S \<Longrightarrow> px_runId ctx = r \<Longrightarrow>
    agents_leave (gate_view view r) sv progress \<Longrightarrow> stage_body stage ctx sv progress w = (x, w') \<Longrightarrow> pipe_reach S view r w' hs"
| decided: "pipe_reach S view r w hs \<Longrightarrow> build_decide (svc_store S) r input w = (x, w') \<Longrightarrow>
    pipe_reach S view r w' (hs @ approvals input)"
| others: "pipe_reach S view r w hs \<Longrightarrow> gate_view view r w' = gate_view view r w \<Longrightarrow> pipe_reach S view r w' hs"

locale pipeline_driver = run_services S view recs
  for S :: "'w pipeline_run" and view and recs
begin

lemma approved_view: "requireApproved (svc_store S) r c h w = (x, w') \<Longrightarrow> view w' = view w"
  unfolding requireApproved_def
  by (erule bindM_cases, simp add: build_get_result(1), erule bindM_cases)
    (auto dest!: optional_result(1) build_get_result(1) simp: returnM_apply throwM_apply split: if_splits)

lemma keepsM_gate:
  assumes "\<And>w x w'. m w = (x, w') \<Longrightarrow> gate_view view r w' = gate_view view r w"
  shows "keepsM (gate_ok r hs) m"
  unfolding keepsM_def
proof (intro allI impI)
  fix w assume g: "gate_ok r hs w"
  have "m w = (fst (m w), snd (m w))" by simp
  from assms [OF this] show "gate_ok r hs (snd (m w))"
    by (intro gate_ok_same [OF g]) (auto simp: gate_view_def)
qed

lemma ctx_save_result:
  assumes "px_services ctx = S" and "ctx_save ctx n v w = (x, w')" and "plain n" and "plain m"
  shows "s \<noteq> px_runId ctx \<or> m \<noteq> n \<Longrightarrow> view w' s m = view w s m"
    and "x = Inr () \<Longrightarrow> view w' (px_runId ctx) n = Some v"
    and "x = Inr () \<Longrightarrow> \<exists>p t. recs w (px_runId ctx) = Some t \<and> recs w' = (recs w)(px_runId ctx \<mapsto> with_artifact n p t)"
proof -
  obtain y where y: "saveArtifact S (px_runId ctx) n v w = (y, w')" "x = Inr () \<longrightarrow> (\<exists>p. y = Inr p)"
    using assms(1,2) by (auto simp: ctx_save_def bindM_apply returnM_apply split: prod.splits sum.splits)
  from saveArtifact_result [OF y(1) assms(3,4)] y(2) show "s \<noteq> px_runId ctx \<or> m \<noteq> n \<Longrightarrow> view w' s m = view w s m"
    "x = Inr () \<Longrightarrow> view w' (px_runId ctx) n = Some v"
    "x = Inr () \<Longrightarrow> \<exists>p t. recs w (px_runId ctx) = Some t \<and> recs w' = (recs w)(px_runId ctx \<mapsto> with_artifact n p t)" by blast+
qed

lemma context_gate:
  assumes "px_services ctx = S"
  shows "context_keeps (gate_ok (px_runId ctx) hs) ctx"
  unfolding context_keeps_def
proof (intro conjI allI impI)
  fix n v assume n: "n \<notin> gate_names \<and> plain n"
  then show "keepsM (gate_ok (px_runId ctx) hs) (ctx_save ctx n v)"
    using ctx_save_result(1) [OF assms(1), of n v] by (intro keepsM_gate) (auto simp: gate_view_def gate_names_def)
next
  fix n show "keepsM (gate_ok (px_runId ctx) hs) (lift_fs (as_load (svc_store (px_services ctx)) (px_runId ctx) n))"
    unfolding assms(1) by (intro keepsM_gate) (auto simp: gate_view_def dest!: lift_fs_result load_law)
next
  show "keepsM (gate_ok (px_runId ctx) hs) (requireSnapshot ctx)"
    unfolding requireSnapshot_def assms(1) by (intro keepsM_gate) (auto simp: gate_view_def dest!: require_result(1))
next
  fix p st d show "keepsM (gate_ok (px_runId ctx) hs) (svc_emit (px_services ctx) (px_runId ctx) p st d)"
    unfolding assms(1) by (intro keepsM_gate) (auto simp: gate_view_def dest!: emit_law)
next
  fix c h show "keepsM (gate_ok (px_runId ctx) hs) (build_open (svc_store (px_services ctx)) (px_clock ctx) (px_runId ctx) c h)"
    unfolding keepsM_def
  proof (intro allI impI)
    fix w assume g: "gate_ok (px_runId ctx) hs w"
    show "gate_ok (px_runId ctx) hs (snd (build_open (svc_store (px_services ctx)) (px_clock ctx) (px_runId ctx) c h w))"
      unfolding assms(1) by (rule gate_ok_open [OF g prod.collapse [symmetric]])
  qed
next
  fix c h show "keepsM (gate_ok (px_runId ctx) hs) (requireApproved (svc_store (px_services ctx)) (px_runId ctx) c h)"
    unfolding assms(1) by (intro keepsM_gate) (auto simp: gate_view_def dest!: approved_view)
qed

lemma pipe_gate: "pipe_reach S view r w hs \<Longrightarrow> gate_ok r hs w"
proof (induction rule: pipe_reach.induct)
  case (start w)
  then show ?case by (simp add: gate_ok_def)
next
  case (stage w hs ctx sv progress st x w')
  have "keepsM (gate_ok r hs) (stage_body st ctx sv progress)"
    by (rule stage_keeps_leave [OF context_gate [OF stage(2), unfolded stage(3)] stage(4)], rule gate_ok_same)
      (auto simp: gate_view_def)
  from keepsMD [OF this stage.IH] stage(5) show ?case by simp
next
  case (decided w hs input x w')
  then show ?case by (blast intro: gate_ok_decide)
next
  case (others w hs w')
  then show ?case by (intro gate_ok_same [OF others.IH]) (auto simp: gate_view_def)
qed

lemma build_stage:
  assumes g: "gate_ok (px_runId ctx) hs w" and c: "px_services ctx = S" and a: "agents_leave (gate_view view (px_runId ctx)) sv progress"
    and same: "\<And>p h u u' v. h \<in> set hs \<Longrightarrow> all_proofs p \<Longrightarrow> hash_create (ss_contracts sv) p u = (Inr h, u') \<Longrightarrow>
      other p h v = ss_builder sv p h v"
  shows "runBuildStage ctx (sv\<lparr>ss_builder := other\<rparr>) progress w = runBuildStage ctx sv progress w"
proof -
  let ?P = "gate_ok (px_runId ctx) hs"
  note keep = context_gate [OF c, of hs, unfolded context_keeps_def]
  have loads: "keepsM ?P (loadConfirmedPackage ctx)" "keepsM ?P (loadHashProof ctx)"
    unfolding loadConfirmedPackage_def loadHashProof_def ctx_load_def load_as_def using keep by (auto intro!: keepsM_intros)
  have pr: "keepsM ?P (reportProgress progress st n m)" for st n m unfolding reportProgress_def
    by (rule agents_leave_keep(2) [OF a], rule gate_ok_same) (auto simp: gate_view_def)
  have em: "keepsM ?P (emitStage ctx st e d)" for st e d using keep by (simp add: emitStage_def)
  have asked: "thenM (requireApproved (svc_store (px_services ctx)) (px_runId ctx) p h) m v =
      thenM (requireApproved (svc_store (px_services ctx)) (px_runId ctx) p h) n v"
    if "?P v" and "\<And>v'. h \<in> set hs \<Longrightarrow> all_proofs p \<Longrightarrow> m v' = n v'" for p h v and m n :: "('w, js_error, unit) eff"
  proof (cases "requireApproved (svc_store (px_services ctx)) (px_runId ctx) p h v")
    case (Pair y v')
    show ?thesis
    proof (cases y)
      case (Inr u)
      with Pair c have "requireApproved (svc_store S) (px_runId ctx) p h v = (Inr (), v')" by simp
      from approved_gate [OF that(1) this] Pair Inr that(2) show ?thesis by (simp add: thenM_apply)
    qed (simp add: thenM_apply Pair)
  qed
  show ?thesis
    unfolding runBuildStage_def StageServices.simps
    by (rule thenM_cong [OF pr g], rule thenM_cong [OF em], assumption, rule bindM_cong [OF loads(1)], assumption,
        rule bindM_cong [OF loads(2)], assumption, rule asked, assumption)
      (auto simp: bindM_apply throwM_apply same split: prod.split sum.split)
qed

end

interpretation pipeline_deployment: pipeline_driver "deployed uuid pid dir" "deployed_view dir" deployed_recs
  for uuid pid dir
  by (rule pipeline_driver.intro) (rule deployment.run_services_axioms)

text \<open>
  C5.  The pipeline builds nothing that was not validated and authorized.  Whatever
  stages, decisions and foreign steps came before, with whatever results, the build stage
  uses the builder for no package but one whose three validations passed, and whose
  canonical hash is one the user approved: a builder that differs anywhere else makes no
  difference to the stage, its failures included.
\<close>

theorem pipeline_builds_authorized_only:
  assumes "pipeline_driver S view recs" and "pipe_reach S view (px_runId ctx) w hs" and "px_services ctx = S"
    and "agents_leave (gate_view view (px_runId ctx)) sv progress"
    and "\<And>p h u u' v. h \<in> set hs \<Longrightarrow> all_proofs p \<Longrightarrow> hash_create (ss_contracts sv) p u = (Inr h, u') \<Longrightarrow>
      other p h v = ss_builder sv p h v"
  shows "runBuildStage ctx (sv\<lparr>ss_builder := other\<rparr>) progress w = runBuildStage ctx sv progress w"
  by (rule pipeline_driver.build_stage [OF assms(1) pipeline_driver.pipe_gate [OF assms(1,2)] assms(3-5)])

definition demo_services :: "(pipeline_doc deployment, pipeline_doc) RunServices" where
  "demo_services = deployed (\<lambda>n. nat_str n) ''1'' ''d''"

definition demo_ctx :: "pipeline_doc deployment PipelineContext" where
  "demo_ctx = \<lparr>px_runId = ''run'', px_services = demo_services, px_clock = (\<lambda>_. ''t''), px_stageIteration = 0\<rparr>"

text \<open>An empty directory and a created run.\<close>

definition demo_empty :: "pipeline_doc deployment" where
  "demo_empty = (new_bus None, (\<lparr>fs_files = [], fs_clock = 1, fs_write_faults = [], fs_read_faults = []\<rparr>, 0),
     (snd (repo_create None '''' ''run'' (new_repository, \<lparr>fs_files = [], fs_clock = 1, fs_write_faults = [], fs_read_faults = []\<rparr>))))"

definition demo_built :: BuilderWorkflowResult where
  "demo_built = \<lparr>bw_result = SandboxRootCause \<lparr>sr_execution_id = ''x'', sr_sandbox_id = None,
     sr_root_cause = sample_root_cause, sr_evidence = None, sr_help_request = None, sr_research_request = None\<rparr>,
     final_output = None, output_step_id = None\<rparr>"

definition hashing_contracts :: "'w contract_skill" where
  "hashing_contracts = accepting_contracts\<lparr>cs_createHash := (\<lambda>_. returnM gate_hash),
     cs_verifyHash := (\<lambda>_ h. returnM \<lparr>canonicalization_id = ''c'', algorithm = ''sha256'', created_hash = h,
       recomputed_hash = h, equal_proof = True\<rparr>)\<rparr>"

definition demo_agents :: "'w StageServices" where
  "demo_agents = \<lparr>ss_resolveForRun = (\<lambda>_ _. returnM (\<lambda>_ _. returnM sample_bundle)), ss_contracts = hashing_contracts,
     ss_lanes = passing_lanes, ss_builder = (\<lambda>_ _. returnM demo_built), ss_pythonReasoner = None\<rparr>"

definition no_progress :: "'w progress" where
  "no_progress = (\<lambda>_. returnM ())"

text \<open>A builder that refuses every package but one hash.\<close>

definition choosy_builder :: "ConfirmedPackage \<Rightarrow> string \<Rightarrow> ('w, js_error, BuilderWorkflowResult) eff" where
  "choosy_builder p h = (if h = gate_hash then returnM demo_built else throwM type_error)"

definition demo_confirmed :: "pipeline_doc deployment" where
  "demo_confirmed = snd (ctx_save demo_ctx ''confirmed'' (ArPackage gate_package) demo_empty)"

definition demo_hashed :: "pipeline_doc deployment" where
  "demo_hashed = snd (stage_body HashStage demo_ctx demo_agents no_progress demo_confirmed)"

definition demo_approved :: "pipeline_doc deployment" where
  "demo_approved = snd (build_decide (svc_store demo_services) ''run'' approving demo_hashed)"

definition is_ok :: "'e + 'a \<Rightarrow> bool" where
  "is_ok r = (case r of Inl _ \<Rightarrow> False | Inr _ \<Rightarrow> True)"

lemma is_okE:
  assumes "is_ok (fst (m s))" obtains x s' where "m s = (Inr x, s')"
proof -
  have "m s = (fst (m s), snd (m s))" by simp
  with assms that show thesis by (cases "fst (m s)") (auto simp: is_ok_def)
qed

lemma demo_agents_leave: "agents_leave f demo_agents no_progress"
  by (auto simp: agents_leave_def agents_keep_def demo_agents_def hashing_contracts_def accepting_contracts_def passing_lanes_def
      no_progress_def returnM_apply Let_def)

lemma pipeline_builds_authorized_only_witness:
  "is_ok (fst (runBuildStage demo_ctx (demo_agents\<lparr>ss_builder := choosy_builder\<rparr>) no_progress demo_approved)) \<and>
   \<not> is_ok (fst (runBuildStage demo_ctx demo_agents no_progress demo_hashed))"
proof -
  let ?v = "deployed_view ''d'' :: pipeline_doc deployment \<Rightarrow> _"
  have d: "pipeline_driver demo_services ?v deployed_recs"
    unfolding demo_services_def by (rule pipeline_deployment.pipeline_driver_axioms)
  have c: "px_services demo_ctx = demo_services" "px_runId demo_ctx = ''run''" by (simp_all add: demo_ctx_def)
  have "?v demo_confirmed ''run'' ''build-review'' = None" "?v demo_confirmed ''run'' ''build-approval'' = None" by code_simp+
  then have "pipe_reach demo_services ?v ''run'' demo_confirmed []" by (rule pipe_reach.start)
  then have "pipe_reach demo_services ?v ''run'' demo_hashed []" unfolding demo_hashed_def
    by (rule pipe_reach.stage [OF _ c demo_agents_leave]) (rule prod.collapse [symmetric])
  then have r: "pipe_reach demo_services ?v (px_runId demo_ctx) demo_approved ([] @ approvals approving)"
    unfolding demo_approved_def c by (rule pipe_reach.decided) (rule prod.collapse [symmetric])
  have "runBuildStage demo_ctx (demo_agents\<lparr>ss_builder := choosy_builder\<rparr>) no_progress demo_approved =
      runBuildStage demo_ctx demo_agents no_progress demo_approved"
    by (rule pipeline_builds_authorized_only [OF d r c(1) demo_agents_leave])
      (simp add: demo_agents_def hashing_contracts_def hash_create_def choosy_builder_def returnM_apply)
  moreover have "is_ok (fst (runBuildStage demo_ctx demo_agents no_progress demo_approved))" by code_simp
  moreover have "\<not> is_ok (fst (runBuildStage demo_ctx demo_agents no_progress demo_hashed))" by code_simp
  ultimately show ?thesis by simp
qed

section \<open>Which plan the later stages read\<close>

lemma as_plan_Some [simp]: "as_plan a = Some p \<longleftrightarrow> a = ArOther (PdPlan p)"
  by (cases a rule: as_plan.cases) auto

lemma has_artifact_settled [simp]: "has_artifact n (settled s) = has_artifact n s"
  by (simp add: has_artifact_def)

lemma has_with_artifact [simp]: "has_artifact m (with_artifact n p s) \<longleftrightarrow> m = n \<or> has_artifact m s"
  by (simp add: has_artifact_def with_artifact_def update_conv')

definition plan_source :: "RunSnapshot \<Rightarrow> string" where
  "plan_source s = (if has_artifact ''plan.reviewed'' s then ''plan.reviewed'' else ''plan'')"

context pipeline_driver
begin

lemma load_as_result:
  assumes "load_as sel S r n w = (x, w')" and "plain n"
  shows "view w' = view w" and "recs w' = recs w" and "x = Inr y \<Longrightarrow> \<exists>v. view w r n = Some v \<and> sel v = Some y"
proof -
  obtain z w1 where l: "lift_fs (as_load (svc_store S) r n) w = (z, w1)" by fastforce
  from lift_fs_result [OF l] obtain z' where z: "as_load (svc_store S) r n w = (z', w1)" by blast
  have e: "w' = w1 \<and> (\<forall>y. x = Inr y \<longrightarrow> (\<exists>v. z = Inr v \<and> sel v = Some y))"
    using assms(1) l by (auto simp: load_as_def bindM_apply throwM_apply returnM_apply split: sum.splits option.splits)
  show "view w' = view w" "recs w' = recs w" using e load_law [OF z] by simp_all
  show "\<exists>v. view w r n = Some v \<and> sel v = Some y" if "x = Inr y"
  proof -
    from e that obtain v where "z = Inr v" "sel v = Some y" by blast
    with load_result(2) [OF l assms(2)] show ?thesis by blast
  qed
qed

lemma loadPlan_result:
  assumes c: "px_services ctx = S" and l: "loadPlan ctx w = (x, w')"
  shows "view w' = view w" and "recs w' = recs w"
    and "x = Inr q \<Longrightarrow> \<exists>s. recs w (px_runId ctx) = Some s \<and> view w (px_runId ctx) (plan_source s) = Some (ArOther (PdPlan q))"
proof -
  let ?r = "px_runId ctx"
  obtain y w1 where rq: "svc_require S ?r w = (y, w1)" by fastforce
  note r1 = require_result [OF rq]
  have "view w' = view w \<and> recs w' = recs w \<and> (\<forall>q. x = Inr q \<longrightarrow>
      (\<exists>s. recs w ?r = Some s \<and> view w ?r (plan_source s) = Some (ArOther (PdPlan q))))"
  proof (cases y)
    case (Inl e)
    with l rq c r1 show ?thesis by (auto simp: loadPlan_def requireSnapshot_def bindM_apply)
  next
    case (Inr s)
    with l rq c have "load_as as_plan S ?r (plan_source s) w1 = (x, w')"
      by (simp add: loadPlan_def requireSnapshot_def bindM_apply ctx_load_def plan_source_def split: if_splits)
    from load_as_result [OF this] r1 Inr show ?thesis
      by (auto simp: plan_source_def split: if_splits)
  qed
  then show "view w' = view w" "recs w' = recs w"
    "x = Inr q \<Longrightarrow> \<exists>s. recs w ?r = Some s \<and> view w ?r (plan_source s) = Some (ArOther (PdPlan q))" by blast+
qed

lemma context_leaves:
  assumes "px_services ctx = S"
  shows "keepsM (\<lambda>w. (view w, recs w) = g) (loadResearchBundle ctx)" "keepsM (\<lambda>w. (view w, recs w) = g) (loadPlan ctx)"
    "keepsM (\<lambda>w. (view w, recs w) = g) (emitStage ctx st e d)"
proof -
  have rq: "keepsM (\<lambda>w. (view w, recs w) = g) (requireSnapshot ctx)" unfolding requireSnapshot_def assms keepsM_def
    using require_result(1,2) [OF prod.collapse [symmetric]] by auto
  have ld: "keepsM (\<lambda>w. (view w, recs w) = g) (ctx_load sel ctx n)" if "plain n" for sel :: "pipeline_artifact \<Rightarrow> 'b option" and n
    unfolding ctx_load_def assms keepsM_def using load_as_result(1,2) [OF prod.collapse [symmetric] that] by auto
  show "keepsM (\<lambda>w. (view w, recs w) = g) (loadResearchBundle ctx)" "keepsM (\<lambda>w. (view w, recs w) = g) (loadPlan ctx)"
    unfolding loadResearchBundle_def loadPlan_def by (intro keepsM_intros rq ld; simp)+
  show "keepsM (\<lambda>w. (view w, recs w) = g) (emitStage ctx st e d)" unfolding emitStage_def assms keepsM_def
    using emit_law [OF prod.collapse [symmetric]] by auto
qed

lemma gap_stage_plan:
  assumes c: "px_services ctx = S" and a: "agents_leave (\<lambda>w. (view w, recs w)) sv progress"
    and run: "runGapAnalysisStage ctx sv progress w = (Inr (), w')" and l: "loadPlan ctx w' = (Inr q, w'')"
  shows "\<exists>s b p p' g v v'. recs w (px_runId ctx) = Some s \<and> gap_run (ss_contracts sv) b p v = (Inr (p', g), v') \<and>
    q = (if has_artifact ''plan.reviewed'' s then p else p')"
proof -
  let ?r = "px_runId ctx" and ?f = "\<lambda>w. (view w, recs w)"
  from run obtain w1 w2 b w3 p w4 p' g w5 w6 w7 w8 where
    1: "reportProgress progress GapAnalysisStage 10 ''Searching for missing requirements'' w = (Inr (), w1)"
    and 2: "emitStage ctx GapAnalysisStage ERunning no_data w1 = (Inr (), w2)"
    and 3: "loadResearchBundle ctx w2 = (Inr b, w3)" and 4: "loadPlan ctx w3 = (Inr p, w4)"
    and 5: "gap_run (ss_contracts sv) b p w4 = (Inr (p', g), w5)"
    and 6: "ctx_save ctx ''plan'' (ArOther (PdPlan p')) w5 = (Inr (), w6)"
    and 7: "ctx_save ctx ''gap_analysis'' (ArOther (PdGap g)) w6 = (Inr (), w7)"
    and 8: "\<exists>d. emitStage ctx GapAnalysisStage ECompleted d w7 = (Inr (), w8)"
    and 9: "\<exists>m. reportProgress progress GapAnalysisStage 100 m w8 = (Inr (), w')"
    by (auto simp: runGapAnalysisStage_def elim!: thenM_Inr_elim bindM_Inr_elim split: prod.splits) blast
  note ag = agents_leave_keep(1) [OF a, of "\<lambda>w. ?f w = z" for z]
  have pr: "?f v' = ?f v" if "reportProgress progress st n m v = (x, v')" for st n m v x v'
  proof -
    have "keepsM (\<lambda>w. ?f w = ?f v) (reportProgress progress st n m)"
      unfolding reportProgress_def by (rule agents_leave_keep(2) [OF a]) simp
    from keepsMD [OF this refl] that show ?thesis by simp
  qed
  have em: "?f v' = ?f v" if "emitStage ctx st e d v = (x, v')" for st e d v x v'
    using keepsMD [OF context_leaves(3) [OF c] refl, of st e d v] that by simp
  have "?f w3 = ?f w" using pr [OF 1] em [OF 2] keepsMD [OF context_leaves(1) [OF c] refl, of w2] 3 by simp
  moreover have "?f w4 = ?f w3" using keepsMD [OF context_leaves(2) [OF c] refl, of w3] 4 by simp
  moreover have "?f w5 = ?f w4"
  proof -
    have "keepsM (\<lambda>w. ?f w = ?f w4) (gap_run (ss_contracts sv) b p)" by (rule agents_keep_runs(3) [OF ag]) simp
    from keepsMD [OF this refl] 5 show ?thesis by simp
  qed
  ultimately have w5: "view w5 = view w" "recs w5 = recs w" "view w3 = view w" "recs w3 = recs w" by simp_all
  from loadPlan_result(3) [OF c 4] w5 obtain s where s: "recs w ?r = Some s"
    "view w ?r (plan_source s) = Some (ArOther (PdPlan p))" by auto
  from 8 obtain d where d: "emitStage ctx GapAnalysisStage ECompleted d w7 = (Inr (), w8)" by blast
  from 9 obtain m where m: "reportProgress progress GapAnalysisStage 100 m w8 = (Inr (), w')" by blast
  have w': "view w' = view w7" "recs w' = recs w7" using em [OF d] pr [OF m] by simp_all
  have pl: "plain ''plan''" "plain ''gap_analysis''" by simp_all
  note s6 = ctx_save_result(1) [OF c 6, where s = ?r] ctx_save_result(2,3) [OF c 6 pl(1) pl(1)]
    and s7 = ctx_save_result(1) [OF c 7, where s = ?r] ctx_save_result(2,3) [OF c 7 pl(2) pl(2)]
  from s6(3) s w5 obtain t where "recs w6 ?r = Some (with_artifact ''plan'' t s)" by auto
  with s7(3) obtain t' where r7: "recs w' ?r = Some (with_artifact ''gap_analysis'' t' (with_artifact ''plan'' t s))"
    using w'(2) by auto
  have v7: "view w' ?r ''plan'' = Some (ArOther (PdPlan p'))" "view w' ?r ''plan.reviewed'' = view w ?r ''plan.reviewed''"
    using s6(1,2) s7(1) w' w5 by auto
  from loadPlan_result(3) [OF c l] r7 have "view w' ?r (plan_source s) = Some (ArOther (PdPlan q))"
    by (auto simp: plan_source_def)
  with v7 s have "q = (if has_artifact ''plan.reviewed'' s then p else p')" by (auto simp: plan_source_def split: if_splits)
  with s(1) 5 show ?thesis by blast
qed

end

text \<open>
  C7.  Which plan the stages after Gap Analysis work on.  When the Gap Analysis stage has
  returned, the plan that evaluation, validation and confirmation then load is the one its
  loop returned, unless the run has a reviewed plan: then it is the plan the loop was
  given, and its corrections are lost.
\<close>

theorem gap_corrections_reach_later_stages:
  assumes "pipeline_driver S view recs" and "px_services ctx = S" and "agents_leave (\<lambda>w. (view w, recs w)) sv progress"
    and "runGapAnalysisStage ctx sv progress w = (Inr (), w')" and "loadPlan ctx w' = (Inr q, w'')"
  shows "\<exists>s b p p' g v v'. recs w (px_runId ctx) = Some s \<and> gap_run (ss_contracts sv) b p v = (Inr (p', g), v') \<and>
    q = (if has_artifact ''plan.reviewed'' s then p else p')"
  by (rule pipeline_driver.gap_stage_plan [OF assms])

definition demo_plan :: Plan where
  "demo_plan = gap_plan []"

definition demo_researched :: "pipeline_doc deployment" where
  "demo_researched = snd (thenM (ctx_save demo_ctx ''research_bundle'' (ArOther (PdBundle sample_bundle)))
     (ctx_save demo_ctx ''plan'' (ArOther (PdPlan demo_plan))) demo_empty)"

definition demo_reviewed :: "pipeline_doc deployment" where
  "demo_reviewed = snd (ctx_save demo_ctx ''plan.reviewed'' (ArOther (PdPlan demo_plan)) demo_researched)"

definition gap_then_plan :: "pipeline_doc deployment \<Rightarrow> js_error + Plan" where
  "gap_then_plan w = fst (thenM (runGapAnalysisStage demo_ctx demo_agents no_progress) (loadPlan demo_ctx) w)"

text \<open>The correction raises the plan's revision; with a reviewed plan recorded, the next stage reads the old one.\<close>

lemma reviewed_plan_lost_example:
  "case (gap_then_plan demo_researched, gap_then_plan demo_reviewed) of
     (Inr q, Inr q') \<Rightarrow> revision q > revision demo_plan \<and> q' = demo_plan | _ \<Rightarrow> False"
  by code_simp

lemma gap_corrections_reach_later_stages_witness:
  "\<exists>q s b p p' g (v :: pipeline_doc deployment) v'. gap_then_plan demo_reviewed = Inr q \<and> deployed_recs demo_reviewed ''run'' = Some s \<and>
     gap_run hashing_contracts b p v = (Inr (p', g), v') \<and> q = (if has_artifact ''plan.reviewed'' s then p else p')"
proof -
  let ?v = "deployed_view ''d'' :: pipeline_doc deployment \<Rightarrow> _" and ?w = "demo_reviewed"
  have d: "pipeline_driver demo_services ?v deployed_recs"
    unfolding demo_services_def by (rule pipeline_deployment.pipeline_driver_axioms)
  have c: "px_services demo_ctx = demo_services" by (simp add: demo_ctx_def)
  have "is_ok (gap_then_plan ?w)" by code_simp
  then obtain q w'' where "thenM (runGapAnalysisStage demo_ctx demo_agents no_progress) (loadPlan demo_ctx) ?w = (Inr q, w'')"
    unfolding gap_then_plan_def by (rule is_okE)
  then obtain w' where g: "runGapAnalysisStage demo_ctx demo_agents no_progress ?w = (Inr (), w')"
    and l: "loadPlan demo_ctx w' = (Inr q, w'')" by (rule thenM_Inr_elim) simp
  have "gap_then_plan ?w = Inr q" by (simp add: gap_then_plan_def thenM_apply g l)
  moreover have r: "px_runId demo_ctx = ''run''" "ss_contracts demo_agents = hashing_contracts"
    by (simp_all add: demo_ctx_def demo_agents_def)
  ultimately show ?thesis using gap_corrections_reach_later_stages [OF d c demo_agents_leave g l, unfolded r] by blast
qed

end
