(* ===== verification/Stage_Job.thy ===== *)
theory Stage_Job
  imports Apply_Transition
begin

text \<open>
  One queue job of the worker (the end of the job handler in
  \<open>backend/pipeline/worker.ts\<close>): run the stage, resolve the transition of its
  outcome, apply it.  The property is about a job that crashes and is delivered
  again until it completes.
\<close>

section \<open>The job\<close>

definition process_job ::
  "'w redis_client \<Rightarrow> 'w queue_client \<Rightarrow> 'w transition_services \<Rightarrow> job_context \<Rightarrow> ('w \<Rightarrow> bool) \<Rightarrow>
     StageIdentity \<Rightarrow> ('w, js_error, outcome) eff \<Rightarrow> ('w, js_error, bool \<times> PipelineTransition) eff" where
  "process_job R Q sv jc lost idn exec =
     bindM (runStage R (worker_input R jc lost idn exec)) (\<lambda>res.
       let transition = resolveTransition (si_stage idn) (rr_outcome res) (si_iteration idn) in
       thenM (applyTransition R Q sv idn transition) (returnM (skipped res, transition)))"

section \<open>Frames of a stage run\<close>

text \<open>
  Whatever view of the world the Redis commands of the checkpoints and all
  collaborators leave alone outside \<open>K\<close>, the whole stage run does.
\<close>

lemma only_changes_opt_unit:
  "(\<And>x. m = Some x \<Longrightarrow> only_changes v K x) \<Longrightarrow> only_changes v K (opt_unit m)"
  by (cases m) (auto simp: opt_unit_def)

lemma only_changes_loadPersisted:
  assumes "\<And>k. only_changes v K (r_get R k)" and "\<And>ev. only_changes v K (in_history inp ev)"
  shows "only_changes v K (loadPersistedOutcome R inp)"
  unfolding loadPersistedOutcome_def isExecuted_def loadOutcome_def stage_log_def
  by (intro only_changes_intros assms)

lemma only_changes_executeStage:
  assumes "\<And>f. only_changes v K (r_eval R (SAVE_EXECUTION_SCRIPT (outcomeKey (in_identity inp))
        (executedKey (in_identity inp)) (fst f) (fst (snd f)) (snd (snd f))))"
    and hist: "\<And>ev. only_changes v K (in_history inp ev)"
    and ex: "only_changes v K (in_execute inp)"
    and fa: "\<And>f r s i. in_faults inp = Some f \<Longrightarrow> only_changes v K (sf_apply f r s i)"
    and fc: "\<And>f g r s i. in_faults inp = Some f \<Longrightarrow> sf_applyAfterCheckpoint f = Some g \<Longrightarrow>
      only_changes v K (g r s i)"
    and mc: "\<And>m. in_markCompleted inp = Some m \<Longrightarrow> only_changes v K m"
  shows "only_changes v K (executeStage R inp token)"
proof -
  have log: "only_changes v K (stage_log inp ty msg)" for ty msg
    unfolding stage_log_def by (intro only_changes_intros hist)
  have save: "only_changes v K (saveExecution R (in_identity inp) out ls)" for out ls
    unfolding saveExecution_def
    by (intro only_changes_intros)
      (use assms(1) [of "(_, _, _)", unfolded fst_conv snd_conv] in simp)
  show ?thesis
    unfolding executeStage_def Let_def
    by (intro only_changes_intros log save only_changes_opt_unit ex)
      (auto intro: fa fc mc split: option.splits)
qed

lemma only_changes_runStage:
  assumes get: "\<And>k. only_changes v K (r_get R k)"
    and ex: "\<And>token. only_changes v K (executeStage R inp token)"
    and hist: "\<And>ev. only_changes v K (in_history inp ev)"
    and acq: "\<And>l r s. in_lock inp = Some l \<Longrightarrow> only_changes v K (lk_acquire l r s)"
    and rel: "\<And>l r s t. in_lock inp = Some l \<Longrightarrow> only_changes v K (lk_release l r s t)"
  shows "only_changes v K (runStage R inp)"
proof -
  have log: "only_changes v K (stage_log inp ty msg)" for ty msg
    unfolding stage_log_def by (intro only_changes_intros hist)
  have load: "only_changes v K (loadPersistedOutcome R inp)"
    by (rule only_changes_loadPersisted [OF get hist])
  have guarded: "only_changes v K (guardedStage R inp token)" for token
    unfolding guardedStage_def
    by (intro only_changes_intros ex log) (auto intro!: only_changes_intros rel split: option.split)
  show ?thesis
  proof (cases "in_lock inp")
    case None
    show ?thesis
      unfolding runStage_def None option.case by (intro only_changes_intros load guarded)
  next
    case (Some lock)
    show ?thesis
      unfolding runStage_def Some option.case
      by (intro only_changes_intros load guarded acq [OF Some])
  qed
qed

context pipeline_services
begin

lemma jobs_frames:
  "only_changes jobs {} (r_get R k)" "only_changes jobs {} (r_set R k x ttl)"
  "only_changes jobs {} (r_set_nx R k x t)" "only_changes jobs {} (r_eval R f)"
  "only_changes jobs {} (r_exists R k)" "only_changes jobs {} (r_xadd R k fs)"
  by (auto simp: only_changes_def dest: get_jobs set_jobs set_nx_jobs eval_jobs exists_jobs xadd_jobs)

lemma fault_jobs:
  "only_changes jobs {} (apply_fault R env r s i)"
  "only_changes jobs {} (applyAfterCheckpoint R env r s i)"
proof -
  have fire: "fire R r s mode = Some m \<Longrightarrow> only_changes jobs {} m" for mode m
    by (auto simp: fire_def split: if_splits intro!: only_changes_intros jobs_frames)
  have "only_changes jobs {} (apply_faults R cs r s i)" for cs
    by (induction cs) (auto split: option.split intro: fire)
  then show "only_changes jobs {} (apply_fault R env r s i)"
    by (simp add: apply_fault_def)
  show "only_changes jobs {} (applyAfterCheckpoint R env r s i)"
    unfolding applyAfterCheckpoint_def by (intro only_changes_intros jobs_frames)
qed

lemma runStage_jobs:
  assumes "only_changes jobs {} exec"
  shows "only_changes jobs {} (runStage R (worker_input R jc lost idn exec))"
proof -
  have hist: "only_changes jobs {} (in_history (worker_input R jc lost idn exec) ev)" for ev
    by (auto simp: worker_input_def history_append_def intro!: only_changes_intros jobs_frames)
  show ?thesis
    by (rule only_changes_runStage [OF _ only_changes_executeStage])
      (auto simp: worker_input_def idempotencyLock_def faultInjector_def idem_defs history_append_def
        intro!: assms hist only_changes_intros jobs_frames fault_jobs)
qed

lemma transition_family:
  "fam F \<subseteq> - {transitionKey idn} \<longleftrightarrow> ''transition'' \<notin> F"
  by (auto simp: fam_def key_last_seg)

lemma runStage_transition_key:
  assumes "only_changes kv (- {transitionKey idn}) exec"
  shows "only_changes kv (- {transitionKey idn}) (runStage R (worker_input R jc lost idn exec))"
proof -
  let ?K = "- {transitionKey idn}"
  have hist: "only_changes kv ?K (in_history (worker_input R jc lost idn exec) ev)" for ev
    by (auto simp: worker_input_def history_append_def intro!: only_changes_intros op_changes)
  have fam: "fam {''consumed'', ''crash-consumed''} \<subseteq> ?K"
    by (simp only: transition_family) simp
  have flt: "only_changes kv ?K (apply_fault R env r s i)"
    "only_changes kv ?K (applyAfterCheckpoint R env r s i)" for env r s i
    using fault_changes [OF subset_refl] by (blast intro: only_changes_mono [OF _ fam])+
  have save: "only_changes kv ?K (r_eval R (SAVE_EXECUTION_SCRIPT (outcomeKey i) (executedKey i) a b c))" for i a b c
    by (rule op_changes) (auto simp: SAVE_EXECUTION_SCRIPT_def)
  have lock: "only_changes kv ?K (acquire R t r s ttl)" "only_changes kv ?K (release R r s t)"
    "only_changes kv ?K (markCompleted R now r s n)" for t r s ttl now n
    unfolding idem_defs by (auto intro!: only_changes_intros op_changes split: if_splits)
  show ?thesis
    by (rule only_changes_runStage [OF _ only_changes_executeStage])
      (auto simp: worker_input_def idempotencyLock_def faultInjector_def history_append_def
        intro!: assms hist only_changes_intros op_changes flt save lock)
qed

end

section \<open>A job delivered until it completes\<close>

definition services_spare :: "('w \<Rightarrow> kvstore) \<Rightarrow> 'w transition_services \<Rightarrow> bool" where
  "services_spare kv sv \<longleftrightarrow>
     (\<forall>run. spares_checkpoints kv (ts_waitForHuman sv run)) \<and>
     (\<forall>f run. ts_waitForBuild sv = Some f \<longrightarrow> spares_checkpoints kv (f run)) \<and>
     (\<forall>run t iss. spares_checkpoints kv (ts_finish sv run t iss))"

text \<open>What the pipeline expects of an agent: it writes no checkpoint, no transition marker and no job.\<close>

definition agent_local ::
  "('w \<Rightarrow> kvstore) \<Rightarrow> ('w \<Rightarrow> string \<rightharpoonup> StageJobData) \<Rightarrow> StageIdentity \<Rightarrow> ('w, js_error, outcome) eff \<Rightarrow> bool" where
  "agent_local kv jobs idn exec \<longleftrightarrow> spares_checkpoints kv exec \<and>
     only_changes kv (- {transitionKey idn}) exec \<and> only_changes jobs {} exec"

text \<open>
  The states a job can be in between deliveries: the stage not executed and
  nothing enqueued, or executed with an outcome the agent returned.
\<close>

definition job_state ::
  "('w \<Rightarrow> kvstore) \<Rightarrow> ('w \<Rightarrow> string \<rightharpoonup> StageJobData) \<Rightarrow> StageIdentity \<Rightarrow> ('w, js_error, outcome) eff \<Rightarrow>
     (string \<rightharpoonup> StageJobData) \<Rightarrow> outcome option \<Rightarrow> 'w \<Rightarrow> bool" where
  "job_state kv jobs idn exec J found w \<longleftrightarrow> (case found of
      None \<Rightarrow> kv w (executedKey idn) \<noteq> Some (RText ''1'') \<and> \<not> committed (kv w) idn \<and> jobs w = J
    | Some out \<Rightarrow> (\<exists>v v'. exec v = (Inr out, v')) \<and>
        kv w (executedKey idn) = Some (RText ''1'') \<and>
        kv w (outcomeKey idn) = Some (RJson (DOutcome out)) \<and>
        (case resolveTransition (si_stage idn) out (si_iteration idn) of
           TNext s i fin \<Rightarrow> between kv jobs idn s i J w
         | _ \<Rightarrow> True))"

context pipeline_services
begin

lemma applyTransition_spares:
  assumes "services_spare kv sv"
  shows "spares_checkpoints kv (applyTransition R Q sv idn tr)"
proof -
  have tk: "transitionKey idn \<in> - ckpt_keys" "finalizationIntentKey r \<in> - ckpt_keys" for r
    by (simp_all add: ckpt_keys_def fam_def key_last_seg)
  have add: "only_changes kv K (q_add Q n d j)" for K n d j
    by (auto simp: only_changes_def dest: add_kv)
  have eff: "only_changes kv (- ckpt_keys) (transition_effect R Q sv idn tr)"
    using assms tk(2)
    by (auto simp: transition_effect_def services_spare_def spares_checkpoints_def
        saveFinalizationIntent_def split: PipelineTransition.split option.split
        intro!: only_changes_intros add op_changes)
  show ?thesis
    unfolding spares_checkpoints_def applyTransition_def getTransitionState_def
      markTransitionPending_def markTransitionCommitted_def
    by (intro only_changes_intros op_changes eff tk(1))
qed

lemma applyTransition_ok_committed:
  assumes "applyTransition R Q sv idn tr w = (Inr x, w')"
  shows "committed (kv w') idn"
  using assms unfolding applyTransition_def
proof (cases rule: bindM_cases)
  case (went_on st w1)
  show ?thesis
  proof (cases "st = TransCommitted")
    case True
    with went_on(2) have "w' = w1" by (simp add: returnM_apply)
    with True getTransitionState_ok [OF went_on(1)] show ?thesis
      by (simp add: committed_def transition_of_committed [symmetric])
  next
    case False
    with went_on(2) obtain u where "markTransitionCommitted R idn u = (Inr x, w')"
      by (auto elim!: thenM_Inr_elim)
    from markTransitionCommitted_ok [OF this] show ?thesis by (simp add: committed_def)
  qed
qed simp

lemma job_state_apply:
  assumes sv: "services_spare kv sv" and st: "job_state kv jobs idn exec J (Some out) w"
    and run: "applyTransition R Q sv idn (resolveTransition (si_stage idn) out (si_iteration idn)) w = (r, w')"
  shows "job_state kv jobs idn exec J (Some out) w'"
proof -
  let ?tr = "resolveTransition (si_stage idn) out (si_iteration idn)"
  have same: "kv w' k = kv w k" if "k \<in> ckpt_keys" for k
    using sparesD [OF applyTransition_spares [OF sv] run that] .
  have "case ?tr of TNext s i fin \<Rightarrow> between kv jobs idn s i J w' | _ \<Rightarrow> True"
    using st run by (auto simp: job_state_def split: PipelineTransition.splits dest: attempt_between)
  with st same show ?thesis by (auto simp: job_state_def)
qed

text \<open>A stage run leads from job state to job state.\<close>

lemma job_state_run:
  assumes a: "agent_local kv jobs idn exec" and st: "job_state kv jobs idn exec J found w"
    and run: "runStage R (worker_input R jc lost idn exec) w = (r, w')"
  shows "\<exists>found'. job_state kv jobs idn exec J found' w' \<and>
    (\<forall>res. r = Inr res \<longrightarrow> found' = Some (rr_outcome res))"
proof -
  let ?inp = "worker_input R jc lost idn exec"
  have i: "in_identity ?inp = idn" by (simp add: worker_input_def)
  have j: "jobs w' = jobs w"
    using only_changesD [OF runStage_jobs run] a by (auto simp: agent_local_def)
  have t: "kv w' (transitionKey idn) = kv w (transitionKey idn)"
    using only_changesD [OF runStage_transition_key run] a by (auto simp: agent_local_def)
  show ?thesis
  proof (cases found)
    case None
    with st have fresh: "kv w (executedKey idn) \<noteq> Some (RText ''1'')"
      and nc: "\<not> committed (kv w) idn" and J: "jobs w = J" by (simp_all add: job_state_def)
    have nc': "\<not> committed (kv w') idn" using nc t by (simp add: committed_def)
    have sp: "spares_checkpoints kv exec" using a by (simp add: agent_local_def)
    from attempt_atomic [OF sp fresh run] show ?thesis
    proof
      assume "same_ckpt (kv w') (kv w) \<and> (\<exists>e. r = Inl e)"
      then have "job_state kv jobs idn exec J None w'"
        using fresh nc' J j by (auto simp: job_state_def same_ckpt_def)
      with \<open>same_ckpt (kv w') (kv w) \<and> (\<exists>e. r = Inl e)\<close> show ?thesis by auto
    next
      assume "\<exists>out v v'. exec v = (Inr out, v') \<and>
        kv v' (lockKey (si_runId idn) (leaseStage idn)) = Some (RText (jc_token jc)) \<and>
        same_ckpt (kv w') (saved idn out (kv w)) \<and>
        (r = Inr \<lparr>skipped = False, rr_outcome = out\<rparr> \<or> (\<exists>e. r = Inl e))"
      then obtain out v v' where o: "exec v = (Inr out, v')"
        "same_ckpt (kv w') (saved idn out (kv w))"
        "r = Inr \<lparr>skipped = False, rr_outcome = out\<rparr> \<or> (\<exists>e. r = Inl e)" by blast
      have "between kv jobs idn s k J w'" for s k
        using nc' J j by (simp add: between_def)
      then have "job_state kv jobs idn exec J (Some out) w'"
        using o(1,2) by (auto simp: job_state_def same_ckpt_def saved_def split: PipelineTransition.split)
      with o(3) show ?thesis by (intro exI [of _ "Some out"]) auto
    qed
  next
    case (Some out)
    with st have ex: "kv w (executedKey (in_identity ?inp)) = Some (RText ''1'')"
      and o: "kv w (outcomeKey idn) = Some (RJson (DOutcome out))"
      by (simp_all add: job_state_def i)
    have same: "kv w' k = kv w k" if "k \<in> ckpt_keys" for k
      using runStage_executed_spares [OF worker_collaborators_spare ex run that] a
      by (simp add: agent_local_def)
    have "job_state kv jobs idn exec J (Some out) w'"
      using st Some same j t
      by (auto simp: job_state_def between_def committed_def split: PipelineTransition.splits)
    moreover have "rr_outcome res = out" if "r = Inr res" for res
      using runStage_executed_ok [OF ex run [unfolded that]] o by (simp add: i)
    ultimately show ?thesis by auto
  qed
qed

lemma process_job_state:
  assumes a: "agent_local kv jobs idn exec" and sv: "services_spare kv sv"
    and st: "\<exists>found. job_state kv jobs idn exec J found w"
    and run: "process_job R Q sv jc lost idn exec w = (r, w')"
  shows "(\<exists>found. job_state kv jobs idn exec J found w') \<and>
    (\<forall>x. r = Inr x \<longrightarrow> committed (kv w') idn \<and> (\<exists>out. job_state kv jobs idn exec J (Some out) w'))"
proof -
  from st obtain found where st: "job_state kv jobs idn exec J found w" by blast
  from run show ?thesis
    unfolding process_job_def
  proof (cases rule: bindM_cases)
    case (stopped e)
    with job_state_run [OF a st stopped(1)] show ?thesis by auto
  next
    case (went_on res w1)
    let ?tr = "resolveTransition (si_stage idn) (rr_outcome res) (si_iteration idn)"
    have s1: "job_state kv jobs idn exec J (Some (rr_outcome res)) w1"
      using job_state_run [OF a st went_on(1)] by auto
    from went_on(2) [unfolded Let_def] show ?thesis
    proof (cases rule: thenM_cases)
      case (stopped e)
      with job_state_apply [OF sv s1 stopped(1)] show ?thesis by auto
    next
      case ap: (went_on u w2)
      have "w' = w2" using ap(2) by (simp add: returnM_apply)
      with job_state_apply [OF sv s1 ap(1)] applyTransition_ok_committed [OF ap(1)]
      show ?thesis by auto
    qed
  qed
qed

end

section \<open>Properties\<close>

text \<open>
  A stage job, executed exactly once in effect: a job of a stage that was
  not executed before is delivered, crashes any number of times at any point
  (each time possibly leaving a Redis or queue command applied), and in the end
  completes.  Then the store holds the executed marker and one outcome, one that
  the agent returned; the transition is committed; and if this outcome leads to
  a next stage, the job table is the one before the first delivery plus exactly
  the job of that next stage.  The agent may do anything but write checkpoints,
  transition markers and jobs.
\<close>

theorem stage_job_exactly_once:
  assumes "pipeline_services R kv Q jobs"
    and "agent_local kv jobs idn exec" and "services_spare kv sv"
    and "kv w (executedKey idn) \<noteq> Some (RText ''1'')" and "\<not> committed (kv w) idn"
    and "delivered (process_job R Q sv jc lost idn exec) w w'"
  shows "committed (kv w') idn \<and> kv w' (executedKey idn) = Some (RText ''1'') \<and>
    (\<exists>out v v'. exec v = (Inr out, v') \<and> kv w' (outcomeKey idn) = Some (RJson (DOutcome out)) \<and>
      (case resolveTransition (si_stage idn) out (si_iteration idn) of
         TNext s i fin \<Rightarrow> jobs w' = job_added (si_runId idn) s i (jobs w)
       | _ \<Rightarrow> True))"
proof -
  let ?P = "\<lambda>w'. committed (kv w') idn \<and> (\<exists>out. job_state kv jobs idn exec (jobs w) (Some out) w')"
  have "job_state kv jobs idn exec (jobs w) None w"
    using assms(4,5) by (simp add: job_state_def)
  then have "?P w'"
    using pipeline_services.process_job_state [OF assms(1,2,3)]
    by (intro delivered_rule [OF assms(6), where I = "\<lambda>v. \<exists>f. job_state kv jobs idn exec (jobs w) f v"
          and P = ?P]) blast+
  then obtain out where c: "committed (kv w') idn"
    and st: "job_state kv jobs idn exec (jobs w) (Some out) w'" by blast
  have "case resolveTransition (si_stage idn) out (si_iteration idn) of
      TNext s i fin \<Rightarrow> jobs w' = job_added (si_runId idn) s i (jobs w) | _ \<Rightarrow> True"
    using st c by (cases "resolveTransition (si_stage idn) out (si_iteration idn)")
      (simp_all add: job_state_def between_def)
  with c st show ?thesis unfolding job_state_def option.case by blast
qed

lemma stage_job_exactly_once_witness:
  "\<exists>w'. delivered (process_job InMemoryRedis InMemoryQueue quiet_services sample_job (\<lambda>_. False)
      planner_identity (returnM (Advance None))) mem_empty w' \<and>
    mem_jobs w' = [stageJobId ''run'' Refactor 0 \<mapsto>
      \<lparr>jd_runId = ''run'', jd_stage = Refactor, jd_iteration = 0\<rparr>]"
proof -
  let ?exec = "returnM (Advance None) :: (mem_world, js_error, outcome) eff"
  let ?att = "process_job InMemoryRedis InMemoryQueue quiet_services sample_job (\<lambda>_. False) planner_identity ?exec"
  have nf: "getFaultConfigs no_faults = []"
    by (rule faults_off) (simp add: faultsEnabled_def no_faults_def)
  obtain w' x where "?att mem_empty = (Inr x, w')"
    by (simp add: process_job_def runStage_def loadPersistedOutcome_def isExecuted_def Let_def
        worker_input_def idempotencyLock_def faultInjector_def guardedStage_def executeStage_def
        stage_log_def opt_unit_def apply_fault_def applyAfterCheckpoint_def configs_for_def nf
        saveExecution_def SAVE_EXECUTION_SCRIPT_def stage_lease_def idem_defs history_append_def
        applyTransition_def getTransitionState_def markTransitionPending_def
        markTransitionCommitted_def transition_effect_def stage_simps mem_redis_defs eff_simps
        sample_job_def planner_identity_def mem_empty_def or_else_def)
  then have del: "delivered ?att mem_empty w'" by (rule delivered_now)
  have al: "agent_local mem_kv mem_jobs planner_identity ?exec"
    by (auto simp: agent_local_def spares_checkpoints_def)
  have qs: "services_spare mem_kv quiet_services"
    by (auto simp: services_spare_def quiet_services_def spares_checkpoints_def)
  have fresh: "mem_kv mem_empty (executedKey planner_identity) \<noteq> Some (RText ''1'')"
    and nc: "\<not> committed (mem_kv mem_empty) planner_identity"
    by (simp_all add: committed_def mem_empty_def)
  from stage_job_exactly_once [OF mem_services.pipeline_services_axioms, OF al qs fresh nc del]
  have "mem_jobs w' = job_added ''run'' Refactor 0 (mem_jobs mem_empty)"
    by (auto simp: returnM_apply planner_identity_def stage_simps)
  with del show ?thesis by (auto simp: job_added_def mem_empty_def)
qed

end
