(* ===== verification/Transition_Services.thy ===== *)
theory Transition_Services
  imports Pipeline_Stages Stage_Job
begin

text \<open>
  \<open>backend/pipeline/transition-services.ts\<close>: the services the worker passes to
  \<open>applyTransition\<close>, the two waits at the human gates and the \<open>finish\<close> of a run.
\<close>

section \<open>The services\<close>

text \<open>\<open>history?.append(...)\<close> with the worker's clock and history.\<close>

definition append_history :: "'w redis_client \<Rightarrow> job_context \<Rightarrow> string \<Rightarrow> string \<Rightarrow> HistoryType \<Rightarrow> string \<Rightarrow> ('w, js_error, unit) eff" where
  "append_history R jc runId stage ty m = whenM (jc_history jc)
     (bindM (history_append R (jc_now_ms jc) (jc_now_iso jc) \<lparr>he_runId = runId, he_stage = stage, he_type = ty,
        he_iteration = Some 0, he_message = Some m, he_jobId = None, he_attempt = None\<rparr>) (\<lambda>_. returnM ()))"

definition waitForHuman :: "'w redis_client \<Rightarrow> job_context \<Rightarrow> string \<Rightarrow> ('w, js_error, unit) eff" where
  "waitForHuman R jc runId = append_history R jc runId ''await-human'' HWaiting
     ''Researcher complete; waiting for confirm-plan before planner.''"

definition waitForBuild :: "'w redis_client \<Rightarrow> job_context \<Rightarrow> 'w pipeline_run \<Rightarrow> string \<Rightarrow> ('w, js_error, unit) eff" where
  "waitForBuild R jc S runId =
     thenM (append_history R jc runId ''build-ready'' HWaiting
       ''Confirmed package and hash ready; waiting for explicit build authorization.'')
     (svc_emit S runId ''BuildReady'' ERunning (no_data\<lparr>ed_scope := Some SUPPORT,
        ed_message := Some ''Review the confirmed package and confirm Build.''\<rparr>))"

definition missing_evidence :: "string \<Rightarrow> RootCause" where
  "missing_evidence runId = \<lparr>rc_issue = ''Finalize received a failed result without structured evidence'',
     rc_expected = ''Every failed finalization carries structured issue evidence'',
     rc_actual = ''Finalization evidence was absent'', rc_evidence_ids = [],
     rc_required_correction = ''Preserve the originating stage evidence'', rc_recheck_target = runId\<rparr>"

text \<open>The finalization of a result with the issue that was agreed on, and the event of it.\<close>

definition finalization_of :: "string \<Rightarrow> TestResult \<Rightarrow> PipelineIssue option \<Rightarrow> HashProof option \<Rightarrow> finalization" where
  "finalization_of runId res iss pf =
     (if res = Failed
      then \<lparr>finalization.fi_test_result = Failed, fi_hash_proof = pf,
        fi_root_cause = Some (case iss of None \<Rightarrow> missing_evidence runId | Some i \<Rightarrow> pi_evidence i),
        fi_help_request = None,
        fi_issue_type = Some (case iss of None \<Rightarrow> RootCauseIssue | Some i \<Rightarrow> pi_issue_type i)\<rparr>
      else \<lparr>finalization.fi_test_result = Passed, fi_hash_proof = pf, fi_root_cause = None, fi_help_request = None,
        fi_issue_type = None\<rparr>)"

definition done_data :: "TestResult \<Rightarrow> PipelineIssue option \<Rightarrow> EventData" where
  "done_data res iss = no_data\<lparr>ed_scope := Some SUPPORT, ed_test_result := Some res,
     ed_issue_type := map_option pi_issue_type iss, ed_issue := map_option pi_evidence iss,
     ed_message := map_option (\<lambda>i. rc_issue (pi_evidence i)) iss\<rparr>"

definition optional_proof :: "'w pipeline_run \<Rightarrow> string \<Rightarrow> ('w, js_error, HashProof option) eff" where
  "optional_proof S runId = try_catch (bindM (load_as as_hashProof S runId ''hash_proof'') (\<lambda>p. returnM (Some p)))
     (\<lambda>_. returnM None)"

text \<open>The part of \<open>finish\<close> after the issue has been agreed on.\<close>

definition settle_run ::
  "'w redis_client \<Rightarrow> 'w pipeline_run \<Rightarrow> string \<Rightarrow> TestResult \<Rightarrow> PipelineIssue option \<Rightarrow> ('w, js_error, unit) eff" where
  "settle_run R S runId testResult effectiveIssue =
     bindM (svc_get S runId) (\<lambda>snapshot.
     bindM (if snapshot = None then returnM None else optional_proof S runId) (\<lambda>hashProof.
     thenM (case snapshot of
         None \<Rightarrow> returnM ()
       | Some r \<Rightarrow> whenM (pipeline_status r \<noteq> PDone)
           (thenM (bindM (svc_finish S runId (finalization_of runId testResult effectiveIssue hashProof)) (\<lambda>_. returnM ()))
             (svc_emit S runId ''Done'' ECompleted (done_data testResult effectiveIssue))))
       (markTerminalCommitted R runId)))"

definition agreed_issue ::
  "'w redis_client \<Rightarrow> string \<Rightarrow> TerminalState \<Rightarrow> PipelineIssue option \<Rightarrow> ('w, js_error, PipelineIssue option) eff" where
  "agreed_issue R runId previous iss =
     (if previous = TermPending then getTerminalIssue R runId else markTerminalPending R runId iss)"

definition finish_run ::
  "'w redis_client \<Rightarrow> 'w pipeline_run \<Rightarrow> string \<Rightarrow> TestResult \<Rightarrow> PipelineIssue option \<Rightarrow> ('w, js_error, unit) eff" where
  "finish_run R S runId testResult iss =
     bindM (getTerminalState R runId) (\<lambda>previous.
       if previous = TermCommitted then returnM ()
       else bindM (agreed_issue R runId previous iss) (\<lambda>effectiveIssue.
         settle_run R S runId testResult effectiveIssue))"

definition createTransitionServices ::
  "'w redis_client \<Rightarrow> job_context \<Rightarrow> 'w pipeline_run \<Rightarrow> 'w transition_services" where
  "createTransitionServices R jc S = \<lparr>ts_waitForHuman = waitForHuman R jc,
     ts_waitForBuild = Some (waitForBuild R jc S), ts_finish = finish_run R S\<rparr>"

section \<open>What the services leave alone\<close>

definition leaves :: "('w \<Rightarrow> 'v) \<Rightarrow> ('w, 'e, 'a) eff \<Rightarrow> bool" where
  "leaves f m \<longleftrightarrow> (\<forall>w x w'. m w = (x, w') \<longrightarrow> f w' = f w)"

lemma leavesD: "leaves f m \<Longrightarrow> m w = (x, w') \<Longrightarrow> f w' = f w"
  by (auto simp: leaves_def)

lemma leaves_only_changes: "leaves f m \<Longrightarrow> only_changes f K m"
  by (auto simp: leaves_def only_changes_def)

lemma leaves_keepsM: "leaves f m \<longleftrightarrow> (\<forall>g. keepsM (\<lambda>w. f w = g) m)"
  by (auto simp: leaves_def keepsM_def) (metis snd_conv prod.collapse)+

definition run_leaves :: "('w \<Rightarrow> 'v) \<Rightarrow> ('w, 'o) RunServices \<Rightarrow> bool" where
  "run_leaves f S \<longleftrightarrow> (\<forall>r n v. leaves f (as_save (svc_store S) r n v)) \<and> (\<forall>r n. leaves f (as_load (svc_store S) r n)) \<and>
     (\<forall>c r n v. as_create (svc_store S) = Some c \<longrightarrow> leaves f (c r n v)) \<and>
     (\<forall>r. leaves f (svc_get S r)) \<and> (\<forall>r n p. leaves f (svc_artifact S r n p)) \<and>
     (\<forall>r fi. leaves f (svc_finish S r fi)) \<and> (\<forall>r p st d. leaves f (svc_emit S r p st d))"

definition redis_leaves :: "('w \<Rightarrow> 'v) \<Rightarrow> 'w redis_client \<Rightarrow> bool" where
  "redis_leaves f R \<longleftrightarrow> (\<forall>k. leaves f (r_get R k)) \<and> (\<forall>k x t. leaves f (r_set R k x t)) \<and>
     (\<forall>k x t. leaves f (r_set_nx R k x t)) \<and> (\<forall>k. leaves f (r_del R k)) \<and> (\<forall>s. leaves f (r_eval R s)) \<and>
     (\<forall>k. leaves f (r_exists R k)) \<and> (\<forall>k fs. leaves f (r_xadd R k fs)) \<and> (\<forall>k. leaves f (r_xrange R k))"

lemma leaves_intros:
  "leaves f (returnM x)" "leaves f (throwM e)" "leaves f (getsM h)" "leaves f (liftM y)"
  "leaves f m \<Longrightarrow> (\<And>x. leaves f (k x)) \<Longrightarrow> leaves f (bindM m k)"
  "leaves f m \<Longrightarrow> leaves f n \<Longrightarrow> leaves f (thenM m n)" "leaves f m' \<Longrightarrow> leaves f (whenM b m')"
  "leaves f m \<Longrightarrow> (\<And>e. leaves f (h' e)) \<Longrightarrow> leaves f (try_catch m h')"
  by (fastforce simp: leaves_def eff_simps split: prod.splits sum.splits if_splits)+

lemma leaves_lift_fs: "leaves f m \<Longrightarrow> leaves f (lift_fs m)"
  by (auto simp: leaves_def lift_fs_def split: prod.splits sum.splits)

section \<open>The world of the worker\<close>

text \<open>
  Redis, the queue and the run services of one deployment: the commands of one leave the
  state of the others alone.
\<close>

locale pipeline_world = pipeline_services R kv Q jobs + pipeline_driver S view recs
  for R :: "'w redis_client" and kv and Q :: "'w queue_client" and jobs and S :: "'w pipeline_run" and view and recs +
  assumes redis_leaves_runs: "redis_leaves (\<lambda>w. (view w, recs w)) R"
    and queue_leaves_runs: "leaves (\<lambda>w. (view w, recs w)) (q_add Q n d j)"
    and runs_leave_redis: "run_leaves (\<lambda>w. (kv w, jobs w)) S"
begin

lemma redis_recs [simp]:
  "r_get R k w = (x1, w') \<Longrightarrow> recs w' = recs w" "r_set R k x t w = (x2, w') \<Longrightarrow> recs w' = recs w"
  "r_set_nx R k x u w = (x3, w') \<Longrightarrow> recs w' = recs w"
  using redis_leaves_runs by (auto simp: redis_leaves_def leaves_def)

lemma runs_kv:
  "svc_get S r w = (y1, w') \<Longrightarrow> kv w' = kv w" "svc_finish S r fi w = (y2, w') \<Longrightarrow> kv w' = kv w"
  "svc_emit S r p st d w = (y3, w') \<Longrightarrow> kv w' = kv w"
  "as_load (svc_store S) r n w = (y4, w') \<Longrightarrow> kv w' = kv w"
  using runs_leave_redis by (auto simp: run_leaves_def leaves_def)

lemma optional_proof_frame:
  assumes "optional_proof S r w = (x, w')"
  shows "kv w' = kv w \<and> recs w' = recs w"
proof -
  obtain y w1 where l: "as_load (svc_store S) r ''hash_proof'' w = (y, w1)" by fastforce
  from load_law [OF l] runs_kv(4) [OF l] assms l show ?thesis
    by (auto simp: optional_proof_def load_as_def lift_fs_def eff_simps split: sum.splits option.splits if_splits)
qed

text \<open>
  One attempt of \<open>finish\<close>, seen by the run: it keeps the verdict of a run that is done; of a
  run that is not it leaves the snapshot or gives the verdict asked for, with the issue that
  was agreed on.  \<open>judged\<close> are the snapshots with such a verdict.
\<close>

definition judged :: "string \<Rightarrow> TestResult \<Rightarrow> PipelineIssue option set \<Rightarrow> RunSnapshot \<Rightarrow> RunSnapshot set" where
  "judged r res issues s = {s'. \<exists>iss \<in> issues. \<exists>pf. s' = finished (finalization_of r res iss pf) s}"

lemma judged_done: "s' \<in> judged r res issues s \<Longrightarrow> pipeline_status s' = PDone"
  by (auto simp: judged_def finished_def)

lemma settle_result:
  assumes run: "settle_run R S r res iss w = (x, w')" and rec: "recs w r = Some s"
    and t: "kv w (terminalStateKey r) = Some (RText ''pending'')"
  shows "recs w' = recs w \<or> pipeline_status s \<noteq> PDone \<and> (\<exists>s'. recs w' r = Some s' \<and> s' \<in> judged r res {iss} s)"
    and "kv w' = kv w \<or> kv w' = (kv w)(terminalStateKey r \<mapsto> RText ''committed'') \<and>
      (\<exists>s'. recs w' r = Some s' \<and> pipeline_status s' = PDone)"
    and "x = Inr () \<Longrightarrow> kv w' (terminalStateKey r) = Some (RText ''committed'') \<and>
      (\<exists>s'. recs w' r = Some s' \<and> pipeline_status s' = PDone)"
proof -
  obtain y w1 where g: "svc_get S r w = (y, w1)" by fastforce
  note g1 = get_law [OF g] runs_kv(1) [OF g]
  have "(recs w' = recs w \<or> pipeline_status s \<noteq> PDone \<and> (\<exists>s'. recs w' r = Some s' \<and> s' \<in> judged r res {iss} s)) \<and>
    (kv w' = kv w \<or> kv w' = (kv w)(terminalStateKey r \<mapsto> RText ''committed'') \<and>
      (\<exists>s'. recs w' r = Some s' \<and> pipeline_status s' = PDone)) \<and>
    (x = Inr () \<longrightarrow> kv w' (terminalStateKey r) = Some (RText ''committed'') \<and>
      (\<exists>s'. recs w' r = Some s' \<and> pipeline_status s' = PDone))"
  proof (cases y)
    case (Inl e)
    with run g g1 show ?thesis by (auto simp: settle_run_def bindM_apply)
  next
    case (Inr sn)
    with g1 rec obtain q where q: "sn = Some q" "settled q = s" by (cases sn) auto
    then have st: "pipeline_status s = pipeline_status q" by auto
    obtain z w2 where p: "optional_proof S r w1 = (z, w2)" by fastforce
    note p1 = optional_proof_frame [OF p]
    have commit: "(recs v' = recs v) \<and> (kv v' = kv v \<or> kv v' = (kv v)(terminalStateKey r \<mapsto> RText ''committed'')) \<and>
        (u = Inr () \<longrightarrow> kv v' (terminalStateKey r) = Some (RText ''committed''))"
      if "markTerminalCommitted R r v = (u, v')" for u v v'
      using that by (cases u) (auto simp: markTerminalCommitted_def dest: set_ok set_err redis_recs(2))
    show ?thesis
    proof (cases z)
      case (Inl e)
      with run g g1 Inr q p p1 show ?thesis by (auto simp: settle_run_def bindM_apply)
    next
      case z: (Inr pf)
      let ?do = "thenM (bindM (svc_finish S r (finalization_of r res iss pf)) (\<lambda>_. returnM ()))
             (svc_emit S r ''Done'' ECompleted (done_data res iss))"
      from run g Inr q p z have r2: "thenM (whenM (pipeline_status q \<noteq> PDone) ?do) (markTerminalCommitted R r) w2 = (x, w')"
        by (simp add: settle_run_def bindM_apply)
      obtain a w3 where a: "whenM (pipeline_status q \<noteq> PDone) ?do w2 = (a, w3)" by fastforce
      have a1: "kv w3 = kv w2 \<and> (recs w3 = recs w2 \<and> (pipeline_status s = PDone \<or> (\<exists>e. a = Inl e)) \<or>
          pipeline_status s \<noteq> PDone \<and> (\<exists>s'. recs w3 r = Some s' \<and> s' \<in> judged r res {iss} s))"
      proof (cases "pipeline_status q = PDone")
        case True
        with a st show ?thesis by (simp add: whenM_apply)
      next
        case False
        obtain b w4 where b: "svc_finish S r (finalization_of r res iss pf) w2 = (b, w4)" by fastforce
        from finish_law [OF b] rec g1 p1 have b1: "(\<exists>e. b = Inl e) \<and> recs w4 = recs w2 \<or>
            recs w4 r = Some (finished (finalization_of r res iss pf) s)" by auto
        show ?thesis
        proof (cases b)
          case (Inl e)
          with a False b b1 runs_kv(2) [OF b] st show ?thesis
            by (auto simp: whenM_apply thenM_apply bindM_apply judged_def)
        next
          case (Inr c)
          obtain d w5 where d: "svc_emit S r ''Done'' ECompleted (done_data res iss) w4 = (d, w5)" by fastforce
          from a False b Inr d have "w3 = w5" by (simp add: whenM_apply thenM_apply bindM_apply returnM_apply)
          with emit_law [OF d] runs_kv(3) [OF d] runs_kv(2) [OF b] b1 Inr False st show ?thesis
            by (auto simp: judged_def)
        qed
      qed
      show ?thesis
      proof (cases a)
        case (Inl e)
        with r2 a have "w' = w3" "x = Inl e" by (simp_all add: thenM_apply)
        with a1 g1 p1 show ?thesis by auto
      next
        case (Inr u)
        with r2 a have "markTerminalCommitted R r w3 = (x, w')" by (simp add: thenM_apply)
        from commit [OF this] a1 g1 p1 rec Inr show ?thesis by (auto dest: judged_done)
      qed
    qed
  qed
  then show "recs w' = recs w \<or> pipeline_status s \<noteq> PDone \<and> (\<exists>s'. recs w' r = Some s' \<and> s' \<in> judged r res {iss} s)"
    and "kv w' = kv w \<or> kv w' = (kv w)(terminalStateKey r \<mapsto> RText ''committed'') \<and>
      (\<exists>s'. recs w' r = Some s' \<and> pipeline_status s' = PDone)"
    and "x = Inr () \<Longrightarrow> kv w' (terminalStateKey r) = Some (RText ''committed'') \<and>
      (\<exists>s'. recs w' r = Some s' \<and> pipeline_status s' = PDone)" by blast+
qed

text \<open>The attempts of one finish, with the same result and issue each time.\<close>

definition finishing :: "string \<Rightarrow> TestResult \<Rightarrow> PipelineIssue option \<Rightarrow> RunSnapshot \<Rightarrow> 'w \<Rightarrow> bool" where
  "finishing r res iss s w \<longleftrightarrow> pipeline_status s \<noteq> PDone \<and> kv w (terminalIssueKey r) \<in> {None, Some (RJson (DIssue iss))} \<and>
     (kv w (terminalStateKey r) = None \<and> recs w r = Some s \<or>
      kv w (terminalStateKey r) = Some (RText ''pending'') \<and> recs w r \<in> Some ` insert s (judged r res {iss, None} s) \<or>
      kv w (terminalStateKey r) = Some (RText ''committed'') \<and> recs w r \<in> Some ` judged r res {iss, None} s)"

lemma issue_read:
  assumes "getTerminalIssue R r w = (y, w')" and "kv w (terminalIssueKey r) \<in> {None, Some (RJson (DIssue iss))}"
  shows "kv w' = kv w \<and> recs w' = recs w \<and> (\<forall>e. y = Inr e \<longrightarrow> e \<in> {iss, None})"
  using assms by (auto simp: getTerminalIssue_def eff_simps split: prod.splits sum.splits option.splits
      dest: get_ok get_kv redis_recs(1))

text \<open>
  The issue is lost only when the store fails between the two writes of the agreement: it throws
  at the marking of the run, which it has applied, or at the storing of the issue, which it has
  not, so that the run is left marked pending with no issue.
\<close>

definition cut_between_writes :: "string \<Rightarrow> PipelineIssue option \<Rightarrow> 'w \<Rightarrow> bool" where
  "cut_between_writes r iss v \<longleftrightarrow> kv v (terminalStateKey r) = Some (RText ''pending'') \<and> kv v (terminalIssueKey r) = None \<and>
     (\<exists>u e. r_set_nx R (terminalStateKey r) (RText ''pending'') THIRTY_DAYS_SECONDS u = (Inl e, v) \<or>
       r_set R (terminalIssueKey r) (RJson (DIssue iss)) (Some THIRTY_DAYS_SECONDS) u = (Inl e, v))"

lemma mark_pending_cases:
  assumes t: "kv w (terminalStateKey r) = None" and m: "markTerminalPending R r iss w = (y, w')"
  shows "recs w' = recs w \<and> ((\<exists>e. y = Inl e) \<and> kv w' = kv w \<or>
    (\<exists>e. y = Inl e) \<and> kv w' = (kv w)(terminalStateKey r \<mapsto> RText ''pending'') \<and>
      (kv w (terminalIssueKey r) = None \<longrightarrow> cut_between_writes r iss w') \<or>
    kv w' = (kv w)(terminalStateKey r \<mapsto> RText ''pending'', terminalIssueKey r \<mapsto> RJson (DIssue iss)) \<and>
      (\<forall>e. y = Inr e \<longrightarrow> e = iss))"
proof -
  obtain b w1 where b: "r_set_nx R (terminalStateKey r) (RText ''pending'') THIRTY_DAYS_SECONDS w = (b, w1)" by fastforce
  note rb = redis_recs(3) [OF b]
  show ?thesis
  proof (cases b)
    case (Inl e)
    with m b have "w' = w1" "y = Inl e" by (simp_all add: markTerminalPending_def bindM_apply)
    with b set_nx_err [OF b [unfolded Inl]] rb t show ?thesis unfolding cut_between_writes_def by (auto simp: Inl)
  next
    case (Inr c)
    with set_nx_ok [OF b [unfolded Inr]] t have k1: "c" "kv w1 = (kv w)(terminalStateKey r \<mapsto> RText ''pending'')" by auto
    obtain d w2 where d: "r_set R (terminalIssueKey r) (RJson (DIssue iss)) (Some THIRTY_DAYS_SECONDS) w1 = (d, w2)" by fastforce
    from m b Inr k1 d have w: "w' = w2" "y = (case d of Inl e \<Rightarrow> Inl e | Inr u \<Rightarrow> Inr iss)"
      by (auto simp: markTerminalPending_def bindM_apply thenM_apply returnM_apply split: sum.splits)
    note rs = redis_recs(2) [OF d]
    show ?thesis
    proof (cases d)
      case e: (Inl e)
      from set_err [OF d [unfolded e]] d k1(2) rb rs w show ?thesis unfolding cut_between_writes_def by (auto simp: e)
    next
      case (Inr u)
      with d have "r_set R (terminalIssueKey r) (RJson (DIssue iss)) (Some THIRTY_DAYS_SECONDS) w1 = (Inr (), w2)" by simp
      from set_ok [OF this] k1(2) rb rs w Inr show ?thesis by simp
    qed
  qed
qed

lemma mark_pending_result:
  assumes "kv w (terminalStateKey r) = None" and "markTerminalPending R r iss w = (y, w')"
  shows "recs w' = recs w \<and> ((\<exists>e. y = Inl e) \<and> kv w' = kv w \<or>
    (\<exists>e. y = Inl e) \<and> kv w' = (kv w)(terminalStateKey r \<mapsto> RText ''pending'') \<or>
    kv w' = (kv w)(terminalStateKey r \<mapsto> RText ''pending'', terminalIssueKey r \<mapsto> RJson (DIssue iss)) \<and>
      (\<forall>e. y = Inr e \<longrightarrow> e = iss))"
  using mark_pending_cases [OF assms] by blast

lemma agreed_result:
  assumes a: "agreed_issue R r (terminal_of (kv w (terminalStateKey r))) iss w = (y, w')" and f: "finishing r res iss s w"
    and n: "kv w (terminalStateKey r) \<noteq> Some (RText ''committed'')"
  shows "finishing r res iss s w'" and "y = Inr e \<Longrightarrow> e \<in> {iss, None} \<and> kv w' (terminalStateKey r) = Some (RText ''pending'')"
proof -
  have "finishing r res iss s w' \<and> (\<forall>e. y = Inr e \<longrightarrow> e \<in> {iss, None} \<and> kv w' (terminalStateKey r) = Some (RText ''pending''))"
  proof (cases "kv w (terminalStateKey r) = None")
    case True
    with a have "markTerminalPending R r iss w = (y, w')" by (simp add: agreed_issue_def)
    from mark_pending_result [OF True this] f True show ?thesis by (auto simp: finishing_def)
  next
    case False
    with f n have t: "kv w (terminalStateKey r) = Some (RText ''pending'')" "kv w (terminalIssueKey r) \<in> {None, Some (RJson (DIssue iss))}"
      by (auto simp: finishing_def)
    then have "getTerminalIssue R r w = (y, w')" using a by (simp add: agreed_issue_def)
    from issue_read [OF this t(2)] f t(1) show ?thesis by (auto simp: finishing_def)
  qed
  then show "finishing r res iss s w'" "y = Inr e \<Longrightarrow> e \<in> {iss, None} \<and> kv w' (terminalStateKey r) = Some (RText ''pending'')"
    by blast+
qed

text \<open>A finish reads the state of the run's verdict, agrees on the issue and settles the run.\<close>

lemma finish_parts:
  assumes run: "finish_run R S r res iss w = (x, w')"
  shows "kv w' = kv w \<and> recs w' = recs w \<and> (x = Inr () \<longrightarrow> terminal_of (kv w (terminalStateKey r)) = TermCommitted) \<or>
    terminal_of (kv w (terminalStateKey r)) \<noteq> TermCommitted \<and> (\<exists>w1 y w2. kv w1 = kv w \<and> recs w1 = recs w \<and>
      agreed_issue R r (terminal_of (kv w1 (terminalStateKey r))) iss w1 = (y, w2) \<and>
      ((\<exists>e. y = Inl e \<and> x = Inl e \<and> w' = w2) \<or> (\<exists>e. y = Inr e \<and> settle_run R S r res e w2 = (x, w'))))"
proof -
  obtain p w1 where p: "getTerminalState R r w = (p, w1)" by fastforce
  then have k1: "kv w1 = kv w" "recs w1 = recs w" using reads_keep(4) [of r w]
    by (auto simp: getTerminalState_def eff_simps split: prod.splits sum.splits dest: redis_recs(1))
  show ?thesis
  proof (cases p)
    case (Inl e)
    with run p k1 show ?thesis by (auto simp: finish_run_def bindM_apply)
  next
    case (Inr pv)
    with getTerminalState_ok [of r w pv w1] p k1 have pv: "pv = terminal_of (kv w1 (terminalStateKey r))" by simp
    obtain y w2 where y: "agreed_issue R r pv iss w1 = (y, w2)" by fastforce
    show ?thesis
    proof (cases "pv = TermCommitted")
      case True
      with run p Inr k1 pv show ?thesis by (auto simp: finish_run_def bindM_apply returnM_apply)
    next
      case False
      with run p Inr y have "(\<exists>e. y = Inl e \<and> x = Inl e \<and> w' = w2) \<or> (\<exists>e. y = Inr e \<and> settle_run R S r res e w2 = (x, w'))"
        by (cases y) (auto simp: finish_run_def bindM_apply)
      with y False k1 pv show ?thesis by auto
    qed
  qed
qed

lemma finish_attempt:
  assumes f: "finishing r res iss s w" and run: "finish_run R S r res iss w = (x, w')"
  shows "finishing r res iss s w' \<and> (x = Inr () \<longrightarrow> kv w' (terminalStateKey r) = Some (RText ''committed'') \<and>
    recs w' r \<in> Some ` judged r res {iss, None} s)"
proof -
  let ?T = "terminalStateKey r"
  have tc: "terminal_of (kv w ?T) = TermCommitted \<longleftrightarrow> kv w ?T = Some (RText ''committed'')" using f by (auto simp: finishing_def)
  from finish_parts [OF run] show ?thesis
  proof (elim disjE conjE exE)
    assume "kv w' = kv w" "recs w' = recs w" "x = Inr () \<longrightarrow> terminal_of (kv w ?T) = TermCommitted"
    with f tc show ?thesis by (auto simp: finishing_def)
  next
    fix w1 y w2 e
    assume k1: "kv w1 = kv w" "recs w1 = recs w" and "terminal_of (kv w ?T) \<noteq> TermCommitted" "y = Inl e" "x = Inl e" "w' = w2"
      and "agreed_issue R r (terminal_of (kv w1 ?T)) iss w1 = (y, w2)"
    with agreed_result(1) [of r w1 iss y w2] f tc show ?thesis by (auto simp: finishing_def)
  next
    fix w1 y w2 e
    assume k1: "kv w1 = kv w" "recs w1 = recs w" and nt: "terminal_of (kv w ?T) \<noteq> TermCommitted"
      and y: "agreed_issue R r (terminal_of (kv w1 ?T)) iss w1 = (y, w2)" and y2: "y = Inr e"
      and st: "settle_run R S r res e w2 = (x, w')"
    from f k1 have f1: "finishing r res iss s w1" by (simp add: finishing_def)
    from nt tc k1 have n1: "kv w1 ?T \<noteq> Some (RText ''committed'')" by simp
    note ag = agreed_result [OF y f1 n1]
    from ag(2) [OF y2] have e: "e \<in> {iss, None}" and t2: "kv w2 ?T = Some (RText ''pending'')" by auto
    from ag(1) t2 obtain s2 where s2: "recs w2 r = Some s2" "s2 = s \<or> s2 \<in> judged r res {iss, None} s"
      and u2: "kv w2 (terminalIssueKey r) \<in> {None, Some (RJson (DIssue iss))}" and nd: "pipeline_status s \<noteq> PDone"
      by (auto simp: finishing_def)
    note st = settle_result [OF st s2(1) t2]
    have sub: "judged r res {e} s \<subseteq> judged r res {iss, None} s" using e by (auto simp: judged_def)
    from st(1) s2(1,2) sub have rec: "recs w' r = Some s2 \<or> recs w' r \<in> Some ` judged r res {iss, None} s"
      by (auto dest: judged_done)
    have fin: "recs w' r \<in> Some ` judged r res {iss, None} s" if "x = Inr ()"
      using st(3) [OF that] rec s2 nd by auto
    have "finishing r res iss s w'" unfolding finishing_def
    proof (intro conjI)
      show "kv w' (terminalIssueKey r) \<in> {None, Some (RJson (DIssue iss))}" using st(2) u2 by auto
      have "recs w' r \<in> Some ` judged r res {iss, None} s" if "kv w' ?T \<noteq> kv w2 ?T"
        using that st(2) rec s2 nd by auto
      then show "kv w' ?T = None \<and> recs w' r = Some s \<or>
          kv w' ?T = Some (RText ''pending'') \<and> recs w' r \<in> Some ` insert s (judged r res {iss, None} s) \<or>
          kv w' ?T = Some (RText ''committed'') \<and> recs w' r \<in> Some ` judged r res {iss, None} s"
        using st(2) t2 rec s2 by (cases "kv w' ?T = kv w2 ?T") auto
    qed (rule nd)
    with fin st(3) show ?thesis by auto
  qed
qed

text \<open>Before such an attempt the issue stored with a pending run is the one of the finish.\<close>

definition issue_kept :: "string \<Rightarrow> TestResult \<Rightarrow> PipelineIssue option \<Rightarrow> RunSnapshot \<Rightarrow> 'w \<Rightarrow> bool" where
  "issue_kept r res iss s w \<longleftrightarrow> (kv w (terminalStateKey r) = None \<or> kv w (terminalIssueKey r) = Some (RJson (DIssue iss))) \<and>
     (recs w r = Some s \<or> recs w r \<in> Some ` judged r res {iss} s)"

lemma agreed_kept:
  assumes a: "agreed_issue R r (terminal_of (kv w (terminalStateKey r))) iss w = (y, w')"
    and f: "finishing r res iss s w" "issue_kept r res iss s w" and n: "kv w (terminalStateKey r) \<noteq> Some (RText ''committed'')"
  shows "issue_kept r res iss s w' \<and> (\<forall>e. y = Inr e \<longrightarrow> e = iss) \<or> (\<exists>e. y = Inl e) \<and> cut_between_writes r iss w'"
proof (cases "kv w (terminalStateKey r) = None")
  case True
  with a have "markTerminalPending R r iss w = (y, w')" by (simp add: agreed_issue_def)
  have rs: "recs w r = Some s" using f(1) True by (simp add: finishing_def)
  from mark_pending_cases [OF True \<open>markTerminalPending R r iss w = (y, w')\<close>] show ?thesis
  proof (elim conjE disjE)
    assume "\<exists>e. y = Inl e" "kv w' = (kv w)(terminalStateKey r \<mapsto> RText ''pending'')" "recs w' = recs w"
      and c: "kv w (terminalIssueKey r) = None \<longrightarrow> cut_between_writes r iss w'"
    with rs f(1) show ?thesis by (cases "kv w (terminalIssueKey r)") (auto simp: finishing_def issue_kept_def)
  qed (use rs True in \<open>auto simp: issue_kept_def\<close>)
next
  case False
  with f n have t: "kv w (terminalStateKey r) = Some (RText ''pending'')" "kv w (terminalIssueKey r) = Some (RJson (DIssue iss))"
    by (auto simp: finishing_def issue_kept_def)
  then have "getTerminalIssue R r w = (y, w')" using a by (simp add: agreed_issue_def)
  with t f(2) show ?thesis
    by (auto simp: getTerminalIssue_def issue_kept_def eff_simps split: prod.splits sum.splits option.splits
        dest: get_ok get_kv redis_recs(1))
qed

lemma finish_keeps_issue:
  assumes f: "finishing r res iss s w" "issue_kept r res iss s w" and run: "finish_run R S r res iss w = (x, w')"
  shows "issue_kept r res iss s w' \<or> (\<exists>e. x = Inl e) \<and> cut_between_writes r iss w'"
proof -
  let ?T = "terminalStateKey r"
  have tc: "terminal_of (kv w ?T) = TermCommitted \<longleftrightarrow> kv w ?T = Some (RText ''committed'')" using f by (auto simp: finishing_def)
  from finish_parts [OF run] show ?thesis
  proof (elim disjE conjE exE)
    assume "kv w' = kv w" "recs w' = recs w"
    with f show ?thesis by (simp add: issue_kept_def)
  next
    fix w1 y w2 e
    assume "kv w1 = kv w" "recs w1 = recs w" "terminal_of (kv w ?T) \<noteq> TermCommitted" "y = Inl e" "x = Inl e" "w' = w2"
      and "agreed_issue R r (terminal_of (kv w1 ?T)) iss w1 = (y, w2)"
    with agreed_kept [of r w1 iss y w2] f tc show ?thesis by (auto simp: finishing_def issue_kept_def)
  next
    fix w1 y w2 e
    assume k1: "kv w1 = kv w" "recs w1 = recs w" and nt: "terminal_of (kv w ?T) \<noteq> TermCommitted"
      and y: "agreed_issue R r (terminal_of (kv w1 ?T)) iss w1 = (y, w2)" and y2: "y = Inr e"
      and st: "settle_run R S r res e w2 = (x, w')"
    from f k1 have f1: "finishing r res iss s w1" "issue_kept r res iss s w1" by (simp_all add: finishing_def issue_kept_def)
    from nt tc k1 have n1: "kv w1 ?T \<noteq> Some (RText ''committed'')" by simp
    from agreed_kept [OF y f1 n1] y2 have k2: "issue_kept r res iss s w2" "e = iss" by auto
    from agreed_result(2) [OF y f1(1) n1 y2] have t2: "kv w2 ?T = Some (RText ''pending'')" by simp
    from k2(1) obtain s2 where s2: "recs w2 r = Some s2" "s2 = s \<or> s2 \<in> judged r res {iss} s" by (auto simp: issue_kept_def)
    note st = settle_result [OF st [unfolded k2(2)] s2(1) t2]
    from st(1) s2 have "recs w' r = Some s \<or> recs w' r \<in> Some ` judged r res {iss} s" by (auto dest: judged_done)
    moreover have "kv w' (terminalIssueKey r) = Some (RJson (DIssue iss))" using st(2) k2(1) t2 by (auto simp: issue_kept_def)
    ultimately show ?thesis by (simp add: issue_kept_def)
  qed
qed

end

section \<open>The deployment of the worker\<close>

text \<open>The in-memory Redis and queue of the tests next to the deployment of the run services.\<close>

definition on_fst :: "('a, 'e, 'x) eff \<Rightarrow> ('a \<times> 'b, 'e, 'x) eff" where
  "on_fst m = (\<lambda>(a, b). case m a of (r, a') \<Rightarrow> (r, (a', b)))"

definition on_snd :: "('b, 'e, 'x) eff \<Rightarrow> ('a \<times> 'b, 'e, 'x) eff" where
  "on_snd m = (\<lambda>(a, b). case m b of (r, b') \<Rightarrow> (r, (a, b')))"

definition redis_fst :: "'a redis_client \<Rightarrow> ('a \<times> 'b) redis_client" where
  "redis_fst R = \<lparr>r_get = (\<lambda>k. on_fst (r_get R k)), r_set = (\<lambda>k x t. on_fst (r_set R k x t)),
     r_set_nx = (\<lambda>k x t. on_fst (r_set_nx R k x t)), r_del = (\<lambda>k. on_fst (r_del R k)), r_eval = (\<lambda>s. on_fst (r_eval R s)),
     r_exists = (\<lambda>k. on_fst (r_exists R k)), r_xadd = (\<lambda>k fs. on_fst (r_xadd R k fs)), r_xrange = (\<lambda>k. on_fst (r_xrange R k))\<rparr>"

definition queue_fst :: "'a queue_client \<Rightarrow> ('a \<times> 'b) queue_client" where
  "queue_fst Q = \<lparr>q_add = (\<lambda>n d j. on_fst (q_add Q n d j))\<rparr>"

definition runs_snd :: "('b, 'o) RunServices \<Rightarrow> ('a \<times> 'b, 'o) RunServices" where
  "runs_snd S = \<lparr>svc_store = \<lparr>as_create = map_option (\<lambda>c r n v. on_snd (c r n v)) (as_create (svc_store S)),
       as_save = (\<lambda>r n v. on_snd (as_save (svc_store S) r n v)), as_load = (\<lambda>r n. on_snd (as_load (svc_store S) r n)),
       as_remove = map_option (\<lambda>d r n. on_snd (d r n)) (as_remove (svc_store S))\<rparr>,
     svc_get = (\<lambda>r. on_snd (svc_get S r)), svc_artifact = (\<lambda>r n p. on_snd (svc_artifact S r n p)),
     svc_finish = (\<lambda>r fi. on_snd (svc_finish S r fi)), svc_emit = (\<lambda>r p st d. on_snd (svc_emit S r p st d))\<rparr>"

lemma pair_apply:
  "on_fst m w = (x, w') \<longleftrightarrow> m (fst w) = (x, fst w') \<and> snd w' = snd w"
  "on_snd n w = (y, w') \<longleftrightarrow> n (snd w) = (y, snd w') \<and> fst w' = fst w"
  by (auto simp: on_fst_def on_snd_def prod_eq_iff split: prod.splits)

lemma runs_snd_services:
  assumes "run_services S view recs"
  shows "run_services (runs_snd S) (\<lambda>w. view (snd w)) (\<lambda>w. recs (snd w))"
proof -
  note s = assms [unfolded run_services_def review_store_def]
  have a: "artifact_store (svc_store S) view" and x: "run_services_axioms S view recs" using s by simp_all
  show ?thesis
  proof (intro run_services.intro review_store.intro)
    show "artifact_store (svc_store (runs_snd S)) (\<lambda>w. view (snd w))"
      unfolding artifact_store_def runs_snd_def RunServices.simps ArtifactStore.simps pair_apply
      using a [unfolded artifact_store_def] by (auto simp: pair_apply) 
    show "run_services_axioms (runs_snd S) (\<lambda>w. view (snd w)) (\<lambda>w. recs (snd w))"
      unfolding run_services_axioms_def runs_snd_def RunServices.simps ArtifactStore.simps pair_apply
      using x [unfolded run_services_axioms_def] by (auto simp: pair_apply)
  qed
qed

interpretation worker_deployment: pipeline_world "redis_fst InMemoryRedis" "\<lambda>w. mem_kv (fst w)" "queue_fst InMemoryQueue"
    "\<lambda>w. mem_jobs (fst w)" "runs_snd (deployed uuid pid dir)" "\<lambda>w. deployed_view dir (snd w)" "\<lambda>w. deployed_recs (snd w)"
  for uuid pid dir
proof (intro pipeline_world.intro pipeline_services.intro pipeline_driver.intro runs_snd_services deployment.run_services_axioms)
  show "redis (redis_fst InMemoryRedis) (\<lambda>w. mem_kv (fst w))"
    by unfold_locales (auto simp: redis_fst_def pair_apply mem_redis_defs eff_simps split: option.splits prod.splits)
  show "job_queue (queue_fst InMemoryQueue) (\<lambda>w. mem_jobs (fst w))"
    by unfold_locales (auto simp: queue_fst_def pair_apply mem_redis_defs split: option.splits)
  show "pipeline_services_axioms (redis_fst InMemoryRedis) (\<lambda>w. mem_kv (fst w)) (queue_fst InMemoryQueue) (\<lambda>w. mem_jobs (fst w))"
    by unfold_locales (auto simp: redis_fst_def queue_fst_def pair_apply mem_redis_defs eff_simps split: option.splits prod.splits)
  show "pipeline_world_axioms (redis_fst InMemoryRedis) (\<lambda>w. mem_kv (fst w)) (queue_fst InMemoryQueue) (\<lambda>w. mem_jobs (fst w))
      (runs_snd (deployed uuid pid dir)) (\<lambda>w. deployed_view dir (snd w)) (\<lambda>w. deployed_recs (snd w))"
    by unfold_locales (auto simp: redis_leaves_def run_leaves_def leaves_def redis_fst_def queue_fst_def runs_snd_def pair_apply)
qed

section \<open>Properties\<close>

context pipeline_world
begin

lemma committed_finish_final:
  assumes "kv w (terminalStateKey r) = Some (RText ''committed'')" and "finish_run R S r res iss w = (x, w')"
  shows "kv w' = kv w \<and> recs w' = recs w"
proof -
  obtain p w1 where p: "getTerminalState R r w = (p, w1)" by fastforce
  then have k1: "kv w1 = kv w" "recs w1 = recs w" using reads_keep(4) [of r w]
    by (auto simp: getTerminalState_def eff_simps split: prod.splits sum.splits dest: redis_recs(1))
  with assms p getTerminalState_ok [of r w _ w1] show ?thesis
    by (cases p) (auto simp: finish_run_def bindM_apply returnM_apply)
qed

text \<open>The real services satisfy what the job of a stage expects of its services.\<close>

lemma worker_services_spare: "services_spare kv (createTransitionServices R jc S)"
proof -
  have k: "terminalStateKey r \<in> - ckpt_keys" "terminalIssueKey r \<in> - ckpt_keys" for r
    by (simp_all add: ckpt_keys_def fam_def key_last_seg)
  have sv: "only_changes kv K (svc_get S r)" "only_changes kv K (svc_finish S r fi)" "only_changes kv K (svc_emit S r p st d)"
    "only_changes kv K (optional_proof S r)" for K r fi p st d
    by (auto simp: only_changes_def dest: runs_kv(1,2,3) optional_proof_frame)
  have hist: "only_changes kv K (append_history R jc r st ty m)" for K r st ty m
    by (auto simp: append_history_def only_changes_def eff_simps history_append_def split: prod.splits sum.splits dest: xadd_kv)
  have "only_changes kv (- ckpt_keys) (finish_run R S r res iss)" for r res iss
    unfolding finish_run_def agreed_issue_def settle_run_def getTerminalState_def getTerminalIssue_def markTerminalPending_def
      markTerminalCommitted_def
    by (intro only_changes_intros op_changes sv k)
  moreover have "only_changes kv (- ckpt_keys) (waitForBuild R jc S r)" for r
    unfolding waitForBuild_def by (intro only_changes_intros sv hist)
  ultimately show ?thesis
    by (simp add: services_spare_def createTransitionServices_def waitForHuman_def spares_checkpoints_def hist)
qed

end

text \<open>The same attempts as \<open>delivered\<close>, with the worlds that the failed ones left.\<close>

inductive delivered_after :: "('w, js_error, 'a) eff \<Rightarrow> 'w \<Rightarrow> 'w list \<Rightarrow> 'w \<Rightarrow> bool" for att where
  delivered_at_once: "att w = (Inr x, w') \<Longrightarrow> delivered_after att w [] w'"
| delivered_after_failure: "att w = (Inl e, w1) \<Longrightarrow> delivered_after att w1 vs w' \<Longrightarrow> delivered_after att w (w1 # vs) w'"

lemma delivered_iff_after: "delivered att w w' \<longleftrightarrow> (\<exists>vs. delivered_after att w vs w')"
proof
  show "delivered att w w' \<Longrightarrow> \<exists>vs. delivered_after att w vs w'"
    by (induction rule: delivered.induct) (blast intro: delivered_after.intros)+
  assume "\<exists>vs. delivered_after att w vs w'"
  then obtain vs where "delivered_after att w vs w'" ..
  then show "delivered att w w'" by (induction rule: delivered_after.induct) (blast intro: delivered.intros)+
qed

lemma finish_issue_agreed:
  assumes pw: "pipeline_world R kv Q jobs S view recs" and d: "delivered_after (finish_run R S r res iss) w vs w'"
    and f: "pipeline_world.finishing kv recs r res iss s w" "pipeline_world.issue_kept kv recs r res iss s w"
  shows "kv w' (terminalStateKey r) = Some (RText ''committed'') \<and>
    (recs w' r \<in> Some ` pipeline_world.judged r res {iss} s \<or>
     recs w' r \<in> Some ` pipeline_world.judged r res {iss, None} s \<and> (\<exists>v\<in>set vs. pipeline_world.cut_between_writes R kv r iss v))"
  using d f
proof (induction rule: delivered_after.induct)
  case (delivered_at_once w x w')
  note a = pipeline_world.finish_attempt [OF pw delivered_at_once(2,1)] pipeline_world.finish_keeps_issue [OF pw delivered_at_once(2,3,1)]
  then have "recs w' r \<in> Some ` pipeline_world.judged r res {iss, None} s" "pipeline_world.issue_kept kv recs r res iss s w'" by auto
  moreover have "pipeline_status s \<noteq> PDone" using delivered_at_once(2) by (simp add: pipeline_world.finishing_def [OF pw])
  then have "recs w' r \<noteq> Some s" if "recs w' r \<in> Some ` pipeline_world.judged r res {iss, None} s"
    using that pipeline_world.judged_done [OF pw] by auto
  ultimately have "recs w' r \<in> Some ` pipeline_world.judged r res {iss} s" unfolding pipeline_world.issue_kept_def [OF pw] by blast
  with a(1) show ?case by simp
next
  case (delivered_after_failure w e w1 vs w')
  note a = pipeline_world.finish_attempt [OF pw delivered_after_failure(4,1)]
    pipeline_world.finish_keeps_issue [OF pw delivered_after_failure(4,5,1)]
  show ?case
  proof (cases "pipeline_world.issue_kept kv recs r res iss s w1")
    case True
    from delivered_after_failure.IH [OF conjunct1 [OF a(1)] True] show ?thesis
      unfolding list.set by blast
  next
    case False
    with a(2) have c: "pipeline_world.cut_between_writes R kv r iss w1" by blast
    from delivered_after_failure(2) have "delivered (finish_run R S r res iss) w1 w'"
      unfolding delivered_iff_after by (rule exI)
    then have "kv w' (terminalStateKey r) = Some (RText ''committed'') \<and> recs w' r \<in> Some ` pipeline_world.judged r res {iss, None} s"
    proof (rule delivered_rule [where I = "pipeline_world.finishing kv recs r res iss s"])
      fix v x v' assume "pipeline_world.finishing kv recs r res iss s v" "finish_run R S r res iss v = (x, v')"
      from pipeline_world.finish_attempt [OF pw this]
      show "pipeline_world.finishing kv recs r res iss s v' \<and> (\<forall>y. x = Inr y \<longrightarrow>
        kv v' (terminalStateKey r) = Some (RText ''committed'') \<and> recs v' r \<in> Some ` pipeline_world.judged r res {iss, None} s)" by simp
    qed (use a(1) in blast)
    with c show ?thesis unfolding list.set by blast
  qed
qed

text \<open>
  C30.  A run gets one verdict.  When the finish of a run that is not done succeeds, after
  any number of attempts that failed at any point, the run is done with exactly the result
  asked for and with the issue given; only where one of the failed attempts ended because the
  store threw between the two writes of the agreement (at the mark it applied or at the issue it
  did not, leaving the run marked pending and no issue stored) can it be done with no issue
  instead.  No later finish, with whatever result, changes anything.
\<close>

theorem finish_gives_one_verdict:
  assumes "pipeline_world R kv Q jobs S view recs" and "recs w r = Some s" and "pipeline_status s \<noteq> PDone"
    and "kv w (terminalStateKey r) = None" and "kv w (terminalIssueKey r) = None"
    and "delivered_after (finish_run R S r res iss) w vs w'"
  shows "(\<exists>agreed pf. recs w' r = Some (finished (finalization_of r res agreed pf) s) \<and>
      (agreed = iss \<or> agreed = None \<and>
        (\<exists>v \<in> set vs. kv v (terminalStateKey r) = Some (RText ''pending'') \<and> kv v (terminalIssueKey r) = None \<and>
          (\<exists>u e. r_set_nx R (terminalStateKey r) (RText ''pending'') THIRTY_DAYS_SECONDS u = (Inl e, v) \<or>
            r_set R (terminalIssueKey r) (RJson (DIssue iss)) (Some THIRTY_DAYS_SECONDS) u = (Inl e, v))))) \<and>
    (\<forall>res2 iss2 x w2. finish_run R S r res2 iss2 w' = (x, w2) \<longrightarrow> kv w2 = kv w' \<and> recs w2 = recs w')"
proof -
  have "pipeline_world.finishing kv recs r res iss s w" "pipeline_world.issue_kept kv recs r res iss s w"
    using assms(2-5) by (simp_all add: pipeline_world.finishing_def [OF assms(1)] pipeline_world.issue_kept_def [OF assms(1)])
  note a = finish_issue_agreed [OF assms(1,6) this]
  then have "\<exists>agreed pf. recs w' r = Some (finished (finalization_of r res agreed pf) s) \<and>
      (agreed = iss \<or> agreed = None \<and> (\<exists>v \<in> set vs. pipeline_world.cut_between_writes R kv r iss v))"
    by (auto simp: pipeline_world.judged_def [OF assms(1)])
  moreover have "\<forall>res2 iss2 x w2. finish_run R S r res2 iss2 w' = (x, w2) \<longrightarrow> kv w2 = kv w' \<and> recs w2 = recs w'"
    using a pipeline_world.committed_finish_final [OF assms(1)] by blast
  ultimately show ?thesis by (simp only: pipeline_world.cut_between_writes_def [OF assms(1)])
qed

type_synonym demo_world = "mem_world \<times> pipeline_doc deployment"

definition demo_redis :: "demo_world redis_client" where
  "demo_redis = redis_fst InMemoryRedis"

definition demo_runs :: "demo_world pipeline_run" where
  "demo_runs = runs_snd demo_services"

text \<open>The calls of \<open>finish\<close> on the created run, one after the other.\<close>

lemma demo_calls:
  "svc_get demo_services ''run'' demo_empty = (Inr (Some (created_run ''run'')), demo_empty)"
  "optional_proof demo_runs ''run'' (m, demo_empty) = (Inr None, (m, demo_empty))"
  "\<exists>t w1 w2. svc_finish demo_services ''run'' (finalization_of ''run'' Failed (Some sample_issue) None) demo_empty = (Inr t, w1) \<and>
     svc_emit demo_services ''run'' ''Done'' ECompleted (done_data Failed (Some sample_issue)) w1 = (Inr (), w2)"
proof -
  show "svc_get demo_services ''run'' demo_empty = (Inr (Some (created_run ''run'')), demo_empty)"
    by (simp add: demo_services_def deployed_def Let_def in_world_def on_repo_def demo_empty_def repo_create_def persist_def
        eff_simps change_repo_def cached_run_def set_run_def new_repository_def created_run_def)
  show "optional_proof demo_runs ''run'' (m, demo_empty) = (Inr None, (m, demo_empty))"
    by (simp add: optional_proof_def load_as_def lift_fs_def demo_runs_def runs_snd_def on_snd_def demo_services_def deployed_def
        Let_def on_store_def demo_empty_def FileArtifactStore_def file_load_def file_call_def readJson_def read_call_def
        next_fault_def file_at_def eff_simps)
  let ?f = "svc_finish demo_services ''run'' (finalization_of ''run'' Failed (Some sample_issue) None)"
  let ?e = "svc_emit demo_services ''run'' ''Done'' ECompleted (done_data Failed (Some sample_issue))"
  have "is_ok (fst (bindM ?f (\<lambda>_. ?e) demo_empty))" by code_simp
  then obtain x w' where "bindM ?f (\<lambda>_. ?e) demo_empty = (Inr x, w')" by (rule is_okE)
  then show "\<exists>t w1 w2. ?f demo_empty = (Inr t, w1) \<and> ?e w1 = (Inr (), w2)"
    by (elim bindM_Inr_elim) (simp del: split_paired_Ex)
qed

lemma finish_gives_one_verdict_witness:
  "\<exists>w' s. delivered_after (finish_run demo_redis demo_runs ''run'' Failed (Some sample_issue)) (mem_empty, demo_empty) [] w' \<and>
    deployed_recs (snd w') ''run'' = Some s \<and> pipeline_status s = PDone \<and> rs_test_result s = Some Failed \<and>
    root_cause s = Some (pi_evidence sample_issue)"
proof -
  let ?att = "finish_run demo_redis demo_runs ''run'' Failed (Some sample_issue)" and ?w = "(mem_empty, demo_empty)"
  have pw: "pipeline_world demo_redis (\<lambda>w. mem_kv (fst w)) (queue_fst InMemoryQueue) (\<lambda>w. mem_jobs (fst w)) demo_runs
      (\<lambda>w. deployed_view ''d'' (snd w)) (\<lambda>w. deployed_recs (snd w))"
    unfolding demo_redis_def demo_runs_def demo_services_def by (rule worker_deployment.pipeline_world_axioms)
  from demo_calls(3) obtain t w1 w2
    where f: "svc_finish demo_services ''run'' (finalization_of ''run'' Failed (Some sample_issue) None) demo_empty = (Inr t, w1)"
      and e: "svc_emit demo_services ''run'' ''Done'' ECompleted (done_data Failed (Some sample_issue)) w1 = (Inr (), w2)" by blast
  have sn: "svc_get demo_runs = (\<lambda>r. on_snd (svc_get demo_services r))" "svc_finish demo_runs = (\<lambda>r fi. on_snd (svc_finish demo_services r fi))"
    "svc_emit demo_runs = (\<lambda>r p st d. on_snd (svc_emit demo_services r p st d))" by (simp_all add: demo_runs_def runs_snd_def)
  have "\<exists>w'. ?att ?w = (Inr (), w')"
    by (simp add: finish_run_def getTerminalState_def demo_redis_def redis_fst_def on_fst_def mem_redis_defs eff_simps mem_empty_def
        agreed_issue_def markTerminalPending_def settle_run_def sn on_snd_def demo_calls f e created_run_def markTerminalCommitted_def
        del: split_paired_Ex)
  then obtain w' where "?att ?w = (Inr (), w')" ..
  then have d: "delivered_after ?att ?w [] w'" by (rule delivered_at_once)
  have "map_option pipeline_status (deployed_recs (snd ?w) ''run'') = Some PRunning" by code_simp
  then obtain s where s: "deployed_recs (snd ?w) ''run'' = Some s" "pipeline_status s \<noteq> PDone" by auto
  have k: "mem_kv (fst ?w) (terminalStateKey ''run'') = None" "mem_kv (fst ?w) (terminalIssueKey ''run'') = None"
    by (simp_all add: mem_empty_def)
  from finish_gives_one_verdict [OF pw s(1) s(2) k d] show ?thesis
    by (intro exI [of _ w']) (auto simp: d finished_def finalization_of_def simp del: split_paired_Ex split_paired_All)
qed

end
