(* ===== verification/Pipeline_Worker.thy ===== *)
theory Pipeline_Worker
  imports Transition_Services
begin

text \<open>
  The job handler of \<open>backend/pipeline/worker.ts\<close>: the check of the payload, the execution
  of a stage with its outcome, and the job around it.  The heartbeat and the logging of the
  worker process are not modelled.  A job's name has the type of the stages, so the
  \<open>default\<close> of the switch has no case here.
\<close>

section \<open>Outcomes\<close>

definition worker_issue ::
  "IssueType \<Rightarrow> string \<Rightarrow> string \<Rightarrow> string \<Rightarrow> string list \<Rightarrow> string \<Rightarrow> string \<Rightarrow> PipelineIssue" where
  "worker_issue ty iss expected actual ids correction target = \<lparr>pi_issue_type = ty,
     pi_evidence = \<lparr>rc_issue = iss, rc_expected = expected, rc_actual = actual, rc_evidence_ids = ids,
       rc_required_correction = correction, rc_recheck_target = target\<rparr>\<rparr>"

definition injected_refine :: "string \<Rightarrow> outcome" where
  "injected_refine runId = refine (Some (JObj [(''faultInjected'', JBool True)]))
     (worker_issue MissingIssue ''Fault-injected refinement request'' ''Stage completes with a forwardable result''
       ''refine-once fault injection requested refinement'' [] ''Run the next refinement iteration'' runId)
     ''fault injection: refine-once''"

definition triple_outcome :: "string \<Rightarrow> TripleValidation \<Rightarrow> outcome" where
  "triple_outcome runId triple =
     (if all_valid triple then advance (Some (JObj [(''all_valid'', JBool True)]))
      else refine (Some (JObj [(''all_valid'', JBool False)]))
        (worker_issue MissingIssue ''Schema, fixture, or goal validation failed''
          ''Triple validation reports all_valid for the current revision''
          ''Triple validation reported failures for the current revision'' [tv_validation_id triple]
          ''Refine the plan/artifacts and rerun validation'' runId)
        ''triple-validation: all_valid=false; refinement iteration required'')"

definition hash_outcome :: "string \<Rightarrow> HashProof \<Rightarrow> outcome" where
  "hash_outcome runId proof =
     (if equal_proof proof then advance (Some (JObj [(''equal'', JBool True)]))
      else terminal (Some (JObj [(''equal'', JBool False)]))
        (worker_issue RootCauseIssue ''Hash proof reported a canonical mismatch''
          ''created_hash equals recomputed_hash (proof.equal)'' ''Hash proof reported a canonical mismatch''
          [created_hash proof] ''Investigate canonical serialization drift before promoting the build'' runId))"

definition build_outcome :: "string \<Rightarrow> BuilderWorkflowResult \<Rightarrow> outcome" where
  "build_outcome runId b = (let result = TestResult_str (sx_result (bw_result b)) in
     if sx_result (bw_result b) = Passed then advance (Some (JObj [(''result'', JStr ''Passed'')]))
     else terminal (Some (JObj [(''result'', JStr result)]))
       (worker_issue RootCauseIssue ''Build verification failed'' ''Sandbox build verifies against the canonical hash''
         (''Build result: '' @ result) [] ''Address the build failure and rerun the pipeline'' runId))"

definition recovered_outcome :: "BuilderWorkflowResult \<Rightarrow> outcome" where
  "recovered_outcome b = (let result = TestResult_str (sx_result (bw_result b)) in
     if sx_result (bw_result b) = Passed
     then advance (Some (JObj [(''result'', JStr ''Passed''), (''recovered'', JBool True)]))
     else terminal (Some (JObj [(''result'', JStr result), (''recovered'', JBool True)]))
       (worker_issue RootCauseIssue ''Recovered failed Builder evidence'' ''Sandbox build passes'' result []
         ''Correct the sandbox build failure'' ''Builder''))"

definition uncertain_outcome :: outcome where
  "uncertain_outcome = terminal (Some (JObj [(''recovered'', JBool False)]))
     (worker_issue RootCauseIssue ''Builder execution outcome is uncertain'' ''Committed immutable Builder evidence''
       ''Execution intent exists without committed evidence'' []
       ''Inspect the sandbox execution and start a new run'' ''Builder intent recovery'')"

text \<open>\<open>buildResult.hash_sandbox ?? buildResult.evidence?.hash_sandbox\<close>.\<close>

fun built_hash :: "SandboxExecutionResult \<Rightarrow> string option" where
  "built_hash (SandboxPassed r) = Some (hash_sandbox r)"
| "built_hash (SandboxRootCause r) = map_option ex_hash_sandbox (sr_evidence r)"

definition proof_json :: "HashProof \<Rightarrow> json" where
  "proof_json p = JObj [(''canonicalization_id'', JStr (canonicalization_id p)), (''algorithm'', JStr (algorithm p)),
     (''created_hash'', JStr (created_hash p)), (''recomputed_hash'', JStr (recomputed_hash p)),
     (''equal'', JBool (equal_proof p))]"

definition finalize_outcome :: "HashProof \<Rightarrow> BuilderWorkflowResult \<Rightarrow> outcome" where
  "finalize_outcome proof b = (let sandboxHash = built_hash (bw_result b) in
     if sx_result (bw_result b) \<noteq> Passed \<or> sandboxHash \<noteq> Some (created_hash proof)
     then terminal (Some (JObj [(''finalized'', JBool False)]))
       (worker_issue RootCauseIssue ''Finalize hash verification failed'' (created_hash proof)
         (or_else sandboxHash ''sandbox hash missing'') [] ''Preserve and compare Builder sandbox hash evidence'' ''Finalize'')
     else advance (Some (JObj [(''finalized'', JBool True), (''hash_proof'', proof_json proof)])))"

section \<open>The execution of a stage\<close>

text \<open>
  The builder runs for the execution that records the run's builder intent; every later one
  only looks for the evidence that was left.
\<close>

definition execute_build ::
  "'w redis_client \<Rightarrow> job_context \<Rightarrow> 'w PipelineContext \<Rightarrow> 'w StageServices \<Rightarrow> 'w progress \<Rightarrow> ('w, js_error, outcome) eff" where
  "execute_build R jc ctx sv progress = bindM (recordBuilderIntent R (jc_now_iso jc) (px_runId ctx)) (\<lambda>firstExecution.
     if \<not> firstExecution
     then try_catch (bindM (ctx_load as_build ctx ''build_result'') (\<lambda>b. returnM (recovered_outcome b)))
       (\<lambda>_. returnM uncertain_outcome)
     else thenM (runBuildStage ctx sv progress)
       (bindM (ctx_load as_build ctx ''build_result'') (\<lambda>b. returnM (build_outcome (px_runId ctx) b))))"

definition execute_finalize ::
  "'w redis_client \<Rightarrow> 'w PipelineContext \<Rightarrow> 'w StageServices \<Rightarrow> 'w progress \<Rightarrow> ('w, js_error, outcome) eff" where
  "execute_finalize R ctx sv progress = bindM (loadFinalizationIntent R (px_runId ctx)) (\<lambda>intent.
     thenM (runFinalizeStage ctx sv progress)
       (let verified = bindM (loadHashProof ctx) (\<lambda>p. bindM (ctx_load as_build ctx ''build_result'') (\<lambda>b.
             returnM (finalize_outcome p b)))
        in case intent of
          None \<Rightarrow> verified
        | Some i \<Rightarrow> if fi_test_result i = Failed
            then returnM (terminal (Some (JObj [(''finalized'', JBool True)])) (fi_issue i)) else verified))"

definition execute_stage ::
  "'w redis_client \<Rightarrow> job_context \<Rightarrow> 'w PipelineContext \<Rightarrow> 'w StageServices \<Rightarrow> 'w progress \<Rightarrow> PipelineStage \<Rightarrow>
     ('w, js_error, outcome) eff" where
  "execute_stage R jc ctx sv progress stage = (case stage of
       TripleValidationStage \<Rightarrow> thenM (runTripleValidationStage ctx sv progress)
         (bindM (loadTripleValidation ctx) (\<lambda>t. returnM (triple_outcome (px_runId ctx) t)))
     | HashStage \<Rightarrow> thenM (runHashStage ctx sv progress)
         (bindM (loadHashProof ctx) (\<lambda>p. returnM (hash_outcome (px_runId ctx) p)))
     | Build \<Rightarrow> execute_build R jc ctx sv progress
     | Finalize \<Rightarrow> execute_finalize R ctx sv progress
     | _ \<Rightarrow> thenM (stage_body stage ctx sv progress) (returnM (advance None)))"

definition execute ::
  "'w redis_client \<Rightarrow> job_context \<Rightarrow> 'w PipelineContext \<Rightarrow> 'w StageServices \<Rightarrow> 'w progress \<Rightarrow> StageIdentity \<Rightarrow>
     ('w, js_error, outcome) eff" where
  "execute R jc ctx sv progress idn =
     bindM (shouldInjectRefine R (jc_env jc) (si_runId idn) (stage_str (si_stage idn)) (si_iteration idn)) (\<lambda>inject.
       if inject then returnM (injected_refine (si_runId idn))
       else execute_stage R jc ctx sv progress (si_stage idn))"

section \<open>The job\<close>

record worker_job =
  wj_name :: PipelineStage
  wj_version :: rat
  wj_runId :: string
  wj_stage :: PipelineStage
  wj_iteration :: rat

definition valid_payload :: "worker_job \<Rightarrow> bool" where
  "valid_payload job \<longleftrightarrow> wj_version job = 2 \<and> wj_runId job \<noteq> '''' \<and> wj_stage job = wj_name job \<and>
     of_int \<lfloor>wj_iteration job\<rfloor> = wj_iteration job \<and> wj_iteration job \<ge> 0"

definition requestedIteration :: "worker_job \<Rightarrow> nat" where
  "requestedIteration job = nat \<lfloor>wj_iteration job\<rfloor>"

definition job_identity :: "worker_job \<Rightarrow> StageIdentity" where
  "job_identity job = \<lparr>si_runId = wj_runId job, si_stage = wj_name job,
     si_iteration = (if wj_name job = Researcher then requestedIteration job
       else stageIteration (wj_name job) (requestedIteration job))\<rparr>"

definition job_progress :: "'w progress \<Rightarrow> worker_job \<Rightarrow> 'w progress" where
  "job_progress updateProgress job value = updateProgress (value\<lparr>sg_runId := Some (wj_runId job),
     sg_iteration := Some (stageIteration (wj_name job) (requestedIteration job))\<rparr>)"

definition job_ctx :: "'w pipeline_run \<Rightarrow> ('w \<Rightarrow> string) \<Rightarrow> worker_job \<Rightarrow> 'w PipelineContext" where
  "job_ctx S clock job = \<lparr>px_runId = wj_runId job, px_services = S, px_clock = clock,
     px_stageIteration = requestedIteration job\<rparr>"

text \<open>\<open>job.updateProgress\<close> is the queue library's.\<close>

definition job_execute ::
  "'w redis_client \<Rightarrow> 'w pipeline_run \<Rightarrow> ('w \<Rightarrow> string) \<Rightarrow> job_context \<Rightarrow> 'w StageServices \<Rightarrow> 'w progress \<Rightarrow> worker_job \<Rightarrow>
     ('w, js_error, outcome) eff" where
  "job_execute R S clock jc sv updateProgress job =
     execute R jc (job_ctx S clock job) sv (job_progress updateProgress job) (job_identity job)"

definition pipeline_worker ::
  "'w redis_client \<Rightarrow> 'w queue_client \<Rightarrow> 'w pipeline_run \<Rightarrow> ('w \<Rightarrow> string) \<Rightarrow> job_context \<Rightarrow> ('w \<Rightarrow> bool) \<Rightarrow> 'w StageServices \<Rightarrow>
     'w progress \<Rightarrow> worker_job \<Rightarrow> ('w, js_error, bool \<times> PipelineTransition) eff" where
  "pipeline_worker R Q S clock jc lost sv updateProgress job =
     (if \<not> valid_payload job then throwM (JsError ''Invalid version-2 pipeline job payload'')
      else process_job R Q (createTransitionServices R jc S) jc lost (job_identity job)
        (job_execute R S clock jc sv updateProgress job))"

section \<open>What an execution leaves alone\<close>

lemma keepsM_lift_fs: "keepsM P m \<Longrightarrow> keepsM P (lift_fs m)"
  by (fastforce simp: keepsM_def lift_fs_def split: prod.splits sum.splits)

lemma context_frame:
  assumes "run_leaves f S" and "px_services ctx = S"
  shows "context_keeps (\<lambda>w. f w = g) ctx"
proof -
  note l = assms(1) [unfolded run_leaves_def leaves_keepsM]
  show ?thesis
    unfolding context_keeps_def assms(2)
  proof (intro conjI allI impI)
    fix n v
    show "keepsM (\<lambda>w. f w = g) (ctx_save ctx n v)"
      unfolding ctx_save_def saveArtifact_def assms(2) using l by (auto intro!: keepsM_intros keepsM_lift_fs)
  qed (use l in \<open>auto simp: requireSnapshot_def svc_require_def build_open_def build_create_def build_existing_def build_get_def
      requireApproved_def optional_def loadOptionalArtifact_def assms(2)
      intro!: keepsM_intros keepsM_catch keepsM_lift_fs split: option.split artifact.split\<close>)
qed

lemma view_keeps:
  assumes "\<And>g. context_keeps (\<lambda>w. f w = g) ctx" and "\<And>w w'. f w' = f w \<Longrightarrow> P w \<Longrightarrow> P w'"
  shows "context_keeps P ctx"
  using assms(1) unfolding context_keeps_def by (intro conjI allI impI) (rule keepsM_view [of f]; use assms(2) in blast)+

lemma ctx_load_keeps:
  assumes "context_keeps P ctx"
  shows "keepsM P (ctx_load sel ctx n)"
  using assms unfolding ctx_load_def load_as_def context_keeps_def by (auto intro!: keepsM_intros)

text \<open>
  What an execution keeps: the build stage apart, what the store's commands, the stages and
  the loads keep.
\<close>

lemma execute_keeps:
  assumes c: "context_keeps P ctx" and a: "agents_keep P sv" and pr: "\<And>x. keepsM P (progress x)"
    and inj: "keepsM P (shouldInjectRefine R (jc_env jc) (si_runId i) (stage_str (si_stage i)) (si_iteration i))"
    and get: "\<And>k. keepsM P (r_get R k)" and b: "keepsM P (execute_build R jc ctx sv progress)"
  shows "keepsM P (execute R jc ctx sv progress i)"
proof -
  have body: "keepsM P (stage_body st ctx sv progress)" if "st \<noteq> Build" for st
  proof -
    have "keepsM P (stage_body st ctx (sv\<lparr>ss_builder := \<lambda>p h. throwM type_error\<rparr>) progress)"
      by (rule stage_keeps [OF c _ pr]) (use a in \<open>auto simp: agents_keep_def\<close>)
    moreover have "stage_body st ctx (sv\<lparr>ss_builder := x\<rparr>) progress = stage_body st ctx sv progress" for x
      using that by (cases st) (simp_all add: runResearcherStage_def runPlannerStage_def runRefactorStage_def
          runGapAnalysisStage_def runEvaluationStage_def runPythonEvaluationCanary_def runTripleValidationStage_def
          runConfirmationStage_def runHashStage_def runFinalizeStage_def)
    ultimately show ?thesis by simp
  qed
  have plain_stage: "keepsM P (thenM (stage_body st ctx sv progress) m)" if "st \<noteq> Build" "keepsM P m" for st m
    using that by (intro keepsM_then body)
  note load = ctx_load_keeps [OF c] and bodies = body [of TripleValidationStage, simplified] body [of HashStage, simplified]
    body [of Finalize, simplified]
  have fin: "keepsM P (execute_finalize R ctx sv progress)"
    unfolding execute_finalize_def loadFinalizationIntent_def Let_def loadHashProof_def
    by (intro keepsM_intros get load bodies)
  have "keepsM P (execute_stage R jc ctx sv progress (si_stage i))"
    unfolding execute_stage_def loadTripleValidation_def loadHashProof_def
    by (cases "si_stage i"; simp only: PipelineStage.case)
      (intro keepsM_then keepsM_bind keepsM_return body load bodies b fin; simp)+
  then show ?thesis unfolding execute_def by (intro keepsM_intros inj)
qed

lemma execute_build_keeps:
  assumes c: "context_keeps P ctx" and a: "agents_keep P sv" and pr: "\<And>x. keepsM P (progress x)"
    and b: "\<And>p h. keepsM P (ss_builder sv p h)"
    and rec: "keepsM P (recordBuilderIntent R (jc_now_iso jc) (px_runId ctx))"
  shows "keepsM P (execute_build R jc ctx sv progress)"
  unfolding execute_build_def
  by (intro keepsM_intros rec ctx_load_keeps [OF c] stage_keeps [where stage = Build, OF c a pr b, simplified])

section \<open>The real worker is an agent of the job\<close>

lemma only_changes_keepsM:
  "only_changes v K m \<longleftrightarrow> (\<forall>g. keepsM (\<lambda>w. \<forall>k. k \<notin> K \<longrightarrow> v w k = g k) m)"
  by (auto simp: only_changes_def keepsM_def) (metis prod.collapse snd_conv)+

context pipeline_world
begin

lemma context_redis:
  assumes "px_services ctx = S" and "\<And>w w'. kv w' = kv w \<Longrightarrow> jobs w' = jobs w \<Longrightarrow> P w \<Longrightarrow> P w'"
  shows "context_keeps P ctx"
  by (rule view_keeps [of "\<lambda>w. (kv w, jobs w)"], rule context_frame [OF runs_leave_redis assms(1)]) (use assms(2) in auto)

lemma execute_local:
  assumes c: "px_services ctx = S" and a: "agents_leave (\<lambda>w. (kv w, jobs w)) sv progress"
  shows "agent_local kv jobs idn (execute R jc ctx sv progress i)"
proof -
  have keeps: "keepsM P (execute R jc ctx sv progress i)"
    if P: "\<And>w w'. kv w' = kv w \<Longrightarrow> jobs w' = jobs w \<Longrightarrow> P w \<Longrightarrow> P w'"
      and inj: "keepsM P (shouldInjectRefine R (jc_env jc) (si_runId i) (stage_str (si_stage i)) (si_iteration i))"
      and get: "\<And>k. keepsM P (r_get R k)" and rec: "keepsM P (recordBuilderIntent R (jc_now_iso jc) (px_runId ctx))" for P
  proof -
    have p: "(kv w', jobs w') = (kv w, jobs w) \<Longrightarrow> P w \<Longrightarrow> P w'" for w w' by (rule P) simp_all
    note k = context_redis [OF c P] agents_leave_keep(1,2) [OF a p]
    show ?thesis
      by (rule execute_keeps [OF k inj get execute_build_keeps [OF k agents_leave_keep(3) [OF a p] rec]])
  qed
  have kvK: "only_changes kv K (execute R jc ctx sv progress i)"
    if K: "fam {''consumed'', ''crash-consumed''} \<subseteq> K" "builderIntentKey (px_runId ctx) \<in> K" for K
    unfolding only_changes_keepsM
  proof (intro allI keeps)
    fix g
    let ?P = "\<lambda>w. \<forall>k. k \<notin> K \<longrightarrow> kv w k = g k"
    have "only_changes kv K (shouldInjectRefine R e r s n)" "only_changes kv K (r_get R k)"
      "only_changes kv K (recordBuilderIntent R t (px_runId ctx))" for e r s n k t
      unfolding recordBuilderIntent_def
      by (rule only_changes_mono [OF fault_changes(3) [OF subset_refl] K(1)], rule op_changes, rule op_changes, rule K(2))
    then show "keepsM ?P (shouldInjectRefine R (jc_env jc) (si_runId i) (stage_str (si_stage i)) (si_iteration i))"
      "keepsM ?P (r_get R k)" "keepsM ?P (recordBuilderIntent R (jc_now_iso jc) (px_runId ctx))" for k
      unfolding only_changes_keepsM by blast+
  qed auto
  have "only_changes jobs {} (execute R jc ctx sv progress i)"
    unfolding only_changes_keepsM
  proof (intro allI keeps)
    fix g
    have "only_changes jobs {} (shouldInjectRefine R e r s n)" "only_changes jobs {} (recordBuilderIntent R t r)" for e r s n t
      unfolding recordBuilderIntent_def shouldInjectRefine_def by (intro only_changes_intros jobs_frames)+
    then show "keepsM (\<lambda>w. \<forall>k. k \<notin> {} \<longrightarrow> jobs w k = g k)
        (shouldInjectRefine R (jc_env jc) (si_runId i) (stage_str (si_stage i)) (si_iteration i))"
      "keepsM (\<lambda>w. \<forall>k. k \<notin> {} \<longrightarrow> jobs w k = g k) (r_get R k)"
      "keepsM (\<lambda>w. \<forall>k. k \<notin> {} \<longrightarrow> jobs w k = g k) (recordBuilderIntent R (jc_now_iso jc) (px_runId ctx))" for k
      using jobs_frames(1) [of k] unfolding only_changes_keepsM by blast+
  qed auto
  moreover have "only_changes kv (- ckpt_keys) (execute R jc ctx sv progress i)"
    by (rule kvK) (auto simp: ckpt_keys_def fam_def key_last_seg)
  moreover have "only_changes kv (- {transitionKey idn}) (execute R jc ctx sv progress i)"
  proof (rule kvK)
    have "builderIntentKey (px_runId ctx) \<noteq> transitionKey idn" by (rule last_seg_neq, simp add: key_last_seg)
    then show "builderIntentKey (px_runId ctx) \<in> - {transitionKey idn}" by simp
  qed (auto simp: fam_def key_last_seg)
  ultimately show ?thesis by (simp add: agent_local_def spares_checkpoints_def)
qed

end

text \<open>
  C12.  A job of the worker, with the stages, the services and the agents that the worker
  is given: delivered any number of times, failing or crashing at any point, until it
  completes, it leaves one outcome that the execution of its stage returned, a committed
  transition, and exactly the job of the stage this outcome leads to.
\<close>

theorem worker_job_exactly_once:
  assumes "pipeline_world R kv Q jobs S view recs"
    and "agents_leave (\<lambda>w. (kv w, jobs w)) sv (job_progress updateProgress job)"
    and "kv w (executedKey (job_identity job)) \<noteq> Some (RText ''1'')" and "\<not> committed (kv w) (job_identity job)"
    and "delivered (pipeline_worker R Q S clock jc lost sv updateProgress job) w w'"
  shows "valid_payload job \<and> committed (kv w') (job_identity job) \<and> kv w' (executedKey (job_identity job)) = Some (RText ''1'') \<and>
    (\<exists>out v v'. job_execute R S clock jc sv updateProgress job v = (Inr out, v') \<and>
      kv w' (outcomeKey (job_identity job)) = Some (RJson (DOutcome out)) \<and>
      (case resolveTransition (wj_name job) out (si_iteration (job_identity job)) of
         TNext s i fin \<Rightarrow> jobs w' = job_added (wj_runId job) s i (jobs w)
       | _ \<Rightarrow> True))"
proof -
  have valid: "valid_payload job"
    using assms(5) by (induction rule: delivered.induct) (auto simp: pipeline_worker_def throwM_apply split: if_splits)
  have "services_spare kv (createTransitionServices R jc S)"
    by (rule pipeline_world.worker_services_spare [OF assms(1)])
  moreover have "agent_local kv jobs (job_identity job) (job_execute R S clock jc sv updateProgress job)"
    unfolding job_execute_def by (rule pipeline_world.execute_local [OF assms(1) _ assms(2)]) (simp add: job_ctx_def)
  moreover have "delivered (process_job R Q (createTransitionServices R jc S) jc lost (job_identity job)
      (job_execute R S clock jc sv updateProgress job)) w w'"
    using assms(5) valid by (simp add: pipeline_worker_def)
  moreover have "si_runId (job_identity job) = wj_runId job" "si_stage (job_identity job) = wj_name job"
    by (simp_all add: job_identity_def)
  ultimately show ?thesis
    using stage_job_exactly_once [OF pipeline_world.axioms(1) [OF assms(1)] _ _ assms(3,4)] valid by metis
qed

section \<open>The builder runs once\<close>

text \<open>What every step of a job keeps, the whole job keeps.\<close>

lemma keepsM_finally: "keepsM P m \<Longrightarrow> keepsM P f \<Longrightarrow> keepsM P (try_finally m f)"
  by (fastforce simp: keepsM_def try_finally_apply split: prod.splits sum.splits if_splits)

lemma keepsM_runStage:
  assumes get: "\<And>k. keepsM P (r_get R k)" and hist: "\<And>ev. keepsM P (in_history inp ev)" and ex: "keepsM P (in_execute inp)"
    and save: "\<And>i out ls. keepsM P (saveExecution R i out ls)"
    and fa: "\<And>f r s i. in_faults inp = Some f \<Longrightarrow> keepsM P (sf_apply f r s i)"
    and fc: "\<And>f g r s i. in_faults inp = Some f \<Longrightarrow> sf_applyAfterCheckpoint f = Some g \<Longrightarrow> keepsM P (g r s i)"
    and mc: "\<And>m. in_markCompleted inp = Some m \<Longrightarrow> keepsM P m"
    and acq: "\<And>l r s. in_lock inp = Some l \<Longrightarrow> keepsM P (lk_acquire l r s)"
    and rel: "\<And>l r s t. in_lock inp = Some l \<Longrightarrow> keepsM P (lk_release l r s t)"
  shows "keepsM P (runStage R inp)"
proof -
  have log: "keepsM P (stage_log inp ty msg)" for ty msg
    unfolding stage_log_def by (intro keepsM_intros hist)
  have opt: "(\<And>x. m = Some x \<Longrightarrow> keepsM P x) \<Longrightarrow> keepsM P (opt_unit m)" for m :: "('a, js_error, unit) eff option"
    by (cases m) (auto simp: opt_unit_def)
  have load: "keepsM P (loadPersistedOutcome R inp)"
    unfolding loadPersistedOutcome_def isExecuted_def loadOutcome_def by (intro keepsM_intros get log)
  have exec: "keepsM P (executeStage R inp token)" for token
    unfolding executeStage_def Let_def
    by (intro keepsM_intros log save opt ex) (auto intro: fa fc mc split: option.splits)
  have guarded: "keepsM P (guardedStage R inp token)" for token
    unfolding guardedStage_def
    by (intro keepsM_finally keepsM_try keepsM_then keepsM_throw exec log)
      (auto intro!: keepsM_bind keepsM_return rel split: option.split)
  show ?thesis
  proof (cases "in_lock inp")
    case (Some lock)
    show ?thesis unfolding runStage_def Some option.case
      by (intro keepsM_intros load guarded acq [OF Some])
  next
    case None
    show ?thesis unfolding runStage_def None option.case by (intro keepsM_intros load guarded)
  qed
qed

text \<open>
  \<open>recorded_stable kv r calls P\<close>: \<open>P\<close> stays under steps that leave the count of builder calls
  alone and do not remove the run's builder intent.
\<close>

definition recorded_stable :: "('w \<Rightarrow> kvstore) \<Rightarrow> string \<Rightarrow> ('w \<Rightarrow> nat) \<Rightarrow> ('w \<Rightarrow> bool) \<Rightarrow> bool" where
  "recorded_stable kv r calls P \<longleftrightarrow> (\<forall>w w'. P w \<longrightarrow> calls w' = calls w \<longrightarrow>
     (kv w (builderIntentKey r) \<noteq> None \<longrightarrow> kv w' (builderIntentKey r) \<noteq> None) \<longrightarrow> P w')"

context pipeline_world
begin

lemma stable_keeps:
  assumes "recorded_stable kv r calls P" and "leaves calls m"
    and "\<And>w x w'. m w = (x, w') \<Longrightarrow> kv w (builderIntentKey r) \<noteq> None \<Longrightarrow> kv w' (builderIntentKey r) \<noteq> None"
  shows "keepsM P m"
  unfolding keepsM_def
proof (intro allI impI)
  fix w assume "P w"
  obtain x w' where m: "m w = (x, w')" by fastforce
  with assms(1) \<open>P w\<close> leavesD [OF assms(2) m] assms(3) [OF m] show "P (snd (m w))"
    unfolding recorded_stable_def by simp
qed

lemma stable_redis:
  assumes s: "recorded_stable kv r calls P" and l: "redis_leaves calls R"
  shows "keepsM P (r_get R k)" "keepsM P (r_set R k x ttl)" "keepsM P (r_set_nx R k x t)" "keepsM P (r_xadd R k fs)"
    "keepsM P (r_exists R k)" "(\<And>m. m (builderIntentKey r) \<noteq> None \<Longrightarrow> snd (f m) (builderIntentKey r) \<noteq> None) \<Longrightarrow> keepsM P (r_eval R f)"
proof -
  note u = l [unfolded redis_leaves_def]
  show "keepsM P (r_get R k)" by (rule stable_keeps [OF s]) (use u in \<open>auto dest: get_kv\<close>)
  show "keepsM P (r_set R k x ttl)" by (rule stable_keeps [OF s]) (use u in \<open>auto dest!: set_dom\<close>)
  show "keepsM P (r_xadd R k fs)" by (rule stable_keeps [OF s]) (use u in \<open>auto dest: xadd_kv\<close>)
  have "r_exists R k w = (y, w') \<Longrightarrow> kv w' = kv w" for w y w'
    by (cases y) (auto dest: exists_ok exists_err)
  with u show "keepsM P (r_exists R k)" by (intro stable_keeps [OF s]) auto
  show "keepsM P (r_set_nx R k x t)"
  proof (rule stable_keeps [OF s])
    fix w y w' assume "r_set_nx R k x t w = (y, w')" "kv w (builderIntentKey r) \<noteq> None"
    then show "kv w' (builderIntentKey r) \<noteq> None" by (cases y) (auto dest!: set_nx_ok set_nx_err split: if_splits)
  qed (use u in auto)
  assume f: "\<And>m. m (builderIntentKey r) \<noteq> None \<Longrightarrow> snd (f m) (builderIntentKey r) \<noteq> None"
  show "keepsM P (r_eval R f)"
  proof (rule stable_keeps [OF s])
    fix w y w' assume e: "r_eval R f w = (y, w')" "kv w (builderIntentKey r) \<noteq> None"
    then show "kv w' (builderIntentKey r) \<noteq> None"
      using f [of "kv w"] by (cases y) (auto dest!: eval_ok eval_err dest: arg_cong [of _ _ snd])
  qed (use u in auto)
qed

end

text \<open>The commands of a job around its execution.\<close>

context pipeline_world
begin

lemma stable_runs:
  assumes s: "recorded_stable kv r calls P" and l: "run_leaves calls S"
  shows "keepsM P (svc_get S r')" "keepsM P (svc_finish S r' fi)" "keepsM P (svc_emit S r' p st d)"
    "keepsM P (lift_fs (as_load (svc_store S) r' n))"
    "px_services ctx = S \<Longrightarrow> context_keeps P ctx"
proof -
  note u = l [unfolded run_leaves_def] runs_leave_redis [unfolded run_leaves_def leaves_def]
  show "keepsM P (svc_get S r')" "keepsM P (svc_finish S r' fi)" "keepsM P (svc_emit S r' p st d)"
    by (rule stable_keeps [OF s]; use u in fastforce)+
  have "keepsM P (as_load (svc_store S) r' n)"
    by (rule stable_keeps [OF s]) (use u in fastforce)+
  then show "keepsM P (lift_fs (as_load (svc_store S) r' n))" by (rule keepsM_lift_fs)
  assume c: "px_services ctx = S"
  have both: "run_leaves (\<lambda>w. ((kv w, jobs w), calls w)) S"
    using runs_leave_redis l unfolding run_leaves_def leaves_def by simp
  show "context_keeps P ctx"
    by (rule view_keeps [OF context_frame [OF both c]]) (use s in \<open>auto simp: recorded_stable_def\<close>)
qed

lemma stable_transition:
  assumes s: "recorded_stable kv r calls P" and l: "redis_leaves calls R" "run_leaves calls S"
    and q: "\<And>n d j. leaves calls (q_add Q n d j)"
  shows "keepsM P (applyTransition R Q (createTransitionServices R jc S) idn tr)"
proof -
  note rd = stable_redis(1-5) [OF s l(1)] and ru = stable_runs(1-4) [OF s l(2)]
  have add: "keepsM P (q_add Q n d j)" for n d j
    by (rule stable_keeps [OF s q]) (auto dest: add_kv)
  have hist: "keepsM P (append_history R jc r' st ty m)" for r' st ty m
    unfolding append_history_def history_append_def by (intro keepsM_intros rd)
  have fin: "keepsM P (finish_run R S r' res iss)" for r' res iss
    unfolding finish_run_def agreed_issue_def settle_run_def optional_proof_def load_as_def getTerminalState_def
      getTerminalIssue_def markTerminalPending_def markTerminalCommitted_def
    by (intro keepsM_intros rd ru)
  have sv: "keepsM P (ts_waitForHuman (createTransitionServices R jc S) r')"
    "ts_waitForBuild (createTransitionServices R jc S) = Some (waitForBuild R jc S)" "keepsM P (waitForBuild R jc S r')"
    "keepsM P (ts_finish (createTransitionServices R jc S) r' res iss)" for r' res iss
    by (auto simp: createTransitionServices_def waitForHuman_def waitForBuild_def intro!: keepsM_intros hist ru fin)
  have "keepsM P (transition_effect R Q (createTransitionServices R jc S) idn tr)"
    unfolding transition_effect_def saveFinalizationIntent_def
    by (auto simp: sv(2) split: PipelineTransition.split intro!: keepsM_intros add rd sv(1,3,4))
  then show ?thesis
    unfolding applyTransition_def getTransitionState_def markTransitionPending_def markTransitionCommitted_def
    by (intro keepsM_intros rd)
qed

lemma stable_faults:
  assumes s: "recorded_stable kv r calls P" and l: "redis_leaves calls R"
  shows "keepsM P (apply_fault R env r' st i)" "keepsM P (applyAfterCheckpoint R env r' st i)"
    "keepsM P (shouldInjectRefine R env r' st i)"
proof -
  note rd = stable_redis(1-5) [OF s l]
  have fire: "fire R r' st mode = Some m \<Longrightarrow> keepsM P m" for mode m
    by (auto simp: fire_def split: if_splits intro!: keepsM_intros rd)
  have "keepsM P (apply_faults R cs r' st i)" for cs
    by (induction cs) (auto split: option.split intro: fire)
  then show "keepsM P (apply_fault R env r' st i)" by (simp add: apply_fault_def)
  show "keepsM P (applyAfterCheckpoint R env r' st i)" "keepsM P (shouldInjectRefine R env r' st i)"
    unfolding applyAfterCheckpoint_def shouldInjectRefine_def by (intro keepsM_intros rd)+
qed

lemma stable_job:
  assumes s: "recorded_stable kv r calls P" and l: "redis_leaves calls R" "run_leaves calls S"
    and q: "\<And>n d j. leaves calls (q_add Q n d j)" and ex: "keepsM P exec"
  shows "keepsM P (process_job R Q (createTransitionServices R jc S) jc lost idn exec)"
proof -
  note rd = stable_redis [OF s l(1)]
  have hist: "keepsM P (history_append R t u ev)" for t u ev
    unfolding history_append_def by (intro keepsM_intros rd(1-5))
  have lock: "builderIntentKey r \<noteq> lockKey r' s'" for r' s'
    by (rule last_seg_neq) (simp add: stage_simps)
  have save: "keepsM P (saveExecution R i out ls)" for i out ls
    unfolding saveExecution_def SAVE_EXECUTION_SCRIPT_def
    by (intro keepsM_intros rd(6)) (auto split: if_splits)
  have "keepsM P (runStage R (worker_input R jc lost idn exec))"
    by (rule keepsM_runStage)
      (auto simp: worker_input_def idempotencyLock_def faultInjector_def idem_defs lock
       
        intro!: rd(1-5) hist save ex stable_faults [OF s l(1)] keepsM_intros rd(6) split: if_splits)
  then show ?thesis
    unfolding process_job_def Let_def by (intro keepsM_intros stable_transition [OF s l q])
qed

end

text \<open>
  One use of the builder: before it a first property holds, after it a second, which the
  first implies.
\<close>

definition leadsM :: "('s \<Rightarrow> bool) \<Rightarrow> ('s \<Rightarrow> bool) \<Rightarrow> ('s, 'e, 'a) eff \<Rightarrow> bool" where
  "leadsM P Q m \<longleftrightarrow> (\<forall>s. P s \<longrightarrow> Q (snd (m s)))"

lemma leadsM_rules:
  assumes PQ: "\<forall>s. P s \<longrightarrow> Q s"
  shows "keepsM P m \<Longrightarrow> (\<And>x. leadsM P Q (f x)) \<Longrightarrow> leadsM P Q (bindM m f)"
    and "keepsM P m' \<Longrightarrow> leadsM P Q n \<Longrightarrow> leadsM P Q (thenM m' n)"
    and "leadsM P Q (throwM e)"
    and "(b \<Longrightarrow> leadsM P Q u) \<Longrightarrow> (\<not> b \<Longrightarrow> leadsM P Q v) \<Longrightarrow> leadsM P Q (if b then u else v)"
    and "leadsM P Q p \<Longrightarrow> (\<And>x. keepsM Q (g x)) \<Longrightarrow> leadsM P Q (bindM p g)"
  by (fastforce simp: keepsM_def leadsM_def eff_simps PQ split: prod.splits sum.splits)+

text \<open>
  What is assumed of the services of a job: only the builder touches the count, by at most
  one a call, and none touches the store.
\<close>

definition builder_counted :: "('w \<Rightarrow> kvstore) \<Rightarrow> ('w \<Rightarrow> nat) \<Rightarrow> 'w StageServices \<Rightarrow> 'w progress \<Rightarrow> bool" where
  "builder_counted kv calls sv progress \<longleftrightarrow>
     agents_leave (\<lambda>w. (kv w, calls w)) (sv\<lparr>ss_builder := \<lambda>p h. throwM type_error\<rparr>) progress \<and>
     (\<forall>p h w x w'. ss_builder sv p h w = (x, w') \<longrightarrow> kv w' = kv w \<and> calls w' \<le> Suc (calls w))"

context pipeline_world
begin

lemma builder_step:
  assumes c: "px_services ctx = S" and l: "redis_leaves calls R" "run_leaves calls S"
    and a: "builder_counted kv calls sv progress"
  shows "keepsM (\<lambda>w. calls w \<le> n \<and> kv w (builderIntentKey (px_runId ctx)) \<noteq> None) (execute_build R jc ctx sv progress)"
    and "keepsM (\<lambda>w. calls w \<le> n \<or> kv w (builderIntentKey (px_runId ctx)) \<noteq> None \<and> calls w \<le> Suc n) (execute_build R jc ctx sv progress)"
proof -
  let ?r = "px_runId ctx" and ?load = "bindM (ctx_load as_build ctx ''build_result'')"
  let ?P = "\<lambda>w. calls w \<le> n \<and> kv w (builderIntentKey ?r) \<noteq> None"
  let ?Q = "\<lambda>w. kv w (builderIntentKey ?r) \<noteq> None \<and> calls w \<le> Suc n"
  let ?A = "\<lambda>w. calls w \<le> n \<or> ?Q w"
  have st: "recorded_stable kv ?r calls ?P" "recorded_stable kv ?r calls ?Q" "recorded_stable kv ?r calls ?A"
    by (auto simp: recorded_stable_def)
  note ctx = stable_runs(5) [OF st(1) l(2) c] stable_runs(5) [OF st(2) l(2) c] stable_runs(5) [OF st(3) l(2) c]
  have ag: "agents_keep P (sv\<lparr>ss_builder := b\<rparr>) \<longleftrightarrow> agents_keep P sv" for P b by (simp add: agents_keep_def)
  note free = agents_leave_keep(1,2) [OF a [unfolded builder_counted_def, THEN conjunct1], unfolded ag]
  have pr: "keepsM ?P (progress x)" "keepsM ?Q (progress x)" "agents_keep ?P sv" "agents_keep ?Q sv" for x
    by (rule free; auto)+
  have used: "leadsM ?P ?Q (ss_builder sv p h)" for p h
    using a unfolding builder_counted_def leadsM_def by (metis Suc_le_mono order_trans prod.collapse)
  have kp1: "keepsM ?P (svc_emit (px_services ctx) ?r p s d)" "keepsM ?P (requireApproved (svc_store (px_services ctx)) ?r q h)"
    for p s d q h using ctx(1) by (simp_all add: context_keeps_def)
  note kq = ctx(2) [unfolded context_keeps_def]
  have PQ: "\<forall>w. ?P w \<longrightarrow> ?Q w" by auto
  note L = leadsM_rules [where P = ?P and Q = ?Q, OF PQ]
  have build: "leadsM ?P ?Q (runBuildStage ctx sv progress)"
    unfolding runBuildStage_def reportProgress_def emitStage_def loadConfirmedPackage_def loadHashProof_def
  proof (rule L(2) [OF pr(1)], rule L(2) [OF kp1(1)], rule L(1) [OF ctx_load_keeps [OF ctx(1)]],
      rule L(1) [OF ctx_load_keeps [OF ctx(1)]], rule L(2) [OF kp1(2)], rule L(1) [OF agents_keep_runs(8) [OF pr(3)]],
      rule L(4), rule L(3), rule L(5) [OF used])
    fix pk pf h result
    show "keepsM ?Q (thenM (ctx_save ctx ''build_result'' (ArOther (PdBuild result)))
         (thenM (case deriveFileMutations (px_runId ctx) (bw_result result) of
             None \<Rightarrow> returnM () | Some m \<Rightarrow> ctx_save ctx ''file-mutations'' (ArOther (PdMutations m)))
         (thenM (svc_emit (px_services ctx) (px_runId ctx) (CANONICAL_NAME Build) ECompleted d)
           (progress y))))" for d y
      by (intro keepsM_intros pr) (use kq in \<open>simp_all add: gate_names_def\<close>)
  qed
  have later: "keepsM X (try_catch (?load (\<lambda>b. returnM (recovered_outcome b))) (\<lambda>_. returnM uncertain_outcome))"
    if "context_keeps X ctx" for X by (intro keepsM_intros ctx_load_keeps that)
  have first: "keepsM X (recordBuilderIntent R t ?r)" if "recorded_stable kv ?r calls X" for X t
    unfolding recordBuilderIntent_def by (rule stable_redis(3) [OF that l(1)])
  have rec: "calls w' = calls w" "b \<longleftrightarrow> kv w (builderIntentKey ?r) = None" "kv w' (builderIntentKey ?r) \<noteq> None"
    if "recordBuilderIntent R t ?r w = (Inr b, w')" for t w b w'
    using that l(1) by (auto simp: recordBuilderIntent_def redis_leaves_def leaves_def dest!: set_nx_ok split: if_splits)
  show "keepsM ?P (execute_build R jc ctx sv progress)"
    unfolding execute_build_def
    by (rule keepsM_bind_result [OF first [OF st(1)]]) (auto dest: rec(2) simp del: not_None_eq intro: later [OF ctx(1)])
  show "keepsM ?A (execute_build R jc ctx sv progress)"
    unfolding keepsM_def
  proof (intro allI impI)
    fix w assume A: "?A w"
    obtain y w1 where y: "recordBuilderIntent R (jc_now_iso jc) ?r w = (y, w1)" by fastforce
    with keepsMD [OF first [OF st(3)] A] have A1: "?A w1" by (metis snd_conv)
    show "?A (snd (execute_build R jc ctx sv progress w))"
    proof (cases "y = Inr True")
      case True
      with rec [of _ w True w1] y A have "?P w1" by auto
      with build have "leadsM ?P ?Q (thenM (runBuildStage ctx sv progress) (?load (\<lambda>b. returnM (build_outcome ?r b))))"
        unfolding thenM_def by (intro L(5) keepsM_intros ctx_load_keeps ctx(2))
      with \<open>?P w1\<close> True y show ?thesis unfolding leadsM_def by (auto simp: execute_build_def bindM_apply)
    next
      case False
      with y A1 keepsMD [OF later [OF ctx(3)] A1] show ?thesis
        by (cases y) (auto simp: execute_build_def bindM_apply)
    qed
  qed
qed

end

text \<open>
  The jobs of a run as its builder sees them: jobs of any stage with any payload, by any
  worker, with any services as above and any result, crashes included; between them
  anything happens that neither builds for the run nor removes its builder intent.
\<close>

inductive worker_reach ::
  "'w redis_client \<Rightarrow> 'w queue_client \<Rightarrow> 'w pipeline_run \<Rightarrow> ('w \<Rightarrow> kvstore) \<Rightarrow> ('w \<Rightarrow> nat) \<Rightarrow> string \<Rightarrow> 'w \<Rightarrow> 'w \<Rightarrow> bool"
  for R Q S kv calls r w0 where
  begun: "worker_reach R Q S kv calls r w0 w0"
| job: "worker_reach R Q S kv calls r w0 w \<Longrightarrow> wj_runId jb = r \<Longrightarrow> builder_counted kv calls sv (job_progress up jb) \<Longrightarrow>
    pipeline_worker R Q S clock jc lost sv up jb w = (x, w') \<Longrightarrow> worker_reach R Q S kv calls r w0 w'"
| others: "worker_reach R Q S kv calls r w0 w \<Longrightarrow> calls w' = calls w \<Longrightarrow>
    (kv w (builderIntentKey r) \<noteq> None \<longrightarrow> kv w' (builderIntentKey r) \<noteq> None) \<Longrightarrow> worker_reach R Q S kv calls r w0 w'"

context pipeline_world
begin

lemma worker_keeps:
  assumes s: "recorded_stable kv (wj_runId jb) calls P" and l: "redis_leaves calls R" "run_leaves calls S"
    and q: "\<And>n d j. leaves calls (q_add Q n d j)" and a: "builder_counted kv calls sv (job_progress up jb)"
    and b: "keepsM P (execute_build R jc (job_ctx S clock jb) sv (job_progress up jb))"
  shows "keepsM P (pipeline_worker R Q S clock jc lost sv up jb)"
proof -
  have c: "px_services (job_ctx S clock jb) = S" by (simp add: job_ctx_def)
  have ag: "agents_keep P (sv\<lparr>ss_builder := y\<rparr>) \<longleftrightarrow> agents_keep P sv" for y by (simp add: agents_keep_def)
  have p: "(kv w', calls w') = (kv w, calls w) \<Longrightarrow> P w \<Longrightarrow> P w'" for w w'
    using s unfolding recorded_stable_def by (metis prod.inject)
  have free: "agents_keep P sv" "keepsM P (job_progress up jb x)" for x
    using agents_leave_keep(1,2) [OF a [unfolded builder_counted_def, THEN conjunct1], of P] p unfolding ag by blast+
  have "keepsM P (job_execute R S clock jc sv up jb)"
    unfolding job_execute_def
    by (rule execute_keeps [OF stable_runs(5) [OF s l(2) c] free stable_faults(3) [OF s l(1)] stable_redis(1) [OF s l(1)] b])
  then show ?thesis
    unfolding pipeline_worker_def by (intro keepsM_if keepsM_throw stable_job [OF s l q])
qed

lemma reach_keeps:
  assumes "worker_reach R Q S kv calls r w0 w" and P: "recorded_stable kv r calls P" "P w0"
    and l: "redis_leaves calls R" "run_leaves calls S" and q: "\<And>n d j. leaves calls (q_add Q n d j)"
    and b: "\<And>ctx sv progress jc. px_services ctx = S \<Longrightarrow> px_runId ctx = r \<Longrightarrow> builder_counted kv calls sv progress \<Longrightarrow>
      keepsM P (execute_build R jc ctx sv progress)"
  shows "P w"
  using assms(1)
proof induction
  case begun
  show ?case by (rule P(2))
next
  case (job w jb sv up clock jc lost x w')
  have "keepsM P (pipeline_worker R Q S clock jc lost sv up jb)"
    by (rule worker_keeps [OF _ l q job(3)]) (simp_all add: P(1) job(2,3) b job_ctx_def)
  from keepsMD [OF this job.IH] job(4) show ?case by simp
next
  case (others w w')
  with P(1) show ?case unfolding recorded_stable_def by blast
qed

end

text \<open>
  C8.  The builder runs at most once for a run, whatever its jobs do and however often they
  are delivered: its number of calls grows by at most one, and not at all once the run's
  builder intent is recorded.
\<close>

theorem builder_runs_once:
  assumes "pipeline_world R kv Q jobs S view recs"
    and "redis_leaves calls R" and "run_leaves calls S" and "\<And>n d j. leaves calls (q_add Q n d j)"
    and "worker_reach R Q S kv calls r w0 w"
  shows "calls w \<le> (if kv w0 (builderIntentKey r) = None then Suc (calls w0) else calls w0)"
proof (cases "kv w0 (builderIntentKey r) = None")
  case True
  let ?P = "\<lambda>w. calls w \<le> calls w0 \<or> kv w (builderIntentKey r) \<noteq> None \<and> calls w \<le> Suc (calls w0)"
  have "?P w"
  proof (rule pipeline_world.reach_keeps [OF assms(1,5) _ _ assms(2-4)])
    fix ctx :: "'a PipelineContext" and sv progress jc
    assume "px_services ctx = S" "px_runId ctx = r" "builder_counted kv calls sv progress"
    then show "keepsM ?P (execute_build R jc ctx sv progress)"
      using pipeline_world.builder_step(2) [OF assms(1) _ assms(2,3)] by blast
  qed (auto simp: recorded_stable_def)
  with True show ?thesis by auto
next
  case False
  let ?P = "\<lambda>w. calls w \<le> calls w0 \<and> kv w (builderIntentKey r) \<noteq> None"
  have "?P w"
  proof (rule pipeline_world.reach_keeps [OF assms(1,5) _ _ assms(2-4)])
    fix ctx :: "'a PipelineContext" and sv progress jc
    assume "px_services ctx = S" "px_runId ctx = r" "builder_counted kv calls sv progress"
    then show "keepsM ?P (execute_build R jc ctx sv progress)"
      using pipeline_world.builder_step(1) [OF assms(1) _ assms(2,3)] by blast
  qed (use False in \<open>auto simp: recorded_stable_def\<close>)
  with False show ?thesis by auto
qed

text \<open>A world with a counter beside the store, and a builder that counts its calls there.\<close>

lemma pipeline_services_fst:
  assumes "pipeline_services R kv Q jobs"
  shows "pipeline_services (redis_fst R) (\<lambda>w. kv (fst w)) (queue_fst Q) (\<lambda>w. jobs (fst w))"
proof (intro pipeline_services.intro)
  note a = assms [unfolded pipeline_services_def]
  show "redis (redis_fst R) (\<lambda>w. kv (fst w))"
    using a unfolding redis_def redis_fst_def redis_client.simps pair_apply by (auto simp: pair_apply)
  show "job_queue (queue_fst Q) (\<lambda>w. jobs (fst w))"
    using a unfolding job_queue_def queue_fst_def queue_client.simps pair_apply by (auto simp: pair_apply)
  show "pipeline_services_axioms (redis_fst R) (\<lambda>w. kv (fst w)) (queue_fst Q) (\<lambda>w. jobs (fst w))"
    using a unfolding pipeline_services_axioms_def redis_fst_def queue_fst_def redis_client.simps queue_client.simps pair_apply
    by (auto simp: pair_apply)
qed

lemma pair_world:
  assumes "pipeline_services R kv Q jobs" and "run_services S view recs"
  shows "pipeline_world (redis_fst R) (\<lambda>w. kv (fst w)) (queue_fst Q) (\<lambda>w. jobs (fst w))
    (runs_snd S) (\<lambda>w. view (snd w)) (\<lambda>w. recs (snd w))"
proof (intro pipeline_world.intro pipeline_driver.intro runs_snd_services pipeline_services_fst assms)
  show "pipeline_world_axioms (redis_fst R) (\<lambda>w. kv (fst w)) (queue_fst Q) (\<lambda>w. jobs (fst w))
      (runs_snd S) (\<lambda>w. view (snd w)) (\<lambda>w. recs (snd w))"
    by unfold_locales (auto simp: redis_leaves_def run_leaves_def leaves_def redis_fst_def queue_fst_def runs_snd_def pair_apply)
qed

type_synonym counted_world = "(mem_world \<times> nat) \<times> pipeline_doc deployment"

definition counted_redis :: "counted_world redis_client" where
  "counted_redis = redis_fst (redis_fst InMemoryRedis)"

definition counted_queue :: "counted_world queue_client" where
  "counted_queue = queue_fst (queue_fst InMemoryQueue)"

definition counted_runs :: "counted_world pipeline_run" where
  "counted_runs = runs_snd demo_services"

definition counting_builder :: "ConfirmedPackage \<Rightarrow> string \<Rightarrow> (counted_world, js_error, BuilderWorkflowResult) eff" where
  "counting_builder p h = (\<lambda>((m, n), d). (Inr demo_built, ((m, Suc n), d)))"

definition counted_agents :: "counted_world StageServices" where
  "counted_agents = demo_agents\<lparr>ss_builder := counting_builder\<rparr>"

definition build_job :: worker_job where
  "build_job = \<lparr>wj_name = Build, wj_version = 2, wj_runId = ''run'', wj_stage = Build, wj_iteration = 0\<rparr>"

text \<open>The build job by a worker that loses its lease after the build (\<open>lost\<close>), or not.\<close>

definition demo_build :: "bool \<Rightarrow> counted_world \<Rightarrow> (js_error + bool \<times> PipelineTransition) \<times> counted_world" where
  "demo_build lost = pipeline_worker counted_redis counted_queue counted_runs (\<lambda>_. ''t'') sample_job (\<lambda>_. lost)
     counted_agents no_progress build_job"

definition demo_begun :: counted_world where
  "demo_begun = ((mem_empty, 0), demo_approved)"

definition counted_ctx :: "counted_world PipelineContext" where
  "counted_ctx = job_ctx counted_runs (\<lambda>_. ''t'') build_job"

lemma counted_ctx_eq: "counted_ctx = \<lparr>px_runId = ''run'', px_services = counted_runs, px_clock = (\<lambda>_. ''t''), px_stageIteration = 0\<rparr>"
  by (simp add: counted_ctx_def job_ctx_def build_job_def requestedIteration_def)

lemma demo_build_counts: "snd (fst (snd (runBuildStage counted_ctx counted_agents no_progress ((m, n), demo_approved)))) = Suc n"
  unfolding counted_ctx_eq by code_simp

lemma builder_runs_once_witness:
  "snd (fst (snd (execute_build counted_redis sample_job counted_ctx counted_agents no_progress demo_begun))) = 1 \<and>
   snd (fst (snd (demo_build False (snd (demo_build True demo_begun))))) \<le> 1"
proof
  have load: "leaves (\<lambda>w. snd (fst w)) (ctx_load as_build counted_ctx n)" for n
    unfolding ctx_load_def load_as_def counted_ctx_eq counted_runs_def runs_snd_def
    by (auto simp: leaves_def eff_simps lift_fs_def pair_apply split: prod.splits sum.splits option.splits)
  obtain m where first: "recordBuilderIntent counted_redis (jc_now_iso sample_job) (px_runId counted_ctx) demo_begun =
      (Inr True, ((m, 0), demo_approved))"
    by (simp add: recordBuilderIntent_def counted_redis_def redis_fst_def on_fst_def demo_begun_def mem_redis_defs eff_simps
        mem_empty_def)
  obtain x w where run: "runBuildStage counted_ctx counted_agents no_progress ((m, 0), demo_approved) = (x, w)" by (rule prod.exhaust)
  with demo_build_counts [of m 0] have w: "snd (fst w) = 1" by simp
  obtain y w' where after: "ctx_load as_build counted_ctx ''build_result'' w = (y, w')" by (rule prod.exhaust)
  show "snd (fst (snd (execute_build counted_redis sample_job counted_ctx counted_agents no_progress demo_begun))) = 1"
    using w leavesD [OF load after] after
    by (cases x; cases y) (simp_all add: execute_build_def bindM_apply thenM_apply first run returnM_apply)
next
  have pw: "pipeline_world counted_redis (\<lambda>w. mem_kv (fst (fst w))) counted_queue (\<lambda>w. mem_jobs (fst (fst w)))
      counted_runs (\<lambda>w. deployed_view ''d'' (snd w)) (\<lambda>w. deployed_recs (snd w))"
    unfolding counted_redis_def counted_queue_def counted_runs_def demo_services_def
    by (rule pair_world [OF pipeline_services_fst [OF mem_services.pipeline_services_axioms] deployment.run_services_axioms])
  have l: "redis_leaves (\<lambda>w. snd (fst w)) counted_redis" "run_leaves (\<lambda>w. snd (fst w)) counted_runs"
    "leaves (\<lambda>w. snd (fst w)) (q_add counted_queue s d j)" for s d j
    by (auto simp: redis_leaves_def run_leaves_def leaves_def counted_redis_def counted_runs_def counted_queue_def
        redis_fst_def queue_fst_def runs_snd_def pair_apply)
  have jp: "job_progress no_progress build_job = no_progress" by (simp add: job_progress_def no_progress_def fun_eq_iff)
  have "agents_leave f (demo_agents\<lparr>ss_builder := \<lambda>p h. throwM type_error\<rparr>) no_progress" for f :: "counted_world \<Rightarrow> 'b"
    by (auto simp: agents_leave_def agents_keep_def demo_agents_def hashing_contracts_def accepting_contracts_def
        passing_lanes_def no_progress_def returnM_apply Let_def)
  then have cnt: "builder_counted (\<lambda>w. mem_kv (fst (fst w))) (\<lambda>w. snd (fst w)) counted_agents
      (job_progress no_progress build_job)"
    unfolding jp builder_counted_def by (simp add: counted_agents_def counting_builder_def split: prod.split)
  have r: "wj_runId build_job = ''run''" by (simp add: build_job_def)
  have step: "worker_reach counted_redis counted_queue counted_runs (\<lambda>w. mem_kv (fst (fst w))) (\<lambda>w. snd (fst w)) ''run'' demo_begun
      (snd (demo_build lost w))"
    if "worker_reach counted_redis counted_queue counted_runs (\<lambda>w. mem_kv (fst (fst w))) (\<lambda>w. snd (fst w)) ''run'' demo_begun w"
    for lost w
    by (rule worker_reach.job [OF that r cnt]) (unfold demo_build_def, rule prod.collapse [symmetric])
  from builder_runs_once [OF pw l step [OF step [OF worker_reach.begun]]]
  show "snd (fst (snd (demo_build False (snd (demo_build True demo_begun))))) \<le> 1"
    by (simp add: demo_begun_def mem_empty_def)
qed

text \<open>A build job of a run whose builder intent is recorded, but no evidence is left.\<close>

definition demo_crashed :: demo_world where
  "demo_crashed = (mem_empty\<lparr>mem_kv := [builderIntentKey ''run'' \<mapsto> RText ''t'']\<rparr>, demo_empty)"

lemma worker_job_exactly_once_witness:
  "\<exists>w'. delivered (pipeline_worker demo_redis (queue_fst InMemoryQueue) demo_runs (\<lambda>_. ''t'') sample_job (\<lambda>_. False) demo_agents
      no_progress build_job) demo_crashed w' \<and>
    mem_jobs (fst w') = [stageJobId ''run'' Finalize 0 \<mapsto> \<lparr>jd_runId = ''run'', jd_stage = Finalize, jd_iteration = 0\<rparr>]"
proof -
  let ?att = "pipeline_worker demo_redis (queue_fst InMemoryQueue) demo_runs (\<lambda>_. ''t'') sample_job (\<lambda>_. False) demo_agents no_progress build_job"
  let ?ctx = "job_ctx demo_runs (\<lambda>_. ''t'') build_job"
  have pw: "pipeline_world demo_redis (\<lambda>w. mem_kv (fst w)) (queue_fst InMemoryQueue) (\<lambda>w. mem_jobs (fst w)) demo_runs
      (\<lambda>w. deployed_view ''d'' (snd w)) (\<lambda>w. deployed_recs (snd w))"
    unfolding demo_redis_def demo_runs_def demo_services_def by (rule worker_deployment.pipeline_world_axioms)
  have nf: "getFaultConfigs no_faults = []"
    by (rule faults_off) (simp add: faultsEnabled_def no_faults_def)
  have load: "\<exists>e. \<forall>m. ctx_load as_build ?ctx ''build_result'' (m, demo_empty) = (Inl (JsError e), (m, demo_empty))"
    by (simp add: ctx_load_def load_as_def lift_fs_def job_ctx_def build_job_def demo_runs_def runs_snd_def on_snd_def
        demo_services_def deployed_def Let_def on_store_def demo_empty_def FileArtifactStore_def file_load_def file_call_def
        readJson_def read_call_def next_fault_def file_at_def eff_simps)
  then obtain e where load: "ctx_load as_build ?ctx ''build_result'' (m, demo_empty) = (Inl (JsError e), (m, demo_empty))" for m
    by blast
  have keys: "lockKey r t \<noteq> builderIntentKey q" "completedKey r t n \<noteq> builderIntentKey q" "transitionKey i \<noteq> builderIntentKey q"
    "builderIntentKey q \<noteq> transitionKey i" "finalizationIntentKey r \<noteq> builderIntentKey q" for r t n i q
    by (rule last_seg_neq, simp add: stage_simps key_last_seg)+
  have idn: "job_identity build_job = sample_identity" "valid_payload build_job" "px_runId ?ctx = ''run''"
    by (simp_all add: job_identity_def build_job_def sample_identity_def stageIteration_def stage_simps requestedIteration_def
        valid_payload_def job_ctx_def)
  have "\<exists>x w'. ?att demo_crashed = (Inr x, w')"
    by (simp add: pipeline_worker_def idn job_execute_def execute_def shouldInjectRefine_def execute_stage_def execute_build_def
        recordBuilderIntent_def load keys
        process_job_def runStage_def loadPersistedOutcome_def isExecuted_def Let_def
        worker_input_def idempotencyLock_def faultInjector_def guardedStage_def executeStage_def
        stage_log_def opt_unit_def apply_fault_def applyAfterCheckpoint_def configs_for_def nf
        saveExecution_def SAVE_EXECUTION_SCRIPT_def stage_lease_def idem_defs history_append_def
        applyTransition_def getTransitionState_def markTransitionPending_def
        markTransitionCommitted_def transition_effect_def stage_simps mem_redis_defs eff_simps
        sample_job_def sample_identity_def mem_empty_def or_else_def demo_redis_def redis_fst_def queue_fst_def on_fst_def
        demo_crashed_def uncertain_outcome_def terminal_def failedFinalization_def saveFinalizationIntent_def
        del: split_paired_Ex)
  then obtain x w' where "?att demo_crashed = (Inr x, w')" by blast
  then have d: "delivered ?att demo_crashed w'" by (rule delivered_now)
  have al: "agents_leave f demo_agents (job_progress no_progress build_job)" for f :: "demo_world \<Rightarrow> 'b"
    using demo_agents_leave [of f] by (simp add: job_progress_def no_progress_def fun_eq_iff agents_leave_def)
  have fresh: "mem_kv (fst demo_crashed) (executedKey (job_identity build_job)) \<noteq> Some (RText ''1'')"
    "\<not> committed (mem_kv (fst demo_crashed)) (job_identity build_job)"
    by (simp_all add: demo_crashed_def mem_empty_def committed_def keys idn)
  have target: "\<exists>fin. resolveTransition Build out 0 = TNext Finalize 0 fin" for out :: outcome
    by (cases out) (auto simp: stage_simps failedFinalization_def)
  have b: "wj_name build_job = Build" "wj_runId build_job = ''run''" "si_iteration sample_identity = 0"
    by (simp_all add: build_job_def sample_identity_def)
  from worker_job_exactly_once [OF pw al fresh d, unfolded idn b] obtain out :: outcome where
    o: "case resolveTransition Build out 0 of TNext s i fin \<Rightarrow>
        mem_jobs (fst w') = job_added ''run'' s i (mem_jobs (fst demo_crashed)) | _ \<Rightarrow> True"
    by (elim conjE exE) (rule that)
  obtain fin where "resolveTransition Build out 0 = TNext Finalize 0 fin" using target by blast
  with o have "mem_jobs (fst w') = job_added ''run'' Finalize 0 (mem_jobs (fst demo_crashed))" by simp
  with d show ?thesis by (intro exI [of _ w']) (simp add: job_added_def demo_crashed_def mem_empty_def)
qed

end
