(* ===== verification/Plan_Confirmation.thy ===== *)
theory Plan_Confirmation
  imports Pipeline_Worker
begin

text \<open>
  \<open>backend/pipeline/confirm-plan.ts\<close>: the human gate between the researcher and the planner.
  A confirmation stores the reviewer's edits, takes the gate and enqueues the planner.
  \<open>stringify\<close> is the runtime's \<open>JSON.stringify\<close>.
\<close>

section \<open>The confirmation\<close>

datatype ConfirmPlanResult = PlanConfirmed | PlanAlreadyConfirmed

text \<open>The JavaScript truth of an optional value.\<close>

fun truthy_json :: "json option \<Rightarrow> bool" where
  "truthy_json None = False"
| "truthy_json (Some JNull) = False"
| "truthy_json (Some (JBool b)) = b"
| "truthy_json (Some (JNum n)) = (n \<noteq> 0)"
| "truthy_json (Some (JStr s)) = (s \<noteq> '''')"
| "truthy_json (Some _) = True"

definition confirmationKey :: "string \<Rightarrow> string" where
  "confirmationKey runId = ''oneshot:run:'' @ runId @ '':plan-confirmed''"

lemma confirmation_last_seg [stage_simps]: "last_seg (confirmationKey r) = ''plan-confirmed''"
  unfolding confirmationKey_def append_assoc [symmetric] by (rule last_seg_snoc [OF refl], simp)

definition confirmation_record :: "string \<Rightarrow> string \<Rightarrow> json" where
  "confirmation_record runId now = JObj [(''runId'', JStr runId), (''confirmedAt'', JStr now), (''confirmedBy'', JStr ''user'')]"

definition edits_json :: "PlanReviewEdits \<Rightarrow> json" where
  "edits_json ed = JObj [(''objective'', JStr (pe_objective ed)),
     (''requirements'', JArr (map (\<lambda>(i, s). JObj [(''id'', JStr i), (''statement'', JStr s)]) (pe_requirements ed))),
     (''steps'', JArr (map (\<lambda>(i, s). JObj [(''id'', JStr i), (''description'', JStr s)]) (pe_steps ed))),
     (''notes'', JArr (map JStr (pe_notes ed)))]"

text \<open>The reviewed bundle: the edits checked against the loaded research and applied to it.\<close>

definition reviewed_bundle :: "(json \<Rightarrow> string) \<Rightarrow> string \<Rightarrow> string \<Rightarrow> json option \<Rightarrow> ResearchBundle \<Rightarrow> js_error + ResearchBundle" where
  "reviewed_bundle stringify runId now edits research = (let review = draft_review runId research now in
     bind_sum (validatePlanReviewEdits edits review) (\<lambda>ed.
       applyPlanReviewEdits (\<lambda>e. stringify (edits_json e)) (review\<lparr>pv_edits := ed\<rparr>)))"

definition apply_edits ::
  "(json \<Rightarrow> string) \<Rightarrow> 'w pipeline_run option \<Rightarrow> string \<Rightarrow> string \<Rightarrow> json option \<Rightarrow> ('w, js_error, unit) eff" where
  "apply_edits stringify runs runId now edits = (case runs of
      None \<Rightarrow> throwM (JsError ''confirmPlan requires store and runs when research edits are supplied'')
    | Some S \<Rightarrow> let ctx = \<lparr>px_runId = runId, px_services = S, px_clock = (\<lambda>_. now), px_stageIteration = 0\<rparr> in
        bindM (loadResearchBundle ctx) (\<lambda>research. bindM (liftM (reviewed_bundle stringify runId now edits research)) (\<lambda>b.
        thenM (ctx_save ctx ''research.reviewed'' (ArOther (PdBundle b)))
          (ctx_save ctx ''plan.reviewed'' (ArOther (PdPlan (plan b)))))))"

definition confirm_history :: "'w redis_client \<Rightarrow> job_context \<Rightarrow> string \<Rightarrow> string \<Rightarrow> ('w, js_error, unit) eff" where
  "confirm_history R jc runId m = whenM (jc_history jc)
     (bindM (history_append R (jc_now_ms jc) (jc_now_iso jc) \<lparr>he_runId = runId, he_stage = ''await-human'', he_type = HConfirmed,
        he_iteration = None, he_message = Some m, he_jobId = None, he_attempt = None\<rparr>) (\<lambda>_. returnM ()))"

text \<open>The gate and the planner's job behind it.\<close>

definition confirm_gate ::
  "(json \<Rightarrow> string) \<Rightarrow> 'w redis_client \<Rightarrow> 'w queue_client \<Rightarrow> job_context \<Rightarrow> string \<Rightarrow> ('w, js_error, ConfirmPlanResult) eff" where
  "confirm_gate stringify R Q jc runId =
     bindM (r_set_nx R (confirmationKey runId) (RText (stringify (confirmation_record runId (jc_now_iso jc)))) THIRTY_DAYS_SECONDS)
       (\<lambda>won. if \<not> won
         then thenM (confirm_history R jc runId (''Plan already confirmed for run '' @ runId @ ''; planner already queued''))
           (returnM PlanAlreadyConfirmed)
         else thenM (try_catch
             (bindM (q_add Q Planner \<lparr>jd_runId = runId, jd_stage = Planner, jd_iteration = 0\<rparr> (stageJobId runId Planner 0))
               (\<lambda>_. returnM ()))
             (\<lambda>e. thenM (r_del R (confirmationKey runId)) (throwM e)))
           (thenM (confirm_history R jc runId (''Enqueued planner job '' @ stageJobId runId Planner 0 @ '' for run '' @ runId))
             (returnM PlanConfirmed)))"

definition confirmPlan ::
  "(json \<Rightarrow> string) \<Rightarrow> 'w redis_client \<Rightarrow> 'w queue_client \<Rightarrow> 'w pipeline_run option \<Rightarrow> job_context \<Rightarrow> string \<Rightarrow> json option \<Rightarrow>
     ('w, js_error, ConfirmPlanResult) eff" where
  "confirmPlan stringify R Q runs jc runId edits =
     bindM (getCurrentResearchRevision R runId) (\<lambda>researchRevision.
     bindM (isCompleted R runId ''researcher'' researchRevision) (\<lambda>completed.
       if \<not> completed
       then throwM (JsError (''Researcher revision '' @ nat_str researchRevision @ '' has not completed for run '' @ runId @
         ''; plan cannot be confirmed yet''))
       else thenM (whenM (truthy_json edits) (apply_edits stringify runs runId (jc_now_iso jc) edits))
         (confirm_gate stringify R Q jc runId)))"

section \<open>What a confirmation leaves behind\<close>

lemma reviewed_bundle_ok:
  assumes "reviewed_bundle stringify runId now edits research = Inr b"
  shows "\<exists>ed. validatePlanReviewEdits edits (draft_review runId research now) = Inr ed \<and> edits_ok ed \<and> reviewed research ed b"
proof -
  let ?rv = "draft_review runId research now"
  from assms obtain ed where ed: "validatePlanReviewEdits edits ?rv = Inr ed"
    and b: "applyPlanReviewEdits (\<lambda>e. stringify (edits_json e)) (?rv\<lparr>pv_edits := ed\<rparr>) = Inr b"
    by (auto simp: reviewed_bundle_def Let_def bind_sum_Inr)
  note v = validated_edits [OF ed]
  have "edits_match (pv_research (?rv\<lparr>pv_edits := ed\<rparr>)) (pv_edits (?rv\<lparr>pv_edits := ed\<rparr>))"
    using v(2,3) by (simp add: edits_match_def draft_review_def o_def)
  note ap = apply_reviewed [OF this, of "\<lambda>e. stringify (edits_json e)"]
  have rv: "pv_research (?rv\<lparr>pv_edits := ed\<rparr>) = research" "pv_edits (?rv\<lparr>pv_edits := ed\<rparr>) = ed"
    by (simp_all add: draft_review_def)
  from ap b have "reviewed research ed b"
    unfolding rv by auto
  with ed v(1) show ?thesis by blast
qed

definition bundle_source :: "RunSnapshot \<Rightarrow> string" where
  "bundle_source s = (if has_artifact ''research.reviewed'' s then ''research.reviewed'' else ''research_bundle'')"

context pipeline_driver
begin

lemma loadResearchBundle_result:
  assumes c: "px_services ctx = S" and l: "loadResearchBundle ctx w = (x, w')"
  shows "view w' = view w" and "recs w' = recs w"
    and "x = Inr b \<Longrightarrow> \<exists>s. recs w (px_runId ctx) = Some s \<and> view w (px_runId ctx) (bundle_source s) = Some (ArOther (PdBundle b))"
proof -
  let ?r = "px_runId ctx"
  obtain y w1 where rq: "svc_require S ?r w = (y, w1)" by fastforce
  note r1 = require_result [OF rq]
  have isb: "as_bundle v = Some b \<longleftrightarrow> v = ArOther (PdBundle b)" for v b by (cases v rule: as_bundle.cases) auto
  have "view w' = view w \<and> recs w' = recs w \<and> (\<forall>b. x = Inr b \<longrightarrow>
      (\<exists>s. recs w ?r = Some s \<and> view w ?r (bundle_source s) = Some (ArOther (PdBundle b))))"
  proof (cases y)
    case (Inl e)
    with l rq c r1 show ?thesis by (auto simp: loadResearchBundle_def requireSnapshot_def bindM_apply)
  next
    case (Inr s)
    with l rq c have "load_as as_bundle S ?r (bundle_source s) w1 = (x, w')"
      by (simp add: loadResearchBundle_def requireSnapshot_def bindM_apply ctx_load_def bundle_source_def split: if_splits)
    from load_as_result [OF this] r1 Inr show ?thesis by (auto simp: isb bundle_source_def split: if_splits)
  qed
  then show "view w' = view w" "recs w' = recs w" "x = Inr b \<Longrightarrow> \<exists>s. recs w ?r = Some s \<and> view w ?r (bundle_source s) = Some (ArOther (PdBundle b))"
    by blast+
qed

lemma apply_edits_result:
  assumes "apply_edits stringify (Some S) r now edits w = (Inr (), w')"
  shows "\<exists>research ed b s. recs w r = Some s \<and> view w r (bundle_source s) = Some (ArOther (PdBundle research)) \<and>
    validatePlanReviewEdits edits (draft_review r research now) = Inr ed \<and> edits_ok ed \<and> reviewed research ed b \<and>
    view w' r ''research.reviewed'' = Some (ArOther (PdBundle b)) \<and> view w' r ''plan.reviewed'' = Some (ArOther (PdPlan (plan b))) \<and>
    (\<exists>s'. recs w' r = Some s' \<and> has_artifact ''research.reviewed'' s' \<and> has_artifact ''plan.reviewed'' s')"
proof -
  let ?ctx = "\<lparr>px_runId = r, px_services = S, px_clock = (\<lambda>_. now), px_stageIteration = 0\<rparr>"
  have c: "px_services ?ctx = S" by simp
  from assms obtain research w1 b w2 where l: "loadResearchBundle ?ctx w = (Inr research, w1)"
    and b: "reviewed_bundle stringify r now edits research = Inr b"
    and s1: "ctx_save ?ctx ''research.reviewed'' (ArOther (PdBundle b)) w1 = (Inr (), w2)"
    and s2: "ctx_save ?ctx ''plan.reviewed'' (ArOther (PdPlan (plan b))) w2 = (Inr (), w')"
    by (auto simp: apply_edits_def Let_def liftM_def elim!: bindM_Inr_elim thenM_Inr_elim)
  have pl: "plain ''research.reviewed''" "plain ''plan.reviewed''" by simp_all
  note l1 = loadResearchBundle_result [OF c l]
    and v1 = ctx_save_result(2,3) [OF c s1 pl(1) pl(1)] and v2 = ctx_save_result [OF c s2 pl(2)]
  from reviewed_bundle_ok [OF b] obtain ed where ed: "validatePlanReviewEdits edits (draft_review r research now) = Inr ed"
    "edits_ok ed" "reviewed research ed b" by blast
  from v1 v2(1) [OF pl(1), of r] v2(2) [OF pl(2)] v2(3) [OF pl(2)]
  have "view w' r ''research.reviewed'' = Some (ArOther (PdBundle b))" "view w' r ''plan.reviewed'' = Some (ArOther (PdPlan (plan b)))"
    "\<exists>s'. recs w' r = Some s' \<and> has_artifact ''research.reviewed'' s' \<and> has_artifact ''plan.reviewed'' s'" by auto
  with l1(3) [OF refl] ed show ?thesis by auto
qed

end

lemma rethrown: "try_catch m (\<lambda>e. thenM d (throwM e)) w = (Inr x, w') \<Longrightarrow> m w = (Inr x, w')"
  by (cases "m w") (auto simp: try_catch_apply thenM_apply throwM_apply split: sum.splits prod.splits if_splits)

lemma won_steps:
  "(if \<not> b then m else thenM n k) w = (Inr x, w') \<Longrightarrow> b \<Longrightarrow> \<exists>v. n w = (Inr (), v) \<and> k v = (Inr x, w')"
  by (auto elim!: thenM_Inr_elim)

context pipeline_world
begin

lemma apply_edits_frame: "leaves (\<lambda>w. (kv w, jobs w)) (apply_edits stringify (Some S) r now edits)"
proof -
  let ?ctx = "\<lparr>px_runId = r, px_services = S, px_clock = (\<lambda>_. now), px_stageIteration = 0\<rparr>"
  have k: "context_keeps (\<lambda>w. (kv w, jobs w) = g) ?ctx" for g by (rule context_redis) auto
  show ?thesis
    unfolding leaves_keepsM apply_edits_def Let_def option.case loadResearchBundle_def
    by (intro allI keepsM_intros ctx_load_keeps k) (use k in \<open>auto simp: context_keeps_def gate_names_def\<close>)
qed

lemma confirm_history_frame: "leaves (\<lambda>w. ((kv w, jobs w), (view w, recs w))) (confirm_history R jc r m)"
proof -
  have "leaves (\<lambda>w. ((kv w, jobs w), (view w, recs w))) (r_xadd R k fs)" for k fs
    using redis_leaves_runs by (auto simp: leaves_def redis_leaves_def dest: xadd_kv xadd_jobs)
  then show ?thesis unfolding confirm_history_def history_append_def by (intro leaves_intros)
qed

lemma confirm_gate_result:
  assumes "confirm_gate stringify R Q jc r w = (Inr res, w')"
  shows "view w' = view w \<and> recs w' = recs w \<and> kv w' (confirmationKey r) \<noteq> None \<and>
    (case res of PlanConfirmed \<Rightarrow> kv w (confirmationKey r) = None \<and> jobs w' = job_added r Planner 0 (jobs w)
     | PlanAlreadyConfirmed \<Rightarrow> kv w (confirmationKey r) \<noteq> None \<and> jobs w' = jobs w)"
proof -
  from assms obtain won w1 where g: "r_set_nx R (confirmationKey r) (RText (stringify (confirmation_record r (jc_now_iso jc))))
      THIRTY_DAYS_SECONDS w = (Inr won, w1)"
    and rest: "(if \<not> won
         then thenM (confirm_history R jc r (''Plan already confirmed for run '' @ r @ ''; planner already queued''))
           (returnM PlanAlreadyConfirmed)
         else thenM (try_catch
             (bindM (q_add Q Planner \<lparr>jd_runId = r, jd_stage = Planner, jd_iteration = 0\<rparr> (stageJobId r Planner 0))
               (\<lambda>_. returnM ()))
             (\<lambda>e. thenM (r_del R (confirmationKey r)) (throwM e)))
           (thenM (confirm_history R jc r (''Enqueued planner job '' @ stageJobId r Planner 0 @ '' for run '' @ r))
             (returnM PlanConfirmed))) w1 = (Inr res, w')"
    unfolding confirm_gate_def by (rule bindM_Inr_elim)
  have w1: "won = (kv w (confirmationKey r) = None)" "kv w1 (confirmationKey r) \<noteq> None" "jobs w1 = jobs w"
    "view w1 = view w" "recs w1 = recs w"
    using set_nx_ok [OF g] set_nx_jobs [OF g] redis_leaves_runs g by (auto simp: redis_leaves_def leaves_def)
  show ?thesis
  proof (cases won)
    case False
    with rest leavesD [OF confirm_history_frame] w1 show ?thesis
      by (auto elim!: thenM_Inr_elim simp: returnM_apply)
  next
    case True
    obtain v where t: "try_catch (bindM (q_add Q Planner \<lparr>jd_runId = r, jd_stage = Planner, jd_iteration = 0\<rparr>
          (stageJobId r Planner 0)) (\<lambda>_. returnM ())) (\<lambda>e. thenM (r_del R (confirmationKey r)) (throwM e)) w1 = (Inr (), v)"
      and h: "thenM (confirm_history R jc r (''Enqueued planner job '' @ stageJobId r Planner 0 @ '' for run '' @ r))
             (returnM PlanConfirmed) v = (Inr res, w')"
      using won_steps [OF rest True] by auto
    from rethrown [OF t] obtain j where a: "q_add Q Planner \<lparr>jd_runId = r, jd_stage = Planner, jd_iteration = 0\<rparr>
        (stageJobId r Planner 0) w1 = (Inr j, v)" by (auto elim!: bindM_Inr_elim simp: returnM_apply)
    from h obtain m where "confirm_history R jc r m v = (Inr (), w')" "res = PlanConfirmed"
      by (auto elim!: thenM_Inr_elim simp: returnM_apply)
    with leavesD [OF confirm_history_frame this(1)] add_ok [OF a] add_kv [OF a] leavesD [OF queue_leaves_runs a] w1 True
    show ?thesis by (auto simp: job_added_def)
  qed
qed

lemma confirmPlan_steps:
  assumes "confirmPlan stringify R Q (Some S) jc r edits w = (Inr res, w')"
  shows "\<exists>w1 w2. (kv w1, jobs w1) = (kv w, jobs w) \<and> (view w1, recs w1) = (view w, recs w) \<and>
    kv w (completedKey r ''researcher'' (revision_of (kv w (researchRevisionKey r)))) \<noteq> None \<and>
    (if truthy_json edits then apply_edits stringify (Some S) r (jc_now_iso jc) edits w1 = (Inr (), w2) else w2 = w1) \<and>
    (kv w2, jobs w2) = (kv w, jobs w) \<and> confirm_gate stringify R Q jc r w2 = (Inr res, w')"
proof -
  from assms obtain n v c w1 where n: "getCurrentResearchRevision R r w = (Inr n, v)"
    and c: "isCompleted R r ''researcher'' n v = (Inr c, w1)"
    and rest: "(if \<not> c
       then throwM (JsError (''Researcher revision '' @ nat_str n @ '' has not completed for run '' @ r @
         ''; plan cannot be confirmed yet''))
       else thenM (whenM (truthy_json edits) (apply_edits stringify (Some S) r (jc_now_iso jc) edits))
         (confirm_gate stringify R Q jc r)) w1 = (Inr res, w')"
    unfolding confirmPlan_def by (elim bindM_Inr_elim)
  from n obtain raw where raw: "r_get R (researchRevisionKey r) w = (Inr raw, v)" "n = revision_of raw"
    by (auto simp: getCurrentResearchRevision_def returnM_apply elim!: bindM_Inr_elim)
  from redis_leaves_runs have l: "leaves (\<lambda>w. (view w, recs w)) (r_get R k)" "leaves (\<lambda>w. (view w, recs w)) (r_exists R k)" for k
    by (simp_all add: redis_leaves_def)
  note v = get_ok [OF raw(1)] get_jobs [OF raw(1)] leavesD [OF l(1) raw(1)]
  note w1 = exists_ok [OF c [unfolded isCompleted_def]] exists_jobs [OF c [unfolded isCompleted_def]]
    leavesD [OF l(2) c [unfolded isCompleted_def]]
  have c': "c" using rest by (cases c) (simp_all add: throwM_apply)
  with rest obtain w2 where a: "whenM (truthy_json edits) (apply_edits stringify (Some S) r (jc_now_iso jc) edits) w1 = (Inr (), w2)"
    and g: "confirm_gate stringify R Q jc r w2 = (Inr res, w')" by (auto elim!: thenM_Inr_elim)
  have "leaves (\<lambda>w. (kv w, jobs w)) (whenM (truthy_json edits) (apply_edits stringify (Some S) r (jc_now_iso jc) edits))"
    by (intro leaves_intros apply_edits_frame)
  from leavesD [OF this a] a g v w1 c' raw(2) show ?thesis
    by (intro exI [of _ w1] exI [of _ w2]) (auto simp: whenM_apply returnM_apply)
qed

lemma crashed_confirmation_stuck:
  assumes "kv w (confirmationKey r) \<noteq> None" and "confirmPlan stringify R Q (Some S) jc r edits w = (Inr res, w')"
  shows "res = PlanAlreadyConfirmed \<and> jobs w' = jobs w"
proof -
  from confirmPlan_steps [OF assms(2)] obtain w2 where w2: "(kv w2, jobs w2) = (kv w, jobs w)"
    "confirm_gate stringify R Q jc r w2 = (Inr res, w')" by blast
  from confirm_gate_result [OF w2(2)] w2(1) assms(1) show ?thesis by (cases res) auto
qed

end

section \<open>Properties\<close>

text \<open>
  C11.  The gate before the planner.  A confirmation that answers \<open>confirmed\<close> found the
  current research revision completed and the gate open, closes the gate and enqueues the
  planner's job once.  If the reviewer sent edits, they keep the draft's identities and
  sizes, and every later stage that reads the research or the plan, as long as nothing else is
  stored, reads the reviewed one; without edits nothing stored changes.
\<close>

theorem confirmation_reaches_planner:
  assumes "pipeline_world R kv Q jobs S view recs"
    and "confirmPlan stringify R Q (Some S) jc r edits w = (Inr PlanConfirmed, w')"
  shows "kv w (completedKey r ''researcher'' (revision_of (kv w (researchRevisionKey r)))) \<noteq> None \<and>
    kv w (confirmationKey r) = None \<and> kv w' (confirmationKey r) \<noteq> None \<and> jobs w' = job_added r Planner 0 (jobs w) \<and>
    (if truthy_json edits
     then \<exists>s draft ed b. recs w r = Some s \<and> view w r (bundle_source s) = Some (ArOther (PdBundle draft)) \<and>
       validatePlanReviewEdits edits (draft_review r draft (jc_now_iso jc)) = Inr ed \<and> edits_ok ed \<and> reviewed draft ed b \<and>
       (\<forall>ctx q v. px_services ctx = S \<longrightarrow> px_runId ctx = r \<longrightarrow>
         (loadResearchBundle ctx w' = (Inr q, v) \<longrightarrow> q = b)) \<and>
       (\<forall>ctx q v. px_services ctx = S \<longrightarrow> px_runId ctx = r \<longrightarrow> (loadPlan ctx w' = (Inr q, v) \<longrightarrow> q = plan b))
     else view w' = view w \<and> recs w' = recs w)"
proof -
  from pipeline_world.confirmPlan_steps [OF assms] obtain w1 w2 where
    w1: "(kv w1, jobs w1) = (kv w, jobs w)" "(view w1, recs w1) = (view w, recs w)"
    and compl: "kv w (completedKey r ''researcher'' (revision_of (kv w (researchRevisionKey r)))) \<noteq> None"
    and ed: "if truthy_json edits then apply_edits stringify (Some S) r (jc_now_iso jc) edits w1 = (Inr (), w2) else w2 = w1"
    and w2: "(kv w2, jobs w2) = (kv w, jobs w)" and g: "confirm_gate stringify R Q jc r w2 = (Inr PlanConfirmed, w')" by blast
  note g = pipeline_world.confirm_gate_result [OF assms(1) g, simplified]
  note d = pipeline_world.axioms(2) [OF assms(1)]
  have "if truthy_json edits
     then \<exists>s draft ed b. recs w r = Some s \<and> view w r (bundle_source s) = Some (ArOther (PdBundle draft)) \<and>
       validatePlanReviewEdits edits (draft_review r draft (jc_now_iso jc)) = Inr ed \<and> edits_ok ed \<and> reviewed draft ed b \<and>
       (\<forall>ctx q v. px_services ctx = S \<longrightarrow> px_runId ctx = r \<longrightarrow> (loadResearchBundle ctx w' = (Inr q, v) \<longrightarrow> q = b)) \<and>
       (\<forall>ctx q v. px_services ctx = S \<longrightarrow> px_runId ctx = r \<longrightarrow> (loadPlan ctx w' = (Inr q, v) \<longrightarrow> q = plan b))
     else view w' = view w \<and> recs w' = recs w"
  proof (cases "truthy_json edits")
    case True
    with ed have "apply_edits stringify (Some S) r (jc_now_iso jc) edits w1 = (Inr (), w2)" by simp
    from pipeline_driver.apply_edits_result [OF d this] w1(2) obtain draft e b s s' where
      b: "recs w r = Some s" "view w r (bundle_source s) = Some (ArOther (PdBundle draft))"
      "validatePlanReviewEdits edits (draft_review r draft (jc_now_iso jc)) = Inr e" "edits_ok e" "reviewed draft e b"
      and v: "view w2 r ''research.reviewed'' = Some (ArOther (PdBundle b))"
      "view w2 r ''plan.reviewed'' = Some (ArOther (PdPlan (plan b)))"
      and s': "recs w2 r = Some s'" "has_artifact ''research.reviewed'' s'" "has_artifact ''plan.reviewed'' s'" by auto
    have "q = b" if c: "px_services ctx = S" "px_runId ctx = r" and l: "loadResearchBundle ctx w' = (Inr q, u)" for ctx q u
      using pipeline_driver.loadResearchBundle_result(3) [OF d c(1) l refl] c g v s' by (auto simp: bundle_source_def)
    moreover have "q = plan b" if c: "px_services ctx = S" "px_runId ctx = r" and l: "loadPlan ctx w' = (Inr q, u)" for ctx q u
      using pipeline_driver.loadPlan_result(3) [OF d c(1) l refl] c g v s' by (auto simp: plan_source_def)
    ultimately show ?thesis using True b by auto
  next
    case False
    with ed g w1 show ?thesis by simp
  qed
  with compl g w2 show ?thesis by simp
qed

text \<open>A run whose researcher has completed, and edits of its draft.\<close>

definition demo_gate :: demo_world where
  "demo_gate = (mem_empty\<lparr>mem_kv := [completedKey ''run'' ''researcher'' 0 \<mapsto> RText ''t'']\<rparr>, demo_researched)"

definition demo_edits :: "json option" where
  "demo_edits = field ''edits'' plan_approval"

lemma demo_edits_apply: "is_ok (fst (apply_edits (\<lambda>_. ''{}'') (Some demo_runs) ''run'' ''now'' demo_edits (m, demo_researched)))"
  by code_simp

lemma confirmation_reaches_planner_witness:
  "\<exists>w' b. confirmPlan (\<lambda>_. ''{}'') demo_redis (queue_fst InMemoryQueue) (Some demo_runs) sample_job ''run'' demo_edits demo_gate
      = (Inr PlanConfirmed, w') \<and> erase b = erase sample_bundle \<and>
    mem_jobs (fst w') = [stageJobId ''run'' Planner 0 \<mapsto> \<lparr>jd_runId = ''run'', jd_stage = Planner, jd_iteration = 0\<rparr>]"
proof -
  let ?Q = "queue_fst InMemoryQueue :: demo_world queue_client"
  let ?c = "confirmPlan (\<lambda>_. ''{}'') demo_redis ?Q (Some demo_runs) sample_job ''run'' demo_edits"
  have pw: "pipeline_world demo_redis (\<lambda>w. mem_kv (fst w)) ?Q (\<lambda>w. mem_jobs (fst w)) demo_runs
      (\<lambda>w. deployed_view ''d'' (snd w)) (\<lambda>w. deployed_recs (snd w))"
    unfolding demo_redis_def demo_runs_def demo_services_def by (rule worker_deployment.pipeline_world_axioms)
  have "is_ok (fst (apply_edits (\<lambda>_. ''{}'') (Some demo_runs) ''run'' ''now'' demo_edits demo_gate))"
    unfolding demo_gate_def by (rule demo_edits_apply)
  then obtain x v where "apply_edits (\<lambda>_. ''{}'') (Some demo_runs) ''run'' ''now'' demo_edits demo_gate = (Inr x, v)"
    by (rule is_okE)
  then have ap: "apply_edits (\<lambda>_. ''{}'') (Some demo_runs) ''run'' ''now'' demo_edits demo_gate = (Inr (), v)" by simp
  from leavesD [OF pipeline_world.apply_edits_frame [OF pw] ap] obtain m d where
    v: "v = (m, d)" "mem_kv m = mem_kv (fst demo_gate)" "mem_jobs m = mem_jobs (fst demo_gate)" by (cases v) auto
  have neq: "confirmationKey ''run'' \<noteq> completedKey ''run'' ''researcher'' 0"
    "researchRevisionKey ''run'' \<noteq> completedKey ''run'' ''researcher'' 0"
    by (rule last_seg_neq, simp add: stage_simps)+
  have t: "truthy_json demo_edits" "mem_jobs mem_empty = Map.empty" by (code_simp, simp add: mem_empty_def)
  have "\<exists>w'. ?c demo_gate = (Inr PlanConfirmed, w')"
    using v neq ap unfolding demo_gate_def
    by (simp add: confirmPlan_def getCurrentResearchRevision_def isCompleted_def confirm_gate_def confirm_history_def
        history_append_def demo_redis_def redis_fst_def queue_fst_def on_fst_def mem_redis_defs eff_simps t sample_job_def
        revision_of_def del: split_paired_Ex)
  then obtain w' where c: "?c demo_gate = (Inr PlanConfirmed, w')" ..
  have view: "deployed_view ''d'' demo_researched ''run'' ''research_bundle'' = Some (ArOther (PdBundle sample_bundle))"
    by code_simp
  have "case deployed_recs demo_researched ''run'' of None \<Rightarrow> False | Some s \<Rightarrow> \<not> has_artifact ''research.reviewed'' s"
    by code_simp
  then obtain s where s: "deployed_recs demo_researched ''run'' = Some s" "bundle_source s = ''research_bundle''"
    by (auto simp: bundle_source_def split: option.splits)
  from confirmation_reaches_planner [OF pw c] t s view obtain ed b where
    "reviewed sample_bundle ed b" "mem_jobs (fst w') = job_added ''run'' Planner 0 (mem_jobs (fst demo_gate))"
    by (auto simp: demo_gate_def)
  with c show ?thesis by (auto simp: reviewed_def job_added_def demo_gate_def mem_empty_def)
qed

end
