(* ===== verification/Run_Verdict.thy ===== *)
theory Run_Verdict
  imports Pipeline_Worker
begin

text \<open>
  What a finished run's record says: the finalize job of the worker, delivered until it
  completes, with the evidence that its verdict rests on.  The theory joins the execution
  of the stage, the exactly-once job and the once-only finish.
\<close>

section \<open>A stage run depends on its execution where it is reached\<close>

lemma runStage_cong:
  assumes get: "\<And>k. keepsM P (r_get R k)" and hist: "\<And>ev. keepsM P (in_history (inp exec) ev)"
    and fa: "\<And>f r s i. in_faults (inp exec) = Some f \<Longrightarrow> keepsM P (sf_apply f r s i)"
    and acq: "\<And>l r s. in_lock (inp exec) = Some l \<Longrightarrow> keepsM P (lk_acquire l r s)"
    and inp: "\<And>e. inp e = (inp exec)\<lparr>in_execute := e\<rparr>"
    and same: "\<And>v. P v \<Longrightarrow> exec v = exec' v" and w: "P w"
  shows "runStage R (inp exec) w = runStage R (inp exec') w"
proof -
  let ?i = "inp exec" and ?j = "inp exec'"
  have parts: "in_identity ?j = in_identity ?i" "in_history ?j = in_history ?i" "in_lock ?j = in_lock ?i"
    "in_leaseLost ?j = in_leaseLost ?i" "in_faults ?j = in_faults ?i" "in_markCompleted ?j = in_markCompleted ?i"
    "in_jobId ?j = in_jobId ?i" "in_attemptsMade ?j = in_attemptsMade ?i" "in_execute ?j = exec'" "in_execute ?i = exec"
    using arg_cong [OF inp [of exec], of in_execute] by (simp_all add: inp [of exec'])
  have log: "stage_log ?j ty msg = stage_log ?i ty msg" "keepsM P (stage_log ?i ty msg)" for ty msg
    unfolding stage_log_def parts by (simp, intro keepsM_intros hist)
  have load: "loadPersistedOutcome R ?j = loadPersistedOutcome R ?i" "keepsM P (loadPersistedOutcome R ?i)"
    unfolding loadPersistedOutcome_def isExecuted_def loadOutcome_def parts log(1)
    by (simp, intro keepsM_intros get log(2))
  have lease: "stage_lease ?j t = stage_lease ?i t" for t unfolding stage_lease_def parts by simp
  have fault: "keepsM P (opt_unit (map_option (\<lambda>f. sf_apply f r s i) (in_faults ?i)))" for r s i
    by (cases "in_faults ?i") (auto simp: opt_unit_def intro: fa)
  have ex: "executeStage R ?i t v = executeStage R ?j t v" if "P v" for t v
    unfolding executeStage_def Let_def parts log(1) lease
    by (rule thenM_cong [OF log(2) that], rule thenM_cong [OF fault], assumption)
      (simp add: bindM_apply same)
  have guarded: "guardedStage R ?i t v = guardedStage R ?j t v" if "P v" for t v
    unfolding guardedStage_def parts log(1) by (simp add: try_finally_apply try_catch_apply ex [OF that])
  show ?thesis
    unfolding runStage_def parts load(1)
  proof (rule bindM_cong [OF load(2) w])
    fix x v assume v: "P v"
    show "(case x of Some res \<Rightarrow> returnM res
       | None \<Rightarrow> (case in_lock ?i of None \<Rightarrow> guardedStage R ?i None
         | Some lock \<Rightarrow> bindM (lk_acquire lock (si_runId (in_identity ?i)) (leaseStage (in_identity ?i))) (\<lambda>tok.
               if tok = None \<or> tok = Some ''''
               then bindM (loadPersistedOutcome R ?i) (\<lambda>raced. case raced of Some res \<Rightarrow> returnM res
                  | None \<Rightarrow> throwM (JsError (''Stage '' @ stage_str (si_stage (in_identity ?i)) @
                      '' already has an active execution lock for run '' @ si_runId (in_identity ?i))))
               else guardedStage R ?i tok))) v =
      (case x of Some res \<Rightarrow> returnM res
       | None \<Rightarrow> (case in_lock ?i of None \<Rightarrow> guardedStage R ?j None
         | Some lock \<Rightarrow> bindM (lk_acquire lock (si_runId (in_identity ?i)) (leaseStage (in_identity ?i))) (\<lambda>tok.
               if tok = None \<or> tok = Some ''''
               then bindM (loadPersistedOutcome R ?i) (\<lambda>raced. case raced of Some res \<Rightarrow> returnM res
                  | None \<Rightarrow> throwM (JsError (''Stage '' @ stage_str (si_stage (in_identity ?i)) @
                      '' already has an active execution lock for run '' @ si_runId (in_identity ?i))))
               else guardedStage R ?j tok))) v"
      by (cases x; cases "in_lock ?i"; simp add: guarded v)
        (rule bindM_cong [OF acq v], simp_all add: guarded)
  qed
qed

section \<open>What the job of finalize leaves alone\<close>

text \<open>
  \<open>verdict_frame\<close>: the artifacts, the snapshots, and the keys of the terminal state, the
  terminal issue and the finalization intent.
\<close>

definition verdict_keys :: "string set" where
  "verdict_keys = fam {''terminal-state'', ''terminal-issue'', ''finalization-intent''}"

lemma verdict_keys_iff [simp]:
  "terminalStateKey r \<in> verdict_keys" "terminalIssueKey r \<in> verdict_keys" "finalizationIntentKey r \<in> verdict_keys"
  "outcomeKey i \<notin> verdict_keys" "executedKey i \<notin> verdict_keys" "transitionKey i \<notin> verdict_keys"
  "lockKey r s \<notin> verdict_keys" "completedKey r s n \<notin> verdict_keys" "faultMarker r s m n \<notin> verdict_keys"
  "faultKey r s ''consumed'' \<notin> verdict_keys" "faultKey r s ''crash-consumed'' \<notin> verdict_keys"
  by (simp_all add: verdict_keys_def fam_def key_last_seg idem_key_last_seg fault_key_last_seg)

context pipeline_world
begin

definition verdict_frame :: "'w \<Rightarrow> 'w \<Rightarrow> bool" where
  "verdict_frame w v \<longleftrightarrow> view v = view w \<and> recs v = recs w \<and> (\<forall>k \<in> verdict_keys. kv v k = kv w k)"

lemma frame_keeps:
  assumes "leaves (\<lambda>w. (view w, recs w)) m" and "only_changes kv (- verdict_keys) m"
  shows "keepsM (verdict_frame w) m"
  unfolding keepsM_def
proof (intro allI impI)
  fix v assume v: "verdict_frame w v"
  obtain x v' where m: "m v = (x, v')" by fastforce
  from leavesD [OF assms(1) m] only_changesD [OF assms(2) m] v m show "verdict_frame w (snd (m v))"
    by (auto simp: verdict_frame_def)
qed

lemma frame_redis:
  "keepsM (verdict_frame w) (r_get R k)" "keepsM (verdict_frame w) (r_exists R k)" "keepsM (verdict_frame w) (r_xadd R k fs)"
  "k \<notin> verdict_keys \<Longrightarrow> keepsM (verdict_frame w) (r_set R k x ttl)"
  "k \<notin> verdict_keys \<Longrightarrow> keepsM (verdict_frame w) (r_set_nx R k x t)"
  "(\<And>m j. j \<in> verdict_keys \<Longrightarrow> snd (f m) j = m j) \<Longrightarrow> keepsM (verdict_frame w) (r_eval R f)"
  using redis_leaves_runs by (auto simp: redis_leaves_def intro!: frame_keeps op_changes)

lemma frame_faults:
  "keepsM (verdict_frame w) (apply_fault R env r s i)" "keepsM (verdict_frame w) (applyAfterCheckpoint R env r s i)"
  "keepsM (verdict_frame w) (shouldInjectRefine R env r s i)"
proof -
  have fire: "fire R r s mode = Some m \<Longrightarrow> keepsM (verdict_frame w) m" for mode m
    by (auto simp: fire_def split: if_splits intro!: keepsM_intros frame_redis)
  have "keepsM (verdict_frame w) (apply_faults R cs r s i)" for cs
    by (induction cs) (auto split: option.split intro: fire)
  then show "keepsM (verdict_frame w) (apply_fault R env r s i)" by (simp add: apply_fault_def)
  show "keepsM (verdict_frame w) (applyAfterCheckpoint R env r s i)" "keepsM (verdict_frame w) (shouldInjectRefine R env r s i)"
    unfolding applyAfterCheckpoint_def shouldInjectRefine_def by (intro keepsM_intros frame_redis; simp)+
qed

end

context pipeline_world
begin

lemma frame_worker:
  fixes jc lost idn exec
  defines "inp \<equiv> worker_input R jc lost idn exec"
  shows "keepsM (verdict_frame w) (in_history inp ev)"
    and "in_faults inp = Some f \<Longrightarrow> keepsM (verdict_frame w) (sf_apply f r s i)"
    and "in_faults inp = Some f \<Longrightarrow> sf_applyAfterCheckpoint f = Some g \<Longrightarrow> keepsM (verdict_frame w) (g r s i)"
    and "in_markCompleted inp = Some m \<Longrightarrow> keepsM (verdict_frame w) m"
    and "in_lock inp = Some l \<Longrightarrow> keepsM (verdict_frame w) (lk_acquire l r s)"
    and "in_lock inp = Some l \<Longrightarrow> keepsM (verdict_frame w) (lk_release l r s t)"
    and "keepsM (verdict_frame w) (saveExecution R j out ls)"
proof -
  have neq: "j \<in> verdict_keys \<Longrightarrow> j \<noteq> lockKey r s \<and> j \<noteq> outcomeKey i \<and> j \<noteq> executedKey i" for j r s i
    by (metis verdict_keys_iff(4,5,7))
  have hist: "keepsM (verdict_frame w) (history_append R t u ev)" for t u ev
    unfolding history_append_def by (intro keepsM_intros frame_redis)
  show "keepsM (verdict_frame w) (in_history inp ev)"
    "in_faults inp = Some f \<Longrightarrow> keepsM (verdict_frame w) (sf_apply f r s i)"
    "in_faults inp = Some f \<Longrightarrow> sf_applyAfterCheckpoint f = Some g \<Longrightarrow> keepsM (verdict_frame w) (g r s i)"
    "in_markCompleted inp = Some m \<Longrightarrow> keepsM (verdict_frame w) m"
    by (auto simp: inp_def worker_input_def faultInjector_def markCompleted_def
        intro!: hist frame_faults frame_redis keepsM_intros)
  show "in_lock inp = Some l \<Longrightarrow> keepsM (verdict_frame w) (lk_acquire l r s)"
    "in_lock inp = Some l \<Longrightarrow> keepsM (verdict_frame w) (lk_release l r s t)"
    by (auto simp: inp_def worker_input_def idempotencyLock_def idem_defs neq intro!: frame_redis keepsM_intros split: if_splits)
  show "keepsM (verdict_frame w) (saveExecution R j out ls)"
    unfolding saveExecution_def SAVE_EXECUTION_SCRIPT_def by (intro keepsM_intros frame_redis(6)) (auto simp: neq split: if_splits)
qed

lemma frame_run:
  assumes "keepsM (verdict_frame w) exec"
  shows "keepsM (verdict_frame w) (runStage R (worker_input R jc lost idn exec))"
  by (rule keepsM_runStage [OF frame_redis(1) frame_worker(1) _ frame_worker(7)])
    (auto simp: worker_input_def assms intro: frame_worker(2-6) [of jc lost idn exec, unfolded worker_input_def run_stage_input.simps])

lemma run_restricted:
  assumes "keepsM (verdict_frame w) exec" and "\<And>v. verdict_frame w v \<Longrightarrow> exec v = exec' v"
  shows "verdict_frame w v \<Longrightarrow> runStage R (worker_input R jc lost idn exec) v = runStage R (worker_input R jc lost idn exec') v"
  by (rule runStage_cong [where inp = "worker_input R jc lost idn" and P = "verdict_frame w",
        OF frame_redis(1) frame_worker(1,2,5) _ assms(2)])
    (simp_all add: worker_input_def)

end

section \<open>The execution of finalize\<close>

text \<open>What a Passed verdict rests on: the stored build passed, and its hash is the stored proof's.\<close>

definition passed_evidence :: "(string \<Rightarrow> pipeline_artifact option) \<Rightarrow> bool" where
  "passed_evidence art \<longleftrightarrow> (\<exists>p b. art ''hash_proof'' = Some (ArOther (PdHashProof p)) \<and>
     art ''build_result'' = Some (ArOther (PdBuild b)) \<and> sx_result (bw_result b) = Passed \<and>
     built_hash (bw_result b) = Some (created_hash p))"

fun failed_intent :: "rval option \<Rightarrow> bool" where
  "failed_intent (Some (RJson (DIntent i))) = (fi_test_result i = Failed)"
| "failed_intent _ = False"

lemma as_selectors [simp]:
  "as_hashProof v = Some p \<longleftrightarrow> v = ArOther (PdHashProof p)" "as_build v = Some b \<longleftrightarrow> v = ArOther (PdBuild b)"
  by (cases v rule: as_hashProof.cases; auto) (cases v rule: as_build.cases; auto)

lemma intent_parsed:
  "parse_raw as_intent raw = Inr intent \<Longrightarrow> (case intent of None \<Rightarrow> \<not> failed_intent raw
     | Some i \<Rightarrow> failed_intent raw \<longleftrightarrow> fi_test_result i = Failed)"
  by (cases raw rule: failed_intent.cases) (auto split: if_splits)

lemma finalize_verdict:
  "resolveTransition Finalize (finalize_outcome p b) n =
     (if sx_result (bw_result b) = Passed \<and> built_hash (bw_result b) = Some (created_hash p) then TDone Passed None
      else TDone Failed (Some (worker_issue RootCauseIssue ''Finalize hash verification failed'' (created_hash p)
         (or_else (built_hash (bw_result b)) ''sandbox hash missing'') []
         ''Preserve and compare Builder sandbox hash evidence'' ''Finalize'')))"
  by (auto simp: finalize_outcome_def Let_def advance_def terminal_def stage_simps)

context pipeline_world
begin

lemma frame_load:
  assumes c: "px_services ctx = S" and n: "plain n"
  shows "keepsM (verdict_frame w) (ctx_load sel ctx n)"
proof -
  have "keepsM (\<lambda>v. kv v = g) (ctx_load sel ctx n)" for g
    by (rule ctx_load_keeps) (rule context_redis [OF c], simp)
  moreover have "view v' = view v" "recs v' = recs v" if "ctx_load sel ctx n v = (x, v')" for v x v'
    using load_as_result(1,2) [OF that [unfolded ctx_load_def c] n] by simp_all
  ultimately show ?thesis unfolding keepsM_def verdict_frame_def by (metis prod.collapse)
qed

lemma frame_stage:
  assumes c: "px_services ctx = S" and pr: "\<And>x. keepsM (verdict_frame w) (progress x)"
  shows "keepsM (verdict_frame w) (runFinalizeStage ctx sv progress)"
proof -
  have "keepsM (verdict_frame w) (svc_emit S r p st d)" for r p st d
    using runs_leave_redis
    by (intro frame_keeps) (auto simp: run_leaves_def leaves_def only_changes_def dest: emit_law runs_kv(3))
  then show ?thesis unfolding runFinalizeStage_def reportProgress_def emitStage_def c by (intro keepsM_intros pr)
qed

lemma frame_execute:
  assumes c: "px_services ctx = S" and pr: "\<And>x. keepsM (verdict_frame w) (progress x)" and st: "si_stage i = Finalize"
  shows "keepsM (verdict_frame w) (execute R jc ctx sv progress i)"
  unfolding execute_def execute_stage_def st PipelineStage.case execute_finalize_def loadFinalizationIntent_def loadHashProof_def Let_def
  by (intro keepsM_intros frame_faults frame_redis frame_stage [OF c pr] frame_load [OF c]; simp)

lemma finalize_sound:
  assumes c: "px_services ctx = S" and pr: "\<And>x. keepsM (verdict_frame w) (progress x)" and st: "si_stage i = Finalize"
    and nf: "configs_for (jc_env jc) ''finalize'' ''refine-once'' (si_iteration i) = []"
    and f: "verdict_frame w v" and run: "execute R jc ctx sv progress i v = (Inr out, v')"
  shows "\<exists>res iss. resolveTransition Finalize out n = TDone res iss \<and>
    (res = Passed \<longleftrightarrow> \<not> failed_intent (kv w (finalizationIntentKey (px_runId ctx))) \<and> passed_evidence (view w (px_runId ctx)))"
proof -
  let ?r = "px_runId ctx"
  from run nf st have "execute_finalize R ctx sv progress v = (Inr out, v')"
    by (simp add: execute_def shouldInjectRefine_def bindM_apply returnM_apply execute_stage_def)
  then obtain intent v1 v2 where i: "loadFinalizationIntent R ?r v = (Inr intent, v1)"
    and s: "runFinalizeStage ctx sv progress v1 = (Inr (), v2)"
    and rest: "(let verified = bindM (loadHashProof ctx) (\<lambda>p. bindM (ctx_load as_build ctx ''build_result'') (\<lambda>b.
             returnM (finalize_outcome p b)))
        in case intent of
          None \<Rightarrow> verified
        | Some i \<Rightarrow> if fi_test_result i = Failed
            then returnM (terminal (Some (JObj [(''finalized'', JBool True)])) (fi_issue i)) else verified) v2 = (Inr out, v')"
    unfolding execute_finalize_def by (auto elim!: bindM_Inr_elim thenM_Inr_elim)
  from i obtain raw where raw: "r_get R (finalizationIntentKey ?r) v = (Inr raw, v1)" "parse_raw as_intent raw = Inr intent"
    by (auto simp: loadFinalizationIntent_def liftM_def elim!: bindM_Inr_elim)
  have f1: "verdict_frame w v1" using keepsMD [OF frame_redis(1) [of w "finalizationIntentKey ?r"] f] raw(1) by simp
  have f2: "verdict_frame w v2" using keepsMD [OF frame_stage [where sv = sv and progress = progress, OF c pr] f1] s by simp
  have k: "raw = kv w (finalizationIntentKey ?r)" using get_ok [OF raw(1)] f by (simp add: verdict_frame_def)
  note intent = intent_parsed [OF raw(2), unfolded k]
  show ?thesis
  proof (cases "failed_intent (kv w (finalizationIntentKey ?r))")
    case True
    with intent obtain j where "intent = Some j" "fi_test_result j = Failed" by (cases intent) auto
    with rest True show ?thesis by (auto simp: returnM_apply terminal_def stage_simps)
  next
    case False
    with intent rest have "bindM (loadHashProof ctx) (\<lambda>p. bindM (ctx_load as_build ctx ''build_result'') (\<lambda>b.
             returnM (finalize_outcome p b))) v2 = (Inr out, v')"
      by (cases intent) (auto simp: Let_def)
    then obtain p v3 b where p: "loadHashProof ctx v2 = (Inr p, v3)" and b: "ctx_load as_build ctx ''build_result'' v3 = (Inr b, v')"
      and out: "out = finalize_outcome p b" by (auto simp: returnM_apply elim!: bindM_Inr_elim)
    have f3: "verdict_frame w v3" using keepsMD [OF frame_load [OF c, of "''hash_proof''" w as_hashProof] f2] p
      by (simp add: loadHashProof_def)
    from load_as_result(3) [OF p [unfolded loadHashProof_def ctx_load_def c] _ refl] f2
    have pv: "view w ?r ''hash_proof'' = Some (ArOther (PdHashProof p))" by (auto simp: verdict_frame_def)
    from load_as_result(3) [OF b [unfolded ctx_load_def c] _ refl] f3
    have bv: "view w ?r ''build_result'' = Some (ArOther (PdBuild b))" by (auto simp: verdict_frame_def)
    show ?thesis using False pv bv by (auto simp: out finalize_verdict passed_evidence_def)
  qed
qed

end

section \<open>The job of finalize, delivered until it completes\<close>

definition restricted :: "('w \<Rightarrow> bool) \<Rightarrow> ('w, js_error, 'a) eff \<Rightarrow> ('w, js_error, 'a) eff" where
  "restricted P m = (\<lambda>v. if P v then m v else (Inl type_error, v))"

lemma restricted_only_changes: "only_changes f K m \<Longrightarrow> only_changes f K (restricted P m)"
  by (auto simp: only_changes_def restricted_def split: if_splits)

lemma restricted_keeps: "keepsM Q m \<Longrightarrow> keepsM Q (restricted P m)"
  by (simp add: keepsM_def restricted_def)

context pipeline_world
begin

lemma finish_changes: "only_changes kv {terminalStateKey r, terminalIssueKey r} (finish_run R S r res iss)"
proof -
  have sv: "only_changes kv K (svc_get S q)" "only_changes kv K (svc_finish S q fi)" "only_changes kv K (svc_emit S q p st d)"
    "only_changes kv K (optional_proof S q)" for K q fi p st d
    by (auto simp: only_changes_def dest: runs_kv(1,2,3) optional_proof_frame)
  show ?thesis
    unfolding finish_run_def agreed_issue_def settle_run_def getTerminalState_def getTerminalIssue_def markTerminalPending_def
      markTerminalCommitted_def
    by (intro only_changes_intros op_changes sv; simp)
qed

text \<open>The artifacts and the finalization intent stay in the transition of a finalize job.\<close>

lemma done_leaves:
  assumes run: "applyTransition R Q (createTransitionServices R jc S) idn (TDone res iss) v = (z, v')"
  shows "view v' = view v" and "kv v' (finalizationIntentKey (si_runId idn)) = kv v (finalizationIntentKey (si_runId idn))"
proof -
  let ?sv = "createTransitionServices R jc S"
  have rd: "keepsM (\<lambda>u. view u = g) (r_get R k)" "keepsM (\<lambda>u. view u = g) (r_set R k x t)" "keepsM (\<lambda>u. view u = g) (r_set_nx R k x t')"
    for k x t t' g
    using redis_leaves_runs by (auto simp: redis_leaves_def leaves_def keepsM_def) (metis prod.collapse)+
  have plain: "keepsM (\<lambda>u. view u = g) (svc_get S q)" "keepsM (\<lambda>u. view u = g) (svc_finish S q fi)"
    "keepsM (\<lambda>u. view u = g) (svc_emit S q p st d)" "keepsM (\<lambda>u. view u = g) (as_load (svc_store S) q n)" for q fi p st d n g
    using get_law [OF prod.collapse [symmetric]] finish_law [OF prod.collapse [symmetric]] emit_law [OF prod.collapse [symmetric]]
      load_law [OF prod.collapse [symmetric]] by (auto simp: keepsM_def)
  note sv = plain(1-3) keepsM_lift_fs [OF plain(4)]
  have fin: "keepsM (\<lambda>u. view u = g) (finish_run R S q res iss)" for g q
    unfolding finish_run_def agreed_issue_def settle_run_def getTerminalState_def getTerminalIssue_def markTerminalPending_def
      markTerminalCommitted_def optional_proof_def load_as_def
    by (intro keepsM_intros rd sv)
  have "keepsM (\<lambda>u. view u = view v) (applyTransition R Q ?sv idn (TDone res iss))"
    unfolding applyTransition_def getTransitionState_def markTransitionPending_def markTransitionCommitted_def
      transition_effect_def PipelineTransition.case createTransitionServices_def transition_services.simps
    by (intro keepsM_intros rd fin)
  from keepsMD [OF this refl] run show "view v' = view v" by simp
  have chg: "only_changes kv {transitionKey idn, terminalStateKey (si_runId idn), terminalIssueKey (si_runId idn)}
      (applyTransition R Q ?sv idn (TDone res iss))"
    unfolding applyTransition_def getTransitionState_def markTransitionPending_def markTransitionCommitted_def
      transition_effect_def PipelineTransition.case createTransitionServices_def transition_services.simps
    by (intro only_changes_intros op_changes only_changes_mono [OF finish_changes]) auto
  have "finalizationIntentKey q \<noteq> terminalStateKey q'" "finalizationIntentKey q \<noteq> terminalIssueKey q'" for q q'
    by (rule last_seg_neq, simp add: key_last_seg)+
  with only_changesD [OF chg run, of "finalizationIntentKey (si_runId idn)"]
  show "kv v' (finalizationIntentKey (si_runId idn)) = kv v (finalizationIntentKey (si_runId idn))" by simp
qed

lemma apply_done:
  assumes run: "applyTransition R Q (createTransitionServices R jc S) idn (TDone res iss) v = (z, v')"
    and f: "finishing (si_runId idn) res iss s v"
    and c: "committed (kv v) idn \<longrightarrow> recs v (si_runId idn) \<in> Some ` judged (si_runId idn) res {iss, None} s"
  shows "finishing (si_runId idn) res iss s v' \<and>
    (committed (kv v') idn \<longrightarrow> recs v' (si_runId idn) \<in> Some ` judged (si_runId idn) res {iss, None} s)"
proof -
  let ?r = "si_runId idn" and ?J = "Some ` judged (si_runId idn) res {iss, None} s"
  have marks: "finishing ?r res iss s u' \<and> (recs u' = recs u)"
    if "r_set R (transitionKey idn) x t u = (y, u')" "finishing ?r res iss s u" for x t u y u'
    using that set_other [OF that(1), of "terminalStateKey ?r"] set_other [OF that(1), of "terminalIssueKey ?r"]
    by (auto simp: finishing_def)
  obtain y v1 where g: "getTransitionState R idn v = (y, v1)" by (rule prod.exhaust)
  then obtain raw where raw: "r_get R (transitionKey idn) v = (raw, v1)"
    by (auto simp: getTransitionState_def bindM_apply returnM_apply split: prod.splits sum.splits)
  have k1: "kv v1 = kv v" "recs v1 = recs v" using get_kv [OF raw] redis_recs(1) [OF raw] by simp_all
  then have f1: "finishing ?r res iss s v1" "committed (kv v1) idn \<longrightarrow> recs v1 ?r \<in> ?J" using f c by (simp_all add: finishing_def)
  show ?thesis
  proof (cases "y = Inr TransCommitted \<or> (\<exists>e. y = Inl e)")
    case True
    with run g have "v' = v1" by (auto simp: applyTransition_def bindM_apply returnM_apply)
    with f1 show ?thesis by simp
  next
    case False
    then obtain st where st: "y = Inr st" "st \<noteq> TransCommitted" by (cases y) auto
    have nc: "\<not> committed (kv v1) idn"
      using getTransitionState_ok [OF g [unfolded st(1)]] st(2) k1 by (auto simp: committed_def transition_of_committed [symmetric])
    have run1: "thenM (whenM (st = TransNone) (markTransitionPending R idn))
        (thenM (finish_run R S ?r res iss) (markTransitionCommitted R idn)) v1 = (z, v')"
      using run g st by (simp add: applyTransition_def bindM_apply transition_effect_def createTransitionServices_def)
    obtain a v2 where a: "whenM (st = TransNone) (markTransitionPending R idn) v1 = (a, v2)" by (rule prod.exhaust)
    have v2: "finishing ?r res iss s v2 \<and> \<not> committed (kv v2) idn"
    proof (cases "st = TransNone")
      case True
      with a have m: "markTransitionPending R idn v1 = (a, v2)" by (simp add: whenM_apply)
      from marks [OF m [unfolded markTransitionPending_def] f1(1)] mark_pending_between [OF m nc] show ?thesis by simp
    next
      case False
      with a f1 nc show ?thesis by (simp add: whenM_apply)
    qed
    show ?thesis
    proof (cases a)
      case (Inl e)
      with run1 a v2 show ?thesis by (simp add: thenM_apply)
    next
      case (Inr u)
      with run1 a have run2: "thenM (finish_run R S ?r res iss) (markTransitionCommitted R idn) v2 = (z, v')" by (simp add: thenM_apply)
      obtain b v3 where b: "finish_run R S ?r res iss v2 = (b, v3)" by (rule prod.exhaust)
      note fin = finish_attempt [OF conjunct1 [OF v2] b]
      show ?thesis
      proof (cases b)
        case (Inl e)
        have "kv v3 (transitionKey idn) = kv v2 (transitionKey idn)"
          using only_changesD [OF finish_changes b, of "transitionKey idn"] by simp
        with run2 b Inl fin v2 show ?thesis by (simp add: thenM_apply committed_def)
      next
        case (Inr x)
        with run2 b have m: "markTransitionCommitted R idn v3 = (z, v')" by (simp add: thenM_apply)
        from marks [OF m [unfolded markTransitionCommitted_def] conjunct1 [OF fin]] fin Inr show ?thesis by auto
      qed
    qed
  qed
qed

end

text \<open>
  The states of the job between deliveries.  \<open>V\<close> and \<open>F\<close> are the artifacts and the
  finalization intent it was delivered with; a stored outcome comes from an execution that
  read them.
\<close>

context pipeline_world
begin

definition verified :: "string \<Rightarrow> (string \<Rightarrow> string \<Rightarrow> pipeline_artifact option) \<Rightarrow> rval option \<Rightarrow> bool" where
  "verified r V F \<longleftrightarrow> \<not> failed_intent F \<and> passed_evidence (V r)"

definition verdict_given :: "StageIdentity \<Rightarrow> bool \<Rightarrow> RunSnapshot \<Rightarrow> outcome option \<Rightarrow> 'w \<Rightarrow> bool" where
  "verdict_given idn ok s found v \<longleftrightarrow> (let r = si_runId idn in case found of
      None \<Rightarrow> recs v r = Some s \<and> kv v (terminalStateKey r) = None \<and> kv v (terminalIssueKey r) = None
    | Some out \<Rightarrow> (\<exists>res iss. resolveTransition Finalize out (si_iteration idn) = TDone res iss \<and> (res = Passed \<longleftrightarrow> ok) \<and>
        finishing r res iss s v \<and> (committed (kv v) idn \<longrightarrow> recs v r \<in> Some ` judged r res {iss, None} s)))"

definition reads_stored :: "StageIdentity \<Rightarrow> (string \<Rightarrow> string \<Rightarrow> pipeline_artifact option) \<Rightarrow> rval option \<Rightarrow> 'w \<Rightarrow> bool" where
  "reads_stored idn V F v \<longleftrightarrow> view v = V \<and> kv v (finalizationIntentKey (si_runId idn)) = F"

definition verdict_state where
  "verdict_state idn V F s exec v \<longleftrightarrow> reads_stored idn V F v \<and>
     (\<exists>J found. job_state kv jobs idn (restricted (reads_stored idn V F) exec) J found v \<and>
        verdict_given idn (verified (si_runId idn) V F) s found v)"

lemma frame_reads: "verdict_frame v u \<Longrightarrow> reads_stored idn V F v \<Longrightarrow> reads_stored idn V F u"
  by (simp add: verdict_frame_def reads_stored_def)

lemma verdict_same:
  assumes "verdict_given idn ok s found v" and "verdict_frame v v'" and "kv v' (transitionKey idn) = kv v (transitionKey idn)"
  shows "verdict_given idn ok s found v'"
proof -
  have "finishing r res iss s v' \<longleftrightarrow> finishing r res iss s v" for r res iss
    using assms(2) by (simp add: finishing_def verdict_frame_def)
  with assms show ?thesis
    by (auto simp: verdict_given_def Let_def verdict_frame_def committed_def split: option.splits)
qed

lemma job_run:
  assumes a: "agent_local kv jobs idn exec" and st: "verdict_state idn V F s exec v" and nd: "pipeline_status s \<noteq> PDone"
    and k: "\<And>u. keepsM (verdict_frame u) exec"
    and snd: "\<And>u out u'. reads_stored idn V F u \<Longrightarrow> exec u = (Inr out, u') \<Longrightarrow>
      \<exists>res iss. resolveTransition Finalize out (si_iteration idn) = TDone res iss \<and> (res = Passed \<longleftrightarrow> verified (si_runId idn) V F)"
    and run: "runStage R (worker_input R jc lost idn exec) v = (y, v1)"
  shows "verdict_state idn V F s exec v1 \<and> (\<forall>res. y = Inr res \<longrightarrow>
    (\<exists>J. job_state kv jobs idn (restricted (reads_stored idn V F) exec) J (Some (rr_outcome res)) v1) \<and>
    verdict_given idn (verified (si_runId idn) V F) s (Some (rr_outcome res)) v1)"
proof -
  let ?X = "restricted (reads_stored idn V F) exec"
  have al: "agent_local kv jobs idn ?X"
    using a by (simp add: agent_local_def spares_checkpoints_def restricted_only_changes)
  from st obtain J found where rs: "reads_stored idn V F v" and js: "job_state kv jobs idn ?X J found v"
    and vg: "verdict_given idn (verified (si_runId idn) V F) s found v" by (auto simp: verdict_state_def)
  have "exec u = ?X u" if "verdict_frame v u" for u
    using frame_reads [OF that rs] by (simp add: restricted_def)
  from run_restricted [where jc = jc and lost = lost and idn = idn and v = v and w = v, OF k this] run
  have eq: "runStage R (worker_input R jc lost idn ?X) v = (y, v1)" by (simp add: verdict_frame_def)
  have fr: "verdict_frame v v1"
    using keepsMD [OF frame_run [OF k, of v jc lost idn], of v] run by (simp add: verdict_frame_def)
  have tk: "kv v1 (transitionKey idn) = kv v (transitionKey idn)"
    using only_changesD [OF runStage_transition_key eq] al by (auto simp: agent_local_def)
  from job_state_run [OF al js eq] obtain found' where js': "job_state kv jobs idn ?X J found' v1"
    and res: "\<forall>res. y = Inr res \<longrightarrow> found' = Some (rr_outcome res)" by blast
  have "verdict_given idn (verified (si_runId idn) V F) s found' v1"
  proof (cases found)
    case (Some out)
    with js have ex: "kv v (executedKey idn) = Some (RText ''1'')" and o: "kv v (outcomeKey idn) = Some (RJson (DOutcome out))"
      by (simp_all add: job_state_def)
    have same: "kv v1 k = kv v k" if "k \<in> ckpt_keys" for k
      using runStage_executed_spares [OF worker_collaborators_spare _ eq that] al ex
      by (simp add: agent_local_def worker_input_def)
    then have "kv v1 (executedKey idn) = Some (RText ''1'')" "kv v1 (outcomeKey idn) = Some (RJson (DOutcome out))"
      using ex o by (simp_all add: ckpt_keys_def fam_def key_last_seg)
    with js' have "found' = Some out" by (cases found') (auto simp: job_state_def)
    with verdict_same [OF vg fr tk] Some show ?thesis by simp
  next
    case None
    with vg fr have n: "recs v1 (si_runId idn) = Some s" "kv v1 (terminalStateKey (si_runId idn)) = None"
      "kv v1 (terminalIssueKey (si_runId idn)) = None"
      by (simp_all add: verdict_given_def Let_def verdict_frame_def)
    have nc: "\<not> committed (kv v1) idn" using None js tk by (simp add: job_state_def committed_def)
    show ?thesis
    proof (cases found')
      case None
      with n show ?thesis by (simp add: verdict_given_def Let_def)
    next
      case (Some out)
      with js' obtain u u' where "?X u = (Inr out, u')" by (auto simp: job_state_def)
      then have "reads_stored idn V F u" "exec u = (Inr out, u')" by (auto simp: restricted_def split: if_splits)
      from snd [OF this] obtain r iss where "resolveTransition Finalize out (si_iteration idn) = TDone r iss"
        "r = Passed \<longleftrightarrow> verified (si_runId idn) V F" by blast
      with n nc nd Some show ?thesis by (auto simp: verdict_given_def Let_def finishing_def)
    qed
  qed
  with js' res frame_reads [OF fr rs] show ?thesis by (auto simp: verdict_state_def)
qed

end

context pipeline_world
begin

lemma job_step:
  assumes a: "agent_local kv jobs idn exec" and nd: "pipeline_status s \<noteq> PDone" and fin: "si_stage idn = Finalize"
    and k: "\<And>u. keepsM (verdict_frame u) exec"
    and snd: "\<And>u out u'. reads_stored idn V F u \<Longrightarrow> exec u = (Inr out, u') \<Longrightarrow>
      \<exists>res iss. resolveTransition Finalize out (si_iteration idn) = TDone res iss \<and> (res = Passed \<longleftrightarrow> verified (si_runId idn) V F)"
    and st: "verdict_state idn V F s exec v"
    and run: "process_job R Q (createTransitionServices R jc S) jc lost idn exec v = (x, v')"
  shows "verdict_state idn V F s exec v' \<and> (\<forall>y. x = Inr y \<longrightarrow>
    (\<exists>res iss. (res = Passed \<longleftrightarrow> verified (si_runId idn) V F) \<and>
       recs v' (si_runId idn) \<in> Some ` judged (si_runId idn) res {iss, None} s))"
  using run unfolding process_job_def
proof (cases rule: bindM_cases)
  case (stopped e)
  with job_run [OF a st nd k snd stopped(1)] show ?thesis by simp
next
  case (went_on rr v1)
  let ?X = "restricted (reads_stored idn V F) exec" and ?sv = "createTransitionServices R jc S"
  have "verdict_state idn V F s exec v1 \<and> (\<forall>res. (Inr rr :: js_error + _) = Inr res \<longrightarrow>
    (\<exists>J. job_state kv jobs idn ?X J (Some (rr_outcome res)) v1) \<and>
    verdict_given idn (verified (si_runId idn) V F) s (Some (rr_outcome res)) v1)"
    by (rule job_run [OF a st nd k _ went_on(1)]) (rule snd)
  then obtain J where vs: "reads_stored idn V F v1"
    and js: "job_state kv jobs idn ?X J (Some (rr_outcome rr)) v1"
    and vg: "verdict_given idn (verified (si_runId idn) V F) s (Some (rr_outcome rr)) v1"
    by (auto simp: verdict_state_def)
  from vg obtain res iss where tr: "resolveTransition (si_stage idn) (rr_outcome rr) (si_iteration idn) = TDone res iss"
    and ok: "res = Passed \<longleftrightarrow> verified (si_runId idn) V F" and f: "finishing (si_runId idn) res iss s v1"
    and c: "committed (kv v1) idn \<longrightarrow> recs v1 (si_runId idn) \<in> Some ` judged (si_runId idn) res {iss, None} s"
    by (auto simp: verdict_given_def Let_def fin)
  obtain z v2 where ap: "applyTransition R Q ?sv idn (TDone res iss) v1 = (z, v2)" by (rule prod.exhaust)
  note after = apply_done [OF ap f c]
  have st2: "verdict_state idn V F s exec v2"
    using done_leaves [OF ap] vs job_state_apply [OF worker_services_spare js ap [folded tr]] after ok tr
    by (auto simp: verdict_state_def reads_stored_def verdict_given_def Let_def fin intro!: exI [of _ J] exI [of _ "Some (rr_outcome rr)"])
  have end_: "v' = v2" and ret: "x = Inr y \<Longrightarrow> z = Inr ()" for y
    using went_on(2) ap by (auto simp: Let_def tr thenM_apply returnM_apply split: sum.splits)
  have "recs v' (si_runId idn) \<in> Some ` judged (si_runId idn) res {iss, None} s" if "x = Inr y" for y
    using after applyTransition_ok_committed [OF ap [unfolded ret [OF that]]] end_ by simp
  with st2 end_ ok show ?thesis by blast
qed

end

section \<open>Property\<close>

text \<open>
  C18.  The finalize job of a run that is not done yet, delivered until it completes by
  workers for which no \<open>refine-once\<close> fault is configured at finalize (the hypothesis \<open>nf\<close>; such
  a fault replaces the execution, and the resolver takes its outcome for a pass: see
  \<open>Worker_Runs\<close>): the run is finished once, and it is recorded as Passed exactly when no failure
  was handed to finalize and the stored build passed with the hash of the stored proof.
\<close>

theorem passed_run_was_verified:
  assumes w: "pipeline_world R kv Q jobs S view recs"
    and a: "agents_leave (\<lambda>w. (kv w, jobs w, view w, recs w)) sv (job_progress updateProgress job)"
    and fin: "wj_name job = Finalize"
    and nf: "configs_for (jc_env jc) ''finalize'' ''refine-once'' (si_iteration (job_identity job)) = []"
    and fresh: "kv w (executedKey (job_identity job)) \<noteq> Some (RText ''1'')" "\<not> committed (kv w) (job_identity job)"
    and open_run: "recs w (wj_runId job) = Some s" "pipeline_status s \<noteq> PDone"
      "kv w (terminalStateKey (wj_runId job)) = None" "kv w (terminalIssueKey (wj_runId job)) = None"
    and d: "delivered (pipeline_worker R Q S clock jc lost sv updateProgress job) w w'"
  shows "\<exists>res iss pf. recs w' (wj_runId job) = Some (finished (finalization_of (wj_runId job) res iss pf) s) \<and>
    (res = Passed \<longleftrightarrow> \<not> failed_intent (kv w (finalizationIntentKey (wj_runId job))) \<and> passed_evidence (view w (wj_runId job)))"
proof -
  let ?idn = "job_identity job" and ?exec = "job_execute R S clock jc sv updateProgress job"
  let ?V = "view w" and ?F = "kv w (finalizationIntentKey (wj_runId job))"
  have idn: "si_runId ?idn = wj_runId job" "si_stage ?idn = Finalize" by (simp_all add: job_identity_def fin)
  have ctx: "px_services (job_ctx S clock job) = S" "px_runId (job_ctx S clock job) = wj_runId job" by (simp_all add: job_ctx_def)
  have valid: "valid_payload job"
    using d by (induction rule: delivered.induct) (auto simp: pipeline_worker_def throwM_apply split: if_splits)
  have pr: "keepsM (pipeline_world.verdict_frame kv view recs u) (job_progress updateProgress job x)" for u x
    by (rule agents_leave_keep(2) [OF a]) (auto simp: pipeline_world.verdict_frame_def [OF w])
  have a2: "agents_leave (\<lambda>w. (kv w, jobs w)) sv (job_progress updateProgress job)"
    unfolding agents_leave_def by (intro allI conjI agents_leave_keep [OF a]) auto
  have al: "agent_local kv jobs ?idn ?exec"
    unfolding job_execute_def by (rule pipeline_world.execute_local [OF w ctx(1) a2])
  have k: "keepsM (pipeline_world.verdict_frame kv view recs u) ?exec" for u
    unfolding job_execute_def by (rule pipeline_world.frame_execute [OF w ctx(1) pr idn(2)])
  have sound: "\<exists>res iss. resolveTransition Finalize out (si_iteration ?idn) = TDone res iss \<and>
      (res = Passed \<longleftrightarrow> pipeline_world.verified (si_runId ?idn) ?V ?F)"
    if "pipeline_world.reads_stored kv view ?idn ?V ?F u" "?exec u = (Inr out, u')" for u out u'
    using pipeline_world.finalize_sound [OF w ctx(1) pr idn(2) nf _ that(2) [unfolded job_execute_def], of u] that(1)
    by (simp add: pipeline_world.verdict_frame_def [OF w] pipeline_world.verified_def [OF w] pipeline_world.reads_stored_def [OF w]
        ctx idn)
  note st_def = pipeline_world.verdict_state_def [OF w] pipeline_world.reads_stored_def [OF w] pipeline_world.verdict_given_def [OF w]
  let ?st = "pipeline_world.verdict_state kv jobs view recs ?idn ?V ?F s ?exec"
  let ?res = "\<lambda>w'. \<exists>res iss. (res = Passed \<longleftrightarrow> pipeline_world.verified (si_runId ?idn) ?V ?F) \<and>
       recs w' (wj_runId job) \<in> Some ` pipeline_world.judged (wj_runId job) res {iss, None} s"
  have "job_state kv jobs ?idn e (jobs w) None w" for e using fresh by (simp add: job_state_def)
  then have st: "?st w" using open_run
    by (auto simp: st_def idn Let_def intro!: exI [of _ "jobs w"] exI [of _ "None"])
  have step: "?st u' \<and> (\<forall>y. x = Inr y \<longrightarrow> ?res u')"
    if "?st u" "pipeline_worker R Q S clock jc lost sv updateProgress job u = (x, u')" for u x u'
    using pipeline_world.job_step [OF w al open_run(2) idn(2) k sound that(1)] that(2) valid
    by (simp add: pipeline_worker_def idn)
  have "?res w'" by (rule delivered_rule [where P = ?res and I = ?st, OF d st step])
  then show ?thesis by (auto simp: pipeline_world.judged_def [OF w] pipeline_world.verified_def [OF w] idn)
qed

text \<open>A run of which a stage before finalize failed.\<close>

definition finalize_job :: worker_job where
  "finalize_job = \<lparr>wj_name = Finalize, wj_version = 2, wj_runId = ''run'', wj_stage = Finalize, wj_iteration = 0\<rparr>"

definition demo_failed :: demo_world where
  "demo_failed = (mem_empty\<lparr>mem_kv := [finalizationIntentKey ''run'' \<mapsto>
     RJson (DIntent \<lparr>fi_test_result = Failed, fi_issue = sample_issue\<rparr>)]\<rparr>, demo_empty)"

text \<open>The calls of the job on the run services, one after the other.\<close>

lemma proof_of_pair: "optional_proof (runs_snd S) r = on_snd (optional_proof S r)"
  by (simp add: fun_eq_iff optional_proof_def load_as_def lift_fs_def runs_snd_def on_snd_def on_store_def eff_simps
      split: prod.splits sum.splits option.splits) auto

lemma demo_finalize_calls:
  "\<exists>w1 p w2 q w3 t w4 w5. svc_emit demo_services ''run'' ''Finalize'' ERunning (no_data\<lparr>ed_scope := Some WORKFLOW\<rparr>) demo_empty = (Inr (), w1) \<and>
     svc_get demo_services ''run'' w1 = (Inr (Some p), w2) \<and> pipeline_status p \<noteq> PDone \<and>
     optional_proof demo_services ''run'' w2 = (Inr q, w3) \<and>
     svc_finish demo_services ''run'' (finalization_of ''run'' Failed (Some sample_issue) q) w3 = (Inr t, w4) \<and>
     svc_emit demo_services ''run'' ''Done'' ECompleted (done_data Failed (Some sample_issue)) w4 = (Inr (), w5)"
proof -
  let ?m = "bindM (svc_emit demo_services ''run'' ''Finalize'' ERunning (no_data\<lparr>ed_scope := Some WORKFLOW\<rparr>)) (\<lambda>_.
    bindM (svc_get demo_services ''run'') (\<lambda>s. case s of None \<Rightarrow> throwM type_error | Some p \<Rightarrow>
      if pipeline_status p = PDone then throwM type_error else bindM (optional_proof demo_services ''run'') (\<lambda>q.
      bindM (svc_finish demo_services ''run'' (finalization_of ''run'' Failed (Some sample_issue) q)) (\<lambda>_.
      svc_emit demo_services ''run'' ''Done'' ECompleted (done_data Failed (Some sample_issue))))))"
  have "is_ok (fst (?m demo_empty))" by code_simp
  then obtain x w' where "?m demo_empty = (Inr x, w')" by (rule is_okE)
  then show ?thesis
    by (elim bindM_Inr_elim) (auto simp: throwM_apply split: option.splits if_splits elim!: bindM_Inr_elim simp del: split_paired_Ex)
qed

lemma passed_run_was_verified_witness:
  "\<exists>w' s. delivered (pipeline_worker demo_redis (queue_fst InMemoryQueue) demo_runs (\<lambda>_. ''t'') sample_job (\<lambda>_. False) demo_agents
      no_progress finalize_job) demo_failed w' \<and>
    deployed_recs (snd w') ''run'' = Some s \<and> rs_test_result s = Some Failed"
proof -
  let ?att = "pipeline_worker demo_redis (queue_fst InMemoryQueue) demo_runs (\<lambda>_. ''t'') sample_job (\<lambda>_. False) demo_agents no_progress finalize_job"
  have pw: "pipeline_world demo_redis (\<lambda>w. mem_kv (fst w)) (queue_fst InMemoryQueue) (\<lambda>w. mem_jobs (fst w)) demo_runs
      (\<lambda>w. deployed_view ''d'' (snd w)) (\<lambda>w. deployed_recs (snd w))"
    unfolding demo_redis_def demo_runs_def demo_services_def by (rule worker_deployment.pipeline_world_axioms)
  have nf: "getFaultConfigs no_faults = []"
    by (rule faults_off) (simp add: faultsEnabled_def no_faults_def)
  have keys: "lockKey r t \<noteq> finalizationIntentKey q" "completedKey r t n \<noteq> finalizationIntentKey q"
    "transitionKey i \<noteq> finalizationIntentKey q" "executedKey i \<noteq> finalizationIntentKey q" "outcomeKey i \<noteq> finalizationIntentKey q"
    "finalizationIntentKey q \<noteq> transitionKey i" "terminalStateKey r \<noteq> finalizationIntentKey q"
    "terminalIssueKey r \<noteq> finalizationIntentKey q" "terminalStateKey r \<noteq> completedKey q t n"
    "terminalIssueKey r \<noteq> completedKey q t n" "terminalStateKey r \<noteq> transitionKey i" "terminalIssueKey r \<noteq> transitionKey i"
    "terminalStateKey r \<noteq> lockKey q t" "terminalIssueKey r \<noteq> lockKey q t" "terminalStateKey r \<noteq> terminalIssueKey q"
    for r t n i q
    by (rule last_seg_neq, simp add: stage_simps key_last_seg)+
  note keys = keys keys(1) [symmetric]
  have scope: "no_data\<lparr>ed_scope := (case ed_scope no_data of None \<Rightarrow> Some WORKFLOW | Some s \<Rightarrow> Some s)\<rparr> = no_data\<lparr>ed_scope := Some WORKFLOW\<rparr>"
    by (simp add: no_data_def)
  have idn: "job_identity finalize_job = sample_identity\<lparr>si_stage := Finalize\<rparr>" "valid_payload finalize_job"
    by (simp_all add: job_identity_def finalize_job_def sample_identity_def stageIteration_def stage_simps requestedIteration_def
        valid_payload_def job_ctx_def)
  have b: "wj_name finalize_job = Finalize" "wj_runId finalize_job = ''run''" by (simp_all add: finalize_job_def)
  have ctx: "px_runId (job_ctx demo_runs clk finalize_job) = ''run''" "px_services (job_ctx demo_runs clk finalize_job) = demo_runs" for clk
    by (simp_all add: job_ctx_def b)
  from demo_finalize_calls obtain w1 p w2 q w3 t w4 w5
    where c: "svc_emit demo_services ''run'' ''Finalize'' ERunning (no_data\<lparr>ed_scope := Some WORKFLOW\<rparr>) demo_empty = (Inr (), w1)"
     "svc_get demo_services ''run'' w1 = (Inr (Some p), w2)" "pipeline_status p \<noteq> PDone"
     "optional_proof demo_services ''run'' w2 = (Inr q, w3)"
     "svc_finish demo_services ''run'' (finalization_of ''run'' Failed (Some sample_issue) q) w3 = (Inr t, w4)"
     "svc_emit demo_services ''run'' ''Done'' ECompleted (done_data Failed (Some sample_issue)) w4 = (Inr (), w5)" by blast
  have sn: "svc_get demo_runs = (\<lambda>r. on_snd (svc_get demo_services r))" "svc_finish demo_runs = (\<lambda>r fi. on_snd (svc_finish demo_services r fi))"
    "svc_emit demo_runs = (\<lambda>r p st d. on_snd (svc_emit demo_services r p st d))"
    "optional_proof demo_runs = (\<lambda>r. on_snd (optional_proof demo_services r))"
    by (simp_all add: demo_runs_def proof_of_pair fun_eq_iff) (simp_all add: runs_snd_def)
  have "\<exists>x w'. ?att demo_failed = (Inr x, w')"
    by (simp add: pipeline_worker_def idn job_execute_def execute_def shouldInjectRefine_def execute_stage_def execute_finalize_def
        loadFinalizationIntent_def runFinalizeStage_def reportProgress_def job_progress_def no_progress_def emitStage_def
        ctx b liftM_def
        keys scope sn on_snd_def c
        process_job_def runStage_def loadPersistedOutcome_def isExecuted_def Let_def
        worker_input_def idempotencyLock_def faultInjector_def guardedStage_def executeStage_def
        stage_log_def opt_unit_def apply_fault_def applyAfterCheckpoint_def configs_for_def nf
        saveExecution_def SAVE_EXECUTION_SCRIPT_def stage_lease_def idem_defs history_append_def
        applyTransition_def getTransitionState_def markTransitionPending_def
        markTransitionCommitted_def transition_effect_def createTransitionServices_def finish_run_def getTerminalState_def
        agreed_issue_def getTerminalIssue_def markTerminalPending_def settle_run_def markTerminalCommitted_def
        stage_simps mem_redis_defs eff_simps
        sample_job_def sample_identity_def mem_empty_def or_else_def demo_redis_def redis_fst_def queue_fst_def on_fst_def
        demo_failed_def terminal_def
        del: split_paired_Ex)
  then obtain x w' where "?att demo_failed = (Inr x, w')" by blast
  then have d: "delivered ?att demo_failed w'" by (rule delivered_now)
  have al: "agents_leave f demo_agents (job_progress no_progress finalize_job)" for f :: "demo_world \<Rightarrow> 'b"
    using demo_agents_leave [of f] by (simp add: job_progress_def no_progress_def fun_eq_iff agents_leave_def)
  have nc: "configs_for (jc_env sample_job) ''finalize'' ''refine-once'' (si_iteration (job_identity finalize_job)) = []"
    by (simp add: configs_for_def sample_job_def nf)
  have fresh: "mem_kv (fst demo_failed) (executedKey (job_identity finalize_job)) \<noteq> Some (RText ''1'')"
    "\<not> committed (mem_kv (fst demo_failed)) (job_identity finalize_job)"
    "mem_kv (fst demo_failed) (terminalStateKey (wj_runId finalize_job)) = None"
    "mem_kv (fst demo_failed) (terminalIssueKey (wj_runId finalize_job)) = None"
    by (simp_all add: demo_failed_def mem_empty_def committed_def keys idn)
  have "map_option pipeline_status (deployed_recs (snd demo_failed) ''run'') = Some PRunning" by code_simp
  then obtain s where s: "deployed_recs (snd demo_failed) (wj_runId finalize_job) = Some s" "pipeline_status s \<noteq> PDone"
    by (auto simp: b)
  from passed_run_was_verified [OF pw al b(1) nc fresh(1,2) s fresh(3,4) d]
  obtain res iss pf where "deployed_recs (snd w') ''run'' = Some (finished (finalization_of ''run'' res iss pf) s)"
    "res = Passed \<longleftrightarrow> \<not> failed_intent (mem_kv (fst demo_failed) (finalizationIntentKey ''run'')) \<and>
       passed_evidence (deployed_view ''d'' (snd demo_failed) ''run'')" unfolding b by blast
  moreover have "failed_intent (mem_kv (fst demo_failed) (finalizationIntentKey ''run''))" by (simp add: demo_failed_def)
  ultimately show ?thesis using d
    by (cases res) (auto simp: finished_def finalization_of_def simp del: split_paired_Ex intro!: exI [of _ w'])
qed

end
