(* ===== verification/Worker_Runs.thy ===== *)
theory Worker_Runs
  imports Run_Verdict
begin

text \<open>
  The jobs of the worker one after the other: how many a run can take without a human, and
  how the failure of a stage reaches the verdict through the store.  A refinement that gap
  analysis or evaluation ends with is not limited by the resolver; the worker returns one
  only for a configured \<open>refine-once\<close> fault, so the theorems name that configuration.
\<close>

section \<open>Where refinements come from\<close>

definition gap_or_evaluation_fault :: "fault_env \<Rightarrow> bool" where
  "gap_or_evaluation_fault env \<longleftrightarrow> (\<exists>c \<in> set (getFaultConfigs env). fc_mode c = ''refine-once'' \<and>
     fc_stage c \<in> {''gap-analysis'', ''evaluation''})"

lemma uncapped_refinement_injected:
  assumes "execute R jc ctx sv progress idn w = (Inr out, w')"
    and "uncapped (si_stage idn) out \<noteq> 0"
  shows "gap_or_evaluation_fault (jc_env jc)"
proof (rule ccontr)
  let ?s = "si_stage idn"
  assume n: "\<not> gap_or_evaluation_fault (jc_env jc)"
  from assms(2) have r: "is_refine out" "?s = GapAnalysisStage \<or> ?s = EvaluationStage" by (auto simp: uncapped_def split: if_splits)
  with n have "configs_for (jc_env jc) (stage_str ?s) ''refine-once'' (si_iteration idn) = []"
    by (auto simp: gap_or_evaluation_fault_def configs_for_def filter_empty_conv)
  with assms(1) have "execute_stage R jc ctx sv progress ?s w = (Inr out, w')"
    by (simp add: execute_def shouldInjectRefine_def bindM_apply returnM_apply)
  with r(2) have "out = Advance None"
    by (auto simp: execute_stage_def advance_def returnM_apply elim!: thenM_Inr_elim)
  with r(1) show False by simp
qed

lemma refine_fault_injects:
  assumes "configs_for (jc_env jc) (stage_str (si_stage idn)) ''refine-once'' (si_iteration idn) \<noteq> []"
    and "r_set_nx R (faultMarker (si_runId idn) (stage_str (si_stage idn)) ''refine-once'' (si_iteration idn))
      (RText ''1'') ONE_HOUR_SECONDS w = (Inr True, w')"
  shows "execute R jc ctx sv progress idn w = (Inr (injected_refine (si_runId idn)), w')"
  using assms by (simp add: execute_def shouldInjectRefine_def bindM_apply returnM_apply)

text \<open>
  \<open>worker_chain p n k q\<close>: from the job of \<open>p\<close> the jobs of the run \<open>r\<close> that workers with the
  faults \<open>env\<close> execute, each enqueued for the outcome of the one before, lead to \<open>q\<close> after \<open>n\<close>
  jobs; each execution starts in any state of the world.
\<close>

inductive worker_chain :: "'w redis_client \<Rightarrow> 'w pipeline_run \<Rightarrow> ('w \<Rightarrow> string) \<Rightarrow> fault_env \<Rightarrow> 'w StageServices \<Rightarrow>
    'w progress \<Rightarrow> string \<Rightarrow> PipelineStage \<times> nat \<Rightarrow> nat \<Rightarrow> nat \<Rightarrow> PipelineStage \<times> nat \<Rightarrow> bool"
  for R S clock env sv updateProgress r p where
  worker_start: "worker_chain R S clock env sv updateProgress r p 0 0 p"
| worker_next: "worker_chain R S clock env sv updateProgress r p n k (s, i) \<Longrightarrow> jc_env jc = env \<Longrightarrow>
    job_identity job = \<lparr>si_runId = r, si_stage = s, si_iteration = i\<rparr> \<Longrightarrow>
    job_execute R S clock jc sv updateProgress job w = (Inr out, w') \<Longrightarrow>
    enqueued (resolveTransition s out i) = Some q \<Longrightarrow>
    worker_chain R S clock env sv updateProgress r p (Suc n) (k + uncapped s out) q"

lemma worker_chain_auto:
  "worker_chain R S clock env sv updateProgress r p n k q \<Longrightarrow>
    auto_chain p n k q \<and> (\<not> gap_or_evaluation_fault env \<longrightarrow> k = 0)"
proof (induction rule: worker_chain.induct)
  case (worker_next n k s i jc job w out w' q)
  have "uncapped s out \<noteq> 0 \<Longrightarrow> gap_or_evaluation_fault env"
    using uncapped_refinement_injected [OF worker_next(4) [unfolded job_execute_def]] worker_next(2,3) by simp
  with worker_next show ?case by (auto intro: auto_next)
qed (simp add: auto_start)

text \<open>
  C1.  The pipeline cannot loop.  From the planner job that a confirmed research starts, the
  resolver, whatever outcomes the stages return, enqueues chains of further jobs of every
  length up to \<open>16 + 2 * k\<close> and no longer ones when at most \<open>k\<close> of the outcomes are
  refinements of gap analysis or evaluation, which it does not limit; the jobs that workers
  execute are such chains, and where no \<open>refine-once\<close> fault is configured for these two stages
  \<open>k\<close> is 0: at most sixteen further jobs.
\<close>

theorem automatic_run_bounded:
  "{n. \<exists>j \<le> k. \<exists>q. auto_chain (Planner, 0) n j q} = {..16 + 2 * k} \<and>
   (worker_chain R S clock env sv updateProgress r (Planner, 0) n j q \<longrightarrow>
     n \<le> 16 + 2 * j \<and> (\<not> gap_or_evaluation_fault env \<longrightarrow> n \<le> 16))"
proof (intro conjI impI chain_lengths)
  assume "worker_chain R S clock env sv updateProgress r (Planner, 0) n j q"
  from worker_chain_auto [OF this] have c: "auto_chain (Planner, 0) n j q" "\<not> gap_or_evaluation_fault env \<longrightarrow> j = 0" by auto
  from auto_chain_bound [OF c(1)] steps_left_pos [of q] show n: "n \<le> 16 + 2 * j" by simp
  assume "\<not> gap_or_evaluation_fault env"
  with c(2) n show "n \<le> 16" by simp
qed

definition stage_job :: "PipelineStage \<Rightarrow> nat \<Rightarrow> worker_job" where
  "stage_job s i = \<lparr>wj_name = s, wj_version = 2, wj_runId = ''run'', wj_stage = s, wj_iteration = of_nat i\<rparr>"

lemma stage_job_identity:
  "job_identity (stage_job s i) = \<lparr>si_runId = ''run'', si_stage = s,
     si_iteration = (if s = Researcher \<or> isIterativeStage s then i else 0)\<rparr>"
  by (simp add: job_identity_def stage_job_def requestedIteration_def stageIteration_def)

definition refine_faults :: "string list \<Rightarrow> fault_env" where
  "refine_faults stages = no_faults\<lparr>PIPELINE_FAULTS_ENABLED := Some ''true'', PIPELINE_FAULTS :=
     Some (Some (JArr (map (\<lambda>s. JObj [(''stage'', JStr s), (''mode'', JStr ''refine-once'')]) stages)))\<rparr>"

definition refine_once_at :: "string \<Rightarrow> FaultConfig" where
  "refine_once_at stage = \<lparr>fc_stage = stage, fc_mode = ''refine-once'', fc_delayMs = Some 3000, fc_minIteration = 0\<rparr>"

lemma refine_faults_configs:
  "getFaultConfigs (refine_faults [''planner'', ''refactor'']) = [refine_once_at ''planner'', refine_once_at ''refactor'']"
  "getFaultConfigs (refine_faults [''gap-analysis'']) = [refine_once_at ''gap-analysis'']"
  by code_simp+

lemma injected_step:
  assumes c: "worker_chain demo_redis S clock (refine_faults st) sv up ''run'' p n k (s, i)"
    and f: "refine_once_at (stage_str s) \<in> set (getFaultConfigs (refine_faults st))"
    and j: "job_identity (stage_job s i) = \<lparr>si_runId = ''run'', si_stage = s, si_iteration = i\<rparr>"
    and q: "enqueued (resolveTransition s (injected_refine ''run'') i) = Some q"
  shows "worker_chain demo_redis S clock (refine_faults st) sv up ''run'' p (Suc n) (k + uncapped s (injected_refine ''run'')) q"
proof (rule worker_next [OF c _ j _ q])
  let ?jc = "sample_job\<lparr>jc_env := refine_faults st\<rparr>" and ?idn = "\<lparr>si_runId = ''run'', si_stage = s, si_iteration = i\<rparr>"
  let ?w = "snd (r_set_nx demo_redis (faultMarker ''run'' (stage_str s) ''refine-once'' i) (RText ''1'') ONE_HOUR_SECONDS (mem_empty, demo_empty))"
  show "jc_env ?jc = refine_faults st" by simp
  have "configs_for (jc_env ?jc) (stage_str (si_stage ?idn)) ''refine-once'' (si_iteration ?idn) \<noteq> []"
    using f by (auto simp: configs_for_def filter_empty_conv matchesIteration_def refine_once_at_def intro!: bexI [OF _ f])
  moreover have "r_set_nx demo_redis (faultMarker (si_runId ?idn) (stage_str (si_stage ?idn)) ''refine-once'' (si_iteration ?idn))
      (RText ''1'') ONE_HOUR_SECONDS (mem_empty, demo_empty) = (Inr True, ?w)" by (simp add: demo_redis_def redis_fst_def on_fst_def mem_redis_defs mem_empty_def)
  ultimately show "job_execute demo_redis S clock ?jc sv up (stage_job s i) (mem_empty, demo_empty) = (Inr (injected_refine ''run''), ?w)"
    unfolding job_execute_def j by (drule_tac refine_fault_injects) simp_all
qed

lemma injected_refine_kind: "is_refine (injected_refine r)"
  by (simp add: injected_refine_def refine_def)

lemma injected_refine_resolved:
  "enqueued (resolveTransition Planner (injected_refine r) i) = Some (Refactor, 0)"
  "enqueued (resolveTransition Refactor (injected_refine r) i) = Some (GapAnalysisStage, i)"
  "enqueued (resolveTransition GapAnalysisStage (injected_refine r) i) = Some (GapAnalysisStage, Suc i)"
  by (simp_all add: injected_refine_def refine_def resolver_simps)

text \<open>
  A \<open>refine-once\<close> fault for gap analysis fires at every iteration, not once: each iteration has
  a marker of its own, and the resolver goes on to the next one.
\<close>

lemma gap_fault_never_ends:
  "worker_chain demo_redis S clock (refine_faults [''gap-analysis'']) sv up ''run'' (GapAnalysisStage, 0) n n (GapAnalysisStage, n)"
proof (induction n)
  case (Suc n)
  from injected_step [OF Suc _ _ injected_refine_resolved(3)] show ?case
    by (simp add: refine_faults_configs stage_job_identity stage_simps uncapped_def injected_refine_kind)
qed (rule worker_start)

lemma automatic_run_bounded_witness:
  "worker_chain demo_redis demo_runs (\<lambda>_. ''t'') (refine_faults [''planner'', ''refactor'']) demo_agents no_progress
     ''run'' (Planner, 0) 2 0 (GapAnalysisStage, 0) \<and> (2::nat) \<le> 16"
proof -
  let ?env = "refine_faults [''planner'', ''refactor'']"
  let ?c = "worker_chain demo_redis demo_runs (\<lambda>_. ''t'') ?env demo_agents no_progress ''run'' (Planner, 0)"
  have "?c (Suc 0) 0 (Refactor, 0)"
    using injected_step [OF worker_start _ _ injected_refine_resolved(1)]
    by (simp add: refine_faults_configs stage_job_identity stage_simps uncapped_def)
  from injected_step [OF this _ _ injected_refine_resolved(2)] have c: "?c 2 0 (GapAnalysisStage, 0)"
    by (simp add: refine_faults_configs stage_job_identity stage_simps uncapped_def numeral_2_eq_2)
  have nf: "\<not> gap_or_evaluation_fault ?env"
    by (simp add: gap_or_evaluation_fault_def refine_faults_configs refine_once_at_def)
  from automatic_run_bounded c nf have "(2::nat) \<le> 16" by blast
  with c show ?thesis ..
qed

section \<open>The failure of a stage and the verdict\<close>

context pipeline_services
begin

definition intent_stored :: "StageIdentity \<Rightarrow> FinalizationIntent \<Rightarrow> 'w \<Rightarrow> bool" where
  "intent_stored idn intent w \<longleftrightarrow> kv w (finalizationIntentKey (si_runId idn)) = Some (RJson (DIntent intent))"

lemma effect_stores_intent:
  assumes "transition_effect R Q sv idn (TNext s i (Some intent)) w = (Inr x, w')"
  shows "intent_stored idn intent w'"
proof -
  from assms obtain w1 u where a: "saveFinalizationIntent R (si_runId idn) intent w = (Inr (), w1)"
    and q: "q_add Q s \<lparr>jd_runId = si_runId idn, jd_stage = s, jd_iteration = i\<rparr> (stageJobId (si_runId idn) s i) w1 = (Inr u, w')"
    by (auto simp: transition_effect_def returnM_apply elim!: thenM_Inr_elim bindM_Inr_elim)
  from a have "intent_stored idn intent w1"
    by (auto simp: saveFinalizationIntent_def intent_stored_def dest: set_ok)
  with add_kv [OF q] show ?thesis by (simp add: intent_stored_def)
qed

text \<open>An attempt that commits the transition to finalize has stored the intent before.\<close>

lemma attempt_stores_intent:
  assumes c: "committed (kv w) idn \<longrightarrow> intent_stored idn intent w"
    and run: "applyTransition R Q sv idn (TNext s i (Some intent)) w = (r, w')"
  shows "(committed (kv w') idn \<longrightarrow> intent_stored idn intent w') \<and> (\<forall>x. r = Inr x \<longrightarrow> intent_stored idn intent w')"
  using run unfolding applyTransition_def
proof (cases rule: bindM_cases)
  case (stopped e)
  with get_state_keeps [OF stopped(1)] c show ?thesis by (simp add: intent_stored_def)
next
  case (went_on st w1)
  note k1 = get_state_keeps [OF went_on(1)]
  have st: "st = transition_of (kv w (transitionKey idn))" using getTransitionState_ok went_on(1) by blast
  show ?thesis
  proof (cases "committed (kv w) idn")
    case True
    then have "w' = w1" using went_on(2) st by (simp add: committed_def returnM_apply)
    with True c k1 show ?thesis by (simp add: intent_stored_def)
  next
    case False
    then have "st \<noteq> TransCommitted" using st by (simp add: transition_of_committed committed_def)
    with went_on(2) have run: "thenM (whenM (st = TransNone) (markTransitionPending R idn))
        (thenM (transition_effect R Q sv idn (TNext s i (Some intent))) (markTransitionCommitted R idn)) w1 = (r, w')" by simp
    have nc1: "\<not> committed (kv w1) idn" using False k1 by simp
    have pend: "\<not> committed (kv v') idn"
      if "whenM (st = TransNone) (markTransitionPending R idn) v = (r', v')" "\<not> committed (kv v) idn" for v r' v'
      using that mark_pending_between by (auto simp: whenM_apply split: if_splits)
    from run show ?thesis
    proof (cases rule: thenM_cases)
      case (stopped e)
      with pend [OF stopped(1) nc1] show ?thesis by simp
    next
      case p: (went_on u w2)
      from p(2) show ?thesis
      proof (cases rule: thenM_cases)
        case (stopped e)
        with next_effect_between [OF stopped(1) pend [OF p(1) nc1]] show ?thesis by simp
      next
        case f: (went_on x w3)
        have "finalizationIntentKey (si_runId idn) \<noteq> transitionKey idn" by (rule last_seg_neq) (simp add: stage_simps key_last_seg)
        with f(2) have "kv w' (finalizationIntentKey (si_runId idn)) = kv w3 (finalizationIntentKey (si_runId idn))"
          unfolding markTransitionCommitted_def by (rule set_other)
        with effect_stores_intent [OF f(1)] show ?thesis by (simp add: intent_stored_def)
      qed
    qed
  qed
qed

text \<open>The execution of finalize replays the failed intent that it finds.\<close>

lemma finalize_replays_intent:
  assumes i: "kv w (finalizationIntentKey (px_runId ctx)) = Some (RJson (DIntent intent))" "fi_test_result intent = Failed"
    and st: "si_stage idn = Finalize" and nf: "configs_for (jc_env jc) ''finalize'' ''refine-once'' (si_iteration idn) = []"
    and run: "execute R jc ctx sv progress idn w = (Inr out, w')"
  shows "resolveTransition Finalize out n = TDone Failed (Some (fi_issue intent))"
proof -
  from run nf st have "execute_finalize R ctx sv progress w = (Inr out, w')"
    by (simp add: execute_def shouldInjectRefine_def bindM_apply returnM_apply execute_stage_def)
  then obtain found w1 w2 where l: "loadFinalizationIntent R (px_runId ctx) w = (Inr found, w1)"
    and rest: "(let verified = bindM (loadHashProof ctx) (\<lambda>p. bindM (ctx_load as_build ctx ''build_result'') (\<lambda>b.
             returnM (finalize_outcome p b)))
        in case found of
          None \<Rightarrow> verified
        | Some i \<Rightarrow> if fi_test_result i = Failed
            then returnM (terminal (Some (JObj [(''finalized'', JBool True)])) (fi_issue i)) else verified) w2 = (Inr out, w')"
    unfolding execute_finalize_def by (auto elim!: bindM_Inr_elim thenM_Inr_elim)
  from l obtain raw where "r_get R (finalizationIntentKey (px_runId ctx)) w = (Inr raw, w1)" "parse_raw as_intent raw = Inr found"
    by (auto simp: loadFinalizationIntent_def liftM_def elim!: bindM_Inr_elim)
  with get_ok i(1) have "found = Some intent" by fastforce
  with rest i(2) show ?thesis by (auto simp: Let_def returnM_apply terminal_def stage_simps)
qed

end

text \<open>
  C3.  A stage that ends in a terminal outcome, and a triple validation that asks for a
  refinement after the last allowed iteration, fail the run with exactly the issue of that
  outcome.  Once its transition is applied, after any number of attempts that failed at any
  point, the store holds the failed intent with this issue and the one job added is the finalize
  job; and wherever a finalize execution of the run that finds this intent returns (with no
  \<open>refine-once\<close> fault configured for finalize), in any later state and whatever the other
  documents say, its outcome resolves to the end of the run as Failed with this issue.
\<close>

theorem failure_reaches_finalize:
  assumes "pipeline_services R kv Q jobs"
    and "si_stage idn \<noteq> Finalize \<and> out = Terminal v iss \<or>
      si_stage idn = TripleValidationStage \<and> out = Refine v iss fb \<and> MAX_REFINEMENT_ITERATIONS \<le> si_iteration idn"
    and "\<not> committed (kv w) idn"
    and "delivered (applyTransition R Q sv idn (resolveTransition (si_stage idn) out (si_iteration idn))) w w1"
  shows "kv w1 (finalizationIntentKey (si_runId idn)) = Some (RJson (DIntent \<lparr>fi_test_result = Failed, fi_issue = iss\<rparr>)) \<and>
    jobs w1 = job_added (si_runId idn) Finalize 0 (jobs w) \<and>
    (\<forall>jc ctx agents progress i u out' u' n. si_stage i = Finalize \<longrightarrow> px_runId ctx = si_runId idn \<longrightarrow>
       kv u (finalizationIntentKey (si_runId idn)) = kv w1 (finalizationIntentKey (si_runId idn)) \<longrightarrow>
       configs_for (jc_env jc) ''finalize'' ''refine-once'' (si_iteration i) = [] \<longrightarrow>
       execute R jc ctx agents progress i u = (Inr out', u') \<longrightarrow>
       resolveTransition Finalize out' n = TDone Failed (Some iss))"
proof -
  let ?intent = "\<lparr>fi_test_result = Failed, fi_issue = iss\<rparr>"
  let ?stored = "pipeline_services.intent_stored kv idn ?intent"
  note tr = assms(4) [unfolded failing_outcome_resolved [OF assms(2)]]
  have s: "?stored w1"
  proof (rule delivered_rule [OF tr, where I = "\<lambda>u. committed (kv u) idn \<longrightarrow> ?stored u"])
    show "committed (kv w) idn \<longrightarrow> ?stored w" using assms(3) by simp
  qed (use pipeline_services.attempt_stores_intent [OF assms(1)] in blast)
  have j: "jobs w1 = job_added (si_runId idn) Finalize 0 (jobs w)"
  proof (rule delivered_rule [OF tr, where I = "between kv jobs idn Finalize 0 (jobs w)"])
    show "between kv jobs idn Finalize 0 (jobs w) w" using assms(3) by (simp add: between_def)
  qed (use pipeline_services.attempt_between [OF assms(1)] in blast)
  show ?thesis
  proof (intro conjI allI impI s [unfolded pipeline_services.intent_stored_def [OF assms(1)]] j)
    fix jc ctx agents progress i u out' u' n
    assume i: "si_stage i = Finalize" "px_runId ctx = si_runId idn"
      "kv u (finalizationIntentKey (si_runId idn)) = kv w1 (finalizationIntentKey (si_runId idn))"
      and rest: "configs_for (jc_env jc) ''finalize'' ''refine-once'' (si_iteration i) = []"
        "execute R jc ctx agents progress i u = (Inr out', u')"
    have k: "kv u (finalizationIntentKey (px_runId ctx)) = Some (RJson (DIntent ?intent))"
      using s i(2,3) by (simp add: pipeline_services.intent_stored_def [OF assms(1)])
    from pipeline_services.finalize_replays_intent [OF assms(1) k _ i(1) rest, of n]
    show "resolveTransition Finalize out' n = TDone Failed (Some iss)" by simp
  qed
qed

definition last_rejection :: outcome where
  "last_rejection = refine (Some (JObj [(''all_valid'', JBool False)])) sample_issue ''retry''"

definition last_validation :: StageIdentity where
  "last_validation = \<lparr>si_runId = ''run'', si_stage = TripleValidationStage, si_iteration = 3\<rparr>"

lemma failure_reaches_finalize_witness:
  "\<exists>w1 out' u'. delivered (applyTransition demo_redis (queue_fst InMemoryQueue) (createTransitionServices demo_redis sample_job demo_runs) last_validation
      (resolveTransition TripleValidationStage last_rejection 3)) (mem_empty, demo_empty) w1 \<and>
    execute demo_redis sample_job (job_ctx demo_runs (\<lambda>_. ''t'') finalize_job) demo_agents no_progress (job_identity finalize_job) w1 =
      (Inr out', u') \<and> resolveTransition Finalize out' 0 = TDone Failed (Some sample_issue)"
proof -
  let ?att = "applyTransition demo_redis (queue_fst InMemoryQueue) (createTransitionServices demo_redis sample_job demo_runs) last_validation
      (resolveTransition TripleValidationStage last_rejection 3)"
  let ?ctx = "job_ctx demo_runs (\<lambda>_. ''t'') finalize_job" and ?i = "job_identity finalize_job"
  let ?intent = "\<lparr>fi_test_result = Failed, fi_issue = sample_issue\<rparr>"
  have ps: "pipeline_services demo_redis (\<lambda>w. mem_kv (fst w)) (queue_fst InMemoryQueue) (\<lambda>w. mem_jobs (fst w))"
    using worker_deployment.pipeline_services_axioms unfolding demo_redis_def .
  have tr: "resolveTransition TripleValidationStage last_rejection 3 = TNext Finalize 0 (Some ?intent)"
    by (simp add: last_rejection_def refine_def stage_simps failedFinalization_def)
  have ne: "transitionKey i \<noteq> finalizationIntentKey q" for i q by (rule last_seg_neq) (simp add: stage_simps key_last_seg)
  have "\<exists>w1. ?att (mem_empty, demo_empty) = (Inr (), w1) \<and> snd w1 = demo_empty"
    unfolding tr
    by (simp add: applyTransition_def getTransitionState_def markTransitionPending_def markTransitionCommitted_def
        transition_effect_def saveFinalizationIntent_def demo_redis_def redis_fst_def queue_fst_def on_fst_def mem_redis_defs
        eff_simps mem_empty_def)
  then obtain w1 where w1: "?att (mem_empty, demo_empty) = (Inr (), w1)" "snd w1 = demo_empty" by blast
  then have d: "delivered ?att (mem_empty, demo_empty) w1" by (simp add: delivered_now)
  have st: "si_stage last_validation = TripleValidationStage" "si_runId last_validation = ''run''" "si_iteration last_validation = 3"
    by (simp_all add: last_validation_def)
  have nc: "\<not> committed (mem_kv (fst (mem_empty, demo_empty :: pipeline_doc deployment))) last_validation"
    by (simp add: committed_def mem_empty_def)
  have bad: "si_stage last_validation \<noteq> Finalize \<and> last_rejection = Terminal (Some (JObj [(''all_valid'', JBool False)])) sample_issue \<or>
      si_stage last_validation = TripleValidationStage \<and>
      last_rejection = Refine (Some (JObj [(''all_valid'', JBool False)])) sample_issue ''retry'' \<and>
      MAX_REFINEMENT_ITERATIONS \<le> si_iteration last_validation"
    by (simp add: last_validation_def last_rejection_def refine_def MAX_REFINEMENT_ITERATIONS_def)
  note all = failure_reaches_finalize [OF ps bad nc d [folded st]]
  have ctx: "px_runId ?ctx = ''run''" "px_services ?ctx = demo_runs" "si_stage ?i = Finalize"
    by (simp_all add: job_ctx_def finalize_job_def job_identity_def)
  have nf: "configs_for (jc_env sample_job) ''finalize'' ''refine-once'' n = []" for n
    using faults_off [of no_faults] by (simp add: configs_for_def sample_job_def faultsEnabled_def no_faults_def)
  have fin: "mem_kv (fst w1) (finalizationIntentKey ''run'') = Some (RJson (DIntent ?intent))" using all st(2) by simp
  from demo_finalize_calls obtain v1
    where em: "svc_emit demo_services ''run'' ''Finalize'' ERunning (no_data\<lparr>ed_scope := Some WORKFLOW\<rparr>) demo_empty = (Inr (), v1)" by blast
  have scope: "no_data\<lparr>ed_scope := (case ed_scope no_data of None \<Rightarrow> Some WORKFLOW | Some s \<Rightarrow> Some s)\<rparr> = no_data\<lparr>ed_scope := Some WORKFLOW\<rparr>"
    by (simp add: no_data_def)
  have sn: "svc_emit demo_runs = (\<lambda>r p st d. on_snd (svc_emit demo_services r p st d))" by (simp add: demo_runs_def runs_snd_def)
  obtain m where m: "w1 = (m, demo_empty)" using w1(2) by (cases w1) simp
  have "\<exists>out' u'. execute demo_redis sample_job ?ctx demo_agents no_progress ?i w1 = (Inr out', u')"
    using fin unfolding m
    by (simp add: execute_def shouldInjectRefine_def nf ctx execute_stage_def execute_finalize_def stage_simps
        loadFinalizationIntent_def runFinalizeStage_def reportProgress_def no_progress_def emitStage_def liftM_def
        scope sn on_snd_def em eff_simps or_else_def demo_redis_def redis_fst_def on_fst_def mem_redis_defs
        del: split_paired_Ex)
  then obtain out' u' where e: "execute demo_redis sample_job ?ctx demo_agents no_progress ?i w1 = (Inr out', u')" by blast
  have "resolveTransition Finalize out' 0 = TDone Failed (Some sample_issue)"
    using conjunct2 [OF conjunct2 [OF all], rule_format, OF ctx(3) ctx(1) [folded st(2)] refl nf e] .
  with d e show ?thesis by blast
qed

text \<open>
  A \<open>refine-once\<close> fault configured for finalize replaces that execution by the injected
  refinement, which the resolver takes for a pass: a run whose failed intent is stored ends as
  Passed.
\<close>

lemma finalize_fault_passes:
  assumes "si_stage idn = Finalize" and "configs_for (jc_env jc) ''finalize'' ''refine-once'' (si_iteration idn) \<noteq> []"
    and "r_set_nx R (faultMarker (si_runId idn) ''finalize'' ''refine-once'' (si_iteration idn)) (RText ''1'') ONE_HOUR_SECONDS w = (Inr True, w')"
  shows "\<exists>out. execute R jc ctx sv progress idn w = (Inr out, w') \<and> resolveTransition Finalize out n = TDone Passed None"
  using refine_fault_injects [of jc idn R w w'] assms
  by (simp add: injected_refine_def refine_def resolveTransition_def)

end
