(* ===== verification/Validation_Feedback.thy ===== *)
theory Validation_Feedback
  imports Triple_Validation
begin

text \<open>
  \<open>backend/agents/gap-analysis/tool/validation-feedback.ts\<close>: failed proof results
  turned into additive gap findings, or reported as unresolved when no exact
  improvement of the plan follows from the evidence.
\<close>

record ValidationFeedback =
  vf_findings :: "GapFinding list"
  vf_unresolved :: "string list"

fun branchByField :: "RefField \<Rightarrow> GapBranch" where
  "branchByField RequirementRefs = BRequirement"
| "branchByField GoalRefs = BGoal"
| "branchByField FixtureRefs = BFixture"
| "branchByField SchemaRefs = BSchema"

section \<open>Fixture assertions\<close>

fun field_of_str :: "string \<Rightarrow> RefField option" where
  "field_of_str s =
     (if s = ''requirement_refs'' then Some RequirementRefs
      else if s = ''goal_refs'' then Some GoalRefs
      else if s = ''fixture_refs'' then Some FixtureRefs
      else if s = ''schema_refs'' then Some SchemaRefs else None)"

text \<open>
  \<open>/^\$\.steps\.(\d+)\.(requirement_refs|goal_refs|fixture_refs|schema_refs)$/\<close>:
  the digits as a number and as text, and the field.
\<close>

definition match_target :: "string \<Rightarrow> (nat \<times> string \<times> RefField) option" where
  "match_target t = (case strip_prefix ''$.steps.'' t of
      None \<Rightarrow> None
    | Some s \<Rightarrow>
        let ds = takeWhile is_digit s in
        (case (str_nat ds, strip_prefix ''.'' (dropWhile is_digit s)) of
           (Some n, Some f) \<Rightarrow> map_option (\<lambda>field. (n, ds, field)) (field_of_str f)
         | _ \<Rightarrow> None))"

definition additive :: "AssertionOperator \<Rightarrow> bool" where
  "additive op \<longleftrightarrow> op = OpContains \<or> op = OpReferences \<or> op = OpAllFilesSpecified"

fun str_items :: "json list \<Rightarrow> string list" where
  "str_items [] = []"
| "str_items (JStr s # xs) = s # str_items xs"
| "str_items (_ # xs) = str_items xs"

fun expected_refs :: "json option \<Rightarrow> string list" where
  "expected_refs (Some (JArr xs)) = str_items xs"
| "expected_refs (Some (JStr s)) = [s]"
| "expected_refs _ = []"

definition steps_at :: "Plan \<Rightarrow> nat \<Rightarrow> PlanStep option" where
  "steps_at p n = (if n < length (steps p) then Some (steps p ! n) else None)"

text \<open>One failed assertion: the findings it gives, and what stays unresolved.\<close>

definition assertion_feedback ::
  "(string \<times> PlanAssertion) list \<Rightarrow> Plan \<Rightarrow> string list \<Rightarrow> AssertionResult \<Rightarrow>
     GapFinding list \<times> string list" where
  "assertion_feedback assertions p ev r = (case map_of assertions (ar_assertion_id r) of
      None \<Rightarrow> ([], [''fixture assertion '' @ ar_assertion_id r @ '' is routed but missing from Fixture''])
    | Some a \<Rightarrow>
        (case (match_target (pa_target a), additive (operator a)) of
           (Some (n, ds, field), True) \<Rightarrow>
             (case steps_at p n of
                None \<Rightarrow> ([], [''fixture assertion '' @ assertion_id a @ '' targets missing plan step '' @ ds])
              | Some st \<Rightarrow>
                  let expected = expected_refs (pa_expected a) in
                  if expected = []
                  then ([], [''fixture assertion '' @ assertion_id a @ '' has no additive string expectation''])
                  else (map (\<lambda>ref.
                      \<lparr>gf_key = ''validation:fixture:'' @ assertion_id a @ '':'' @ ref,
                       affected_branch = branchByField field, gf_ref_id = ref,
                       target_step_id = Some (step_id st), gf_evidence_ids = Some ev,
                       gf_source = Some ValidationSource\<rparr>)
                    (filter (\<lambda>ref. ref \<notin> set (refs_of field st)) expected), []))
         | _ \<Rightarrow> ([], [''fixture assertion '' @ assertion_id a @
                  '' cannot be mapped to a monotonic Plan refinement''])))"

definition collect_feedback :: "('x \<Rightarrow> GapFinding list \<times> string list) \<Rightarrow> 'x list \<Rightarrow> ValidationFeedback" where
  "collect_feedback f xs =
     \<lparr>vf_findings = concat (map (\<lambda>x. fst (f x)) xs), vf_unresolved = concat (map (\<lambda>x. snd (f x)) xs)\<rparr>"

definition fixtureFindings :: "ResearchBundle \<Rightarrow> Plan \<Rightarrow> TripleValidation \<Rightarrow> ValidationFeedback" where
  "fixtureFindings b p triple =
     (if fv_result (fixture_validation triple) = Passed then \<lparr>vf_findings = [], vf_unresolved = []\<rparr>
      else
        let assertions = map_from assertion_id (plan_assertions (fixture b));
            ev = map evidence_id (fv_evidence (fixture_validation triple))
        in collect_feedback (assertion_feedback assertions p ev)
             (filter (\<lambda>r. \<not> ar_satisfied r) (assertion_results (fixture_validation triple))))"

section \<open>Goal criteria\<close>

text \<open>One unsatisfied criterion: a finding for each step Researcher mapped it to.\<close>

definition target_feedback ::
  "Plan \<Rightarrow> string list \<Rightarrow> string \<Rightarrow> PlanStep \<Rightarrow> GapFinding list \<times> string list" where
  "target_feedback p ev cid original = (case find_step (step_id original) p of
      None \<Rightarrow> ([], [''goal criterion '' @ cid @ '' targets removed step '' @ step_id original])
    | Some current \<Rightarrow>
        if cid \<in> set (goal_refs current) then ([], [])
        else ([\<lparr>gf_key = ''validation:goal:'' @ cid @ '':'' @ step_id current,
            affected_branch = BGoal, gf_ref_id = cid, target_step_id = Some (step_id current),
            gf_evidence_ids = Some ev, gf_source = Some ValidationSource\<rparr>], []))"

definition criterion_feedback ::
  "ResearchBundle \<Rightarrow> Plan \<Rightarrow> string list \<Rightarrow> CriterionResult \<Rightarrow> GapFinding list \<times> string list" where
  "criterion_feedback b p ev r =
     (let cid = cr_criterion_id r in
      if \<not> list_ex (\<lambda>c. criterion_id c = cid) (success_criteria (goal b))
      then ([], [''goal criterion '' @ cid @ '' is routed but missing from Goal''])
      else
        let originalTargets = filter (\<lambda>s. cid \<in> set (goal_refs s)) (steps (plan b)) in
        if originalTargets = []
        then ([], [''goal criterion '' @ cid @ '' has no evidence-backed target step''])
        else (let fb = collect_feedback (target_feedback p ev cid) originalTargets
              in (vf_findings fb, vf_unresolved fb)))"

definition goalFindings :: "ResearchBundle \<Rightarrow> Plan \<Rightarrow> TripleValidation \<Rightarrow> ValidationFeedback" where
  "goalFindings b p triple =
     (if gv_result (goal_validation triple) = Passed then \<lparr>vf_findings = [], vf_unresolved = []\<rparr>
      else collect_feedback (criterion_feedback b p (map evidence_id (gv_evidence (goal_validation triple))))
        (filter (\<lambda>r. \<not> cr_satisfied r) (criterion_results (goal_validation triple))))"

section \<open>The feedback\<close>

definition validationFeedback :: "ResearchBundle \<Rightarrow> Plan \<Rightarrow> TripleValidation \<Rightarrow> ValidationFeedback" where
  "validationFeedback b p triple =
     (let fx = fixtureFindings b p triple; gl = goalFindings b p triple;
          schema_open = (if sv_result (schema_validation triple) = Failed
            then map (\<lambda>ev. ''schema validation requires additional information: '' @ ev_statement ev)
              (sv_evidence (schema_validation triple)) else [])
      in \<lparr>vf_findings = map_values (map_from gf_key (vf_findings fx @ vf_findings gl)),
          vf_unresolved = vf_unresolved fx @ vf_unresolved gl @ schema_open\<rparr>)"

section \<open>Lemmas\<close>

text \<open>A finding that names an exact improvement of the plan.\<close>

definition actionable :: "Plan \<Rightarrow> GapFinding \<Rightarrow> bool" where
  "actionable p g \<longleftrightarrow> gf_source g = Some ValidationSource \<and>
     (\<exists>s \<in> set (steps p). target_step_id g = Some (step_id s) \<and>
        gf_ref_id g \<notin> set (refs_of (GAP_REFERENCE_FIELDS (affected_branch g)) s))"

lemma field_branch [simp]: "GAP_REFERENCE_FIELDS (branchByField f) = f"
  by (cases f) simp_all

lemma assertion_feedback_actionable:
  "g \<in> set (fst (assertion_feedback as p ev r)) \<Longrightarrow> actionable p g"
  by (auto simp: assertion_feedback_def Let_def actionable_def steps_at_def
      split: option.splits prod.splits if_splits bool.splits)

lemma target_feedback_actionable:
  "g \<in> set (fst (target_feedback p ev cid s)) \<Longrightarrow> actionable p g"
  by (auto simp: target_feedback_def actionable_def find_step_def
      split: option.splits if_splits dest!: find_SomeD)

lemma criterion_feedback_actionable:
  "g \<in> set (fst (criterion_feedback b p ev r)) \<Longrightarrow> actionable p g"
  using target_feedback_actionable
  by (auto simp: criterion_feedback_def Let_def collect_feedback_def split: if_splits)

lemma feedback_actionable:
  assumes "g \<in> set (vf_findings (validationFeedback b p t))"
  shows "actionable p g"
proof -
  from assms have "g \<in> set (vf_findings (fixtureFindings b p t) @ vf_findings (goalFindings b p t))"
    using map_values_from_subset by (fastforce simp: validationFeedback_def Let_def)
  then show ?thesis
    using assertion_feedback_actionable criterion_feedback_actionable
    by (auto simp: fixtureFindings_def goalFindings_def Let_def collect_feedback_def split: if_splits)
qed

text \<open>
  What \<open>backend/schema/plan.schema.json\<close> says of a plan's steps: no list of references repeats
  one, and a step id is not empty.  It does not say that the step ids are distinct.
\<close>

definition plan_schema :: "Plan \<Rightarrow> bool" where
  "plan_schema p \<longleftrightarrow> refs_distinct p \<and> (\<forall>s \<in> set (steps p). step_id s \<noteq> '''')"

lemma find_step_distinct:
  assumes "distinct (map step_id xs)" and "s \<in> set xs"
  shows "List.find (\<lambda>u. step_id u = step_id s) xs = Some s"
  using assms
proof (induction xs)
  case (Cons a xs)
  show ?case
  proof (cases "step_id a = step_id s")
    case True
    with Cons.prems have "a = s" by (auto dest: image_eqI [of _ step_id, OF refl])
    then show ?thesis by simp
  next
    case False
    with Cons show ?thesis by auto
  qed
qed simp

lemma actionable_target:
  assumes "plan_schema p" and "actionable p g"
  shows "\<exists>st. find_step (the (target_step_id g)) p = Some st \<and> target_step p g = Some st \<and> st \<in> set (steps p) \<and>
    (adds_value st g \<longleftrightarrow> gf_ref_id g \<notin> set (refs_of (GAP_REFERENCE_FIELDS (affected_branch g)) st))"
proof -
  from assms(2) obtain s where s: "s \<in> set (steps p)" "target_step_id g = Some (step_id s)" by (auto simp: actionable_def)
  then have "find_step (step_id s) p \<noteq> None" by (auto simp: find_step_def find_None_iff)
  then obtain st where st: "find_step (step_id s) p = Some st" by auto
  then have m: "st \<in> set (steps p)" by (auto simp: find_step_def dest: find_SomeD)
  have "target_step p g = Some st" using assms(1) s st by (simp add: target_step_def truthy_def plan_schema_def)
  moreover have "adds_value st g \<longleftrightarrow> gf_ref_id g \<notin> set (refs_of (GAP_REFERENCE_FIELDS (affected_branch g)) st)"
  proof -
    have d: "distinct (refs_of (GAP_REFERENCE_FIELDS (affected_branch g)) st)"
      using assms(1) m by (simp add: plan_schema_def refs_distinct_def)
    show ?thesis
    proof (cases "gf_ref_id g \<in> set (refs_of (GAP_REFERENCE_FIELDS (affected_branch g)) st)")
      case False
      with d show ?thesis by (simp add: adds_value_def length_unique_snoc_gt)
    next
      case True
      then show ?thesis by (simp add: adds_value_def not_less length_unique_snoc_mem)
    qed
  qed
  ultimately show ?thesis using st s(2) m by simp
qed

section \<open>Properties\<close>

text \<open>
  C19.  Validation feedback is actionable: on a plan that satisfies the plan schema, Gap
  Analysis resolves a finding it returns (without root cause) exactly when the first step with
  the id the finding names does not hold the reference yet, and then the plan references the
  identifier that the failed proof asked for; where the step ids of the plan are distinct, which
  the schema does not require, this is so for every finding.  The plan only grows; the findings
  have distinct keys; and a triple whose three parts are Passed gives no finding.
\<close>

theorem validation_feedback_actionable:
  assumes "plan_schema p" and "g \<in> set (vf_findings (validationFeedback b p t))"
  shows "(gx_rootCause (resolveOne b p g) = None \<longleftrightarrow> (\<exists>st. find_step (the (target_step_id g)) p = Some st \<and>
      gf_ref_id g \<notin> set (refs_of (GAP_REFERENCE_FIELDS (affected_branch g)) st))) \<and>
    (gx_rootCause (resolveOne b p g) = None \<longrightarrow> gf_ref_id g \<in> represented (affected_branch g) (gx_plan (resolveOne b p g))) \<and>
    (distinct (map step_id (steps p)) \<longrightarrow> gx_rootCause (resolveOne b p g) = None) \<and>
    plan_grows p (gx_plan (resolveOne b p g)) \<and>
    distinct (map gf_key (vf_findings (validationFeedback b p t))) \<and> \<not> verdict t"
proof (intro conjI impI resolveOne_grows)
  note act = feedback_actionable [OF assms(2)]
  obtain st where st: "find_step (the (target_step_id g)) p = Some st" "target_step p g = Some st"
      "adds_value st g \<longleftrightarrow> gf_ref_id g \<notin> set (refs_of (GAP_REFERENCE_FIELDS (affected_branch g)) st)"
    using actionable_target [OF assms(1) act] by blast
  then show iff: "gx_rootCause (resolveOne b p g) = None \<longleftrightarrow> (\<exists>st. find_step (the (target_step_id g)) p = Some st \<and>
      gf_ref_id g \<notin> set (refs_of (GAP_REFERENCE_FIELDS (affected_branch g)) st))"
    by (simp add: rootCause_None_iff)
  show "gf_ref_id g \<in> represented (affected_branch g) (gx_plan (resolveOne b p g))"
    if "gx_rootCause (resolveOne b p g) = None"
  proof -
    have "adds_value st g" using that st(2) by (simp add: rootCause_None_iff)
    with with_ref_represented [OF st(2), of "affected_branch g"] show ?thesis
      by (simp add: resolveOne_fixed(1) [OF st(2)] represented_def)
  qed
  show "gx_rootCause (resolveOne b p g) = None" if "distinct (map step_id (steps p))"
    using act find_step_distinct [OF that] unfolding iff by (auto simp: actionable_def find_step_def)
  show "distinct (map gf_key (vf_findings (validationFeedback b p t)))"
    by (simp add: validationFeedback_def Let_def distinct_map_values_keys)
  show "\<not> verdict t"
  proof
    assume "verdict t"
    then have "vf_findings (validationFeedback b p t) = []"
      by (simp add: validationFeedback_def fixtureFindings_def goalFindings_def verdict_def Let_def
          map_from_def map_values_def)
    with assms(2) show False by simp
  qed
qed

definition failed_goal_triple :: TripleValidation where
  "failed_goal_triple =
     \<lparr>tv_plan_id = ''p'', tv_validation_id = ''v'',
      schema_validation = \<lparr>sv_plan_id = ''p'', sv_schema_id = ''sch'', sv_result = Passed, sv_evidence = []\<rparr>,
      fixture_validation = \<lparr>fv_plan_id = ''p'', fv_fixture_id = ''f'', assertion_results =
        [\<lparr>ar_assertion_id = ''a1'', ar_expected = None, ar_actual = None, ar_satisfied = False\<rparr>],
        fv_result = Failed, fv_evidence = []\<rparr>,
      goal_validation = \<lparr>gv_plan_id = ''p'', gv_goal_id = ''g'', criterion_results =
        [\<lparr>cr_criterion_id = ''g1'', mapped_plan_refs = [], cr_satisfied = False\<rparr>],
        gv_result = Failed, gv_evidence = []\<rparr>, all_valid = False\<rparr>"

text \<open>The plan of the sample bundle after its goal reference was lost.\<close>

definition goalless_plan :: Plan where
  "goalless_plan = (gap_plan [''r1''])\<lparr>steps := [(gap_step [''r1''])\<lparr>goal_refs := []\<rparr>]\<rparr>"

lemma validation_feedback_actionable_witness:
  "\<exists>g. vf_findings (validationFeedback sample_bundle goalless_plan failed_goal_triple) = [g] \<and>
     gx_rootCause (resolveOne sample_bundle goalless_plan g) = None"
proof -
  have "length (vf_findings (validationFeedback sample_bundle goalless_plan failed_goal_triple)) = 1"
    by code_simp
  then obtain g where g: "vf_findings (validationFeedback sample_bundle goalless_plan failed_goal_triple) = [g]"
    by (auto simp: length_Suc_conv)
  have pc: "plan_schema goalless_plan"
    unfolding plan_schema_def refs_distinct_def goalless_plan_def gap_plan_def gap_step_def
    by (auto, case_tac f) simp_all
  from g have "g \<in> set (vf_findings (validationFeedback sample_bundle goalless_plan failed_goal_triple))"
    by simp
  moreover have "distinct (map step_id (steps goalless_plan))" by (simp add: goalless_plan_def)
  ultimately show ?thesis using validation_feedback_actionable [OF pc] g by blast
qed

text \<open>
  Two steps with the same id, which the schema admits: the finding is about the second, which
  misses the fixture reference, but the correction finds the first, which has it.
\<close>

definition twin_plan :: Plan where
  "twin_plan = (gap_plan [''r1''])\<lparr>steps := [(gap_step [''r1''])\<lparr>goal_refs := [''g1'']\<rparr>, (gap_step [''r1''])\<lparr>goal_refs := []\<rparr>]\<rparr>"

definition second_step_triple :: TripleValidation where
  "second_step_triple = failed_goal_triple\<lparr>goal_validation := (goal_validation failed_goal_triple)\<lparr>gv_result := Passed\<rparr>\<rparr>"

definition second_step_bundle :: ResearchBundle where
  "second_step_bundle = sample_bundle\<lparr>fixture := (fixture sample_bundle)\<lparr>plan_assertions :=
     [\<lparr>assertion_id = ''a1'', operator = OpContains, pa_target = ''$.steps.1.goal_refs'', pa_expected = Some (JStr ''g1''), pa_evidence_ids = []\<rparr>]\<rparr>\<rparr>"

lemma twin_steps_root_cause:
  "plan_schema twin_plan"
  "\<exists>g. vf_findings (validationFeedback second_step_bundle twin_plan second_step_triple) = [g] \<and>
     gx_rootCause (resolveOne second_step_bundle twin_plan g) \<noteq> None"
proof -
  show "plan_schema twin_plan"
    unfolding plan_schema_def refs_distinct_def twin_plan_def gap_plan_def gap_step_def
    by (auto, (case_tac f; simp)+)
  let ?fs = "vf_findings (validationFeedback second_step_bundle twin_plan second_step_triple)"
  have "length ?fs = 1 \<and> list_all (\<lambda>g. \<not> Option.is_none (gx_rootCause (resolveOne second_step_bundle twin_plan g))) ?fs"
    by code_simp
  then show "\<exists>g. ?fs = [g] \<and> gx_rootCause (resolveOne second_step_bundle twin_plan g) \<noteq> None"
    by (auto simp: length_Suc_conv Option.is_none_def)
qed

end
