(* ===== verification/Strands_State.thy ===== *)
theory Strands_State
  imports Validation_Feedback Sandbox_Types "HOL-Library.Char_ord" "HOL-Library.List_Lexorder"
begin

text \<open>
  The in-process workflow: \<open>backend/workflow/strands/state.ts\<close> (run state and
  effects) and \<open>stage-node.ts\<close> (a stage as a node of a Strands graph).  The
  Strands \<open>Graph\<close> engine is a package: what the workflow relies on is the
  relation \<open>strands_run\<close> below, the executions that obey the declared edges.
\<close>

named_theorems node_simps

section \<open>Run state\<close>

text \<open>
  \<open>WorkflowRunState\<close> is one \<open>Map<string, unknown>\<close>; a record field is a key, and
  \<open>None\<close> the absent key.  The first nineteen are \<open>WORKFLOW_STATE\<close>, the rest the
  scratch keys of the two cyclic graphs.
\<close>

record WorkflowRunState =
  ws_runId :: "string option"
  ws_prompt :: "Prompt option"
  ws_bundle :: "ResearchBundle option"
  ws_audit :: "Audit option"
  ws_plan :: "Plan option"
  ws_gapFindings :: "GapFinding list option"
  ws_resolvedGaps :: "ResolvedGap list option"
  ws_gap :: "GapAnalysis option"
  ws_gapSeedFindings :: "GapFinding list option"
  ws_evaluation :: "Evaluation option"
  ws_schemaValidation :: "SchemaValidationResult option"
  ws_fixtureValidation :: "FixtureValidationResult option"
  ws_goalValidation :: "GoalValidationResult option"
  ws_tripleValidation :: "TripleValidation option"
  ws_confirmed :: "ConfirmedPackage option"
  ws_createdHash :: "string option"
  ws_builderResult :: "BuilderWorkflowResult option"
  ws_hashProof :: "HashProof option"
  ws_rootCause :: "RootCause option"
  gap_saved :: "bool option"
  gap_running_emitted :: "bool option"
  gap_run_message :: "string option"
  gap_iterations :: "nat option"
  refinement_count :: "nat option"
  validation_signatures :: "string list option"
  evaluation_run_message :: "string option"
  before_revision :: "int option"
  triple_valid :: "bool option"

definition new_run_state :: WorkflowRunState where
  "new_run_state = \<lparr>ws_runId = None, ws_prompt = None, ws_bundle = None, ws_audit = None, ws_plan = None,
     ws_gapFindings = None, ws_resolvedGaps = None, ws_gap = None, ws_gapSeedFindings = None,
     ws_evaluation = None, ws_schemaValidation = None, ws_fixtureValidation = None,
     ws_goalValidation = None, ws_tripleValidation = None, ws_confirmed = None, ws_createdHash = None,
     ws_builderResult = None, ws_hashProof = None, ws_rootCause = None, gap_saved = None,
     gap_running_emitted = None, gap_run_message = None, gap_iterations = None,
     refinement_count = None, validation_signatures = None, evaluation_run_message = None,
     before_revision = None, triple_valid = None\<rparr>"

text \<open>The run state next to the outside world the effects and agents act on.\<close>

type_synonym 'w workflow = "WorkflowRunState \<times> 'w"

type_synonym ('w, 'a) wf = "('w workflow, js_error, 'a) eff"

definition on_world :: "('w, js_error, 'a) eff \<Rightarrow> ('w, 'a) wf" where
  "on_world m = (\<lambda>(s, w). case m w of (r, w') \<Rightarrow> (r, (s, w')))"

definition get_state :: "(WorkflowRunState \<Rightarrow> 'a) \<Rightarrow> ('w, 'a) wf" where
  "get_state f = (\<lambda>(s, w). (Inr (f s), (s, w)))"

definition set_state :: "(WorkflowRunState \<Rightarrow> WorkflowRunState) \<Rightarrow> ('w, unit) wf" where
  "set_state f = (\<lambda>(s, w). (Inr (), (f s, w)))"

text \<open>\<open>require(key)\<close>, and the accessors that default to an empty list.\<close>

definition require_state :: "string \<Rightarrow> (WorkflowRunState \<Rightarrow> 'a option) \<Rightarrow> ('w, 'a) wf" where
  "require_state key f = (\<lambda>(s, w). case f s of
      None \<Rightarrow> (Inl (JsError (''Missing required workflow state: '' @ key)), (s, w))
    | Some x \<Rightarrow> (Inr x, (s, w)))"

definition run_runId :: "('w, string) wf" where
  "run_runId = require_state ''oneshot.run_id'' ws_runId"
definition run_prompt :: "('w, Prompt) wf" where
  "run_prompt = require_state ''oneshot.prompt'' ws_prompt"
definition run_bundle :: "('w, ResearchBundle) wf" where
  "run_bundle = require_state ''oneshot.bundle'' ws_bundle"
definition run_audit :: "('w, Audit) wf" where
  "run_audit = require_state ''oneshot.audit'' ws_audit"
definition run_plan :: "('w, Plan) wf" where
  "run_plan = require_state ''oneshot.plan'' ws_plan"
definition run_gapFindings :: "WorkflowRunState \<Rightarrow> GapFinding list" where
  "run_gapFindings s = (case ws_gapFindings s of None \<Rightarrow> [] | Some fs \<Rightarrow> fs)"
definition run_resolvedGaps :: "WorkflowRunState \<Rightarrow> ResolvedGap list" where
  "run_resolvedGaps s = (case ws_resolvedGaps s of None \<Rightarrow> [] | Some rs \<Rightarrow> rs)"
definition run_seeds :: "WorkflowRunState \<Rightarrow> GapFinding list" where
  "run_seeds s = (case ws_gapSeedFindings s of None \<Rightarrow> [] | Some fs \<Rightarrow> fs)"
definition run_gap :: "('w, GapAnalysis) wf" where
  "run_gap = require_state ''oneshot.gap'' ws_gap"
definition run_evaluation :: "('w, Evaluation) wf" where
  "run_evaluation = require_state ''oneshot.evaluation'' ws_evaluation"
definition run_schemaValidation :: "('w, SchemaValidationResult) wf" where
  "run_schemaValidation = require_state ''oneshot.schema_validation'' ws_schemaValidation"
definition run_fixtureValidation :: "('w, FixtureValidationResult) wf" where
  "run_fixtureValidation = require_state ''oneshot.fixture_validation'' ws_fixtureValidation"
definition run_goalValidation :: "('w, GoalValidationResult) wf" where
  "run_goalValidation = require_state ''oneshot.goal_validation'' ws_goalValidation"
definition run_tripleValidation :: "('w, TripleValidation) wf" where
  "run_tripleValidation = require_state ''oneshot.triple_validation'' ws_tripleValidation"
definition run_confirmed :: "('w, ConfirmedPackage) wf" where
  "run_confirmed = require_state ''oneshot.confirmed'' ws_confirmed"
definition run_createdHash :: "('w, string) wf" where
  "run_createdHash = require_state ''oneshot.created_hash'' ws_createdHash"
definition run_builderResult :: "('w, BuilderWorkflowResult) wf" where
  "run_builderResult = require_state ''oneshot.builder_result'' ws_builderResult"
definition run_hashProof :: "('w, HashProof) wf" where
  "run_hashProof = require_state ''oneshot.hash_proof'' ws_hashProof"

section \<open>Effects\<close>

datatype stored_value =
    SvPrompt Prompt
  | SvResearcher ResearcherArtifact
  | SvPlan Plan
  | SvSchema SchemaArtifact
  | SvFixture Fixture
  | SvGoal Goal
  | SvValidation ValidationDefinition
  | SvAudit Audit
  | SvGap GapAnalysis
  | SvEvaluation Evaluation
  | SvTriple TripleValidation
  | SvConfirmed ConfirmedPackage
  | SvHash string
  | SvBuilder BuilderWorkflowResult
  | SvHashProof HashProof

text \<open>An event's \<open>data\<close> is a \<open>Record<string, unknown>\<close>; the workflow stores strings in it.\<close>

type_synonym event_data = "(string \<times> string) list"

record 'w WorkflowEffects =
  fx_event :: "string \<Rightarrow> string \<Rightarrow> ExecutionStatus \<Rightarrow> event_data \<Rightarrow> ('w, js_error, unit) eff"
  fx_save :: "string \<Rightarrow> string \<Rightarrow> stored_value \<Rightarrow> ('w, js_error, string) eff"
  fx_review :: "string \<Rightarrow> ResearchBundle \<Rightarrow> ('w, js_error, ResearchBundle) eff"
  fx_buildReview :: "string \<Rightarrow> ConfirmedPackage \<Rightarrow> string \<Rightarrow> ('w, js_error, unit) eff"
  fx_finishPassed :: "string \<Rightarrow> HashProof \<Rightarrow> ('w, js_error, unit) eff"
  fx_finishRoot :: "string \<Rightarrow> RootCause \<Rightarrow> HashProof option \<Rightarrow> ('w, js_error, unit) eff"

definition event :: "'w WorkflowEffects \<Rightarrow> string \<Rightarrow> string \<Rightarrow> ExecutionStatus \<Rightarrow> event_data \<Rightarrow> ('w, unit) wf" where
  "event fx r name st d = on_world (fx_event fx r name st d)"

definition save :: "'w WorkflowEffects \<Rightarrow> string \<Rightarrow> string \<Rightarrow> stored_value \<Rightarrow> ('w, unit) wf" where
  "save fx r name v = bindM (on_world (fx_save fx r name v)) (\<lambda>_. returnM ())"

definition rootCauseDelta :: "RootCause \<Rightarrow> WorkflowRunState \<Rightarrow> WorkflowRunState" where
  "rootCauseDelta rc s = s\<lparr>ws_rootCause := Some rc\<rparr>"

definition is_alpha :: "char \<Rightarrow> bool" where
  "is_alpha c \<longleftrightarrow> (65 \<le> (of_char c :: nat) \<and> (of_char c :: nat) \<le> 90) \<or>
     (97 \<le> (of_char c :: nat) \<and> (of_char c :: nat) \<le> 122)"

definition requireJobId :: "string \<Rightarrow> string \<Rightarrow> js_error + string" where
  "requireJobId jobId stage =
     (if jobId = '''' \<or> \<not> list_ex is_alpha jobId
      then Inl (JsError (stage @ '' job_id must contain at least one non-numeric character''))
      else Inr jobId)"

definition validationSignature :: "TripleValidation \<Rightarrow> string" where
  "validationSignature t =
     (let missedF = join '','' (sort (map ar_assertion_id
            (filter (\<lambda>r. \<not> ar_satisfied r) (assertion_results (fixture_validation t)))));
          missedG = join '','' (sort (map cr_criterion_id
            (filter (\<lambda>r. \<not> cr_satisfied r) (criterion_results (goal_validation t)))))
      in join ''|'' [TestResult_str (sv_result (schema_validation t)),
           TestResult_str (fv_result (fixture_validation t)),
           TestResult_str (gv_result (goal_validation t)), missedF, missedG])"

section \<open>Stage nodes\<close>

text \<open>A handler returns the state delta to apply; the node applies it, or skips itself after a root cause.\<close>

type_synonym 'w stage_handler = "('w, WorkflowRunState \<Rightarrow> WorkflowRunState) wf"

definition no_delta :: "('w, WorkflowRunState \<Rightarrow> WorkflowRunState) wf" where
  "no_delta = returnM id"

definition stage_handle :: "bool \<Rightarrow> 'w stage_handler \<Rightarrow> ('w, unit) wf" where
  "stage_handle runAfterRootCause handler =
     bindM (get_state ws_rootCause) (\<lambda>rc.
       if \<not> runAfterRootCause \<and> rc \<noteq> None then returnM ()
       else bindM handler set_state)"

text \<open>When a node returns, and in which state: the laws the node proofs rewrite with.\<close>

lemma wf_returned [node_simps]:
  "returnM x (s, w) = (Inr y, (s', w')) \<longleftrightarrow> y = x \<and> s' = s \<and> w' = w"
  "throwM e (s, w) = (Inr y, (s', w')) \<longleftrightarrow> False"
  "liftM r (s, w) = (Inr y, (s', w')) \<longleftrightarrow> r = Inr y \<and> s' = s \<and> w' = w"
  "get_state f (s, w) = (Inr z, (s', w')) \<longleftrightarrow> z = f s \<and> s' = s \<and> w' = w"
  "set_state g (s, w) = (Inr u, (s', w')) \<longleftrightarrow> s' = g s \<and> w' = w"
  by (auto simp: eff_simps get_state_def set_state_def)

lemma wf_require [node_simps]:
  "require_state key f (s, w) = (Inr x, (s', w')) \<longleftrightarrow> f s = Some x \<and> s' = s \<and> w' = w"
  by (auto simp: require_state_def split: option.splits)

lemma wf_on_world [node_simps]:
  "on_world m (s, w) = (r, (s', w')) \<longleftrightarrow> s' = s \<and> m w = (r, w')"
  by (auto simp: on_world_def split: prod.splits)

lemma wf_bind [node_simps]:
  "bindM m f (s, w) = (Inr y, (s', w')) \<longleftrightarrow>
     (\<exists>x s1 w1. m (s, w) = (Inr x, (s1, w1)) \<and> f x (s1, w1) = (Inr y, (s', w')))"
  by (auto simp: bindM_apply split: prod.splits sum.splits)

lemma wf_then [node_simps]:
  "thenM m n (s, w) = (Inr y, (s', w')) \<longleftrightarrow>
     (\<exists>x s1 w1. m (s, w) = (Inr x, (s1, w1)) \<and> n (s1, w1) = (Inr y, (s', w')))"
  by (auto simp: thenM_apply split: prod.splits sum.splits)

lemma wf_event [node_simps]:
  "event fx r name st d (s, w) = (Inr u, (s', w')) \<longleftrightarrow> s' = s \<and> fx_event fx r name st d w = (Inr u, w')"
  by (simp add: event_def node_simps)

lemma wf_save [node_simps]:
  "save fx r name v (s, w) = (Inr u, (s', w')) \<longleftrightarrow> s' = s \<and> (\<exists>p. fx_save fx r name v w = (Inr p, w'))"
  by (auto simp: save_def node_simps)

lemmas run_accessors = run_runId_def run_prompt_def run_bundle_def run_audit_def run_plan_def
  run_gap_def run_evaluation_def run_schemaValidation_def run_fixtureValidation_def
  run_goalValidation_def run_tripleValidation_def run_confirmed_def run_createdHash_def
  run_builderResult_def run_hashProof_def

lemma stage_skips: "ws_rootCause s \<noteq> None \<Longrightarrow> stage_handle False h (s, w) = (Inr (), (s, w))"
  by (simp add: stage_handle_def eff_simps get_state_def)

lemma stage_runs [node_simps]:
  "ra \<or> ws_rootCause s = None \<Longrightarrow> stage_handle ra h (s, w) = (Inr u, (s', w')) \<longleftrightarrow>
     (\<exists>d s1. h (s, w) = (Inr d, (s1, w')) \<and> s' = d s1)"
  by (auto simp: stage_handle_def node_simps)

lemma id_delta [node_simps]: "no_delta (s, w) = (Inr d, (s', w')) \<longleftrightarrow> d = id \<and> s' = s \<and> w' = w"
  by (auto simp: no_delta_def node_simps)

section \<open>What the workflow relies on of the Strands graph\<close>

text \<open>
  An edge names its source, its target and the handler that decides whether it
  is taken.  After a wave of nodes has completed, the nodes to run next are the
  targets all of whose incoming edges start in the wave and are taken in the
  state it left (the \<open>AND\<close> joins the graphs are written for); the nodes of a
  wave run in any order, the execution stops when there is none to run or when a
  node fails.  \<open>strands_run runs edges waves s out\<close> holds of the executions
  that do so: \<open>waves\<close> lists the waves, each in the order its nodes ran.  A node is
  a relation, because a node may itself be a graph.
\<close>

type_synonym 'n edge = "'n \<times> 'n \<times> (WorkflowRunState \<Rightarrow> bool)"

type_synonym ('n, 'w) node_runs = "'n \<Rightarrow> 'w workflow \<Rightarrow> (js_error + unit) \<times> 'w workflow \<Rightarrow> bool"

definition always :: "WorkflowRunState \<Rightarrow> bool" where
  "always s \<longleftrightarrow> True"

definition ready :: "'n edge list \<Rightarrow> 'n list \<Rightarrow> WorkflowRunState \<Rightarrow> 'n \<Rightarrow> bool" where
  "ready edges wave s m \<longleftrightarrow> list_ex (\<lambda>(a, b, g). b = m) edges \<and>
     list_all (\<lambda>(a, b, g). b = m \<longrightarrow> a \<in> set wave \<and> g s) edges"

definition successors :: "'n edge list \<Rightarrow> 'n list \<Rightarrow> WorkflowRunState \<Rightarrow> 'n list" where
  "successors edges wave s = filter (ready edges wave s) (unique (map (\<lambda>(a, b, g). b) edges))"

inductive wave_run ::
  "('n, 'w) node_runs \<Rightarrow> 'n list \<Rightarrow> 'w workflow \<Rightarrow> (js_error + unit) \<times> 'w workflow \<Rightarrow> bool"
  for runs where
  wave_done: "wave_run runs [] s (Inr (), s)"
| wave_fails: "runs n s (Inl e, s') \<Longrightarrow> wave_run runs (n # ns) s (Inl e, s')"
| wave_goes: "runs n s (Inr (), s') \<Longrightarrow> wave_run runs ns s' out \<Longrightarrow> wave_run runs (n # ns) s out"

inductive strands_run ::
  "('n, 'w) node_runs \<Rightarrow> 'n edge list \<Rightarrow> 'n list list \<Rightarrow> 'w workflow \<Rightarrow>
     (js_error + unit) \<times> 'w workflow \<Rightarrow> bool"
  for runs edges where
  run_fails: "wave_run runs wave s (Inl e, s') \<Longrightarrow> strands_run runs edges [wave] s (Inl e, s')"
| run_ends: "wave_run runs wave s (Inr (), s') \<Longrightarrow> successors edges wave (fst s') = [] \<Longrightarrow>
    strands_run runs edges [wave] s (Inr (), s')"
| run_goes: "wave_run runs wave s (Inr (), s') \<Longrightarrow> set next_wave = set (successors edges wave (fst s')) \<Longrightarrow>
    distinct next_wave \<Longrightarrow>
    next_wave \<noteq> [] \<Longrightarrow> strands_run runs edges (next_wave # waves) s' out \<Longrightarrow>
    strands_run runs edges (wave # next_wave # waves) s out"


inductive_cases wave_run_NilE [elim!]: "wave_run runs [] s out"
inductive_cases wave_run_ConsE: "wave_run runs (n # ns) s out"
inductive_cases strands_runE: "strands_run runs edges (wave # waves) s out"

lemma wave_run_single: "wave_run runs [n] s out \<longleftrightarrow> runs n s out"
  by (cases out; cases "fst out") (auto elim!: wave_run_ConsE intro: wave_run.intros)

text \<open>A stage node as a relation, and the execution of a graph whose waves are single nodes.\<close>

definition stage_run :: "('w, unit) wf \<Rightarrow> 'w workflow \<Rightarrow> (js_error + unit) \<times> 'w workflow \<Rightarrow> bool" where
  "stage_run m s out \<longleftrightarrow> m s = out"

text \<open>
  An execution that starts with one node: it fails there, ends there, or goes on
  with the waves \<open>ws\<close> from a state in which they are the nodes to run next.
\<close>

lemma strands_run_single:
  assumes "strands_run runs edges ([n] # ws) s out"
  obtains (fails) e s' where "ws = []" and "out = (Inl e, s')" and "runs n s out"
    | (ends) s' where "ws = []" and "out = (Inr (), s')" and "runs n s out"
        and "successors edges [n] (fst s') = []"
    | (goes) s' wave waves where "ws = wave # waves" and "wave \<noteq> []" and "runs n s (Inr (), s')"
        and "set wave = set (successors edges [n] (fst s'))" and "distinct wave" and "strands_run runs edges ws s' out"
proof -
  from assms have "(\<exists>e s'. ws = [] \<and> out = (Inl e, s') \<and> runs n s out) \<or>
      (\<exists>s'. ws = [] \<and> out = (Inr (), s') \<and> runs n s out \<and> successors edges [n] (fst s') = []) \<or>
      (\<exists>s' wave waves. ws = wave # waves \<and> wave \<noteq> [] \<and> runs n s (Inr (), s') \<and>
        set wave = set (successors edges [n] (fst s')) \<and> distinct wave \<and> strands_run runs edges ws s' out)"
    by (rule strands_runE) (simp_all add: wave_run_single, metis prod.collapse)
  then show ?thesis using fails ends goes by blast
qed

section \<open>Steps that always return\<close>

text \<open>
  \<open>succeeds m s Q\<close>: in every world \<open>m\<close> returns from the run state \<open>s\<close>, with a
  result and a run state that satisfy \<open>Q\<close>.  The rules walk through a handler
  whose collaborators always return.
\<close>

definition succeeds :: "('w, 'a) wf \<Rightarrow> WorkflowRunState \<Rightarrow> ('a \<Rightarrow> WorkflowRunState \<Rightarrow> bool) \<Rightarrow> bool" where
  "succeeds m s Q \<longleftrightarrow> (\<forall>w. \<exists>x s' w'. m (s, w) = (Inr x, (s', w')) \<and> Q x s')"

definition returning :: "('w, js_error, 'a) eff \<Rightarrow> bool" where
  "returning m \<longleftrightarrow> (\<forall>w. \<exists>x w'. m w = (Inr x, w'))"

definition quiet :: "'w contract_skill \<Rightarrow> 'w WorkflowEffects \<Rightarrow> bool" where
  "quiet cs fx \<longleftrightarrow> (\<forall>d. returning (cs_validate cs d)) \<and>
     (\<forall>r n st d. returning (fx_event fx r n st d)) \<and> (\<forall>r n v. returning (fx_save fx r n v))"

lemma succeeds_bind: "succeeds m s (\<lambda>x s'. succeeds (f x) s' Q) \<Longrightarrow> succeeds (bindM m f) s Q"
  unfolding succeeds_def wf_bind by meson

lemma succeeds_then: "succeeds m s (\<lambda>x s'. succeeds n s' Q) \<Longrightarrow> succeeds (thenM m n) s Q"
  unfolding thenM_def by (rule succeeds_bind)

lemma succeeds_basic:
  "Q x s \<Longrightarrow> succeeds (returnM x) s Q"
  "P (g s) s \<Longrightarrow> succeeds (get_state g) s P"
  "R () (h s) \<Longrightarrow> succeeds (set_state h) s R"
  "f s \<noteq> None \<Longrightarrow> Y (the (f s)) s \<Longrightarrow> succeeds (require_state key f) s Y"
  "r = Inr z \<Longrightarrow> Z z s \<Longrightarrow> succeeds (liftM r) s Z"
  by (auto simp: succeeds_def eff_simps get_state_def set_state_def require_state_def)

lemma succeeds_no_delta: "Q id s \<Longrightarrow> succeeds no_delta s Q"
  unfolding no_delta_def by (rule succeeds_basic)

lemma succeeds_world: "returning m \<Longrightarrow> (\<And>x. Q x s) \<Longrightarrow> succeeds (on_world m) s Q"
  unfolding succeeds_def returning_def wf_on_world by meson

lemma succeeds_effects:
  "quiet cs fx \<Longrightarrow> Q () s \<Longrightarrow> succeeds (event fx r n st d) s Q"
  "quiet cs fx \<Longrightarrow> Q () s \<Longrightarrow> succeeds (save fx r n v) s Q"
  by (auto simp: event_def save_def quiet_def intro!: succeeds_world succeeds_bind succeeds_basic)

lemma succeeds_finalize:
  assumes "quiet cs fx"
    and "Q (if rc = None then \<lparr>ga_plan_id = plan_id p, ga_result = Passed, resolved_gaps = res, gap_0 = True,
        ga_issue_type = None, ga_root_cause = None\<rparr>
      else \<lparr>ga_plan_id = plan_id p, ga_result = Failed, resolved_gaps = res, gap_0 = False,
        ga_issue_type = Some RootCauseIssue, ga_root_cause = rc\<rparr>) s"
  shows "succeeds (on_world (finalize_gap cs p res rc)) s Q"
proof -
  have v: "\<exists>w'. cs_validate cs d w = (Inr (), w')" for d w
    using assms(1) by (auto simp: quiet_def returning_def)
  show ?thesis
    unfolding succeeds_def wf_on_world
  proof
    fix w
    obtain w1 where 1: "cs_validate cs (CPlan p) w = (Inr (), w1)" using v by blast
    show "\<exists>x s' w'. (s' = s \<and> finalize_gap cs p res rc w = (Inr x, w')) \<and> Q x s'"
    proof (cases rc)
      case None
      then show ?thesis
        using assms(2) 1 v [of "CGap \<lparr>ga_plan_id = plan_id p, ga_result = Passed, resolved_gaps = res, gap_0 = True,
        ga_issue_type = None, ga_root_cause = None\<rparr>" w1]
        by (auto simp: finalize_gap_def Let_def eff_simps)
    next
      case (Some c)
      then show ?thesis
        using assms(2) 1 v [of "CGap \<lparr>ga_plan_id = plan_id p, ga_result = Failed, resolved_gaps = res, gap_0 = False,
        ga_issue_type = Some RootCauseIssue, ga_root_cause = rc\<rparr>" w1]
        by (auto simp: finalize_gap_def Let_def eff_simps)
    qed
  qed
qed

lemma succeeds_set: "succeeds (set_state d) s Q \<longleftrightarrow> Q () (d s)"
  by (simp add: succeeds_def set_state_def)

lemma succeeds_stage:
  assumes "ra \<or> ws_rootCause s = None" and "succeeds h s (\<lambda>d s1. Q () (d s1))"
  shows "succeeds (stage_handle ra h) s Q"
proof -
  from assms(2) have "succeeds (bindM h set_state) s Q"
    by (intro succeeds_bind [of h s set_state Q]) (simp add: succeeds_set)
  with assms(1) show ?thesis
    unfolding stage_handle_def by (intro succeeds_bind succeeds_basic) auto
qed

lemmas succeeds_intros = succeeds_bind succeeds_then succeeds_basic succeeds_no_delta succeeds_effects succeeds_finalize
  succeeds_stage

lemma succeeds_mono: "succeeds m s P \<Longrightarrow> (\<And>x s'. P x s' \<Longrightarrow> Q x s') \<Longrightarrow> succeeds m s Q"
  unfolding succeeds_def by meson

lemma succeedsD: "succeeds m s Q \<Longrightarrow> \<exists>x s' w'. m (s, w) = (Inr x, (s', w')) \<and> Q x s'"
  unfolding succeeds_def by blast

section \<open>Invariants and progress of executions\<close>

definition strands_step :: "('n, 'w) node_runs \<Rightarrow> 'n edge list \<Rightarrow>
    'n list \<times> 'w workflow \<Rightarrow> 'n list \<times> 'w workflow \<Rightarrow> bool" where
  "strands_step runs edges c c' \<longleftrightarrow> wave_run runs (fst c) (snd c) (Inr (), snd c') \<and>
     set (fst c') = set (successors edges (fst c) (fst (snd c'))) \<and> distinct (fst c') \<and> fst c' \<noteq> []"

lemma strands_run_invariant:
  assumes "strands_run runs edges ws s (Inr (), s')" and "ws = wave # waves" and "I wave s"
    and step: "\<And>wave s wave' s'. I wave s \<Longrightarrow> strands_step runs edges (wave, s) (wave', s') \<Longrightarrow> I wave' s'"
    and stop: "\<And>wave s s'. I wave s \<Longrightarrow> wave_run runs wave s (Inr (), s') \<Longrightarrow>
      successors edges wave (fst s') = [] \<Longrightarrow> Q s'"
  shows "Q s'"
  using assms(1,2,3)
proof (induction ws s "(Inr () :: js_error + unit, s')" arbitrary: wave waves rule: strands_run.induct)
  case (run_ends wave' s)
  with stop show ?case by blast
next
  case (run_goes wave' s t next_wave waves')
  then have "I next_wave t"
    by (intro step [of wave s next_wave t]) (simp_all add: strands_step_def)
  with run_goes.hyps(6) show ?case by simp
qed

lemma strands_run_steps:
  assumes "strands_run runs edges ws s out" and "ws = wave # waves"
  shows "\<exists>c. (strands_step runs edges ^^ length waves) (wave, s) c"
  using assms
proof (induction arbitrary: wave waves rule: strands_run.induct)
  case (run_goes wave' s t next_wave waves' out)
  then obtain c where "(strands_step runs edges ^^ length waves') (next_wave, t) c" by blast
  moreover have "strands_step runs edges (wave', s) (next_wave, t)"
    using run_goes.hyps by (simp add: strands_step_def)
  ultimately have "(strands_step runs edges ^^ Suc (length waves')) (wave', s) c"
    by (rule relpowp_Suc_I2 [rotated])
  moreover have "length waves = Suc (length waves')" and "wave' = wave" using run_goes.prems by auto
  ultimately show ?case by metis
qed auto

text \<open>A measure that every step decreases bounds the number of steps.\<close>

lemma strands_steps_bounded:
  assumes "(strands_step runs edges ^^ k) c c'" and "I (fst c) (snd c)"
    and step: "\<And>wave s wave' s'. I wave s \<Longrightarrow> strands_step runs edges (wave, s) (wave', s') \<Longrightarrow>
      I wave' s' \<and> m wave' s' < (m wave s :: nat)"
  shows "k + m (fst c') (snd c') \<le> m (fst c) (snd c)"
  using assms(1,2)
proof (induction k arbitrary: c)
  case (Suc k)
  from Suc.prems(1) obtain d where d: "strands_step runs edges c d" "(strands_step runs edges ^^ k) d c'"
    by (rule relpowp_Suc_E2)
  with step [of "fst c" "snd c" "fst d" "snd d"] Suc.prems(2)
  have "I (fst d) (snd d)" "m (fst d) (snd d) < m (fst c) (snd c)" by simp_all
  with Suc.IH [OF d(2)] show ?case by simp
qed simp

lemma successors_cong: "set wave = set wave' \<Longrightarrow> successors edges wave s = successors edges wave' s"
proof -
  assume "set wave = set wave'"
  then have "ready edges wave s = ready edges wave' s" by (simp add: ready_def fun_eq_iff)
  then show ?thesis by (simp add: successors_def)
qed

end
