(* ===== verification/Gap_Graph.thy ===== *)
theory Gap_Graph
  imports Strands_State
begin

text \<open>
  Gap Analysis as a cyclic Strands graph:
  \<open>backend/workflow/strands/gap-graph.ts\<close>.  The ring GapCheck, GapFix,
  GapRecheck corrects one finding per round; it must compute what the plain loop
  \<open>gap_loop\<close> computes, and stop within the graph's step limit.
\<close>

section \<open>Helpers\<close>

definition MAX_GAP_ITERATIONS :: nat where
  "MAX_GAP_ITERATIONS = 256"

definition refsFor :: "Plan \<Rightarrow> GapFinding \<Rightarrow> string list option" where
  "refsFor p f =
     (case (if truthy (target_step_id f) then find_step (the (target_step_id f)) p else None) of
        None \<Rightarrow> None
      | Some st \<Rightarrow> Some (if affected_branch f = BRequirement then requirement_refs st
          else if affected_branch f = BGoal then goal_refs st
          else if affected_branch f = BFixture then fixture_refs st
          else schema_refs st))"

definition alreadySatisfied :: "Plan \<Rightarrow> GapFinding \<Rightarrow> bool" where
  "alreadySatisfied p f = (case refsFor p f of None \<Rightarrow> False | Some refs \<Rightarrow> gf_ref_id f \<in> set refs)"

definition regressed_ref :: "PlanStep \<Rightarrow> PlanStep \<Rightarrow> (RefField \<times> string) option" where
  "regressed_ref previous current = List.find (\<lambda>(f, r). r \<notin> set (refs_of f current))
     (concat (map (\<lambda>f. map (Pair f) (refs_of f previous))
       [RequirementRefs, GoalRefs, FixtureRefs, SchemaRefs]))"

fun steps_regression :: "(string \<times> PlanStep) list \<Rightarrow> PlanStep list \<Rightarrow> js_error + unit" where
  "steps_regression afterSteps [] = Inr ()"
| "steps_regression afterSteps (previous # ss) =
     (case map_of afterSteps (step_id previous) of
        None \<Rightarrow> Inl (JsError (''Gap improvement removed step '' @ step_id previous))
      | Some current \<Rightarrow> (case regressed_ref previous current of
          Some (f, r) \<Rightarrow> Inl (JsError (''Gap improvement regressed '' @ field_str f @ '': '' @ r))
        | None \<Rightarrow> steps_regression afterSteps ss))"

definition assertNoRegression :: "Plan \<Rightarrow> Plan \<Rightarrow> js_error + unit" where
  "assertNoRegression before after =
     (if plan_id before \<noteq> plan_id after then Inl (JsError ''Gap Analysis changed logical plan_id'')
      else if revision after < revision before then Inl (JsError ''Gap improvement reduced plan revision'')
      else steps_regression (map_from step_id (steps after)) (steps before))"

fun first_by :: "('a \<Rightarrow> 'k) \<Rightarrow> 'a list \<Rightarrow> 'a list" where
  "first_by key [] = []"
| "first_by key (x # xs) = x # filter (\<lambda>y. key y \<noteq> key x) (first_by key xs)"

definition mergeFindings :: "GapFinding list \<Rightarrow> GapFinding list \<Rightarrow> GapFinding list" where
  "mergeFindings seed detected = first_by gf_key (seed @ detected)"

section \<open>The handlers\<close>

definition bool_str :: "bool \<Rightarrow> string" where
  "bool_str b = (if b then ''true'' else ''false'')"

definition gap_persist :: "'w WorkflowEffects \<Rightarrow> ('w, unit) wf" where
  "gap_persist fx =
     bindM (get_state gap_saved) (\<lambda>saved. if saved \<noteq> None then returnM () else
     thenM (set_state (\<lambda>s. s\<lparr>gap_saved := Some True\<rparr>))
     (bindM run_gap (\<lambda>gap. bindM run_plan (\<lambda>p. bindM run_bundle (\<lambda>b. bindM run_runId (\<lambda>r.
     thenM (save fx r ''plan.gap'' (SvPlan p))
     (thenM (save fx r ''gap'' (SvGap gap))
     (thenM (event fx r ''GapAnalysis'' ECompleted
       [(''test_result'', TestResult_str (ga_result gap)), (''artifact_id'', ga_plan_id gap),
        (''message'', ''gap_0='' @ bool_str (gap_0 gap) @ ''; resolved='' @ nat_str (length (resolved_gaps gap)))])
     (thenM (set_state (\<lambda>s. s\<lparr>ws_bundle := Some (b\<lparr>plan := p\<rparr>)\<rparr>))
       (case ga_root_cause gap of None \<Rightarrow> returnM ()
        | Some rc \<Rightarrow> set_state (\<lambda>s. s\<lparr>ws_rootCause := Some rc\<rparr>)))))))))))"

definition message_data :: "string option \<Rightarrow> event_data" where
  "message_data m = (if truthy m then [(''message'', the m)] else [])"

definition gap_check :: "'w WorkflowEffects \<Rightarrow> 'w stage_handler" where
  "gap_check fx =
     bindM (get_state gap_running_emitted) (\<lambda>emitted.
     thenM (if emitted \<noteq> None then returnM () else
       thenM (set_state (\<lambda>s. s\<lparr>gap_running_emitted := Some True\<rparr>))
       (bindM (get_state gap_run_message) (\<lambda>m. bindM run_runId (\<lambda>r.
         event fx r ''GapAnalysis'' ERunning (message_data m)))))
     (bindM run_plan (\<lambda>p.
      bindM (get_state (\<lambda>s. filter (\<lambda>f. \<not> alreadySatisfied p f) (run_seeds s))) (\<lambda>pending.
      thenM (set_state (\<lambda>s. s\<lparr>ws_gapSeedFindings := Some pending\<rparr>))
      (bindM run_bundle (\<lambda>b.
        returnM (\<lambda>s. s\<lparr>ws_gapFindings := Some (mergeFindings pending (detectGaps b p))\<rparr>)))))))"

definition gap_fix :: "'w contract_skill \<Rightarrow> 'w stage_handler" where
  "gap_fix cs =
     bindM (get_state run_gapFindings) (\<lambda>found. case found of
       [] \<Rightarrow> no_delta
     | finding # rest \<Rightarrow>
         bindM run_plan (\<lambda>before. bindM run_bundle (\<lambda>b.
         let fixed = resolveOne b before finding in
         thenM (liftM (assertNoRegression before (gx_plan fixed)))
         (thenM (set_state (\<lambda>s. s\<lparr>ws_plan := Some (gx_plan fixed)\<rparr>))
         (case gx_rootCause fixed of
            Some rc \<Rightarrow>
              bindM (get_state run_resolvedGaps) (\<lambda>resolved.
              bindM (on_world (finalize_gap cs (gx_plan fixed) resolved (Some rc))) (\<lambda>gap.
                returnM (\<lambda>s. rootCauseDelta rc (s\<lparr>ws_gap := Some gap\<rparr>))))
          | None \<Rightarrow> (case gx_resolved fixed of
              None \<Rightarrow> throwM (JsError (''Gap Analysis produced no improvement for '' @ gf_key finding))
            | Some r \<Rightarrow>
                bindM (get_state (\<lambda>s. (case gap_iterations s of None \<Rightarrow> 0 | Some n \<Rightarrow> n) + 1)) (\<lambda>iterations.
                thenM (set_state (\<lambda>s. s\<lparr>gap_iterations := Some iterations\<rparr>))
                (if iterations > MAX_GAP_ITERATIONS
                 then throwM (JsError ''Gap Analysis exceeded deterministic refinement bound'')
                 else
                   thenM (set_state (\<lambda>s. s\<lparr>ws_resolvedGaps := Some (run_resolvedGaps s @ [r])\<rparr>))
                   (thenM (set_state (\<lambda>s. s\<lparr>ws_gapSeedFindings :=
                      Some (filter (\<lambda>c. gf_key c \<noteq> gf_key finding) (run_seeds s))\<rparr>))
                    no_delta)))))))))"

definition gap_finalize_now :: "'w contract_skill \<Rightarrow> RootCause option \<Rightarrow> ('w, unit) wf" where
  "gap_finalize_now cs rc =
     bindM run_plan (\<lambda>p. bindM (get_state run_resolvedGaps) (\<lambda>resolved.
     bindM (on_world (finalize_gap cs p resolved rc)) (\<lambda>gap.
       set_state (\<lambda>s. s\<lparr>ws_gap := Some gap\<rparr>))))"

definition gap_recheck :: "'w contract_skill \<Rightarrow> 'w WorkflowEffects \<Rightarrow> 'w stage_handler" where
  "gap_recheck cs fx =
     bindM (get_state ws_gap) (\<lambda>gap. if gap \<noteq> None then thenM (gap_persist fx) no_delta else
     bindM (get_state ws_rootCause) (\<lambda>rc. if rc \<noteq> None
       then thenM (gap_finalize_now cs rc) (thenM (gap_persist fx) no_delta)
       else bindM run_bundle (\<lambda>b. bindM run_plan (\<lambda>p.
         let remaining = detectGaps b p in
         if remaining = [] then thenM (gap_finalize_now cs None) (thenM (gap_persist fx) no_delta)
         else returnM (\<lambda>s. s\<lparr>ws_gapFindings := Some remaining\<rparr>)))))"

definition gap_complete :: "'w contract_skill \<Rightarrow> 'w WorkflowEffects \<Rightarrow> 'w stage_handler" where
  "gap_complete cs fx =
     bindM (get_state ws_gap) (\<lambda>gap.
     thenM (if gap = None then gap_finalize_now cs None else returnM ())
     (thenM (gap_persist fx) no_delta))"

section \<open>The graph\<close>

datatype gap_node = GapCheck | GapFix | GapRecheck | GapComplete

fun gap_node_handle :: "'w contract_skill \<Rightarrow> 'w WorkflowEffects \<Rightarrow> gap_node \<Rightarrow> ('w, unit) wf" where
  "gap_node_handle cs fx GapCheck = stage_handle False (gap_check fx)"
| "gap_node_handle cs fx GapFix = stage_handle False (gap_fix cs)"
| "gap_node_handle cs fx GapRecheck = stage_handle True (gap_recheck cs fx)"
| "gap_node_handle cs fx GapComplete = stage_handle True (gap_complete cs fx)"

definition gap_edges :: "gap_node edge list" where
  "gap_edges =
     [(GapCheck, GapFix, \<lambda>s. length (run_gapFindings s) > 0),
      (GapCheck, GapComplete, \<lambda>s. length (run_gapFindings s) = 0),
      (GapFix, GapRecheck, always),
      (GapRecheck, GapCheck, \<lambda>s. ws_gap s = None)]"

definition gap_max_steps :: nat where
  "gap_max_steps = MAX_GAP_ITERATIONS * 3 + 16"

definition gap_run_from where
  "gap_run_from cs fx waves s out \<longleftrightarrow>
     strands_run (\<lambda>n. stage_run (gap_node_handle cs fx n)) gap_edges waves s out"

section \<open>Which node runs next\<close>

lemma gap_successors [node_simps]:
  "successors gap_edges [GapCheck] s = (if run_gapFindings s = [] then [GapComplete] else [GapFix])"
  "successors gap_edges [GapFix] s = [GapRecheck]"
  "successors gap_edges [GapRecheck] s = (if ws_gap s = None then [GapCheck] else [])"
  "successors gap_edges [GapComplete] s = []"
  by (simp_all add: successors_def ready_def gap_edges_def always_def)

lemma gap_successors_cases: "successors gap_edges [n] s = [] \<or> (\<exists>m. successors gap_edges [n] s = [m])"
  by (cases n) (simp_all add: gap_successors)

lemma gap_wave_single:
  assumes "set wave = set (successors gap_edges [n] s)" and "distinct wave" and "wave \<noteq> []"
  obtains m where "wave = [m]" and "successors gap_edges [n] s = [m]"
proof -
  from assms(1,3) obtain m where m: "successors gap_edges [n] s = [m]"
    using gap_successors_cases [of n s] by auto
  with assms have "set wave = {m}" and "length wave = 1"
    using distinct_card [OF assms(2)] by simp_all
  then have "wave = [m]" by (cases wave) auto
  with m that show ?thesis by blast
qed

text \<open>An execution of the ring from a node: what it did there, and the rest.\<close>

lemma gap_run_from_node:
  assumes "gap_run_from cs fx ([n] # ws) s out"
  obtains (fails) e s' where "ws = []" and "out = (Inl e, s')" and "gap_node_handle cs fx n s = out"
    | (ends) s' where "ws = []" and "out = (Inr (), s')" and "gap_node_handle cs fx n s = out"
        and "successors gap_edges [n] (fst s') = []"
    | (goes) s' m waves where "ws = [m] # waves" and "gap_node_handle cs fx n s = (Inr (), s')"
        and "successors gap_edges [n] (fst s') = [m]" and "gap_run_from cs fx ([m] # waves) s' out"
  using assms unfolding gap_run_from_def
proof (cases rule: strands_run_single)
  case (fails e s')
  with that(1) show ?thesis by (simp add: stage_run_def)
next
  case (ends s')
  with that(2) show ?thesis by (simp add: stage_run_def)
next
  case (goes s' wave waves)
  from gap_wave_single [OF goes(4,5,2)] obtain m where "wave = [m]"
    and "successors gap_edges [n] (fst s') = [m]" by blast
  with goes that(3) show ?thesis by (simp add: stage_run_def gap_run_from_def)
qed

text \<open>And how the rest continues the execution.\<close>

lemma gap_run_from_intros:
  "gap_node_handle cs fx n s = (Inl e, s') \<Longrightarrow> gap_run_from cs fx [[n]] s (Inl e, s')"
  "gap_node_handle cs fx n s = (Inr (), s') \<Longrightarrow> successors gap_edges [n] (fst s') = [] \<Longrightarrow>
    gap_run_from cs fx [[n]] s (Inr (), s')"
  "gap_node_handle cs fx n s = (Inr (), s') \<Longrightarrow> successors gap_edges [n] (fst s') = [m] \<Longrightarrow>
    gap_run_from cs fx ([m] # waves) s' out \<Longrightarrow> gap_run_from cs fx ([n] # [m] # waves) s out"
  unfolding gap_run_from_def
  by (auto intro!: strands_run.intros simp: wave_run_single stage_run_def)

section \<open>What the nodes do\<close>

lemma check_ok:
  assumes "gap_node_handle cs fx GapCheck (s, w) = (Inr u, (s', w'))" and "ws_rootCause s = None"
  shows "\<exists>p b. ws_plan s = Some p \<and> ws_bundle s = Some b \<and>
    (let pending = filter (\<lambda>f. \<not> alreadySatisfied p f) (run_seeds s) in
     s' = s\<lparr>gap_running_emitted := gap_running_emitted s', ws_gapSeedFindings := Some pending,
       ws_gapFindings := Some (mergeFindings pending (detectGaps b p))\<rparr>)"
  using assms
  by (auto simp: gap_check_def run_accessors node_simps Let_def run_seeds_def split: if_splits)

text \<open>The document \<open>finalize\<close> returns.\<close>

definition gap_document :: "Plan \<Rightarrow> ResolvedGap list \<Rightarrow> RootCause option \<Rightarrow> GapAnalysis" where
  "gap_document p resolved rc = (case rc of
      Some c \<Rightarrow> \<lparr>ga_plan_id = plan_id p, ga_result = Failed, resolved_gaps = resolved, gap_0 = False,
        ga_issue_type = Some RootCauseIssue, ga_root_cause = Some c\<rparr>
    | None \<Rightarrow> \<lparr>ga_plan_id = plan_id p, ga_result = Passed, resolved_gaps = resolved, gap_0 = True,
        ga_issue_type = None, ga_root_cause = None\<rparr>)"

lemma finalize_ok [node_simps]:
  "finalize_gap cs p resolved rc w = (Inr gap, w') \<longleftrightarrow> gap = gap_document p resolved rc \<and>
     (\<exists>w1. cs_validate cs (CPlan p) w = (Inr (), w1) \<and>
        cs_validate cs (CGap (gap_document p resolved rc)) w1 = (Inr (), w'))"
  by (auto simp: finalize_gap_def gap_document_def Let_def eff_simps split: prod.splits sum.splits option.splits)

lemma gap_document_root [simp]: "ga_root_cause (gap_document p resolved rc) = rc"
  by (simp add: gap_document_def split: option.split)

lemma fix_ok:
  assumes run: "gap_node_handle cs fx GapFix (s, w) = (Inr u, (s', w'))" and "ws_rootCause s = None"
    and "run_gapFindings s = g # gs"
  obtains p b where "ws_plan s = Some p" and "ws_bundle s = Some b"
    and "\<And>rc. gx_rootCause (resolveOne b p g) = Some rc \<Longrightarrow>
      s' = s\<lparr>ws_plan := Some (gx_plan (resolveOne b p g)), ws_gap :=
        Some (gap_document (gx_plan (resolveOne b p g)) (run_resolvedGaps s) (Some rc)), ws_rootCause := Some rc\<rparr>"
    and "gx_rootCause (resolveOne b p g) = None \<Longrightarrow> \<exists>r n. gx_resolved (resolveOne b p g) = Some r \<and>
      n = Suc (case gap_iterations s of None \<Rightarrow> 0 | Some k \<Rightarrow> k) \<and> n \<le> MAX_GAP_ITERATIONS \<and>
      s' = s\<lparr>ws_plan := Some (gx_plan (resolveOne b p g)), gap_iterations := Some n,
        ws_resolvedGaps := Some (run_resolvedGaps s @ [r]),
        ws_gapSeedFindings := Some (filter (\<lambda>c. gf_key c \<noteq> gf_key g) (run_seeds s))\<rparr>"
proof -
  from assms obtain p b where pb: "ws_plan s = Some p" "ws_bundle s = Some b"
    by (auto simp: gap_fix_def run_accessors node_simps)
  show ?thesis
  proof (rule that [OF pb])
    fix rc assume rc: "gx_rootCause (resolveOne b p g) = Some rc"
    from run show "s' = s\<lparr>ws_plan := Some (gx_plan (resolveOne b p g)), ws_gap :=
        Some (gap_document (gx_plan (resolveOne b p g)) (run_resolvedGaps s) (Some rc)), ws_rootCause := Some rc\<rparr>"
      by (auto simp: gap_fix_def assms(2,3) pb run_accessors node_simps Let_def rc rootCauseDelta_def run_resolvedGaps_def)
  next
    assume rc: "gx_rootCause (resolveOne b p g) = None"
    then obtain r where r: "gx_resolved (resolveOne b p g) = Some r"
      using resolveOne_fixed(2) unfolding rootCause_None_iff by (metis option.map_disc_iff option.distinct(1) option.exhaust)
    from run show "\<exists>r n. gx_resolved (resolveOne b p g) = Some r \<and>
      n = Suc (case gap_iterations s of None \<Rightarrow> 0 | Some k \<Rightarrow> k) \<and> n \<le> MAX_GAP_ITERATIONS \<and>
      s' = s\<lparr>ws_plan := Some (gx_plan (resolveOne b p g)), gap_iterations := Some n,
        ws_resolvedGaps := Some (run_resolvedGaps s @ [r]),
        ws_gapSeedFindings := Some (filter (\<lambda>c. gf_key c \<noteq> gf_key g) (run_seeds s))\<rparr>"
      by (auto simp: gap_fix_def assms(2,3) pb run_accessors node_simps Let_def rc r run_resolvedGaps_def run_seeds_def
          split: if_splits)
  qed
qed

definition gap_persisted :: "GapAnalysis \<Rightarrow> Plan \<Rightarrow> ResearchBundle \<Rightarrow> WorkflowRunState \<Rightarrow> WorkflowRunState" where
  "gap_persisted gap p b s = s\<lparr>ws_gap := Some gap, gap_saved := Some True, ws_bundle := Some (b\<lparr>plan := p\<rparr>),
     ws_rootCause := (case ga_root_cause gap of None \<Rightarrow> ws_rootCause s | Some rc \<Rightarrow> Some rc)\<rparr>"

lemma persist_ok [node_simps]:
  assumes "gap_saved s = None" and "ws_gap s = Some gap"
  shows "gap_persist fx (s, w) = (Inr u, (s', w')) \<Longrightarrow>
    \<exists>p b. ws_plan s = Some p \<and> ws_bundle s = Some b \<and> s' = gap_persisted gap p b s"
  using assms
  by (auto simp: gap_persist_def run_accessors node_simps gap_persisted_def split: option.splits)

lemma finalize_now_ok:
  "gap_finalize_now cs rc (s, w) = (Inr u, (s', w')) \<Longrightarrow>
    \<exists>p. ws_plan s = Some p \<and> s' = s\<lparr>ws_gap := Some (gap_document p (run_resolvedGaps s) rc)\<rparr>"
  by (auto simp: gap_finalize_now_def run_accessors node_simps)

lemma recheck_ok:
  assumes run: "gap_node_handle cs fx GapRecheck (s, w) = (Inr u, (s', w'))" and saved: "gap_saved s = None"
  obtains (final) gap p b where "ws_plan s = Some p" and "ws_bundle s = Some b" and "ws_gap s = Some gap"
      and "s' = gap_persisted gap p b s"
    | (root) rc p b where "ws_plan s = Some p" and "ws_bundle s = Some b" and "ws_gap s = None"
      and "ws_rootCause s = Some rc" and "s' = gap_persisted (gap_document p (run_resolvedGaps s) (Some rc)) p b s"
    | (clean) p b where "ws_plan s = Some p" and "ws_bundle s = Some b" and "ws_gap s = None"
      and "ws_rootCause s = None" and "detectGaps b p = []"
      and "s' = gap_persisted (gap_document p (run_resolvedGaps s) None) p b s"
    | (again) p b where "ws_plan s = Some p" and "ws_bundle s = Some b" and "ws_gap s = None"
      and "ws_rootCause s = None" and "detectGaps b p \<noteq> []"
      and "s' = s\<lparr>ws_gapFindings := Some (detectGaps b p)\<rparr>"
proof (cases "ws_gap s")
  case (Some gap)
  with run obtain w1 where "gap_persist fx (s, w) = (Inr (), (s', w1))"
    by (auto simp: gap_recheck_def node_simps)
  from persist_ok [OF saved Some this] that(1) Some show ?thesis by blast
next
  case None
  have fin: "\<exists>p b. ws_plan s = Some p \<and> ws_bundle s = Some b \<and>
      s' = gap_persisted (gap_document p (run_resolvedGaps s) rc) p b s"
    if "gap_finalize_now cs rc (s, w) = (Inr (), (s1, w1))" and "gap_persist fx (s1, w1) = (Inr (), (s', w2))"
    for rc s1 w1 w2
  proof -
    from finalize_now_ok [OF that(1)] obtain p where
      p: "ws_plan s = Some p" "s1 = s\<lparr>ws_gap := Some (gap_document p (run_resolvedGaps s) rc)\<rparr>" by blast
    with persist_ok [OF _ _ that(2)] saved show ?thesis by (auto simp: gap_persisted_def split: option.splits)
  qed
  show ?thesis
  proof (cases "ws_rootCause s")
    case (Some rc)
    with None run obtain s1 w1 w2 where "gap_finalize_now cs (Some rc) (s, w) = (Inr (), (s1, w1))"
      and "gap_persist fx (s1, w1) = (Inr (), (s', w2))"
      by (auto simp: gap_recheck_def node_simps)
    from fin [OF this] that(2) None Some show ?thesis by blast
  next
    case nr: None
    with None run obtain p b where pb: "ws_plan s = Some p" "ws_bundle s = Some b"
      by (auto simp: gap_recheck_def node_simps run_accessors)
    show ?thesis
    proof (cases "detectGaps b p = []")
      case True
      with None nr run pb obtain s1 w1 w2 where "gap_finalize_now cs None (s, w) = (Inr (), (s1, w1))"
        and "gap_persist fx (s1, w1) = (Inr (), (s', w2))"
        by (auto simp: gap_recheck_def node_simps run_accessors)
      from fin [OF this] that(3) None nr pb True show ?thesis by auto
    next
      case False
      with None nr run pb have "s' = s\<lparr>ws_gapFindings := Some (detectGaps b p)\<rparr>"
        by (auto simp: gap_recheck_def node_simps run_accessors)
      with that(4) None nr pb False show ?thesis by blast
    qed
  qed
qed

lemma complete_ok:
  assumes run: "gap_node_handle cs fx GapComplete (s, w) = (Inr u, (s', w'))"
    and "gap_saved s = None" and "ws_gap s = None"
  shows "\<exists>p b. ws_plan s = Some p \<and> ws_bundle s = Some b \<and>
    s' = gap_persisted (gap_document p (run_resolvedGaps s) None) p b s"
proof -
  from assms obtain s1 w1 w2 where f: "gap_finalize_now cs None (s, w) = (Inr (), (s1, w1))"
    and g: "gap_persist fx (s1, w1) = (Inr (), (s', w2))"
    by (auto simp: gap_complete_def node_simps)
  from finalize_now_ok [OF f] obtain p where
    p: "ws_plan s = Some p" "s1 = s\<lparr>ws_gap := Some (gap_document p (run_resolvedGaps s) None)\<rparr>" by blast
  with persist_ok [OF _ _ g] assms(2) show ?thesis by (auto simp: gap_persisted_def split: option.splits)
qed

section \<open>The ring ends within the step limit\<close>

definition iterations_of :: "WorkflowRunState \<Rightarrow> nat" where
  "iterations_of s = (case gap_iterations s of None \<Rightarrow> 0 | Some n \<Rightarrow> n)"

lemma persist_frame:
  "gap_persist fx (s, w) = (Inr u, (s', w')) \<Longrightarrow>
    ws_gap s' = ws_gap s \<and> gap_iterations s' = gap_iterations s"
  by (auto simp: gap_persist_def run_accessors node_simps split: if_splits option.splits)

lemma check_frame:
  "gap_node_handle cs fx GapCheck (s, w) = (Inr u, (s', w')) \<Longrightarrow> iterations_of s' = iterations_of s"
  using check_ok [of cs fx s w u s' w'] stage_skips [of s "gap_check fx" w]
  by (cases "ws_rootCause s") (auto simp: Let_def iterations_of_def dest!: arg_cong [where f = gap_iterations])

lemma recheck_frame:
  assumes "gap_node_handle cs fx GapRecheck (s, w) = (Inr u, (s', w'))"
  shows "iterations_of s' = iterations_of s \<and>
    (ws_gap s \<noteq> None \<or> ws_rootCause s \<noteq> None \<longrightarrow> ws_gap s' \<noteq> None)"
  using assms
  by (auto simp: gap_recheck_def gap_finalize_now_def node_simps run_accessors Let_def iterations_of_def
      dest!: persist_frame split: if_splits)

lemma fix_frame:
  assumes run: "gap_node_handle cs fx GapFix (s, w) = (Inr u, (s', w'))" and "run_gapFindings s \<noteq> []"
  shows "ws_rootCause s' \<noteq> None \<or>
    iterations_of s' = Suc (iterations_of s) \<and> iterations_of s' \<le> MAX_GAP_ITERATIONS"
proof (cases "ws_rootCause s")
  case None
  from assms(2) obtain g gs where "run_gapFindings s = g # gs" by (cases "run_gapFindings s") auto
  from fix_ok [OF run None this] obtain p b where
    rc: "\<And>rc. gx_rootCause (resolveOne b p g) = Some rc \<Longrightarrow> s' = s\<lparr>ws_plan := Some (gx_plan (resolveOne b p g)),
      ws_gap := Some (gap_document (gx_plan (resolveOne b p g)) (run_resolvedGaps s) (Some rc)), ws_rootCause := Some rc\<rparr>"
    and fixed: "gx_rootCause (resolveOne b p g) = None \<Longrightarrow> \<exists>r n. gx_resolved (resolveOne b p g) = Some r \<and>
      n = Suc (iterations_of s) \<and> n \<le> MAX_GAP_ITERATIONS \<and>
      s' = s\<lparr>ws_plan := Some (gx_plan (resolveOne b p g)), gap_iterations := Some n,
        ws_resolvedGaps := Some (run_resolvedGaps s @ [r]),
        ws_gapSeedFindings := Some (filter (\<lambda>c. gf_key c \<noteq> gf_key g) (run_seeds s))\<rparr>"
    unfolding iterations_of_def by metis
  show ?thesis
  proof (cases "gx_rootCause (resolveOne b p g)")
    case none: None
    from fixed [OF this] show ?thesis by (auto simp: iterations_of_def)
  next
    case (Some c)
    from rc [OF this] show ?thesis by simp
  qed
next
  case (Some rc)
  with run stage_skips [of s "gap_fix cs" w] show ?thesis by simp
qed

lemma ring_step:
  assumes run: "gap_run_from cs fx ([GapCheck] # ws) s out"
  obtains (short) "length ws \<le> 2"
    | (round) s' waves where "ws = [GapFix] # [GapRecheck] # [GapCheck] # waves"
      and "iterations_of (fst s') = Suc (iterations_of (fst s))" and "iterations_of (fst s') \<le> MAX_GAP_ITERATIONS"
      and "gap_run_from cs fx ([GapCheck] # waves) s' out"
proof (cases rule: gap_run_from_node [OF run])
  case goes: (3 s1 m waves)
  note short = short and round = round
  have c: "iterations_of (fst s1) = iterations_of (fst s)"
    using check_frame [of cs fx "fst s" "snd s" "()" "fst s1" "snd s1"] goes(2) by simp
  show ?thesis
  proof (cases "m = GapFix")
    case False
    with goes(3) have m: "m = GapComplete" by (auto simp: gap_successors split: if_splits)
    have "waves = []"
      by (cases rule: gap_run_from_node [OF goes(4)]) (auto simp: m gap_successors)
    with goes(1) show ?thesis by (intro short) simp
  next
    case m: True
    with goes(3) have found: "run_gapFindings (fst s1) \<noteq> []" by (auto simp: gap_successors split: if_splits)
    show ?thesis
    proof (cases rule: gap_run_from_node [OF goes(4)])
      case inner: (3 s2 m2 waves2)
      then have m2: "m2 = GapRecheck" by (auto simp: m gap_successors)
      have f: "ws_rootCause (fst s2) \<noteq> None \<or>
          iterations_of (fst s2) = Suc (iterations_of (fst s)) \<and> iterations_of (fst s2) \<le> MAX_GAP_ITERATIONS"
        using fix_frame [of cs fx "fst s1" "snd s1" "()" "fst s2" "snd s2"] inner(2) found c by (simp add: m)
      show ?thesis
      proof (cases rule: gap_run_from_node [OF inner(4)])
        case last: (3 s3 m3 waves3)
        then have "ws_gap (fst s3) = None" and m3: "m3 = GapCheck"
          by (auto simp: m2 gap_successors split: if_splits)
        moreover have r: "iterations_of (fst s3) = iterations_of (fst s2)"
          "ws_rootCause (fst s2) \<noteq> None \<longrightarrow> ws_gap (fst s3) \<noteq> None"
          using recheck_frame [of cs fx "fst s2" "snd s2" "()" "fst s3" "snd s3"] last(2) by (simp_all add: m2)
        ultimately show ?thesis using f goes(1) inner(1) last(1,4) by (intro round) (auto simp: m m2 m3)
      qed (use goes(1) inner(1) short in \<open>auto\<close>)
    qed (use goes(1) short in \<open>auto\<close>)
  qed
qed (use short in \<open>auto\<close>)

lemma ring_length:
  "gap_run_from cs fx ([GapCheck] # ws) s out \<Longrightarrow>
    length ws \<le> 3 * (MAX_GAP_ITERATIONS - iterations_of (fst s)) + 2"
proof (induction "MAX_GAP_ITERATIONS - iterations_of (fst s)" arbitrary: ws s rule: less_induct)
  case less
  show ?case
  proof (cases rule: ring_step [OF less.prems])
    case round: (2 s' waves)
    then have "MAX_GAP_ITERATIONS - iterations_of (fst s') < MAX_GAP_ITERATIONS - iterations_of (fst s)" by simp
    from less.hyps [OF this round(4)] round(1,2,3) show ?thesis by simp
  qed simp
qed

lemma run_extend:
  assumes "\<And>s' m. gap_node_handle cs fx n s = (Inr (), s') \<Longrightarrow> successors gap_edges [n] (fst s') = [m] \<Longrightarrow>
    \<exists>waves out. gap_run_from cs fx ([m] # waves) s' out"
  shows "\<exists>waves out. gap_run_from cs fx ([n] # waves) s out"
proof -
  obtain r s' where Pair: "gap_node_handle cs fx n s = (r, s')" by (metis surj_pair)
  show ?thesis
  proof (cases r)
    case (Inl e)
    with Pair show ?thesis using gap_run_from_intros(1) by blast
  next
    case (Inr u)
    with Pair have run: "gap_node_handle cs fx n s = (Inr (), s')" by simp
    show ?thesis
      using gap_successors_cases [of n "fst s'"] gap_run_from_intros(2) [OF run]
        assms [OF run] gap_run_from_intros(3) [OF run] by blast
  qed
qed

lemma ring_exists: "\<exists>ws out. gap_run_from cs fx ([GapCheck] # ws) s out"
proof (induction "MAX_GAP_ITERATIONS - iterations_of (fst s)" arbitrary: s rule: less_induct)
  case less
  show ?case
  proof (rule run_extend)
    fix s1 m assume c: "gap_node_handle cs fx GapCheck s = (Inr (), s1)"
      and m: "successors gap_edges [GapCheck] (fst s1) = [m]"
    have iter1: "iterations_of (fst s1) = iterations_of (fst s)"
      using check_frame [of cs fx "fst s" "snd s" "()" "fst s1" "snd s1"] c by simp
    show "\<exists>waves out. gap_run_from cs fx ([m] # waves) s1 out"
    proof (rule run_extend)
      fix s2 m2 assume f: "gap_node_handle cs fx m s1 = (Inr (), s2)"
        and m2: "successors gap_edges [m] (fst s2) = [m2]"
      from m m2 have mf: "m = GapFix" and found: "run_gapFindings (fst s1) \<noteq> []" and m2: "m2 = GapRecheck"
        by (auto simp: gap_successors split: if_splits)
      have fixed: "ws_rootCause (fst s2) \<noteq> None \<or>
          iterations_of (fst s2) = Suc (iterations_of (fst s)) \<and> iterations_of (fst s2) \<le> MAX_GAP_ITERATIONS"
        using fix_frame [of cs fx "fst s1" "snd s1" "()" "fst s2" "snd s2"] f found iter1 by (simp add: mf)
      show "\<exists>waves out. gap_run_from cs fx ([m2] # waves) s2 out"
      proof (rule run_extend)
        fix s3 m3 assume r: "gap_node_handle cs fx m2 s2 = (Inr (), s3)"
          and m3: "successors gap_edges [m2] (fst s3) = [m3]"
        have "iterations_of (fst s3) = iterations_of (fst s2) \<and>
            (ws_rootCause (fst s2) \<noteq> None \<longrightarrow> ws_gap (fst s3) \<noteq> None)"
          using recheck_frame [of cs fx "fst s2" "snd s2" "()" "fst s3" "snd s3"] r by (simp add: m2)
        with fixed m3 have "MAX_GAP_ITERATIONS - iterations_of (fst s3) < MAX_GAP_ITERATIONS - iterations_of (fst s)"
          and "m3 = GapCheck" by (auto simp: m2 gap_successors split: if_splits)
        with less show "\<exists>waves out. gap_run_from cs fx ([m3] # waves) s3 out" by simp
      qed
    qed
  qed
qed

text \<open>
  C20.  The Gap Analysis ring terminates within the graph's own step limit: from
  every state, whatever the effects and the contract validator do, there is an
  execution, and none takes more than \<open>maxSteps\<close> nodes.
\<close>

theorem gap_ring_terminates:
  "(\<exists>ws out. gap_run_from cs fx ([GapCheck] # ws) s out) \<and>
   {length ([GapCheck] # ws) |ws. \<exists>out. gap_run_from cs fx ([GapCheck] # ws) s out} \<subseteq> {..gap_max_steps}"
proof
  show "\<exists>ws out. gap_run_from cs fx ([GapCheck] # ws) s out" by (rule ring_exists)
  have "length ws \<le> 3 * MAX_GAP_ITERATIONS + 2" if "gap_run_from cs fx ([GapCheck] # ws) s out" for ws out
    using ring_length [OF that] by simp
  then show "{length ([GapCheck] # ws) |ws. \<exists>out. gap_run_from cs fx ([GapCheck] # ws) s out} \<subseteq> {..gap_max_steps}"
    by (force simp: gap_max_steps_def)
qed

section \<open>The ring computes the loop\<close>

definition ring_entry :: "WorkflowRunState \<Rightarrow> ResearchBundle \<Rightarrow> Plan \<Rightarrow> ResolvedGap list \<Rightarrow> bool" where
  "ring_entry s b p res \<longleftrightarrow> ws_plan s = Some p \<and> ws_bundle s = Some b \<and> run_seeds s = [] \<and>
     ws_rootCause s = None \<and> ws_gap s = None \<and> gap_saved s = None \<and> run_resolvedGaps s = res"

definition ring_exit :: "WorkflowRunState \<Rightarrow> ResearchBundle \<Rightarrow> Plan \<Rightarrow> ResolvedGap list \<Rightarrow> RootCause option \<Rightarrow> bool" where
  "ring_exit s b q res rc \<longleftrightarrow> ws_plan s = Some q \<and> ws_gap s = Some (gap_document q res rc) \<and>
     ws_rootCause s = rc \<and> ws_bundle s = Some (b\<lparr>plan := q\<rparr>)"

lemma ring_exit_persisted:
  "ws_plan s = Some q \<Longrightarrow> ws_rootCause s = None \<or> ws_rootCause s = rc \<Longrightarrow>
    ring_exit (gap_persisted (gap_document q res rc) q b s) b q res rc"
  by (auto simp: ring_exit_def gap_persisted_def split: option.split)

lemma merge_first: "mergeFindings [] (g # gs) = g # filter (\<lambda>h. gf_key h \<noteq> gf_key g) (first_by gf_key gs)"
  by (simp add: mergeFindings_def)

lemma node_fst: "gap_node_handle cs fx n s = (Inr (), s') \<Longrightarrow>
  gap_node_handle cs fx n (fst s, snd s) = (Inr (), (fst s', snd s'))"
  by simp

lemma ring_check:
  assumes "gap_node_handle cs fx GapCheck s = (Inr (), s1)" and "ring_entry (fst s) b p res"
  shows "ring_entry (fst s1) b p res \<and> run_gapFindings (fst s1) = mergeFindings [] (detectGaps b p)"
proof -
  have "ws_rootCause (fst s) = None" using assms(2) by (simp add: ring_entry_def)
  from check_ok [OF node_fst [OF assms(1)] this] assms(2)
  have "fst s1 = (fst s)\<lparr>gap_running_emitted := gap_running_emitted (fst s1), ws_gapSeedFindings := Some [],
      ws_gapFindings := Some (mergeFindings [] (detectGaps b p))\<rparr>"
    by (auto simp: ring_entry_def Let_def)
  then obtain e where "fst s1 = (fst s)\<lparr>gap_running_emitted := e, ws_gapSeedFindings := Some [],
      ws_gapFindings := Some (mergeFindings [] (detectGaps b p))\<rparr>" by blast
  with assms(2) show ?thesis
    by (simp add: ring_entry_def run_seeds_def run_resolvedGaps_def run_gapFindings_def)
qed

lemma ring_complete:
  assumes "gap_run_from cs fx ([GapComplete] # ws) s (Inr (), s')" and "ring_entry (fst s) b p res"
  shows "ring_exit (fst s') b p res None"
proof -
  from assms(1) have "gap_node_handle cs fx GapComplete s = (Inr (), s')"
    by (cases rule: gap_run_from_node) (auto simp: gap_successors)
  from complete_ok [OF node_fst [OF this]] assms(2)
  have "fst s' = gap_persisted (gap_document p res None) p b (fst s)" by (auto simp: ring_entry_def)
  with assms(2) show ?thesis by (simp add: ring_exit_persisted ring_entry_def)
qed

lemma ring_recheck_final:
  assumes "gap_run_from cs fx ([GapRecheck] # ws) s (Inr (), s')"
    and "ws_plan (fst s) = Some q" and "ws_bundle (fst s) = Some b" and "gap_saved (fst s) = None"
    and "ws_rootCause (fst s) = Some rc" and "ws_gap (fst s) = Some (gap_document q res (Some rc))"
  shows "ring_exit (fst s') b q res (Some rc)"
proof -
  have out: "ring_exit (fst s1) b q res (Some rc)" if r: "gap_node_handle cs fx GapRecheck s = (Inr (), s1)" for s1
    by (cases rule: recheck_ok [OF node_fst [OF r] assms(4)])
      (use assms in \<open>auto simp: ring_exit_persisted\<close>)
  from assms(1) show ?thesis
  proof (cases rule: gap_run_from_node)
    case (goes s1 m waves)
    with out [OF goes(2)] show ?thesis by (simp add: gap_successors ring_exit_def)
  qed (use out in auto)
qed

lemma ring_fix:
  assumes f: "gap_node_handle cs fx GapFix s = (Inr (), s')" and e: "ring_entry (fst s) b p res"
    and found: "run_gapFindings (fst s) = g # gs"
  shows "case gx_rootCause (resolveOne b p g) of
     Some rc \<Rightarrow> ws_plan (fst s') = Some (gx_plan (resolveOne b p g)) \<and> ws_bundle (fst s') = Some b \<and>
       gap_saved (fst s') = None \<and> ws_rootCause (fst s') = Some rc \<and>
       ws_gap (fst s') = Some (gap_document (gx_plan (resolveOne b p g)) res (Some rc))
   | None \<Rightarrow> ring_entry (fst s') b (gx_plan (resolveOne b p g)) (res @ [the (gx_resolved (resolveOne b p g))])"
proof -
  have nr: "ws_rootCause (fst s) = None" using e by (simp add: ring_entry_def)
  show ?thesis
  proof (rule fix_ok [OF node_fst [OF f] nr found])
    fix p' b' assume pb: "ws_plan (fst s) = Some p'" "ws_bundle (fst s) = Some b'"
    with e have same: "p' = p" "b' = b" by (simp_all add: ring_entry_def)
    assume root: "\<And>rc. gx_rootCause (resolveOne b' p' g) = Some rc \<Longrightarrow>
      fst s' = (fst s)\<lparr>ws_plan := Some (gx_plan (resolveOne b' p' g)), ws_gap :=
        Some (gap_document (gx_plan (resolveOne b' p' g)) (run_resolvedGaps (fst s)) (Some rc)), ws_rootCause := Some rc\<rparr>"
    assume fixed: "gx_rootCause (resolveOne b' p' g) = None \<Longrightarrow> \<exists>r n. gx_resolved (resolveOne b' p' g) = Some r \<and>
      n = Suc (case gap_iterations (fst s) of None \<Rightarrow> 0 | Some k \<Rightarrow> k) \<and> n \<le> MAX_GAP_ITERATIONS \<and>
      fst s' = (fst s)\<lparr>ws_plan := Some (gx_plan (resolveOne b' p' g)), gap_iterations := Some n,
        ws_resolvedGaps := Some (run_resolvedGaps (fst s) @ [r]),
        ws_gapSeedFindings := Some (filter (\<lambda>c. gf_key c \<noteq> gf_key g) (run_seeds (fst s)))\<rparr>"
    show ?thesis
    proof (cases "gx_rootCause (resolveOne b p g)")
      case None
      from fixed [unfolded same, OF None] e None show ?thesis
        by (auto simp: ring_entry_def run_seeds_def run_resolvedGaps_def)
    next
      case (Some rc)
      from root [unfolded same, OF Some] e Some show ?thesis by (simp add: ring_entry_def)
    qed
  qed
qed

text \<open>The recheck of a corrected plan: it ends the ring, or goes back to the check.\<close>

lemma ring_recheck_loop:
  assumes "gap_run_from cs fx ([GapRecheck] # ws) s (Inr (), s')" and e: "ring_entry (fst s) b p res"
  shows "gap_loop b p res = (p, res, None) \<and> ring_exit (fst s') b p res None \<or>
    (\<exists>s1 waves. ring_entry (fst s1) b p res \<and> gap_run_from cs fx ([GapCheck] # waves) s1 (Inr (), s'))"
proof -
  have saved: "gap_saved (fst s) = None" and pb: "ws_plan (fst s) = Some p" "ws_bundle (fst s) = Some b"
    "ws_gap (fst s) = None" "ws_rootCause (fst s) = None" "run_resolvedGaps (fst s) = res"
    using e by (simp_all add: ring_entry_def)
  have node: "ring_exit (fst s1) b p res None \<and> detectGaps b p = [] \<or> ring_entry (fst s1) b p res"
    if r: "gap_node_handle cs fx GapRecheck s = (Inr (), s1)" for s1
  proof (cases rule: recheck_ok [OF node_fst [OF r] saved])
    case (3 p' b')
    with pb show ?thesis by (simp add: ring_exit_persisted)
  next
    case (4 p' b')
    with e show ?thesis by (auto simp: ring_entry_def run_seeds_def run_resolvedGaps_def)
  qed (use pb in auto)
  from assms(1) show ?thesis
  proof (cases rule: gap_run_from_node)
    case (ends s1)
    with node show ?thesis by (auto simp: gap_successors gap_loop_done ring_entry_def split: if_splits)
  next
    case (goes s1 m waves)
    from goes(3) have "ws_gap (fst s1) = None" and m: "m = GapCheck"
      by (auto simp: gap_successors split: if_splits)
    with node [OF goes(2)] have "ring_entry (fst s1) b p res" by (simp add: ring_exit_def)
    with goes(4) m show ?thesis by blast
  qed simp
qed

lemma ring_computes_loop:
  "gap_run_from cs fx ([GapCheck] # ws) s (Inr (), s') \<Longrightarrow> ring_entry (fst s) b p res \<Longrightarrow>
    \<exists>q new rc. gap_loop b p res = (q, new, rc) \<and> ring_exit (fst s') b q new rc"
proof (induction b p res arbitrary: ws s rule: gap_loop.induct)
  case (1 b p res)
  from "1.prems"(1) obtain s1 m waves where c: "gap_node_handle cs fx GapCheck s = (Inr (), s1)"
    and m: "successors gap_edges [GapCheck] (fst s1) = [m]"
    and rest: "gap_run_from cs fx ([m] # waves) s1 (Inr (), s')"
    by (cases rule: gap_run_from_node) (auto simp: gap_successors split: if_splits)
  note e1 = ring_check [OF c "1.prems"(2)]
  show ?case
  proof (cases "detectGaps b p")
    case Nil
    with e1 m have "m = GapComplete" by (simp add: gap_successors mergeFindings_def)
    with ring_complete [of cs fx waves s1 s' b p res] rest e1 Nil show ?thesis by (auto simp: gap_loop_done)
  next
    case (Cons g gs)
    with e1 m have mf: "m = GapFix" by (simp add: gap_successors merge_first)
    from rest obtain s2 waves2 where f: "gap_node_handle cs fx GapFix s1 = (Inr (), s2)"
      and rest2: "gap_run_from cs fx ([GapRecheck] # waves2) s2 (Inr (), s')"
      unfolding mf by (cases rule: gap_run_from_node) (auto simp: gap_successors)
    from e1 Cons merge_first have found: "run_gapFindings (fst s1) =
        g # filter (\<lambda>h. gf_key h \<noteq> gf_key g) (first_by gf_key gs)" by simp
    note fixed = ring_fix [OF f conjunct1 [OF e1] found]
    show ?thesis
    proof (cases "gx_rootCause (resolveOne b p g)")
      case (Some rc)
      from ring_recheck_final [OF rest2, of "gx_plan (resolveOne b p g)" b rc res] fixed Some
      have "ring_exit (fst s') b (gx_plan (resolveOne b p g)) res (Some rc)" by simp
      with gap_loop_stop [OF Cons Some] show ?thesis by blast
    next
      case None
      let ?p = "gx_plan (resolveOne b p g)"
      from gap_loop_go [OF Cons None] obtain r where r: "gx_resolved (resolveOne b p g) = Some r"
        and go: "gap_loop b p res = gap_loop b ?p (res @ [r])" by metis
      from fixed None r have e2: "ring_entry (fst s2) b ?p (res @ [r])" by simp
      have g: "g \<in> set (detectGaps b p)" using Cons by simp
      note IH = "1.IH" [OF Cons refl refl None refl, unfolded r option.case, OF resolveOne_progress(3) [OF g None]]
      have "\<exists>q new rc. gap_loop b ?p (res @ [r]) = (q, new, rc) \<and> ring_exit (fst s') b q new rc"
        using ring_recheck_loop [OF rest2 e2] IH by blast
      with go show ?thesis by simp
    qed
  qed
qed

text \<open>
  C21.  The ring is the loop: an execution that returns, entered with no pending
  validation finding, ends with the plan, the resolved gaps and the root cause of
  the plain deterministic loop \<open>gap_loop\<close>, has stored the matching gap document,
  and has put the corrected plan into the bundle.
\<close>

theorem gap_ring_equals_loop:
  assumes "ring_entry (fst s) b p []" and "gap_run_from cs fx ([GapCheck] # ws) s (Inr (), s')"
  shows "case gap_loop b p [] of (q, resolved, rc) \<Rightarrow> ring_exit (fst s') b q resolved rc"
  using ring_computes_loop [OF assms(2,1)] by auto

section \<open>The guards of a correction never fire\<close>

lemma update_new: "k \<notin> fst ` set al \<Longrightarrow> AList.update k v al = al @ [(k, v)]"
  by (induction al) auto

lemma map_from_distinct: "distinct (map key xs) \<Longrightarrow> map_from key xs = map (\<lambda>x. (key x, x)) xs"
proof (induction xs rule: rev_induct)
  case Nil
  then show ?case by (simp add: map_from_def)
next
  case (snoc x xs)
  have "AList.update (key x) x (map (\<lambda>x. (key x, x)) xs) = map (\<lambda>x. (key x, x)) xs @ [(key x, x)]"
    using snoc.prems by (intro update_new) (auto simp: image_image)
  with snoc show ?case by (simp add: map_from_snoc)
qed

lemma map_of_keyed: "distinct (map key xs) \<Longrightarrow> x \<in> set xs \<Longrightarrow> map_of (map (\<lambda>x. (key x, x)) xs) (key x) = Some x"
  by (induction xs) (auto simp: rev_image_eqI)

lemma step_grows_not_regressed: "step_grows s t \<Longrightarrow> regressed_ref s t = None"
proof -
  assume "step_grows s t"
  then have "set (refs_of f s) \<subseteq> set (refs_of f t)" for f by (simp add: step_grows_def)
  from this [of RequirementRefs] this [of GoalRefs] this [of FixtureRefs] this [of SchemaRefs]
  show ?thesis by (auto simp: regressed_ref_def find_None_iff)
qed

lemma steps_regression_grows:
  "list_all2 step_grows xs ys \<Longrightarrow>
    (\<And>y. y \<in> set ys \<Longrightarrow> map_of m (step_id y) = Some y) \<Longrightarrow> steps_regression m xs = Inr ()"
proof (induction rule: list_all2_induct)
  case (Cons x xs y ys)
  then have "step_id x = step_id y" by (simp add: step_grows_def)
  with Cons show ?case by (simp add: step_grows_not_regressed)
qed simp

lemma plan_grows_step_ids: "plan_grows p q \<Longrightarrow> map step_id (steps q) = map step_id (steps p)"
proof -
  assume "plan_grows p q"
  then have "list_all2 step_grows (steps p) (steps q)" by (simp add: plan_grows_def)
  then show ?thesis by (induction rule: list_all2_induct) (auto simp: step_grows_def)
qed

lemma no_regression:
  assumes "plan_grows p q" and "distinct (map step_id (steps p))" and "revision p \<le> revision q"
  shows "assertNoRegression p q = Inr ()"
proof -
  have g: "list_all2 step_grows (steps p) (steps q)" using assms(1) by (simp add: plan_grows_def)
  have "map step_id (steps q) = map step_id (steps p)" by (rule plan_grows_step_ids [OF assms(1)])
  with assms(2) have "steps_regression (map_from step_id (steps q)) (steps p) = Inr ()"
    by (intro steps_regression_grows [OF g]) (simp add: map_from_distinct map_of_keyed)
  with assms show ?thesis by (simp add: assertNoRegression_def plan_grows_def)
qed

lemma resolveOne_revision: "revision p \<le> revision (gx_plan (resolveOne b p g))"
proof (cases "gx_rootCause (resolveOne b p g)")
  case None
  then obtain st where "target_step p g = Some st" "adds_value st g" by (auto simp: rootCause_None_iff)
  then show ?thesis by (simp add: gap_simps)
next
  case (Some rc)
  then show ?thesis using resolveOne_rev_stop [of b p g] by simp
qed

lemma resolveOne_no_regression:
  "distinct (map step_id (steps p)) \<Longrightarrow> assertNoRegression p (gx_plan (resolveOne b p g)) = Inr ()"
  by (rule no_regression [OF resolveOne_grows _ resolveOne_revision])

section \<open>The ring succeeds\<close>

definition ring_ready :: "WorkflowRunState \<Rightarrow> ResearchBundle \<Rightarrow> Plan \<Rightarrow> ResolvedGap list \<Rightarrow> bool" where
  "ring_ready s b p res \<longleftrightarrow> ring_entry s b p res \<and> ws_runId s \<noteq> None"

lemma check_succeeds:
  assumes "quiet cs fx" and "ring_ready s b p res"
  shows "succeeds (gap_node_handle cs fx GapCheck) s (\<lambda>u s'. ring_ready s' b p res \<and>
    run_gapFindings s' = mergeFindings [] (detectGaps b p) \<and> gap_iterations s' = gap_iterations s)"
proof -
  from assms(2) obtain r where r: "ws_runId s = Some r" by (auto simp: ring_ready_def)
  have pb: "ws_plan s = Some p" "ws_bundle s = Some b" "ws_rootCause s = None" "run_seeds s = []"
    using assms(2) by (auto simp: ring_ready_def ring_entry_def)
  show ?thesis
    using assms pb r unfolding gap_node_handle.simps gap_check_def run_accessors
    by (auto intro!: succeeds_intros simp: ring_ready_def ring_entry_def run_seeds_def run_gapFindings_def
        run_resolvedGaps_def)
qed

lemma fix_succeeds:
  assumes "quiet cs fx" and ready: "ring_ready s b p res" and "run_gapFindings s = g # gs"
    and rc: "gx_rootCause (resolveOne b p g) = None" and "distinct (map step_id (steps p))"
    and "iterations_of s < MAX_GAP_ITERATIONS"
  shows "succeeds (gap_node_handle cs fx GapFix) s (\<lambda>u s'. iterations_of s' = Suc (iterations_of s) \<and>
    ring_ready s' b (gx_plan (resolveOne b p g)) (res @ [the (gx_resolved (resolveOne b p g))]))"
proof -
  obtain r where r: "gx_resolved (resolveOne b p g) = Some r"
    using rc resolveOne_fixed(2) unfolding rootCause_None_iff
    by (metis option.map_disc_iff option.distinct(1) option.exhaust)
  have pb: "ws_plan s = Some p" "ws_bundle s = Some b" "ws_rootCause s = None" "run_seeds s = []"
    using ready by (auto simp: ring_ready_def ring_entry_def)
  have "succeeds (gap_fix cs) s (\<lambda>d s1. iterations_of (d s1) = Suc (iterations_of s) \<and>
    ring_ready (d s1) b (gx_plan (resolveOne b p g)) (res @ [r]))"
    unfolding gap_fix_def run_accessors Let_def
    using assms(3,6) ready pb rc r resolveOne_no_regression [OF assms(5), of b g]
    by (auto intro!: succeeds_intros simp: iterations_of_def ring_ready_def ring_entry_def run_seeds_def
        run_resolvedGaps_def split: if_splits)
  with pb r show ?thesis by (auto intro!: succeeds_stage)
qed

lemma persist_succeeds:
  assumes "quiet cs fx" and "ws_gap s \<noteq> None" and "ws_plan s \<noteq> None" and "ws_bundle s \<noteq> None" and "ws_runId s \<noteq> None"
  shows "succeeds (gap_persist fx) s (\<lambda>u s'. ws_gap s' \<noteq> None \<and> gap_iterations s' = gap_iterations s)"
  using assms unfolding gap_persist_def run_accessors
  by (auto intro!: succeeds_intros split: option.split)

lemma finalize_now_succeeds:
  assumes "quiet cs fx" and "ws_plan s \<noteq> None"
  shows "succeeds (gap_finalize_now cs rc) s (\<lambda>u s'. ws_gap s' \<noteq> None \<and> ws_plan s' = ws_plan s \<and>
    ws_bundle s' = ws_bundle s \<and> ws_runId s' = ws_runId s \<and> gap_iterations s' = gap_iterations s)"
  using assms unfolding gap_finalize_now_def run_accessors
  by (auto intro!: succeeds_bind succeeds_basic succeeds_finalize)

lemma finalize_persist_succeeds:
  assumes "quiet cs fx" and "ws_plan s \<noteq> None" and "ws_bundle s \<noteq> None" and "ws_runId s \<noteq> None"
  shows "succeeds (thenM (gap_finalize_now cs rc) (thenM (gap_persist fx) no_delta)) s
    (\<lambda>d s'. ws_gap (d s') \<noteq> None \<and> gap_iterations (d s') = gap_iterations s)"
  by (rule succeeds_then, rule succeeds_mono [OF finalize_now_succeeds [OF assms(1,2)]],
      rule succeeds_then, rule succeeds_mono [OF persist_succeeds [OF assms(1)]])
    (use assms in \<open>auto intro!: succeeds_no_delta\<close>)

lemma recheck_succeeds:
  assumes "quiet cs fx" and ready: "ring_ready s b p res"
  shows "succeeds (gap_node_handle cs fx GapRecheck) s (\<lambda>u s'. iterations_of s' = iterations_of s \<and>
    (if detectGaps b p = [] then ws_gap s' \<noteq> None else ring_ready s' b p res))"
proof -
  have pb: "ws_plan s = Some p" "ws_bundle s = Some b" "ws_rootCause s = None" "ws_gap s = None" "ws_runId s \<noteq> None"
    using ready by (auto simp: ring_ready_def ring_entry_def)
  have "succeeds (gap_recheck cs fx) s (\<lambda>d s1. iterations_of (d s1) = iterations_of s \<and>
    (if detectGaps b p = [] then ws_gap (d s1) \<noteq> None else ring_ready (d s1) b p res))"
  proof (cases "detectGaps b p = []")
    case True
    have "succeeds (thenM (gap_finalize_now cs None) (thenM (gap_persist fx) no_delta)) s
      (\<lambda>d s1. iterations_of (d s1) = iterations_of s \<and> ws_gap (d s1) \<noteq> None)"
      by (rule succeeds_mono [OF finalize_persist_succeeds [OF assms(1)]])
        (use pb in \<open>auto simp: iterations_of_def\<close>)
    with True pb show ?thesis
      unfolding gap_recheck_def run_accessors Let_def
      by (intro succeeds_bind succeeds_basic) (auto intro!: succeeds_bind succeeds_basic)
  next
    case False
    with ready pb show ?thesis
      unfolding gap_recheck_def run_accessors Let_def
      by (auto intro!: succeeds_bind succeeds_basic simp: iterations_of_def ring_ready_def ring_entry_def
          run_seeds_def run_resolvedGaps_def)
  qed
  then show ?thesis unfolding gap_node_handle.simps by (intro succeeds_stage disjI1 TrueI)
qed

lemma complete_succeeds:
  assumes "quiet cs fx" and ready: "ring_ready s b p res"
  shows "succeeds (gap_node_handle cs fx GapComplete) s (\<lambda>u s'. True)"
proof -
  have pb: "ws_plan s \<noteq> None" "ws_bundle s \<noteq> None" "ws_gap s = None" "ws_runId s \<noteq> None"
    using ready by (auto simp: ring_ready_def ring_entry_def)
  have "succeeds (thenM (gap_finalize_now cs None) (thenM (gap_persist fx) no_delta)) s (\<lambda>d s1. True)"
    by (rule succeeds_mono [OF finalize_persist_succeeds [OF assms(1)]]) (use pb in auto)
  with pb show ?thesis
    unfolding gap_node_handle.simps gap_complete_def
    by (intro succeeds_stage disjI1 TrueI succeeds_bind succeeds_basic) simp
qed

text \<open>A node that succeeds, in an execution: its run went on, or the execution ended with it.\<close>

lemma run_from_succeeds:
  assumes "gap_run_from cs fx ([n] # ws) s out" and "succeeds (gap_node_handle cs fx n) (fst s) Q"
  obtains (ends) s' where "ws = []" and "out = (Inr (), s')" and "Q () (fst s')"
      and "successors gap_edges [n] (fst s') = []"
    | (goes) s' m waves where "ws = [m] # waves" and "Q () (fst s')"
      and "successors gap_edges [n] (fst s') = [m]" and "gap_run_from cs fx ([m] # waves) s' out"
proof -
  from succeedsD [OF assms(2), of "snd s"] obtain t where
    t: "gap_node_handle cs fx n s = (Inr (), t)" "Q () (fst t)" by auto
  from assms(1) show ?thesis
  proof (cases rule: gap_run_from_node)
    case (ends s')
    with t that(1) show ?thesis by simp
  next
    case (goes s' m waves)
    with t that(2) show ?thesis by simp
  qed (use t in simp)
qed

lemma ring_succeeds:
  assumes quiet: "quiet cs fx"
  shows "gap_run_from cs fx ([GapCheck] # ws) s out \<Longrightarrow> ring_ready (fst s) b p res \<Longrightarrow>
    refs_distinct p \<Longrightarrow> first_step_named p \<Longrightarrow> distinct (map step_id (steps p)) \<Longrightarrow>
    iterations_of (fst s) + card (missing b p) \<le> MAX_GAP_ITERATIONS \<Longrightarrow> \<exists>s'. out = (Inr (), s')"
proof (induction "card (missing b p)" arbitrary: ws s p res rule: less_induct)
  case less
  note wf = less.prems(3,4,5)
  from less.prems(1) check_succeeds [OF quiet less.prems(2)] show ?case
  proof (cases rule: run_from_succeeds)
    case goes: (goes s1 m waves)
    then have r1: "ring_ready (fst s1) b p res" and f1: "run_gapFindings (fst s1) = mergeFindings [] (detectGaps b p)"
      and i1: "iterations_of (fst s1) = iterations_of (fst s)" by (auto simp: iterations_of_def)
    show ?thesis
    proof (cases "detectGaps b p")
      case Nil
      with goes(3) f1 have "m = GapComplete" by (simp add: gap_successors mergeFindings_def)
      with goes(4) have c: "gap_run_from cs fx ([GapComplete] # waves) s1 out" by simp
      show ?thesis
        by (rule run_from_succeeds [OF c complete_succeeds [OF quiet r1]]) (auto simp: gap_successors)
    next
      case (Cons g gs)
      with goes(3) f1 have m: "m = GapFix" by (simp add: gap_successors merge_first)
      from f1 Cons have found: "run_gapFindings (fst s1) = g # filter (\<lambda>h. gf_key h \<noteq> gf_key g) (first_by gf_key gs)"
        by (simp add: merge_first)
      from Cons have g: "g \<in> set (detectGaps b p)" by simp
      have new: "gf_ref_id g \<notin> represented (affected_branch g) p"
        using detectGaps_member(1) [OF g] by (simp add: missing_def)
      from target_step_coverage [OF g wf(2)] adds_value_distinct [OF wf(1) _ new]
      have rc: "gx_rootCause (resolveOne b p g) = None" by (auto simp: rootCause_None_iff)
      let ?p = "gx_plan (resolveOne b p g)"
      note missing = resolveOne_progress(1,2) [OF g rc]
      have smaller: "Suc (card (missing b ?p)) = card (missing b p)"
        unfolding missing(1) by (rule card_Suc_Diff1 [OF finite_missing missing(2)])
      have lt: "iterations_of (fst s1) < MAX_GAP_ITERATIONS" using smaller less.prems(6) i1 by simp
      from goes(4) have fix_run: "gap_run_from cs fx ([GapFix] # waves) s1 out" by (simp add: m)
      show ?thesis
      proof (rule run_from_succeeds [OF fix_run fix_succeeds [OF quiet r1 found rc wf(3) lt]], goal_cases)
        case (2 s2 m2 waves2)
        then have r2: "ring_ready (fst s2) b ?p (res @ [the (gx_resolved (resolveOne b p g))])"
          and rec: "gap_run_from cs fx ([GapRecheck] # waves2) s2 out" by (auto simp: gap_successors)
        show ?case
        proof (rule run_from_succeeds [OF rec recheck_succeeds [OF quiet r2]], goal_cases)
          case (2 s3 m3 waves3)
          from 2(3) have "ws_gap (fst s3) = None" and m3: "m3 = GapCheck"
            by (auto simp: gap_successors split: if_splits)
          with 2(2) have r3: "ring_ready (fst s3) b ?p (res @ [the (gx_resolved (resolveOne b p g))])"
            and i3: "iterations_of (fst s3) = iterations_of (fst s2)" by (auto split: if_splits)
          have "map step_id (steps ?p) = map step_id (steps p)"
            using plan_grows_step_ids [OF resolveOne_grows] .
          with less.hyps [OF _ 2(4) [unfolded m3] r3 resolveOne_refs_distinct [OF wf(1)]
              first_step_named_grows [OF resolveOne_grows wf(2)]] smaller i3
              less.prems(6) i1 wf(3) \<open>iterations_of (fst s2) = Suc (iterations_of (fst s1)) \<and> _\<close>
          show ?case by simp
        qed simp
      qed simp
    qed
  qed simp
qed

text \<open>
  C22.  The ring closes every gap: entered with a plan whose lists of references repeat
  nothing, whose first step is named and whose step ids are distinct (the plan schema gives
  the first two, not the third), and which misses at most 256 references, with collaborators
  that return, it returns; it has set no root cause and stored a gap document with \<open>gap_0\<close>; the
  coverage check finds nothing in the plan it leaves, which is the given plan
  grown by references.
\<close>

theorem gap_ring_closes_all_gaps:
  assumes "quiet cs fx" and "ring_ready (fst s) b p []" and "iterations_of (fst s) = 0"
    and "refs_distinct p" and "first_step_named p" and "distinct (map step_id (steps p))"
    and "card (missing b p) \<le> MAX_GAP_ITERATIONS"
    and "gap_run_from cs fx ([GapCheck] # ws) s out"
  shows "\<exists>s' q gap. out = (Inr (), s') \<and> ws_rootCause (fst s') = None \<and> ws_gap (fst s') = Some gap \<and>
    gap_0 gap \<and> ws_plan (fst s') = Some q \<and> detectGaps b q = [] \<and> plan_grows p q"
proof -
  from ring_succeeds [OF assms(1,8,2,4,5,6)] assms(3,7) obtain s' where out: "out = (Inr (), s')" by auto
  from assms(2) have e: "ring_entry (fst s) b p []" by (simp add: ring_ready_def)
  from ring_computes_loop [OF assms(8) [unfolded out] e] obtain q new rc where
    l: "gap_loop b p [] = (q, new, rc)" "ring_exit (fst s') b q new rc" by blast
  from gap_loop_result [OF assms(4) l(1)] assms(5) have "rc = None" and r: "gap_result b p q new rc" by auto
  with l(2) out show ?thesis
    by (simp add: ring_exit_def gap_result_def detectGaps_empty gap_document_def)
qed

section \<open>Validation findings in the ring\<close>

lemma represented_grows: "plan_grows p q \<Longrightarrow> represented br p \<subseteq> represented br q"
proof -
  have "list_all2 step_grows xs ys \<Longrightarrow>
      set (concat (map (refs_of f) xs)) \<subseteq> set (concat (map (refs_of f) ys))" for xs ys f
    by (induction rule: list_all2_induct) (auto simp: step_grows_def)
  then show "plan_grows p q \<Longrightarrow> ?thesis" by (simp add: plan_grows_def represented_def)
qed

lemma no_gap_grows: "plan_grows p q \<Longrightarrow> detectGaps b p = [] \<Longrightarrow> detectGaps b q = []"
  using represented_grows [of p q] required_ids_grows [of p q b]
  by (auto simp: detectGaps_empty missing_def)

text \<open>
  C23.  One validation finding per refinement.  A plan without coverage gap enters
  the ring with the findings of a failed validation still to apply, the first of
  them \<open>g\<close>: an execution that returns corrects \<open>g\<close> alone, in the three nodes
  GapCheck, GapFix, GapRecheck, and ends; the recheck looks at the coverage
  gaps only, so the other findings of the validation are left for a later
  refinement, of which the workflow allows three.
\<close>

theorem one_validation_finding_per_ring:
  assumes "ws_plan (fst s) = Some p" and "ws_bundle (fst s) = Some b" and "ws_rootCause (fst s) = None"
    and "ws_gap (fst s) = None" and "gap_saved (fst s) = None" and "detectGaps b p = []"
    and "filter (\<lambda>f. \<not> alreadySatisfied p f) (run_seeds (fst s)) = g # gs"
    and "gap_run_from cs fx ([GapCheck] # ws) s (Inr (), s')"
  shows "ws = [[GapFix], [GapRecheck]] \<and> ws_plan (fst s') = Some (gx_plan (resolveOne b p g))"
proof -
  let ?p = "gx_plan (resolveOne b p g)"
  from assms(8) obtain s1 m waves where c: "gap_node_handle cs fx GapCheck s = (Inr (), s1)"
    and ws: "ws = [m] # waves" and m: "successors gap_edges [GapCheck] (fst s1) = [m]"
    and rest: "gap_run_from cs fx ([m] # waves) s1 (Inr (), s')"
    by (cases rule: gap_run_from_node) (auto simp: gap_successors split: if_splits)
  from check_ok [OF node_fst [OF c] assms(3)] assms(1,2,6,7)
  have "fst s1 = (fst s)\<lparr>gap_running_emitted := gap_running_emitted (fst s1), ws_gapSeedFindings := Some (g # gs),
      ws_gapFindings := Some (mergeFindings (g # gs) [])\<rparr>" by (auto simp: Let_def)
  then obtain e where s1: "fst s1 = (fst s)\<lparr>gap_running_emitted := e, ws_gapSeedFindings := Some (g # gs),
      ws_gapFindings := Some (mergeFindings (g # gs) [])\<rparr>" by blast
  then have found: "run_gapFindings (fst s1) = g # filter (\<lambda>h. gf_key h \<noteq> gf_key g) (first_by gf_key gs)"
    by (simp add: run_gapFindings_def mergeFindings_def)
  with m have mf: "m = GapFix" by (simp add: gap_successors)
  from rest obtain s2 waves2 where f: "gap_node_handle cs fx GapFix s1 = (Inr (), s2)"
    and ws2: "waves = [GapRecheck] # waves2"
    and rest2: "gap_run_from cs fx ([GapRecheck] # waves2) s2 (Inr (), s')"
    unfolding mf by (cases rule: gap_run_from_node) (auto simp: gap_successors)
  have nr: "ws_rootCause (fst s1) = None" using assms(3) s1 by simp
  have s2: "ws_plan (fst s2) = Some ?p \<and> ws_bundle (fst s2) = Some b \<and> gap_saved (fst s2) = None"
  proof (rule fix_ok [OF node_fst [OF f] nr found], goal_cases)
    case (1 p' b')
    with s1 assms(1,2) have "p' = p" "b' = b" by simp_all
    with 1 s1 assms(2,5) show ?case by (cases "gx_rootCause (resolveOne b p g)") auto
  qed
  have "detectGaps b ?p = []" by (rule no_gap_grows [OF resolveOne_grows assms(6)])
  then have last: "ws_gap (fst t) \<noteq> None \<and> ws_plan (fst t) = Some ?p"
    if r: "gap_node_handle cs fx GapRecheck s2 = (Inr (), t)" for t
    by (cases rule: recheck_ok [OF node_fst [OF r]]) (use s2 in \<open>auto simp: gap_persisted_def\<close>)
  from rest2 show ?thesis
  proof (cases rule: gap_run_from_node)
    case (goes t m' waves')
    with last [OF goes(2)] show ?thesis by (auto simp: gap_successors)
  qed (use last ws ws2 mf in auto)
qed

section \<open>Witnesses\<close>

definition silent_effects :: "'w WorkflowEffects" where
  "silent_effects = \<lparr>fx_event = (\<lambda>_ _ _ _. returnM ()), fx_save = (\<lambda>_ n _. returnM n),
     fx_review = (\<lambda>_ b. returnM b), fx_buildReview = (\<lambda>_ _ _. returnM ()),
     fx_finishPassed = (\<lambda>_ _. returnM ()), fx_finishRoot = (\<lambda>_ _ _. returnM ())\<rparr>"

definition ring_start :: "Plan \<Rightarrow> GapFinding list \<Rightarrow> unit workflow" where
  "ring_start p seeds = (new_run_state\<lparr>ws_runId := Some ''run'', ws_plan := Some p,
     ws_bundle := Some sample_bundle, ws_gapSeedFindings := Some seeds\<rparr>, ())"

lemma silent_quiet: "quiet accepting_contracts silent_effects"
  by (simp add: quiet_def returning_def accepting_contracts_def silent_effects_def returnM_def)

lemma ring_start_ready: "ring_ready (fst (ring_start p [])) sample_bundle p [] \<and> iterations_of (fst (ring_start p [])) = 0"
  by (simp add: ring_ready_def ring_entry_def ring_start_def new_run_state_def run_seeds_def
      run_resolvedGaps_def iterations_of_def)

lemma gap_plan_contract:
  "refs_distinct (gap_plan [''r1''])" "first_step_named (gap_plan [''r1''])"
  "distinct (map step_id (steps (gap_plan [''r1''])))"
proof -
  show "refs_distinct (gap_plan [''r1''])"
    unfolding refs_distinct_def gap_plan_def gap_step_def by (auto, case_tac f) simp_all
  show "first_step_named (gap_plan [''r1''])"
    by (simp add: first_step_named_def gap_plan_def gap_step_def)
  show "distinct (map step_id (steps (gap_plan [''r1''])))" by (simp add: gap_plan_def)
qed

lemma gap_plan_missing: "card (missing sample_bundle (gap_plan [''r1''])) \<le> MAX_GAP_ITERATIONS"
proof -
  have "length (unique (remainingGaps sample_bundle (gap_plan [''r1'']))) \<le> 10"
    by code_simp
  then show ?thesis by (simp add: length_unique_gaps MAX_GAP_ITERATIONS_def)
qed

lemma sample_ring:
  obtains ws s' where "gap_run_from accepting_contracts silent_effects ([GapCheck] # ws)
    (ring_start (gap_plan [''r1'']) []) (Inr (), s')"
proof -
  let ?s = "ring_start (gap_plan [''r1'']) []"
  obtain ws out where run: "gap_run_from accepting_contracts silent_effects ([GapCheck] # ws) ?s out"
    using ring_exists by blast
  from ring_start_ready gap_plan_missing
  have "\<exists>s'. out = (Inr (), s')"
    by (intro ring_succeeds [OF silent_quiet run _ gap_plan_contract]) auto
  with run that show ?thesis by blast
qed

lemma gap_ring_equals_loop_witness:
  "\<exists>s'. case gap_loop sample_bundle (gap_plan [''r1'']) [] of
    (q, resolved, rc) \<Rightarrow> ring_exit s' sample_bundle q resolved rc"
proof -
  obtain ws s' where run: "gap_run_from accepting_contracts silent_effects ([GapCheck] # ws)
    (ring_start (gap_plan [''r1'']) []) (Inr (), s')" by (rule sample_ring)
  have "ring_entry (fst (ring_start (gap_plan [''r1'']) [])) sample_bundle (gap_plan [''r1'']) []"
    using ring_start_ready by (simp add: ring_ready_def)
  from gap_ring_equals_loop [OF this run] show ?thesis by (rule exI)
qed

text \<open>
  The distinct ids are needed: the regression check keeps the last step of an id, so it rejects
  even an unchanged plan in which an earlier step of that id holds more references.
\<close>

definition twin_step_plan :: Plan where
  "twin_step_plan = (gap_plan [''r1''])\<lparr>steps := [gap_step [''r1''], gap_step []]\<rparr>"

lemma twin_steps_regress:
  "refs_distinct twin_step_plan" "first_step_named twin_step_plan"
  "case assertNoRegression twin_step_plan twin_step_plan of Inl (JsError m) \<Rightarrow> True | _ \<Rightarrow> False"
proof -
  show "refs_distinct twin_step_plan"
    unfolding refs_distinct_def twin_step_plan_def gap_plan_def gap_step_def by (auto, (case_tac f; simp)+)
  show "first_step_named twin_step_plan" by code_simp
  show "case assertNoRegression twin_step_plan twin_step_plan of Inl (JsError m) \<Rightarrow> True | _ \<Rightarrow> False" by code_simp
qed

lemma gap_ring_closes_all_gaps_witness:
  "\<exists>q. detectGaps sample_bundle q = [] \<and> plan_grows (gap_plan [''r1'']) q"
proof -
  obtain ws s' where run: "gap_run_from accepting_contracts silent_effects ([GapCheck] # ws)
    (ring_start (gap_plan [''r1'']) []) (Inr (), s')" by (rule sample_ring)
  from gap_ring_closes_all_gaps [OF silent_quiet conjunct1 [OF ring_start_ready] conjunct2 [OF ring_start_ready]
      gap_plan_contract gap_plan_missing run]
  show ?thesis by blast
qed

definition sample_seed :: "string \<Rightarrow> GapFinding" where
  "sample_seed x = \<lparr>gf_key = ''requirement:'' @ x, affected_branch = BRequirement, gf_ref_id = x,
     target_step_id = Some ''s1'', gf_evidence_ids = None, gf_source = Some ValidationSource\<rparr>"

lemma one_validation_finding_per_ring_witness:
  "\<exists>s'. gap_run_from accepting_contracts silent_effects ([GapCheck] # [[GapFix], [GapRecheck]])
     (ring_start (gap_plan [''r1'', ''r2'']) [sample_seed ''r3'', sample_seed ''r4'']) (Inr (), s') \<and>
   ws_plan (fst s') = Some (gx_plan (resolveOne sample_bundle (gap_plan [''r1'', ''r2'']) (sample_seed ''r3'')))"
proof -
  let ?p = "gap_plan [''r1'', ''r2'']"
  let ?s = "ring_start ?p [sample_seed ''r3'', sample_seed ''r4'']"
  let ?h = "gap_node_handle accepting_contracts silent_effects"
  let ?s1 = "snd (?h GapCheck ?s)" and ?s2 = "snd (?h GapFix (snd (?h GapCheck ?s)))"
  let ?s3 = "snd (?h GapRecheck (snd (?h GapFix (snd (?h GapCheck ?s)))))"
  have h1: "?h GapCheck ?s = (Inr (), ?s1)" and n1: "successors gap_edges [GapCheck] (fst ?s1) = [GapFix]"
    by (rule prod_eqI, code_simp, simp) code_simp
  have h2: "?h GapFix ?s1 = (Inr (), ?s2)" and n2: "successors gap_edges [GapFix] (fst ?s2) = [GapRecheck]"
    by (rule prod_eqI, code_simp, simp) (simp add: gap_successors)
  have h3: "?h GapRecheck ?s2 = (Inr (), ?s3)" and n3: "successors gap_edges [GapRecheck] (fst ?s3) = []"
    by (rule prod_eqI, code_simp, simp) code_simp
  have run: "gap_run_from accepting_contracts silent_effects ([GapCheck] # [[GapFix], [GapRecheck]]) ?s (Inr (), ?s3)"
    by (intro gap_run_from_intros(3) [OF h1 n1] gap_run_from_intros(3) [OF h2 n2] gap_run_from_intros(2) [OF h3 n3])
  have st: "ws_plan (fst ?s) = Some ?p" "ws_bundle (fst ?s) = Some sample_bundle" "ws_rootCause (fst ?s) = None"
    "ws_gap (fst ?s) = None" "gap_saved (fst ?s) = None"
    by (simp_all add: ring_start_def new_run_state_def)
  have d: "detectGaps sample_bundle ?p = []" by code_simp
  have f: "filter (\<lambda>f. \<not> alreadySatisfied ?p f) (run_seeds (fst ?s)) = [sample_seed ''r3'', sample_seed ''r4'']"
    by code_simp
  from one_validation_finding_per_ring [OF st d f run] run show ?thesis by blast
qed

section \<open>What the ring leaves alone\<close>

text \<open>A state predicate that depends on neither the plan nor the gap scratch state nor a fresh root cause.\<close>

definition ring_stable :: "(WorkflowRunState \<Rightarrow> bool) \<Rightarrow> bool" where
  "ring_stable P \<longleftrightarrow> (\<forall>s e f b p r g v i c. P s \<longrightarrow>
     P (s\<lparr>gap_running_emitted := e\<rparr>) \<and> P (s\<lparr>ws_gapSeedFindings := f\<rparr>) \<and> P (s\<lparr>ws_gapFindings := f\<rparr>) \<and>
     P (s\<lparr>ws_bundle := b\<rparr>) \<and> P (s\<lparr>ws_plan := p\<rparr>) \<and> P (s\<lparr>ws_resolvedGaps := r\<rparr>) \<and> P (s\<lparr>ws_gap := g\<rparr>) \<and>
     P (s\<lparr>gap_saved := v\<rparr>) \<and> P (s\<lparr>gap_iterations := i\<rparr>) \<and> P (s\<lparr>ws_rootCause := Some c\<rparr>))"

lemma ring_stable_persist:
  "ring_stable P \<Longrightarrow> gap_persist fx (s, w) = (Inr u, (s', w')) \<Longrightarrow> P s \<Longrightarrow> P s'"
  by (auto simp: gap_persist_def run_accessors node_simps ring_stable_def split: if_splits option.splits)

lemma ring_stable_node:
  assumes "ring_stable P" and "gap_node_handle cs fx n (s, w) = (Inr u, (s', w'))" and "P s"
  shows "P s'"
proof (cases n)
  case GapCheck
  with assms show ?thesis
    by (cases "ws_rootCause s")
      (auto simp: stage_skips gap_check_def run_accessors node_simps ring_stable_def split: if_splits)
next
  case GapFix
  show ?thesis
  proof (cases "ws_rootCause s \<noteq> None \<or> run_gapFindings s = []")
    case True
    with GapFix assms show ?thesis
      by (cases "ws_rootCause s") (auto simp: stage_skips gap_fix_def node_simps)
  next
    case False
    then obtain g gs where f: "run_gapFindings s = g # gs" and r: "ws_rootCause s = None"
      by (cases "run_gapFindings s") auto
    show ?thesis
    proof (rule fix_ok [OF assms(2) [unfolded GapFix] r f], goal_cases)
      case (1 p b)
      with assms(1,3) show ?case
        by (cases "gx_rootCause (resolveOne b p g)") (auto simp: ring_stable_def)
    qed
  qed
next
  case GapRecheck
  with assms show ?thesis
    by (auto simp: gap_recheck_def gap_finalize_now_def Let_def run_accessors node_simps ring_stable_def
        dest!: ring_stable_persist [OF assms(1)] split: if_splits)
next
  case GapComplete
  with assms show ?thesis
    by (auto simp: gap_complete_def gap_finalize_now_def run_accessors node_simps ring_stable_def
        dest!: ring_stable_persist [OF assms(1)] split: if_splits)
qed

lemma ring_stable_run:
  assumes "gap_run_from cs fx ([GapCheck] # ws) s (Inr (), s')" and "ring_stable P" and "P (fst s)"
  shows "P (fst s')"
proof -
  have wave: "P (fst t')" if "wave_run (\<lambda>n. stage_run (gap_node_handle cs fx n)) wave t (Inr (), t')" and "P (fst t)"
    for wave t t'
    using that
  proof (induction wave t "(Inr () :: js_error + unit, t')" rule: wave_run.induct)
    case (wave_goes n t t1 ns)
    with ring_stable_node [OF assms(2), of cs fx n "fst t" "snd t" "()" "fst t1" "snd t1"] show ?case
      by (simp add: stage_run_def)
  qed
  show ?thesis
    by (rule strands_run_invariant [OF assms(1) [unfolded gap_run_from_def] refl, where I = "\<lambda>_ s. P (fst s)"])
      (use assms(3) wave in \<open>auto simp: strands_step_def\<close>)
qed

lemma ring_keeps_count:
  assumes "gap_run_from cs fx ([GapCheck] # ws) s (Inr (), s')"
  shows "refinement_count (fst s') = refinement_count (fst s)"
  by (rule ring_stable_run [OF assms, where P = "\<lambda>t. refinement_count t = refinement_count (fst s)"])
    (simp_all add: ring_stable_def)

lemma ring_keeps_root:
  assumes "gap_run_from cs fx ([GapCheck] # ws) s (Inr (), s')" and "ws_rootCause (fst s') = None"
  shows "ws_rootCause (fst s) = None"
proof (rule ccontr)
  assume "ws_rootCause (fst s) \<noteq> None"
  from ring_stable_run [OF assms(1), where P = "\<lambda>t. ws_rootCause t \<noteq> None"] this have "ws_rootCause (fst s') \<noteq> None"
    by (simp add: ring_stable_def)
  with assms(2) show False by simp
qed

end
