(* ===== verification/Proof_Graph.thy ===== *)
theory Proof_Graph
  imports Gap_Graph
begin

text \<open>
  Triple Validation with bounded refinement as a Strands graph:
  \<open>backend/workflow/strands/proof-graph.ts\<close>.  Three validation lanes run in
  parallel and are joined; a failed triple is turned into findings, the gap ring
  corrects the plan, evaluation runs again and all three lanes prove it afresh,
  at most three times.
\<close>

definition MAX_VALIDATION_REFINEMENTS :: nat where
  "MAX_VALIDATION_REFINEMENTS = 3"

section \<open>The handlers\<close>

definition proof_admission :: "'w validation_lanes \<Rightarrow> 'w stage_handler" where
  "proof_admission lanes =
     try_catch
       (bindM run_bundle (\<lambda>b. bindM run_plan (\<lambda>p.
         thenM (on_world (validation_assertRouting lanes b p)) no_delta)))
       (\<lambda>e. bindM run_plan (\<lambda>p. returnM (rootCauseDelta
         \<lparr>rc_issue = ''Triple Validation routing mismatch'',
          rc_expected = ''Schema, Fixture, and Goal validation definitions route to the final plan and Researcher-owned IDs'',
          rc_actual = error_message e, rc_evidence_ids = [],
          rc_required_correction = ''Correct the Researcher-owned validation routing inputs'',
          rc_recheck_target = plan_id p\<rparr>)))"

definition proof_schema where
  "proof_schema lanes cs fx =
     bindM run_runId (\<lambda>r. thenM (event fx r ''SchemaValidation'' ERunning [])
     (bindM run_bundle (\<lambda>b. bindM run_plan (\<lambda>p.
      bindM (on_world (triple_schema lanes cs b p)) (\<lambda>result.
      thenM (event fx r ''SchemaValidation'' ECompleted
        [(''test_result'', TestResult_str (sv_result result)), (''artifact_id'', sv_schema_id result)])
      (returnM (\<lambda>s. s\<lparr>ws_schemaValidation := Some result\<rparr>)))))))"

definition proof_fixture where
  "proof_fixture lanes cs fx =
     bindM run_runId (\<lambda>r. thenM (event fx r ''FixtureValidation'' ERunning [])
     (bindM run_bundle (\<lambda>b. bindM run_plan (\<lambda>p.
      bindM (on_world (triple_fixture lanes cs b p)) (\<lambda>result.
      thenM (event fx r ''FixtureValidation'' ECompleted
        [(''test_result'', TestResult_str (fv_result result)), (''artifact_id'', fv_fixture_id result)])
      (returnM (\<lambda>s. s\<lparr>ws_fixtureValidation := Some result\<rparr>)))))))"

definition proof_goal where
  "proof_goal lanes cs fx =
     bindM run_runId (\<lambda>r. thenM (event fx r ''GoalValidation'' ERunning [])
     (bindM run_bundle (\<lambda>b. bindM run_plan (\<lambda>p.
      bindM (on_world (triple_goal lanes cs b p)) (\<lambda>result.
      thenM (event fx r ''GoalValidation'' ECompleted
        [(''test_result'', TestResult_str (gv_result result)), (''artifact_id'', gv_goal_id result)])
      (returnM (\<lambda>s. s\<lparr>ws_goalValidation := Some result\<rparr>)))))))"

definition proof_join :: "'w contract_skill \<Rightarrow> 'w WorkflowEffects \<Rightarrow> 'w stage_handler" where
  "proof_join cs fx =
     bindM run_runId (\<lambda>r. thenM (event fx r ''TripleValidation'' ERunning [])
     (bindM run_bundle (\<lambda>b. bindM run_plan (\<lambda>p.
      bindM run_schemaValidation (\<lambda>sv. bindM run_fixtureValidation (\<lambda>fv. bindM run_goalValidation (\<lambda>gv.
      bindM (on_world (triple_join cs b p sv fv gv)) (\<lambda>result.
      thenM (save fx r ''triple-validation'' (SvTriple result))
      (thenM (event fx r ''TripleValidation'' ECompleted
        ([(''test_result'', if all_valid result then ''Passed'' else ''Failed'')] @
         (if all_valid result then [] else [(''issue_type'', ''Missing'')]) @
         [(''artifact_id'', tv_validation_id result), (''message'', ''all_valid='' @ bool_str (all_valid result))]))
      (returnM (\<lambda>s. s\<lparr>ws_tripleValidation := Some result, triple_valid := Some (all_valid result)\<rparr>)))))))))))"

definition refinements_of :: "WorkflowRunState \<Rightarrow> nat" where
  "refinements_of s = (case refinement_count s of None \<Rightarrow> 0 | Some n \<Rightarrow> n)"

definition seen_signatures :: "WorkflowRunState \<Rightarrow> string list" where
  "seen_signatures s = (case validation_signatures s of None \<Rightarrow> [] | Some l \<Rightarrow> l)"

definition triple_evidence_ids :: "TripleValidation \<Rightarrow> string list" where
  "triple_evidence_ids t = map evidence_id (sv_evidence (schema_validation t) @
     fv_evidence (fixture_validation t) @ gv_evidence (goal_validation t))"

definition begin_refinement ::
  "nat \<Rightarrow> string \<Rightarrow> GapFinding list \<Rightarrow> Plan \<Rightarrow> WorkflowRunState \<Rightarrow> WorkflowRunState" where
  "begin_refinement next_count signature found p s =
     s\<lparr>refinement_count := Some next_count,
       validation_signatures := Some (seen_signatures s @ [signature]),
       ws_gapSeedFindings := Some found,
       gap_run_message := Some (''validation refinement='' @ nat_str next_count),
       evaluation_run_message := Some (''validation refinement='' @ nat_str next_count),
       before_revision := Some (revision p),
       ws_gap := None, ws_gapFindings := None, gap_saved := None, gap_running_emitted := None,
       ws_resolvedGaps := Some [], gap_iterations := Some 0\<rparr>"

definition proof_refineCheck :: "'w stage_handler" where
  "proof_refineCheck =
     bindM run_tripleValidation (\<lambda>t. if all_valid t then no_delta else
     bindM (get_state ws_rootCause) (\<lambda>rc. if rc \<noteq> None then no_delta else
     bindM (get_state refinements_of) (\<lambda>refinements.
     if refinements \<ge> MAX_VALIDATION_REFINEMENTS then
       bindM run_plan (\<lambda>p. returnM (rootCauseDelta
         \<lparr>rc_issue = ''Validation refinement exceeded deterministic bound'',
          rc_expected = ''The same logical Plan converges to all VALID proofs'',
          rc_actual = validationSignature t, rc_evidence_ids = [],
          rc_required_correction =
            ''Provide additional information required to resolve the remaining validation findings'',
          rc_recheck_target = plan_id p\<rparr>))
     else
       bindM run_bundle (\<lambda>b. bindM run_plan (\<lambda>p.
       let signature = validationSignature t; feedback = validationFeedback b p t in
       if vf_findings feedback = [] then
         returnM (rootCauseDelta
           \<lparr>rc_issue = ''Triple Validation requires additional information'',
            rc_expected = ''Every NOT_VALID proof maps to a deterministic evidence-backed Plan improvement'',
            rc_actual = (if join ''; '' (vf_unresolved feedback) \<noteq> '''' then join ''; '' (vf_unresolved feedback) else signature),
            rc_evidence_ids = triple_evidence_ids t,
            rc_required_correction =
              ''Provide the missing information required to improve the same logical Plan without guessing'',
            rc_recheck_target = plan_id p\<rparr>)
       else bindM (get_state seen_signatures) (\<lambda>seen.
         if signature \<in> set seen then
           returnM (rootCauseDelta
             \<lparr>rc_issue = ''Validation refinement made no new progress'',
              rc_expected = ''Each refinement removes at least one previously observed validation miss without reducing prior Plan value'',
              rc_actual = signature,
              rc_evidence_ids = concat (map (\<lambda>f. case gf_evidence_ids f of None \<Rightarrow> [] | Some es \<Rightarrow> es) (vf_findings feedback)),
              rc_required_correction = ''Provide additional evidence for a new deterministic Plan improvement'',
              rc_recheck_target = plan_id p\<rparr>)
         else
           thenM (set_state (begin_refinement (refinements + 1) signature (vf_findings feedback) p))
           no_delta))))))"

definition proof_progressCheck :: "'w stage_handler" where
  "proof_progressCheck =
     bindM (get_state ws_rootCause) (\<lambda>rc. if rc \<noteq> None then no_delta else
     bindM (get_state (\<lambda>s. case before_revision s of None \<Rightarrow> 0 | Some n \<Rightarrow> n)) (\<lambda>before.
     bindM run_plan (\<lambda>p. if revision p \<le> before then
       returnM (rootCauseDelta
         \<lparr>rc_issue = ''Gap refinement did not improve the Plan'',
          rc_expected = ''Validation feedback increases the same plan_id revision and preserves all prior value'',
          rc_actual = ''revision remained '' @ int_str (revision p), rc_evidence_ids = [],
          rc_required_correction = ''Provide a deterministic additive Plan improvement'',
          rc_recheck_target = plan_id p\<rparr>)
       else no_delta)))"

definition refineEval_delta :: "Evaluation \<Rightarrow> WorkflowRunState \<Rightarrow> WorkflowRunState" where
  "refineEval_delta result s = (case el_root_cause result of
      Some rc \<Rightarrow> if el_result result = Failed then rootCauseDelta rc s else s\<lparr>ws_evaluation := Some result\<rparr>
    | None \<Rightarrow> s\<lparr>ws_evaluation := Some result\<rparr>)"

definition proof_refineEval :: "'w contract_skill \<Rightarrow> 'w WorkflowEffects \<Rightarrow> 'w stage_handler" where
  "proof_refineEval cs fx =
     bindM run_runId (\<lambda>r. bindM (get_state evaluation_run_message) (\<lambda>m.
     thenM (event fx r ''Evaluation'' ERunning (message_data m))
     (bindM run_bundle (\<lambda>b. bindM run_plan (\<lambda>p.
      bindM (on_world (evaluation_run cs b p)) (\<lambda>result.
      thenM (save fx r ''evaluation'' (SvEvaluation result))
      (thenM (event fx r ''Evaluation'' ECompleted
        [(''result'', TestResult_str (el_result result)), (''artifact_id'', el_plan_id result)])
      (returnM (refineEval_delta result)))))))))"

section \<open>The graph\<close>

datatype proof_node =
    TripleValidationAdmission | SchemaValidationAgent | FixtureValidationAgent | GoalValidationAgent
  | TripleValidationJoin | TripleValidationRefineCheck | GapAnalysisRefine
  | ValidationRefineProgressCheck | ValidationRefineEvaluation

fun proof_node_run ::
  "'w validation_lanes \<Rightarrow> 'w contract_skill \<Rightarrow> 'w WorkflowEffects \<Rightarrow> (proof_node, 'w) node_runs" where
  "proof_node_run lanes cs fx TripleValidationAdmission =
     stage_run (stage_handle False (proof_admission lanes))"
| "proof_node_run lanes cs fx SchemaValidationAgent = stage_run (stage_handle False (proof_schema lanes cs fx))"
| "proof_node_run lanes cs fx FixtureValidationAgent = stage_run (stage_handle False (proof_fixture lanes cs fx))"
| "proof_node_run lanes cs fx GoalValidationAgent = stage_run (stage_handle False (proof_goal lanes cs fx))"
| "proof_node_run lanes cs fx TripleValidationJoin = stage_run (stage_handle False (proof_join cs fx))"
| "proof_node_run lanes cs fx TripleValidationRefineCheck = stage_run (stage_handle False proof_refineCheck)"
| "proof_node_run lanes cs fx GapAnalysisRefine = (\<lambda>s out. \<exists>ws. gap_run_from cs fx ([GapCheck] # ws) s out)"
| "proof_node_run lanes cs fx ValidationRefineProgressCheck = stage_run (stage_handle False proof_progressCheck)"
| "proof_node_run lanes cs fx ValidationRefineEvaluation = stage_run (stage_handle False (proof_refineEval cs fx))"

definition no_root :: "WorkflowRunState \<Rightarrow> bool" where
  "no_root s \<longleftrightarrow> ws_rootCause s = None"

definition proof_edges :: "proof_node edge list" where
  "proof_edges =
     [(TripleValidationAdmission, SchemaValidationAgent, always),
      (TripleValidationAdmission, FixtureValidationAgent, always),
      (TripleValidationAdmission, GoalValidationAgent, always),
      (SchemaValidationAgent, TripleValidationJoin, always),
      (FixtureValidationAgent, TripleValidationJoin, always),
      (GoalValidationAgent, TripleValidationJoin, always),
      (TripleValidationJoin, TripleValidationRefineCheck, \<lambda>s. triple_valid s \<noteq> Some True \<and> no_root s),
      (TripleValidationRefineCheck, GapAnalysisRefine, no_root),
      (GapAnalysisRefine, ValidationRefineProgressCheck, always),
      (ValidationRefineProgressCheck, ValidationRefineEvaluation, no_root),
      (ValidationRefineEvaluation, TripleValidationAdmission, no_root)]"


definition proof_run_from where
  "proof_run_from lanes cs fx waves s out \<longleftrightarrow> strands_run (proof_node_run lanes cs fx) proof_edges waves s out"

section \<open>Which nodes run next\<close>

abbreviation lanes_wave :: "proof_node list \<Rightarrow> bool" where
  "lanes_wave wave \<equiv> distinct wave \<and>
     set wave = {SchemaValidationAgent, FixtureValidationAgent, GoalValidationAgent}"

lemma proof_successors [node_simps]:
  "successors proof_edges [TripleValidationAdmission] s =
     [SchemaValidationAgent, FixtureValidationAgent, GoalValidationAgent]"
  "successors proof_edges [TripleValidationJoin] s =
     (if triple_valid s \<noteq> Some True \<and> ws_rootCause s = None then [TripleValidationRefineCheck] else [])"
  "successors proof_edges [TripleValidationRefineCheck] s =
     (if ws_rootCause s = None then [GapAnalysisRefine] else [])"
  "successors proof_edges [GapAnalysisRefine] s = [ValidationRefineProgressCheck]"
  "successors proof_edges [ValidationRefineProgressCheck] s =
     (if ws_rootCause s = None then [ValidationRefineEvaluation] else [])"
  "successors proof_edges [ValidationRefineEvaluation] s =
     (if ws_rootCause s = None then [TripleValidationAdmission] else [])"
  "successors proof_edges [SchemaValidationAgent, FixtureValidationAgent, GoalValidationAgent] s =
     [TripleValidationJoin]"
  by (simp_all add: successors_def ready_def proof_edges_def always_def no_root_def)

lemma lanes_successors: "lanes_wave wave \<Longrightarrow> successors proof_edges wave s = [TripleValidationJoin]"
  using successors_cong [of wave "[SchemaValidationAgent, FixtureValidationAgent, GoalValidationAgent]" proof_edges s]
  by (simp add: proof_successors)

lemma singleton_wave: "set wave = {m} \<Longrightarrow> distinct wave \<Longrightarrow> wave = [m]"
  by (cases wave) (auto dest: subset_singletonD)

section \<open>What the nodes do\<close>

text \<open>\<open>produced m r\<close>: \<open>r\<close> is a result of running \<open>m\<close>.  The lanes' results for a plan and a bundle.\<close>

definition produced :: "('w, js_error, 'a) eff \<Rightarrow> 'a \<Rightarrow> bool" where
  "produced m r \<longleftrightarrow> (\<exists>w w'. m w = (Inr r, w'))"

lemma producedI: "m w = (Inr r, w') \<Longrightarrow> produced m r"
  by (auto simp: produced_def)

definition lanes_proved :: "'w validation_lanes \<Rightarrow> 'w contract_skill \<Rightarrow> proof_node set \<Rightarrow> WorkflowRunState \<Rightarrow> bool" where
  "lanes_proved lanes cs N s \<longleftrightarrow> (\<exists>b p. ws_bundle s = Some b \<and> ws_plan s = Some p \<and>
     (SchemaValidationAgent \<in> N \<longrightarrow> (\<exists>r. ws_schemaValidation s = Some r \<and> produced (triple_schema lanes cs b p) r)) \<and>
     (FixtureValidationAgent \<in> N \<longrightarrow> (\<exists>r. ws_fixtureValidation s = Some r \<and> produced (triple_fixture lanes cs b p) r)) \<and>
     (GoalValidationAgent \<in> N \<longrightarrow> (\<exists>r. ws_goalValidation s = Some r \<and> produced (triple_goal lanes cs b p) r)))"

lemma lane_results:
  assumes "ws_rootCause s = None"
  shows "proof_node_run lanes cs fx SchemaValidationAgent (s, w) (Inr (), (s', w')) \<Longrightarrow>
      \<exists>b p r. ws_bundle s = Some b \<and> ws_plan s = Some p \<and> produced (triple_schema lanes cs b p) r \<and>
        s' = s\<lparr>ws_schemaValidation := Some r\<rparr>"
    and "proof_node_run lanes cs fx FixtureValidationAgent (s, w) (Inr (), (s', w')) \<Longrightarrow>
      \<exists>b p r. ws_bundle s = Some b \<and> ws_plan s = Some p \<and> produced (triple_fixture lanes cs b p) r \<and>
        s' = s\<lparr>ws_fixtureValidation := Some r\<rparr>"
    and "proof_node_run lanes cs fx GoalValidationAgent (s, w) (Inr (), (s', w')) \<Longrightarrow>
      \<exists>b p r. ws_bundle s = Some b \<and> ws_plan s = Some p \<and> produced (triple_goal lanes cs b p) r \<and>
        s' = s\<lparr>ws_goalValidation := Some r\<rparr>"
proof -
  show "proof_node_run lanes cs fx SchemaValidationAgent (s, w) (Inr (), (s', w')) \<Longrightarrow>
      \<exists>b p r. ws_bundle s = Some b \<and> ws_plan s = Some p \<and> produced (triple_schema lanes cs b p) r \<and>
        s' = s\<lparr>ws_schemaValidation := Some r\<rparr>"
    using assms by (auto simp: stage_run_def proof_schema_def run_accessors node_simps) (blast intro: producedI)
  show "proof_node_run lanes cs fx FixtureValidationAgent (s, w) (Inr (), (s', w')) \<Longrightarrow>
      \<exists>b p r. ws_bundle s = Some b \<and> ws_plan s = Some p \<and> produced (triple_fixture lanes cs b p) r \<and>
        s' = s\<lparr>ws_fixtureValidation := Some r\<rparr>"
    using assms by (auto simp: stage_run_def proof_fixture_def run_accessors node_simps) (blast intro: producedI)
  show "proof_node_run lanes cs fx GoalValidationAgent (s, w) (Inr (), (s', w')) \<Longrightarrow>
      \<exists>b p r. ws_bundle s = Some b \<and> ws_plan s = Some p \<and> produced (triple_goal lanes cs b p) r \<and>
        s' = s\<lparr>ws_goalValidation := Some r\<rparr>"
    using assms by (auto simp: stage_run_def proof_goal_def run_accessors node_simps) (blast intro: producedI)
qed

lemma lane_node:
  assumes run: "proof_node_run lanes cs fx n (s, w) (Inr (), (s', w'))"
    and n: "n \<in> {SchemaValidationAgent, FixtureValidationAgent, GoalValidationAgent}"
  shows "refinement_count s' = refinement_count s \<and> ws_rootCause s' = ws_rootCause s \<and>
    (ws_rootCause s = None \<longrightarrow> N = {} \<or> lanes_proved lanes cs N s \<longrightarrow> lanes_proved lanes cs (insert n N) s')"
proof (cases "ws_rootCause s")
  case None
  from n consider (schema) "n = SchemaValidationAgent" | (fixture) "n = FixtureValidationAgent"
    | (goal) "n = GoalValidationAgent" by blast
  then show ?thesis
  proof cases
    case schema
    from lane_results(1) [OF None run [unfolded schema]] schema show ?thesis
      by (auto simp: lanes_proved_def)
  next
    case fixture
    from lane_results(2) [OF None run [unfolded fixture]] fixture show ?thesis
      by (auto simp: lanes_proved_def)
  next
    case goal
    from lane_results(3) [OF None run [unfolded goal]] goal show ?thesis
      by (auto simp: lanes_proved_def)
  qed
next
  case (Some rc)
  with assms show ?thesis by (auto simp: stage_run_def stage_skips)
qed

lemma lanes_run:
  assumes "wave_run (proof_node_run lanes cs fx) wave s (Inr (), s')"
    and "set wave \<subseteq> {SchemaValidationAgent, FixtureValidationAgent, GoalValidationAgent}"
    and "ws_rootCause (fst s) = None \<longrightarrow> N = {} \<or> lanes_proved lanes cs N (fst s)"
  shows "refinement_count (fst s') = refinement_count (fst s) \<and> ws_rootCause (fst s') = ws_rootCause (fst s) \<and>
    (ws_rootCause (fst s) = None \<longrightarrow> N \<union> set wave = {} \<or> lanes_proved lanes cs (N \<union> set wave) (fst s'))"
  using assms
proof (induction wave s "(Inr () :: js_error + unit, s')" arbitrary: N rule: wave_run.induct)
  case (wave_goes n s t ns)
  then have n: "proof_node_run lanes cs fx n (fst s, snd s) (Inr (), (fst t, snd t))"
    and mem: "n \<in> {SchemaValidationAgent, FixtureValidationAgent, GoalValidationAgent}" by simp_all
  note l = lane_node [OF n mem, of N]
  from wave_goes.hyps(3) [of "insert n N"] wave_goes.prems l show ?case by simp
qed simp

lemma join_node:
  assumes "proof_node_run lanes cs fx TripleValidationJoin (s, w) (Inr (), (s', w'))" and "ws_rootCause s = None"
  shows "\<exists>b p sv fv gv t. ws_bundle s = Some b \<and> ws_plan s = Some p \<and> ws_schemaValidation s = Some sv \<and>
    ws_fixtureValidation s = Some fv \<and> ws_goalValidation s = Some gv \<and> produced (triple_join cs b p sv fv gv) t \<and>
    s' = s\<lparr>ws_tripleValidation := Some t, triple_valid := Some (all_valid t)\<rparr>"
  using assms by (auto simp: stage_run_def proof_join_def run_accessors node_simps) (blast intro: producedI)

lemma refineCheck_node:
  assumes "proof_node_run lanes cs fx TripleValidationRefineCheck (s, w) (Inr (), (s', w'))"
    and "ws_rootCause s = None" and "ws_tripleValidation s = Some t" and "\<not> all_valid t"
  shows "(\<exists>rc. s' = s\<lparr>ws_rootCause := Some rc\<rparr>) \<or>
    (\<exists>b p. ws_bundle s = Some b \<and> ws_plan s = Some p \<and> refinements_of s < MAX_VALIDATION_REFINEMENTS \<and>
      vf_findings (validationFeedback b p t) \<noteq> [] \<and> validationSignature t \<notin> set (seen_signatures s) \<and>
      s' = begin_refinement (Suc (refinements_of s)) (validationSignature t) (vf_findings (validationFeedback b p t)) p s)"
proof -
  from assms obtain d where h: "proof_refineCheck (s, w) = (Inr d, (s', w')) \<and> s' = d s' \<or>
      (\<exists>s1. proof_refineCheck (s, w) = (Inr d, (s1, w')) \<and> s' = d s1)"
    by (auto simp: stage_run_def node_simps)
  then obtain s1 where h: "proof_refineCheck (s, w) = (Inr d, (s1, w'))" "s' = d s1" by blast
  show ?thesis
  proof (cases "refinements_of s \<ge> MAX_VALIDATION_REFINEMENTS")
    case True
    with h assms have "s1 = s" "\<exists>rc. d = rootCauseDelta rc"
      by (auto simp: proof_refineCheck_def run_accessors node_simps)
    with h show ?thesis by (auto simp: rootCauseDelta_def)
  next
    case False
    with h assms obtain b p where pb: "ws_bundle s = Some b" "ws_plan s = Some p"
      by (auto simp: proof_refineCheck_def run_accessors node_simps)
    show ?thesis
    proof (cases "vf_findings (validationFeedback b p t) = [] \<or> validationSignature t \<in> set (seen_signatures s)")
      case True
      with False h assms pb have "s1 = s" "\<exists>rc. d = rootCauseDelta rc"
        by (auto simp: proof_refineCheck_def run_accessors node_simps Let_def split: if_splits)
      with h show ?thesis by (auto simp: rootCauseDelta_def)
    next
      case fresh: False
      with False h assms pb have "d = id" "s1 = begin_refinement (refinements_of s + 1) (validationSignature t)
          (vf_findings (validationFeedback b p t)) p s"
        by (auto simp: proof_refineCheck_def run_accessors node_simps Let_def)
      with h False fresh pb show ?thesis by auto
    qed
  qed
qed

lemma admission_body:
  "bindM run_bundle (\<lambda>b. bindM run_plan (\<lambda>p. thenM (on_world (m b p)) no_delta)) (s, w) = (r, (s', w')) \<Longrightarrow>
    s' = s \<and> (case r of Inl e \<Rightarrow> True | Inr d \<Rightarrow> d = id)"
  by (auto simp: run_accessors bindM_apply thenM_apply require_state_def on_world_def no_delta_def returnM_apply
      split: option.splits prod.splits sum.splits)

lemma admission_node:
  assumes "proof_node_run lanes cs fx TripleValidationAdmission (s, w) (Inr (), (s', w'))"
  shows "s' = s \<or> (\<exists>rc. s' = s\<lparr>ws_rootCause := Some rc\<rparr>)"
proof (cases "ws_rootCause s")
  case None
  with assms obtain d s1 where h: "proof_admission lanes (s, w) = (Inr d, (s1, w'))" and "s' = d s1"
    by (auto simp: stage_run_def node_simps)
  obtain r t v where b: "bindM run_bundle (\<lambda>b. bindM run_plan (\<lambda>p.
      thenM (on_world (validation_assertRouting lanes b p)) no_delta)) (s, w) = (r, (t, v))"
    by (metis surj_pair)
  from admission_body [OF b] have "t = s" by simp
  show ?thesis
  proof (cases r)
    case (Inr d')
    with h b admission_body [OF b] \<open>s' = d s1\<close> show ?thesis
      by (auto simp: proof_admission_def try_catch_apply)
  next
    case (Inl e)
    with h b \<open>t = s\<close> have "\<exists>p. bindM run_plan (\<lambda>p. returnM (rootCauseDelta
         \<lparr>rc_issue = ''Triple Validation routing mismatch'',
          rc_expected = ''Schema, Fixture, and Goal validation definitions route to the final plan and Researcher-owned IDs'',
          rc_actual = error_message e, rc_evidence_ids = [],
          rc_required_correction = ''Correct the Researcher-owned validation routing inputs'',
          rc_recheck_target = plan_id p\<rparr>)) (s, v) = (Inr d, (s1, w'))"
      by (simp add: proof_admission_def try_catch_apply split: if_splits)
    then have "s1 = s \<and> (\<exists>rc. d = rootCauseDelta rc)" by (auto simp: run_accessors node_simps)
    with \<open>s' = d s1\<close> show ?thesis by (auto simp: rootCauseDelta_def)
  qed
next
  case (Some rc)
  with assms show ?thesis by (simp add: stage_run_def stage_skips)
qed

lemma join_count:
  "proof_node_run lanes cs fx TripleValidationJoin (s, w) (Inr (), (s', w')) \<Longrightarrow> refinement_count s' = refinement_count s"
  using join_node [of lanes cs fx s w s' w']
  by (cases "ws_rootCause s") (auto simp: stage_run_def stage_skips)

lemma progress_node:
  assumes "proof_node_run lanes cs fx ValidationRefineProgressCheck (s, w) (Inr (), (s', w'))"
  shows "s' = s \<or> (\<exists>rc. s' = s\<lparr>ws_rootCause := Some rc\<rparr>)"
proof (cases "ws_rootCause s")
  case None
  with assms obtain d s1 where "proof_progressCheck (s, w) = (Inr d, (s1, w'))" and "s' = d s1"
    by (auto simp: stage_run_def node_simps)
  moreover from this None obtain p where "ws_plan s = Some p"
    by (auto simp: proof_progressCheck_def run_accessors node_simps)
  ultimately have "s1 = s \<and> (d = id \<or> (\<exists>rc. d = rootCauseDelta rc))"
    by (cases "revision p \<le> (case before_revision s of None \<Rightarrow> 0 | Some n \<Rightarrow> n)")
      (simp_all add: proof_progressCheck_def run_accessors node_simps None, blast)
  with \<open>s' = d s1\<close> show ?thesis by (auto simp: rootCauseDelta_def)
qed (use assms in \<open>auto simp: stage_run_def stage_skips\<close>)

lemma refineEval_delta_frame:
  "refinement_count (refineEval_delta e s) = refinement_count s"
  "ws_rootCause (refineEval_delta e s) = None \<Longrightarrow> ws_rootCause s = None"
  by (auto simp: refineEval_delta_def rootCauseDelta_def split: option.splits if_splits)

lemma eval_node:
  assumes "proof_node_run lanes cs fx ValidationRefineEvaluation (s, w) (Inr (), (s', w'))"
  shows "s' = s \<or> (\<exists>e. s' = refineEval_delta e s)"
proof (cases "ws_rootCause s")
  case None
  with assms obtain d s1 where "proof_refineEval cs fx (s, w) = (Inr d, (s1, w'))" and "s' = d s1"
    by (auto simp: stage_run_def node_simps)
  then have "s1 = s \<and> (\<exists>e. d = refineEval_delta e)"
    by (auto simp: proof_refineEval_def run_accessors node_simps)
  with \<open>s' = d s1\<close> show ?thesis by auto
qed (use assms in \<open>auto simp: stage_run_def stage_skips\<close>)

section \<open>Where an execution can be\<close>

definition failed_triple :: "WorkflowRunState \<Rightarrow> bool" where
  "failed_triple s \<longleftrightarrow> ws_rootCause s = None \<and> (\<exists>t. ws_tripleValidation s = Some t \<and> \<not> all_valid t)"

definition proof_at :: "'w validation_lanes \<Rightarrow> 'w contract_skill \<Rightarrow> proof_node list \<Rightarrow> 'w workflow \<Rightarrow> bool" where
  "proof_at lanes cs wave s \<longleftrightarrow>
     wave = [TripleValidationAdmission] \<or> lanes_wave wave \<or>
     wave = [TripleValidationJoin] \<and> (ws_rootCause (fst s) = None \<longrightarrow>
       lanes_proved lanes cs {SchemaValidationAgent, FixtureValidationAgent, GoalValidationAgent} (fst s)) \<or>
     wave = [TripleValidationRefineCheck] \<and> failed_triple (fst s) \<or>
     wave = [GapAnalysisRefine] \<or> wave = [ValidationRefineProgressCheck] \<or> wave = [ValidationRefineEvaluation]"

fun wave_rank :: "proof_node \<Rightarrow> nat" where
  "wave_rank GapAnalysisRefine = 9"
| "wave_rank ValidationRefineProgressCheck = 8"
| "wave_rank ValidationRefineEvaluation = 7"
| "wave_rank TripleValidationAdmission = 6"
| "wave_rank TripleValidationJoin = 4"
| "wave_rank TripleValidationRefineCheck = 3"
| "wave_rank _ = 5"

text \<open>An upper bound of the waves still to run: seven for each refinement left, and the current round.\<close>

definition proof_left :: "proof_node list \<Rightarrow> 'w workflow \<Rightarrow> nat" where
  "proof_left wave s = 7 * (MAX_VALIDATION_REFINEMENTS - refinements_of (fst s)) + wave_rank (hd wave)"

lemma proof_leftI:
  "refinement_count (fst s') = refinement_count (fst s) \<Longrightarrow> wave_rank (hd wave') < wave_rank (hd wave) \<Longrightarrow>
    proof_left wave' s' < proof_left wave s"
  by (simp add: proof_left_def refinements_of_def)

lemma lanes_rank:
  assumes "lanes_wave wave"
  shows "wave_rank (hd wave) = 5"
proof -
  have s: "set wave = {SchemaValidationAgent, FixtureValidationAgent, GoalValidationAgent}" using assms by blast
  have "hd wave \<in> set wave" by (rule hd_in_set) (use s in force)
  then show ?thesis unfolding s by auto
qed

lemma node_pair: "proof_node_run lanes cs fx n s (Inr (), s') \<Longrightarrow>
  proof_node_run lanes cs fx n (fst s, snd s) (Inr (), (fst s', snd s'))"
  by simp

lemma step_single:
  "strands_step runs edges ([n], s) (wave', s') \<longleftrightarrow> runs n s (Inr (), s') \<and>
     set wave' = set (successors edges [n] (fst s')) \<and> distinct wave' \<and> wave' \<noteq> []"
  by (simp add: strands_step_def wave_run_single)

lemma next_single:
  "set wave' = set (successors proof_edges wave s) \<Longrightarrow> distinct wave' \<Longrightarrow> successors proof_edges wave s = [m] \<Longrightarrow>
    wave' = [m]"
  by (rule singleton_wave) simp_all

lemma proof_step_admission:
  assumes "strands_step (proof_node_run lanes cs fx) proof_edges ([TripleValidationAdmission], s) (wave', s')"
  shows "proof_at lanes cs wave' s' \<and> proof_left wave' s' < proof_left [TripleValidationAdmission] s"
proof -
  from assms have run: "proof_node_run lanes cs fx TripleValidationAdmission s (Inr (), s')"
    and l: "lanes_wave wave'" by (simp_all only: strands_step_def fst_conv snd_conv wave_run_single proof_successors
      list.set simp_thms)
  from admission_node [OF node_pair [OF run]]
  have "refinement_count (fst s') = refinement_count (fst s)" by auto
  from proof_leftI [OF this] lanes_rank [OF l]
  have "proof_left wave' s' < proof_left [TripleValidationAdmission] s" by simp
  with l show ?thesis unfolding proof_at_def by blast
qed

lemma proof_step_lanes:
  assumes l: "lanes_wave wave" and "strands_step (proof_node_run lanes cs fx) proof_edges (wave, s) (wave', s')"
  shows "proof_at lanes cs wave' s' \<and> proof_left wave' s' < proof_left wave s"
proof -
  from assms(2) have run: "wave_run (proof_node_run lanes cs fx) wave s (Inr (), s')"
    and n: "set wave' = set (successors proof_edges wave (fst s'))" "distinct wave'"
    by (simp_all only: strands_step_def fst_conv snd_conv)
  have w: "wave' = [TripleValidationJoin]" by (rule next_single [OF n lanes_successors [OF l]])
  have "refinement_count (fst s') = refinement_count (fst s) \<and> ws_rootCause (fst s') = ws_rootCause (fst s) \<and>
    (ws_rootCause (fst s) = None \<longrightarrow> {} \<union> set wave = {} \<or> lanes_proved lanes cs ({} \<union> set wave) (fst s'))"
    by (rule lanes_run [OF run]) (use l in auto)
  then have c: "refinement_count (fst s') = refinement_count (fst s)"
    and p: "ws_rootCause (fst s') = None \<longrightarrow>
      lanes_proved lanes cs {SchemaValidationAgent, FixtureValidationAgent, GoalValidationAgent} (fst s')"
    using l by auto
  from proof_leftI [OF c, of wave' wave] lanes_rank [OF l] w have "proof_left wave' s' < proof_left wave s" by simp
  with w p show ?thesis unfolding proof_at_def by simp
qed

lemma proof_step_join:
  assumes "strands_step (proof_node_run lanes cs fx) proof_edges ([TripleValidationJoin], s) (wave', s')"
  shows "proof_at lanes cs wave' s' \<and> proof_left wave' s' < proof_left [TripleValidationJoin] s"
proof -
  from assms have run: "proof_node_run lanes cs fx TripleValidationJoin s (Inr (), s')"
    and n: "set wave' = set (successors proof_edges [TripleValidationJoin] (fst s'))" "distinct wave'" "wave' \<noteq> []"
    unfolding step_single by blast+
  from n(1,3) have "successors proof_edges [TripleValidationJoin] (fst s') \<noteq> []" by force
  then have go: "triple_valid (fst s') \<noteq> Some True" "ws_rootCause (fst s') = None"
    by (simp_all add: proof_successors split: if_splits)
  have w: "wave' = [TripleValidationRefineCheck]"
    by (rule next_single [OF n(1,2)]) (simp add: proof_successors go)
  have nr: "ws_rootCause (fst s) = None"
    using run go(2) by (cases "ws_rootCause (fst s)"; cases s) (auto simp: stage_run_def stage_skips)
  from join_node [OF node_pair [OF run] nr] obtain t where
    s': "fst s' = (fst s)\<lparr>ws_tripleValidation := Some t, triple_valid := Some (all_valid t)\<rparr>" by blast
  have "proof_left wave' s' < proof_left [TripleValidationJoin] s"
    by (rule proof_leftI) (simp_all add: s' w)
  moreover have "failed_triple (fst s')" using s' go by (simp add: failed_triple_def)
  ultimately show ?thesis using w by (simp add: proof_at_def)
qed

lemma proof_step_refineCheck:
  assumes f: "failed_triple (fst s)"
    and "strands_step (proof_node_run lanes cs fx) proof_edges ([TripleValidationRefineCheck], s) (wave', s')"
  shows "proof_at lanes cs wave' s' \<and> proof_left wave' s' < proof_left [TripleValidationRefineCheck] s"
proof -
  from assms(2) have run: "proof_node_run lanes cs fx TripleValidationRefineCheck s (Inr (), s')"
    and n: "set wave' = set (successors proof_edges [TripleValidationRefineCheck] (fst s'))" "distinct wave'" "wave' \<noteq> []"
    unfolding step_single by blast+
  from n(1,3) have "successors proof_edges [TripleValidationRefineCheck] (fst s') \<noteq> []" by force
  then have go: "ws_rootCause (fst s') = None"
    by (simp add: proof_successors split: if_splits)
  have w: "wave' = [GapAnalysisRefine]"
    by (rule next_single [OF n(1,2)]) (simp add: proof_successors go)
  from f obtain t where t: "ws_rootCause (fst s) = None" "ws_tripleValidation (fst s) = Some t" "\<not> all_valid t"
    by (auto simp: failed_triple_def)
  from refineCheck_node [OF node_pair [OF run] t] go obtain sg fs p where
    "refinements_of (fst s) < MAX_VALIDATION_REFINEMENTS"
    and s': "fst s' = begin_refinement (Suc (refinements_of (fst s))) sg fs p (fst s)" by auto
  moreover have "refinements_of (fst s') = Suc (refinements_of (fst s))"
    by (simp add: s' begin_refinement_def) (simp add: refinements_of_def)
  ultimately have "proof_left wave' s' < proof_left [TripleValidationRefineCheck] s"
    by (simp add: proof_left_def w)
  with w show ?thesis by (simp add: proof_at_def)
qed

lemma proof_step_rest:
  assumes "n \<in> {GapAnalysisRefine, ValidationRefineProgressCheck, ValidationRefineEvaluation}"
    and "strands_step (proof_node_run lanes cs fx) proof_edges ([n], s) (wave', s')"
  shows "proof_at lanes cs wave' s' \<and> proof_left wave' s' < proof_left [n] s"
proof -
  from assms(2) have run: "proof_node_run lanes cs fx n s (Inr (), s')"
    and m: "set wave' = set (successors proof_edges [n] (fst s'))" "distinct wave'" "wave' \<noteq> []"
    unfolding step_single by blast+
  have c: "refinement_count (fst s') = refinement_count (fst s)"
    using assms(1) run
  proof (elim insertE emptyE)
    assume "n = GapAnalysisRefine"
    with run obtain ws where "gap_run_from cs fx ([GapCheck] # ws) s (Inr (), s')" by auto
    then show ?thesis by (rule ring_keeps_count)
  next
    assume n: "n = ValidationRefineProgressCheck"
    from progress_node [OF node_pair [OF run [unfolded n]]] show ?thesis by auto
  next
    assume n: "n = ValidationRefineEvaluation"
    from eval_node [OF node_pair [OF run [unfolded n]]] show ?thesis by (auto simp: refineEval_delta_frame)
  qed
  from m(1,3) have "successors proof_edges [n] (fst s') \<noteq> []" by force
  then have "\<exists>k. successors proof_edges [n] (fst s') = [k] \<and> wave_rank k < wave_rank n \<and>
      k \<in> {ValidationRefineProgressCheck, ValidationRefineEvaluation, TripleValidationAdmission}"
    using assms(1) by (auto simp: proof_successors split: if_splits)
  then obtain k where succ: "successors proof_edges [n] (fst s') = [k]" and k: "wave_rank k < wave_rank n"
    "k \<in> {ValidationRefineProgressCheck, ValidationRefineEvaluation, TripleValidationAdmission}" by blast
  have w: "wave' = [k]" by (rule next_single [OF m(1,2) succ])
  have "proof_left wave' s' < proof_left [n] s" by (rule proof_leftI [OF c]) (simp add: w k)
  with w k show ?thesis by (auto simp: proof_at_def)
qed

lemma proof_step:
  assumes "proof_at lanes cs wave s"
    and "strands_step (proof_node_run lanes cs fx) proof_edges (wave, s) (wave', s')"
  shows "proof_at lanes cs wave' s' \<and> proof_left wave' s' < proof_left wave s"
proof -
  from assms(1) consider "wave = [TripleValidationAdmission]" | "lanes_wave wave" | "wave = [TripleValidationJoin]"
    | "wave = [TripleValidationRefineCheck]" "failed_triple (fst s)"
    | n where "wave = [n]" "n \<in> {GapAnalysisRefine, ValidationRefineProgressCheck, ValidationRefineEvaluation}"
    unfolding proof_at_def by blast
  then show ?thesis
  proof cases
    case 1
    from proof_step_admission [OF assms(2) [unfolded 1]] show ?thesis by (simp only: 1)
  next
    case 2
    from proof_step_lanes [OF 2 assms(2)] show ?thesis .
  next
    case 3
    from proof_step_join [OF assms(2) [unfolded 3]] show ?thesis by (simp only: 3)
  next
    case 4
    from proof_step_refineCheck [OF 4(2) assms(2) [unfolded 4(1)]] show ?thesis by (simp only: 4(1))
  next
    case 5
    from proof_step_rest [OF 5(2) assms(2) [unfolded 5(1)]] show ?thesis by (simp only: 5(1))
  qed
qed

section \<open>Properties\<close>

lemma proof_at_start: "proof_at lanes cs [TripleValidationAdmission] s"
  by (simp add: proof_at_def)



definition proof_exit :: "'w validation_lanes \<Rightarrow> 'w contract_skill \<Rightarrow> WorkflowRunState \<Rightarrow> bool" where
  "proof_exit lanes cs s \<longleftrightarrow> (\<exists>b p t. ws_bundle s = Some b \<and> ws_plan s = Some p \<and> ws_tripleValidation s = Some t \<and>
     all_valid t \<and> verdict t \<and> ids_match b p t \<and>
     produced (triple_schema lanes cs b p) (schema_validation t) \<and>
     produced (triple_fixture lanes cs b p) (fixture_validation t) \<and>
     produced (triple_goal lanes cs b p) (goal_validation t))"


lemma proof_exit_join:
  assumes run: "proof_node_run lanes cs fx TripleValidationJoin s (Inr (), s')"
    and "ws_rootCause (fst s) = None \<longrightarrow>
      lanes_proved lanes cs {SchemaValidationAgent, FixtureValidationAgent, GoalValidationAgent} (fst s)"
    and "successors proof_edges [TripleValidationJoin] (fst s') = []" and "ws_rootCause (fst s') = None"
  shows "proof_exit lanes cs (fst s')"
proof -
  have nr: "ws_rootCause (fst s) = None"
    using run assms(4) by (cases "ws_rootCause (fst s)"; cases s) (auto simp: stage_run_def stage_skips)
  from join_node [OF node_pair [OF run] nr] obtain b p sv fv gv t where
    st: "ws_bundle (fst s) = Some b" "ws_plan (fst s) = Some p" "ws_schemaValidation (fst s) = Some sv"
      "ws_fixtureValidation (fst s) = Some fv" "ws_goalValidation (fst s) = Some gv"
    and pr: "produced (triple_join cs b p sv fv gv) t"
    and s': "fst s' = (fst s)\<lparr>ws_tripleValidation := Some t, triple_valid := Some (all_valid t)\<rparr>" by blast
  from pr obtain u u' where "triple_join cs b p sv fv gv u = (Inr t, u')" by (auto simp: produced_def)
  from triple_join_ok [OF this] have t: "ids_match b p t" "all_valid t = verdict t" "schema_validation t = sv"
    "fixture_validation t = fv" "goal_validation t = gv" by simp_all
  have "all_valid t" using assms(3,4) s' by (simp add: proof_successors split: if_splits)
  moreover have "produced (triple_schema lanes cs b p) sv" "produced (triple_fixture lanes cs b p) fv"
    "produced (triple_goal lanes cs b p) gv"
    using assms(2) nr st by (simp_all add: lanes_proved_def)
  ultimately show ?thesis using t st s' by (auto simp: proof_exit_def)
qed

lemma proof_stop:
  assumes "proof_at lanes cs wave s" and run: "wave_run (proof_node_run lanes cs fx) wave s (Inr (), s')"
    and none: "successors proof_edges wave (fst s') = []"
  shows "ws_rootCause (fst s') = None \<longrightarrow> proof_exit lanes cs (fst s')"
proof -
  from assms(1) consider "wave = [TripleValidationAdmission]" | "lanes_wave wave" | "wave = [TripleValidationJoin]"
      "ws_rootCause (fst s) = None \<longrightarrow>
        lanes_proved lanes cs {SchemaValidationAgent, FixtureValidationAgent, GoalValidationAgent} (fst s)"
    | n where "wave = [n]" "n \<in> {TripleValidationRefineCheck, GapAnalysisRefine, ValidationRefineProgressCheck, ValidationRefineEvaluation}"
    unfolding proof_at_def by blast
  then show ?thesis
  proof cases
    case 1
    with none show ?thesis by (simp add: proof_successors)
  next
    case 2
    with none show ?thesis by (simp add: lanes_successors)
  next
    case 3
    with proof_exit_join [of lanes cs fx s s'] run none show ?thesis by (simp only: wave_run_single) blast
  next
    case 4
    with none show ?thesis by (auto simp: proof_successors split: if_splits)
  qed
qed

lemma proof_run_exit:
  assumes "proof_run_from lanes cs fx ([TripleValidationAdmission] # ws) s (Inr (), s')"
  shows "ws_rootCause (fst s') = None \<longrightarrow> proof_exit lanes cs (fst s')"
  by (rule strands_run_invariant [OF assms [unfolded proof_run_from_def] refl, where I = "proof_at lanes cs"])
    (rule proof_at_start, use proof_step in blast, use proof_stop in blast)

text \<open>
  C25.  The proof graph is sound: an execution that returns without root cause
  leaves a plan and a triple validation of that very plan and bundle, in which
  the three validators passed and whose three parts the validators returned for
  this plan; whatever order the parallel lanes ran in, however many refinements
  changed the plan before.
\<close>

theorem proof_graph_sound:
  assumes "proof_run_from lanes cs fx ([TripleValidationAdmission] # ws) s (Inr (), s')"
    and "ws_rootCause (fst s') = None"
  shows "proof_exit lanes cs (fst s')"
  using proof_run_exit [OF assms(1)] assms(2) by blast

text \<open>A passing execution: admission, the three lanes, the join.\<close>

definition sample_handle :: "proof_node \<Rightarrow> ('w, unit) wf" where
  "sample_handle n = (case n of
      TripleValidationAdmission \<Rightarrow> stage_handle False (proof_admission passing_lanes)
    | SchemaValidationAgent \<Rightarrow> stage_handle False (proof_schema passing_lanes accepting_contracts silent_effects)
    | FixtureValidationAgent \<Rightarrow> stage_handle False (proof_fixture passing_lanes accepting_contracts silent_effects)
    | GoalValidationAgent \<Rightarrow> stage_handle False (proof_goal passing_lanes accepting_contracts silent_effects)
    | _ \<Rightarrow> stage_handle False (proof_join accepting_contracts silent_effects))"

definition sample_pass :: "('w, unit) wf" where
  "sample_pass = thenM (sample_handle TripleValidationAdmission)
     (thenM (sample_handle GoalValidationAgent)
     (thenM (sample_handle SchemaValidationAgent)
     (thenM (sample_handle FixtureValidationAgent)
     (sample_handle TripleValidationJoin))))"

lemma sample_node:
  assumes "sample_handle n s = (Inr (), t)"
    and "n \<in> {TripleValidationAdmission, SchemaValidationAgent, FixtureValidationAgent, GoalValidationAgent, TripleValidationJoin}"
  shows "proof_node_run passing_lanes accepting_contracts silent_effects n s (Inr (), t)"
  using assms by (auto simp: stage_run_def sample_handle_def)

lemma sample_pass_run:
  assumes "sample_pass s = (Inr (), t)" and "triple_valid (fst t) = Some True"
  shows "proof_run_from passing_lanes accepting_contracts silent_effects ([TripleValidationAdmission] #
      [[GoalValidationAgent, SchemaValidationAgent, FixtureValidationAgent], [TripleValidationJoin]]) s (Inr (), t)"
proof -
  let ?r = "proof_node_run passing_lanes accepting_contracts silent_effects"
  let ?lanes = "[GoalValidationAgent, SchemaValidationAgent, FixtureValidationAgent]"
  from assms(1) obtain s1 s2 s3 s4 where
    h: "sample_handle TripleValidationAdmission s = (Inr (), s1)" "sample_handle GoalValidationAgent s1 = (Inr (), s2)"
      "sample_handle SchemaValidationAgent s2 = (Inr (), s3)" "sample_handle FixtureValidationAgent s3 = (Inr (), s4)"
      "sample_handle TripleValidationJoin s4 = (Inr (), t)"
    unfolding sample_pass_def by (auto elim!: thenM_Inr_elim)
  have 1: "?r TripleValidationAdmission s (Inr (), s1)" using sample_node [OF h(1)] by blast
  have 2: "?r GoalValidationAgent s1 (Inr (), s2)" using sample_node [OF h(2)] by blast
  have 3: "?r SchemaValidationAgent s2 (Inr (), s3)" using sample_node [OF h(3)] by blast
  have 4: "?r FixtureValidationAgent s3 (Inr (), s4)" using sample_node [OF h(4)] by blast
  have 5: "?r TripleValidationJoin s4 (Inr (), t)" using sample_node [OF h(5)] by blast
  have l: "lanes_wave ?lanes" by auto
  have lanes: "wave_run ?r ?lanes s1 (Inr (), s4)"
    by (rule wave_goes, rule 2, rule wave_goes, rule 3, rule wave_goes, rule 4, rule wave_done)
  have join: "strands_run ?r proof_edges [[TripleValidationJoin]] s4 (Inr (), t)"
    by (rule run_ends) (use 5 assms(2) in \<open>simp_all add: wave_run_single proof_successors del: proof_node_run.simps\<close>)
  have rest: "strands_run ?r proof_edges [?lanes, [TripleValidationJoin]] s1 (Inr (), t)"
    by (rule run_goes [OF lanes _ _ _ join]) (simp_all add: lanes_successors [OF l])
  have adm: "wave_run ?r [TripleValidationAdmission] s (Inr (), s1)" unfolding wave_run_single by (rule 1)
  show ?thesis
    unfolding proof_run_from_def by (rule run_goes [OF adm _ _ _ rest]) (auto simp: proof_successors)
qed

lemma proof_graph_sound_witness:
  "\<exists>s'. proof_run_from passing_lanes accepting_contracts silent_effects ([TripleValidationAdmission] #
      [[GoalValidationAgent, SchemaValidationAgent, FixtureValidationAgent], [TripleValidationJoin]])
      (ring_start (gap_plan [''r1'', ''r2'']) []) (Inr (), s') \<and>
    proof_exit (passing_lanes :: unit validation_lanes) accepting_contracts (fst s')"
proof -
  let ?s = "ring_start (gap_plan [''r1'', ''r2'']) []"
  let ?t = "snd (sample_pass ?s)"
  have "fst (sample_pass ?s) = Inr ()" by code_simp
  then have ok: "sample_pass ?s = (Inr (), ?t)" by (simp add: prod_eq_iff)
  have fin: "triple_valid (fst ?t) = Some True" "ws_rootCause (fst ?t) = None" by code_simp+
  from proof_graph_sound [OF sample_pass_run [OF ok fin(1)] fin(2)] sample_pass_run [OF ok fin(1)]
  show ?thesis by blast
qed

end
