(* ===== verification/Canonical_Workflow.thy ===== *)
theory Canonical_Workflow
  imports Proof_Graph
begin

text \<open>
  The whole in-process workflow, \<open>backend/workflow/strands/canonical-workflow.ts\<close>:
  thirteen nodes in a row, from the researcher to the verdict, with the gap ring
  and the proof graph as two of them.  The researcher (a language model) and the
  builder (the sandbox) are parameters.
\<close>

section \<open>The stages\<close>

record 'w workflow_agents =
  wa_contracts :: "'w contract_skill"
  wa_lanes :: "'w validation_lanes"
  wa_researcher :: "Prompt \<Rightarrow> string \<Rightarrow> ('w, js_error, ResearchBundle) eff"
  wa_builder :: "ConfirmedPackage \<Rightarrow> string \<Rightarrow> ('w, js_error, BuilderWorkflowResult) eff"

definition stage_researcher :: "'w workflow_agents \<Rightarrow> 'w WorkflowEffects \<Rightarrow> 'w stage_handler" where
  "stage_researcher ag fx =
     bindM run_runId (\<lambda>r0. bindM (liftM (requireJobId r0 ''Researcher'')) (\<lambda>r.
     thenM (event fx r ''Researcher'' ERunning [])
     (bindM run_prompt (\<lambda>pr. bindM (on_world (wa_researcher ag pr r)) (\<lambda>b.
      thenM (save fx r ''prompt'' (SvPrompt (prompt b)))
      (thenM (save fx r ''researcher'' (SvResearcher (researcher b)))
      (thenM (save fx r ''plan.researcher'' (SvPlan (plan b)))
      (thenM (save fx r ''schema'' (SvSchema (schema_artifact b)))
      (thenM (save fx r ''fixture'' (SvFixture (fixture b)))
      (thenM (save fx r ''goal'' (SvGoal (goal b)))
      (thenM (save fx r ''validation'' (SvValidation (validation b)))
      (thenM (event fx r ''Researcher'' ECompleted
        [(''test_result'', ''Passed''), (''artifact_id'', researcher_id (researcher b))])
      (returnM (\<lambda>s. s\<lparr>ws_bundle := Some b, ws_plan := Some (plan b)\<rparr>))))))))))))))"

definition stage_researchReview :: "'w WorkflowEffects \<Rightarrow> 'w stage_handler" where
  "stage_researchReview fx =
     bindM run_runId (\<lambda>r. bindM run_bundle (\<lambda>b. bindM (on_world (fx_review fx r b)) (\<lambda>reviewed.
       returnM (\<lambda>s. s\<lparr>ws_bundle := Some reviewed\<rparr>))))"

definition stage_planner :: "'w workflow_agents \<Rightarrow> 'w WorkflowEffects \<Rightarrow> 'w stage_handler" where
  "stage_planner ag fx =
     bindM run_runId (\<lambda>r. thenM (event fx r ''Planner'' ERunning [])
     (bindM run_bundle (\<lambda>b. bindM (on_world (planner_run (wa_contracts ag) b r)) (\<lambda>audit.
      thenM (save fx r ''audit'' (SvAudit audit))
      (thenM (event fx r ''Planner'' ECompleted
        [(''test_result'', ''Passed''), (''artifact_id'', audit_id audit),
         (''message'', ''reviewed='' @ nat_str (length (reviewed_areas audit)) @ ''; findings='' @
            nat_str (length (findings audit)))])
      (returnM (\<lambda>s. s\<lparr>ws_audit := Some audit\<rparr>)))))))"

definition stage_refactor :: "'w workflow_agents \<Rightarrow> 'w WorkflowEffects \<Rightarrow> 'w stage_handler" where
  "stage_refactor ag fx =
     bindM run_runId (\<lambda>r. thenM (event fx r ''Refactor'' ERunning [])
     (bindM run_bundle (\<lambda>b. bindM run_audit (\<lambda>audit.
      bindM (on_world (refactor_run (wa_contracts ag) b audit)) (\<lambda>p.
      bindM run_bundle (\<lambda>b'.
      thenM (save fx r ''plan.refactored'' (SvPlan p))
      (thenM (event fx r ''Refactor'' ECompleted
        [(''test_result'', ''Passed''), (''artifact_id'', plan_id p),
         (''message'', ''plan_id preserved; revision='' @ int_str (revision p))])
      (returnM (\<lambda>s. s\<lparr>ws_plan := Some p, ws_bundle := Some (b'\<lparr>plan := p\<rparr>)\<rparr>)))))))))"

definition evaluation_delta :: "Evaluation \<Rightarrow> WorkflowRunState \<Rightarrow> WorkflowRunState" where
  "evaluation_delta result s = (case el_root_cause result of
      None \<Rightarrow> s\<lparr>ws_evaluation := Some result\<rparr>
    | Some rc \<Rightarrow> rootCauseDelta rc (s\<lparr>ws_evaluation := Some result\<rparr>))"

definition stage_evaluation :: "'w workflow_agents \<Rightarrow> 'w WorkflowEffects \<Rightarrow> 'w stage_handler" where
  "stage_evaluation ag fx =
     bindM run_runId (\<lambda>r. thenM (event fx r ''Evaluation'' ERunning [])
     (bindM run_bundle (\<lambda>b. bindM run_plan (\<lambda>p.
      bindM (on_world (evaluation_run (wa_contracts ag) b p)) (\<lambda>result.
      thenM (save fx r ''evaluation'' (SvEvaluation result))
      (thenM (event fx r ''Evaluation'' ECompleted
        [(''test_result'', TestResult_str (el_result result)), (''artifact_id'', el_plan_id result),
         (''message'', ''evidence='' @ nat_str (length (el_evidence result)))])
      (returnM (evaluation_delta result))))))))"

definition stage_confirmation :: "'w workflow_agents \<Rightarrow> 'w WorkflowEffects \<Rightarrow> 'w stage_handler" where
  "stage_confirmation ag fx =
     bindM run_runId (\<lambda>r. thenM (event fx r ''Confirmed'' ERunning [])
     (bindM run_bundle (\<lambda>b. bindM run_plan (\<lambda>p. bindM run_audit (\<lambda>audit. bindM run_gap (\<lambda>gap.
      bindM run_evaluation (\<lambda>ev. bindM run_tripleValidation (\<lambda>t.
      bindM (on_world (confirmation_run (wa_contracts ag) b p audit gap ev t)) (\<lambda>package.
      thenM (save fx r ''confirmed'' (SvConfirmed package))
      (bindM run_plan (\<lambda>p'.
      thenM (event fx r ''Confirmed'' ECompleted
        [(''test_result'', ''Passed''), (''artifact_id'', plan_id p')])
      (returnM (\<lambda>s. s\<lparr>ws_confirmed := Some package\<rparr>)))))))))))))"

definition stage_createHash :: "'w workflow_agents \<Rightarrow> 'w WorkflowEffects \<Rightarrow> 'w stage_handler" where
  "stage_createHash ag fx =
     bindM run_runId (\<lambda>r. thenM (event fx r ''CreateHash'' ERunning [])
     (bindM run_confirmed (\<lambda>c. bindM (on_world (hash_create (wa_contracts ag) c)) (\<lambda>h.
      thenM (save fx r ''confirmed-hash'' (SvHash h))
      (thenM (event fx r ''CreateHash'' ECompleted [(''test_result'', ''Passed''), (''artifact_id'', h)])
      (returnM (\<lambda>s. s\<lparr>ws_createdHash := Some h\<rparr>)))))))"

definition stage_buildReady :: "'w WorkflowEffects \<Rightarrow> 'w stage_handler" where
  "stage_buildReady fx =
     bindM run_runId (\<lambda>r. bindM run_confirmed (\<lambda>c. bindM run_createdHash (\<lambda>h.
       thenM (on_world (fx_buildReview fx r c h)) no_delta)))"

definition builder_delta :: "BuilderWorkflowResult \<Rightarrow> WorkflowRunState \<Rightarrow> WorkflowRunState" where
  "builder_delta result s = (case bw_result result of
      SandboxPassed r \<Rightarrow> s\<lparr>ws_builderResult := Some result\<rparr>
    | SandboxRootCause r \<Rightarrow> rootCauseDelta (sr_root_cause r) (s\<lparr>ws_builderResult := Some result\<rparr>))"

definition sandbox_verdict :: "BuilderWorkflowResult \<Rightarrow> TestResult" where
  "sandbox_verdict result = (case bw_result result of SandboxPassed r \<Rightarrow> Passed | SandboxRootCause r \<Rightarrow> Failed)"

definition stage_builder :: "'w workflow_agents \<Rightarrow> 'w WorkflowEffects \<Rightarrow> 'w stage_handler" where
  "stage_builder ag fx =
     bindM run_runId (\<lambda>r. thenM (event fx r ''Builder'' ERunning [])
     (bindM run_confirmed (\<lambda>c. bindM run_createdHash (\<lambda>h.
      bindM (on_world (wa_builder ag c h)) (\<lambda>result.
      thenM (save fx r ''builder-result'' (SvBuilder result))
      (thenM (event fx r ''Builder'' ECompleted
        [(''test_result'', TestResult_str (sandbox_verdict result)), (''artifact_id'', sx_execution_id (bw_result result))])
      (returnM (builder_delta result))))))))"

definition hash_delta :: "HashProof \<Rightarrow> string \<Rightarrow> WorkflowRunState \<Rightarrow> WorkflowRunState" where
  "hash_delta pf target s = (if equal_proof pf then s\<lparr>ws_hashProof := Some pf\<rparr>
     else rootCauseDelta \<lparr>rc_issue = ''Hash verification mismatch'', rc_expected = created_hash pf,
       rc_actual = recomputed_hash pf, rc_evidence_ids = [''hash-proof''],
       rc_required_correction =
         ''Recompute the sandbox integrity hash from the exact confirmed immutable core'',
       rc_recheck_target = target\<rparr> (s\<lparr>ws_hashProof := Some pf\<rparr>))"

definition stage_hash :: "'w workflow_agents \<Rightarrow> 'w WorkflowEffects \<Rightarrow> 'w stage_handler" where
  "stage_hash ag fx =
     bindM run_runId (\<lambda>r. bindM run_builderResult (\<lambda>result. case bw_result result of
       SandboxRootCause r \<Rightarrow> no_delta
     | SandboxPassed sp \<Rightarrow>
         thenM (event fx r ''Hash'' ERunning [])
         (bindM run_createdHash (\<lambda>h. bindM (on_world (hash_proof_of (wa_contracts ag) h (hash_sandbox sp))) (\<lambda>pf.
          thenM (save fx r ''hash-proof'' (SvHashProof pf))
          (thenM (event fx r ''Hash'' ECompleted
            ([(''test_result'', if equal_proof pf then ''Passed'' else ''Root Cause'')] @
             (if equal_proof pf then [] else [(''issue_type'', ''Root Cause'')]) @
             [(''artifact_id'', recomputed_hash pf), (''message'', ''equal='' @ bool_str (equal_proof pf))]))
          (if equal_proof pf then returnM (hash_delta pf '''')
           else bindM run_plan (\<lambda>p. returnM (hash_delta pf (plan_id p))))))))))"

definition stage_done :: "'w WorkflowEffects \<Rightarrow> 'w stage_handler" where
  "stage_done fx =
     bindM run_runId (\<lambda>r. bindM (get_state ws_rootCause) (\<lambda>rc. case rc of
       Some c \<Rightarrow> bindM (get_state ws_hashProof) (\<lambda>pf. thenM (on_world (fx_finishRoot fx r c pf)) no_delta)
     | None \<Rightarrow> bindM run_hashProof (\<lambda>pf.
         if \<not> equal_proof pf then throwM (JsError ''Done reached without equal hash proof'')
         else thenM (on_world (fx_finishPassed fx r pf)) no_delta)))"

section \<open>The graph\<close>

datatype canonical_node =
    NResearcher | NResearchReviewGate | NPlanner | NRefactor | NGapAnalysis | NEvaluation
  | NTripleValidation | NConfirmed | NCreateHash | NBuildReadyGate | NBuilder | NHash | NDone

fun canonical_node_run ::
  "'w workflow_agents \<Rightarrow> 'w WorkflowEffects \<Rightarrow> (canonical_node, 'w) node_runs" where
  "canonical_node_run ag fx NResearcher = stage_run (stage_handle False (stage_researcher ag fx))"
| "canonical_node_run ag fx NResearchReviewGate = stage_run (stage_handle False (stage_researchReview fx))"
| "canonical_node_run ag fx NPlanner = stage_run (stage_handle False (stage_planner ag fx))"
| "canonical_node_run ag fx NRefactor = stage_run (stage_handle False (stage_refactor ag fx))"
| "canonical_node_run ag fx NGapAnalysis =
     (\<lambda>s out. \<exists>ws. gap_run_from (wa_contracts ag) fx ([GapCheck] # ws) s out)"
| "canonical_node_run ag fx NEvaluation = stage_run (stage_handle False (stage_evaluation ag fx))"
| "canonical_node_run ag fx NTripleValidation =
     (\<lambda>s out. \<exists>ws. proof_run_from (wa_lanes ag) (wa_contracts ag) fx ([TripleValidationAdmission] # ws) s out)"
| "canonical_node_run ag fx NConfirmed = stage_run (stage_handle False (stage_confirmation ag fx))"
| "canonical_node_run ag fx NCreateHash = stage_run (stage_handle False (stage_createHash ag fx))"
| "canonical_node_run ag fx NBuildReadyGate = stage_run (stage_handle False (stage_buildReady fx))"
| "canonical_node_run ag fx NBuilder = stage_run (stage_handle False (stage_builder ag fx))"
| "canonical_node_run ag fx NHash = stage_run (stage_handle False (stage_hash ag fx))"
| "canonical_node_run ag fx NDone = stage_run (stage_handle True (stage_done fx))"

definition canonical_edges :: "canonical_node edge list" where
  "canonical_edges =
     [(NResearcher, NResearchReviewGate, always), (NResearchReviewGate, NPlanner, always),
      (NPlanner, NRefactor, always), (NRefactor, NGapAnalysis, always),
      (NGapAnalysis, NEvaluation, always), (NEvaluation, NTripleValidation, always),
      (NTripleValidation, NConfirmed, always), (NConfirmed, NCreateHash, always),
      (NCreateHash, NBuildReadyGate, always), (NBuildReadyGate, NBuilder, always),
      (NBuilder, NHash, always), (NHash, NDone, always)]"

definition canonical_run where
  "canonical_run ag fx waves s out \<longleftrightarrow> strands_run (canonical_node_run ag fx) canonical_edges ([NResearcher] # waves) s out"

section \<open>One node after the other\<close>

fun next_node :: "canonical_node \<Rightarrow> canonical_node option" where
  "next_node NResearcher = Some NResearchReviewGate"
| "next_node NResearchReviewGate = Some NPlanner"
| "next_node NPlanner = Some NRefactor"
| "next_node NRefactor = Some NGapAnalysis"
| "next_node NGapAnalysis = Some NEvaluation"
| "next_node NEvaluation = Some NTripleValidation"
| "next_node NTripleValidation = Some NConfirmed"
| "next_node NConfirmed = Some NCreateHash"
| "next_node NCreateHash = Some NBuildReadyGate"
| "next_node NBuildReadyGate = Some NBuilder"
| "next_node NBuilder = Some NHash"
| "next_node NHash = Some NDone"
| "next_node NDone = None"

lemma canonical_successors:
  "successors canonical_edges [n] s = (case next_node n of None \<Rightarrow> [] | Some m \<Rightarrow> [m])"
  by (cases n) (simp_all add: successors_def ready_def canonical_edges_def always_def)

abbreviation from_node where
  "from_node ag fx n s s' \<equiv>
     \<exists>ws. strands_run (canonical_node_run ag fx) canonical_edges ([n] # ws) s (Inr (), s')"

lemma from_node_next:
  assumes "from_node ag fx n s s'" and "next_node n = Some m"
  shows "\<exists>t. canonical_node_run ag fx n s (Inr (), t) \<and> from_node ag fx m t s'"
proof -
  from assms(1) obtain ws where r: "strands_run (canonical_node_run ag fx) canonical_edges ([n] # ws) s (Inr (), s')" ..
  show ?thesis
  proof (rule strands_run_single [OF r], goal_cases)
    case (2 t)
    then show ?case by (simp add: canonical_successors assms(2))
  next
    case (3 t wave waves)
    then have "wave = [m]" by (intro singleton_wave) (simp_all add: canonical_successors assms(2))
    with 3 show ?case by blast
  qed simp
qed

lemma from_node_last:
  assumes "from_node ag fx NDone s s'"
  shows "canonical_node_run ag fx NDone s (Inr (), s')"
proof -
  from assms obtain ws where r: "strands_run (canonical_node_run ag fx) canonical_edges ([NDone] # ws) s (Inr (), s')" ..
  show ?thesis
  proof (rule strands_run_single [OF r], goal_cases)
    case (3 t wave waves)
    then show ?case by (simp add: canonical_successors)
  qed simp_all
qed

section \<open>A root cause stays\<close>

lemma stage_run_root:
  "stage_run (stage_handle False h) s (Inr (), s') \<Longrightarrow> ws_rootCause (fst s') = None \<Longrightarrow> ws_rootCause (fst s) = None"
  by (cases s; cases "ws_rootCause (fst s)") (auto simp: stage_run_def stage_skips)

lemma proof_node_root:
  assumes "proof_node_run lanes cs fx n s (Inr (), s')" and "ws_rootCause (fst s') = None"
  shows "ws_rootCause (fst s) = None"
proof (cases "n = GapAnalysisRefine")
  case True
  with assms(1) obtain ws where "gap_run_from cs fx ([GapCheck] # ws) s (Inr (), s')" by auto
  from ring_keeps_root [OF this assms(2)] show ?thesis .
next
  case False
  with assms(1) obtain h where "stage_run (stage_handle False h) s (Inr (), s')" by (cases n) auto
  from stage_run_root [OF this assms(2)] show ?thesis .
qed

lemma proof_wave_root:
  "wave_run (proof_node_run lanes cs fx) wave s (Inr (), s') \<Longrightarrow> ws_rootCause (fst s) \<noteq> None \<Longrightarrow>
    ws_rootCause (fst s') \<noteq> None"
proof (induction wave s "(Inr () :: js_error + unit, s')" rule: wave_run.induct)
  case (wave_goes n s t ns)
  with proof_node_root [OF wave_goes.hyps(1)] show ?case by blast
qed

lemma proof_run_root:
  assumes "proof_run_from lanes cs fx ([TripleValidationAdmission] # ws) s (Inr (), s')"
    and "ws_rootCause (fst s') = None"
  shows "ws_rootCause (fst s) = None"
proof (rule ccontr)
  assume r: "ws_rootCause (fst s) \<noteq> None"
  have "ws_rootCause (fst s') \<noteq> None"
    by (rule strands_run_invariant [OF assms(1) [unfolded proof_run_from_def] refl,
          where I = "\<lambda>_ s. ws_rootCause (fst s) \<noteq> None"])
      (rule r, simp only: strands_step_def fst_conv snd_conv, blast dest: proof_wave_root, blast dest: proof_wave_root)
  with assms(2) show False by simp
qed

lemma done_node:
  assumes "canonical_node_run ag fx NDone s (Inr (), s')"
  shows "fst s' = fst s \<and> (\<exists>r. case ws_rootCause (fst s) of
      Some rc \<Rightarrow> fx_finishRoot fx r rc (ws_hashProof (fst s)) (snd s) = (Inr (), snd s')
    | None \<Rightarrow> \<exists>pf. ws_hashProof (fst s) = Some pf \<and> equal_proof pf \<and>
        fx_finishPassed fx r pf (snd s) = (Inr (), snd s'))"
  using assms
  by (cases s; cases s'; cases "ws_rootCause (fst s)")
    (auto simp: stage_run_def stage_done_def run_accessors node_simps split: if_splits)

lemma canonical_node_root:
  assumes "canonical_node_run ag fx n s (Inr (), s')" and "ws_rootCause (fst s') = None"
  shows "ws_rootCause (fst s) = None"
proof -
  consider (final) "n = NDone" | (gap) "n = NGapAnalysis" | (proof_graph) "n = NTripleValidation"
    | (stage) "n \<notin> {NDone, NGapAnalysis, NTripleValidation}" by blast
  then show ?thesis
  proof cases
    case final
    from done_node [OF assms(1) [unfolded final]] assms(2) show ?thesis by simp
  next
    case gap
    with assms(1) obtain ws where "gap_run_from (wa_contracts ag) fx ([GapCheck] # ws) s (Inr (), s')" by auto
    from ring_keeps_root [OF this assms(2)] show ?thesis .
  next
    case proof_graph
    with assms(1) obtain ws where
      "proof_run_from (wa_lanes ag) (wa_contracts ag) fx ([TripleValidationAdmission] # ws) s (Inr (), s')" by auto
    from proof_run_root [OF this assms(2)] show ?thesis .
  next
    case stage
  with assms(1) obtain h where "stage_run (stage_handle False h) s (Inr (), s')" by (cases n) auto
  from stage_run_root [OF this assms(2)] show ?thesis .
  qed
qed

section \<open>What the last stages do\<close>

lemma stage_ok:
  assumes "stage_run (stage_handle False h) s (Inr (), s')" and "ws_rootCause (fst s) = None"
  obtains d t v where "h (fst s, snd s) = (Inr d, (t, v))" and "fst s' = d t"
  using assms by (cases s; cases s') (auto simp: stage_run_def node_simps)

lemma confirmed_ok:
  assumes "canonical_node_run ag fx NConfirmed s (Inr (), s')" and "ws_rootCause (fst s) = None"
  shows "\<exists>b p audit gap ev t package. ws_bundle (fst s) = Some b \<and> ws_plan (fst s) = Some p \<and>
    ws_tripleValidation (fst s) = Some t \<and> ws_gap (fst s) = Some gap \<and>
    produced (confirmation_run (wa_contracts ag) b p audit gap ev t) package \<and>
    fst s' = (fst s)\<lparr>ws_confirmed := Some package\<rparr>"
proof -
  from assms(1) have "stage_run (stage_handle False (stage_confirmation ag fx)) s (Inr (), s')" by simp
  from stage_ok [OF this assms(2)] obtain d t v where h: "stage_confirmation ag fx (fst s, snd s) = (Inr d, (t, v))"
    and s': "fst s' = d t" .
  from h show ?thesis
    by (cases s, auto simp: stage_confirmation_def run_accessors node_simps s') (blast intro: producedI)
qed

lemma createHash_ok:
  assumes "canonical_node_run ag fx NCreateHash s (Inr (), s')" and "ws_rootCause (fst s) = None"
  shows "\<exists>c h. ws_confirmed (fst s) = Some c \<and> produced (hash_create (wa_contracts ag) c) h \<and>
    fst s' = (fst s)\<lparr>ws_createdHash := Some h\<rparr>"
proof -
  from assms(1) have "stage_run (stage_handle False (stage_createHash ag fx)) s (Inr (), s')" by simp
  from stage_ok [OF this assms(2)] obtain d t v where h: "stage_createHash ag fx (fst s, snd s) = (Inr d, (t, v))"
    and s': "fst s' = d t" .
  from h show ?thesis
    by (cases s, auto simp: stage_createHash_def run_accessors node_simps s') (blast intro: producedI)
qed

lemma buildReady_ok:
  assumes "canonical_node_run ag fx NBuildReadyGate s (Inr (), s')" and "ws_rootCause (fst s) = None"
  shows "fst s' = fst s \<and> (\<exists>r c h. ws_confirmed (fst s) = Some c \<and> ws_createdHash (fst s) = Some h \<and>
    produced (fx_buildReview fx r c h) ())"
proof -
  from assms(1) have "stage_run (stage_handle False (stage_buildReady fx)) s (Inr (), s')" by simp
  from stage_ok [OF this assms(2)] obtain d t v where h: "stage_buildReady fx (fst s, snd s) = (Inr d, (t, v))"
    and s': "fst s' = d t" .
  from h show ?thesis
    by (cases s, auto simp: stage_buildReady_def run_accessors node_simps s') (blast intro: producedI)
qed

lemma builder_ok:
  assumes "canonical_node_run ag fx NBuilder s (Inr (), s')" and "ws_rootCause (fst s) = None"
  shows "\<exists>c h result. ws_confirmed (fst s) = Some c \<and> ws_createdHash (fst s) = Some h \<and>
    produced (wa_builder ag c h) result \<and> fst s' = builder_delta result (fst s)"
proof -
  from assms(1) have "stage_run (stage_handle False (stage_builder ag fx)) s (Inr (), s')" by simp
  from stage_ok [OF this assms(2)] obtain d t v where h: "stage_builder ag fx (fst s, snd s) = (Inr d, (t, v))"
    and s': "fst s' = d t" .
  from h show ?thesis
    by (cases s, auto simp: stage_builder_def run_accessors node_simps s') (blast intro: producedI)
qed

lemma hash_ok:
  assumes "canonical_node_run ag fx NHash s (Inr (), s')" and "ws_rootCause (fst s) = None"
    and "ws_builderResult (fst s) = Some br" and "bw_result br = SandboxPassed sp"
  shows "\<exists>h pf target. ws_createdHash (fst s) = Some h \<and>
    produced (hash_proof_of (wa_contracts ag) h (hash_sandbox sp)) pf \<and> fst s' = hash_delta pf target (fst s)"
proof -
  from assms(1) have "stage_run (stage_handle False (stage_hash ag fx)) s (Inr (), s')" by simp
  from stage_ok [OF this assms(2)] obtain d t v where h: "stage_hash ag fx (fst s, snd s) = (Inr d, (t, v))"
    and s': "fst s' = d t" .
  from h assms(3,4) show ?thesis
    by (cases s, auto simp: stage_hash_def run_accessors node_simps s' split: if_splits) (blast intro: producedI)+
qed

lemma hash_proof_equal: "produced (hash_proof_of cs h hs) pf \<Longrightarrow>
  created_hash pf = h \<and> recomputed_hash pf = hs \<and> (equal_proof pf \<longleftrightarrow> h = hs)"
  by (auto simp: produced_def hash_proof_of_def Let_def returnM_apply elim!: thenM_Inr_elim)

lemma confirmation_package: "produced (confirmation_run cs b p audit gap ev t) package \<Longrightarrow>
  core package = \<lparr>cc_researcher = researcher b, cc_plan = p, cc_schema_artifact = schema_artifact b,
    cc_fixture = fixture b, cc_goal = goal b, cc_validation = validation b, cc_audit = audit,
    cc_gap_analysis = gap, cc_evaluation = ev, cc_triple_validation = t\<rparr>"
  by (auto simp: produced_def confirmation_run_def Let_def returnM_apply throwM_apply elim!: thenM_Inr_elim
      split: if_splits)

text \<open>
  What a workflow execution without root cause has established: the confirmed
  package holds a plan for which the three validators passed, the created hash is
  the hash of the package's core, the sandbox executed that package with that
  hash and recomputed exactly the same hash.
\<close>

definition verified_run :: "'w workflow_agents \<Rightarrow> WorkflowRunState \<Rightarrow> bool" where
  "verified_run ag s \<longleftrightarrow> (\<exists>package b h br sp pf.
     ws_confirmed s = Some package \<and>
     (let p = cc_plan (core package); t = cc_triple_validation (core package) in
        verdict t \<and> ids_match b p t \<and>
        produced (triple_schema (wa_lanes ag) (wa_contracts ag) b p) (schema_validation t) \<and>
        produced (triple_fixture (wa_lanes ag) (wa_contracts ag) b p) (fixture_validation t) \<and>
        produced (triple_goal (wa_lanes ag) (wa_contracts ag) b p) (goal_validation t)) \<and>
     ws_createdHash s = Some h \<and> produced (cs_createHash (wa_contracts ag) (core package)) h \<and>
     produced (wa_builder ag package h) br \<and> bw_result br = SandboxPassed sp \<and> hash_sandbox sp = h \<and>
     ws_hashProof s = Some pf \<and> equal_proof pf \<and> created_hash pf = h \<and> recomputed_hash pf = h)"

lemma last_stages:
  assumes "proof_exit (wa_lanes ag) (wa_contracts ag) (fst s0)" and "ws_rootCause (fst s5) = None"
    and c: "canonical_node_run ag fx NConfirmed s0 (Inr (), s1)"
    and h: "canonical_node_run ag fx NCreateHash s1 (Inr (), s2)"
    and g: "canonical_node_run ag fx NBuildReadyGate s2 (Inr (), s3)"
    and b: "canonical_node_run ag fx NBuilder s3 (Inr (), s4)"
    and v: "canonical_node_run ag fx NHash s4 (Inr (), s5)"
  shows "verified_run ag (fst s5)"
proof -
  note r4 = canonical_node_root [OF v assms(2)]
  note r3 = canonical_node_root [OF b r4]
  note r2 = canonical_node_root [OF g r3]
  note r1 = canonical_node_root [OF h r2]
  note r0 = canonical_node_root [OF c r1]
  from assms(1) obtain bd p t where x: "ws_bundle (fst s0) = Some bd" "ws_plan (fst s0) = Some p"
    "ws_tripleValidation (fst s0) = Some t" "verdict t" "ids_match bd p t"
    "produced (triple_schema (wa_lanes ag) (wa_contracts ag) bd p) (schema_validation t)"
    "produced (triple_fixture (wa_lanes ag) (wa_contracts ag) bd p) (fixture_validation t)"
    "produced (triple_goal (wa_lanes ag) (wa_contracts ag) bd p) (goal_validation t)"
    by (auto simp: proof_exit_def)
  from confirmed_ok [OF c r0] x obtain audit gap ev package where
    pk: "produced (confirmation_run (wa_contracts ag) bd p audit gap ev t) package"
    and s1: "fst s1 = (fst s0)\<lparr>ws_confirmed := Some package\<rparr>" by auto
  from createHash_ok [OF h r1] s1 obtain h1 where
    h1: "produced (cs_createHash (wa_contracts ag) (core package)) h1"
    and s2: "fst s2 = (fst s1)\<lparr>ws_createdHash := Some h1\<rparr>" by (auto simp: hash_create_def)
  from buildReady_ok [OF g r2] have s3: "fst s3 = fst s2" by simp
  from builder_ok [OF b r3] s1 s2 s3 obtain result where
    rs: "produced (wa_builder ag package h1) result" and s4: "fst s4 = builder_delta result (fst s3)" by auto
  from s4 r4 obtain sp where res: "bw_result result = SandboxPassed sp"
    by (cases "bw_result result") (auto simp: builder_delta_def rootCauseDelta_def)
  from s4 res have "ws_builderResult (fst s4) = Some result" by (simp add: builder_delta_def)
  from hash_ok [OF v r4 this res] s1 s2 s3 s4 res obtain pf target where
    pf: "produced (hash_proof_of (wa_contracts ag) h1 (hash_sandbox sp)) pf" and s5: "fst s5 = hash_delta pf target (fst s4)"
    by (auto simp: builder_delta_def)
  from s5 assms(2) have eq: "equal_proof pf" by (auto simp: hash_delta_def rootCauseDelta_def split: if_splits)
  note hp = hash_proof_equal [OF pf]
  have st: "ws_confirmed (fst s5) = Some package" "ws_createdHash (fst s5) = Some h1" "ws_hashProof (fst s5) = Some pf"
    using s5 s4 s3 s2 s1 eq res by (simp_all add: hash_delta_def builder_delta_def)
  have plan: "cc_plan (core package) = p" "cc_triple_validation (core package) = t"
    using confirmation_package [OF pk] by simp_all
  from st plan x h1 rs res hp eq show ?thesis unfolding verified_run_def Let_def by auto
qed

section \<open>A returning execution, node by node\<close>

lemma canonical_run_nodes:
  assumes "canonical_run ag fx ws s (Inr (), s')"
  obtains s8 s9 s10 s11 s12 s13 where "ws_rootCause (fst s8) = None \<Longrightarrow> proof_exit (wa_lanes ag) (wa_contracts ag) (fst s8)"
    and "canonical_node_run ag fx NConfirmed s8 (Inr (), s9)" and "canonical_node_run ag fx NCreateHash s9 (Inr (), s10)"
    and "canonical_node_run ag fx NBuildReadyGate s10 (Inr (), s11)" and "canonical_node_run ag fx NBuilder s11 (Inr (), s12)"
    and "canonical_node_run ag fx NHash s12 (Inr (), s13)" and "canonical_node_run ag fx NDone s13 (Inr (), s')"
proof -
  from assms have n1: "from_node ag fx NResearcher s s'" unfolding canonical_run_def by blast
  from from_node_next [OF n1] obtain s2 where n2: "from_node ag fx NResearchReviewGate s2 s'" by auto
  from from_node_next [OF n2] obtain s3 where n3: "from_node ag fx NPlanner s3 s'" by auto
  from from_node_next [OF n3] obtain s4 where n4: "from_node ag fx NRefactor s4 s'" by auto
  from from_node_next [OF n4] obtain s5 where n5: "from_node ag fx NGapAnalysis s5 s'" by auto
  from from_node_next [OF n5] obtain s6 where n6: "from_node ag fx NEvaluation s6 s'" by auto
  from from_node_next [OF n6] obtain s7 where n7: "from_node ag fx NTripleValidation s7 s'" by auto
  from from_node_next [OF n7] obtain s8 where p: "canonical_node_run ag fx NTripleValidation s7 (Inr (), s8)"
    and n8: "from_node ag fx NConfirmed s8 s'" by auto
  from p obtain ws' where
    "proof_run_from (wa_lanes ag) (wa_contracts ag) fx ([TripleValidationAdmission] # ws') s7 (Inr (), s8)" by auto
  from proof_run_exit [OF this]
  have exit: "ws_rootCause (fst s8) = None \<Longrightarrow> proof_exit (wa_lanes ag) (wa_contracts ag) (fst s8)" by blast
  from from_node_next [OF n8] obtain s9 where c: "canonical_node_run ag fx NConfirmed s8 (Inr (), s9)"
    and n9: "from_node ag fx NCreateHash s9 s'" by auto
  from from_node_next [OF n9] obtain s10 where h: "canonical_node_run ag fx NCreateHash s9 (Inr (), s10)"
    and n10: "from_node ag fx NBuildReadyGate s10 s'" by auto
  from from_node_next [OF n10] obtain s11 where g: "canonical_node_run ag fx NBuildReadyGate s10 (Inr (), s11)"
    and n11: "from_node ag fx NBuilder s11 s'" by auto
  from from_node_next [OF n11] obtain s12 where b: "canonical_node_run ag fx NBuilder s11 (Inr (), s12)"
    and n12: "from_node ag fx NHash s12 s'" by auto
  from from_node_next [OF n12] obtain s13 where v: "canonical_node_run ag fx NHash s12 (Inr (), s13)"
    and n13: "from_node ag fx NDone s13 s'" by auto
  from that [OF exit c h g b v from_node_last [OF n13]] show thesis by blast
qed

section \<open>Properties\<close>

lemma canonical_run_result:
  assumes "canonical_run ag fx ws s (Inr (), s')"
  shows "\<exists>r v. case ws_rootCause (fst s') of
     Some rc \<Rightarrow> fx_finishRoot fx r rc (ws_hashProof (fst s')) v = (Inr (), snd s')
   | None \<Rightarrow> verified_run ag (fst s') \<and>
       (\<exists>pf. ws_hashProof (fst s') = Some pf \<and> equal_proof pf \<and> fx_finishPassed fx r pf v = (Inr (), snd s'))"
  using assms
proof (rule canonical_run_nodes)
  fix s8 s9 s10 s11 s12 s13
  assume exit: "ws_rootCause (fst s8) = None \<Longrightarrow> proof_exit (wa_lanes ag) (wa_contracts ag) (fst s8)"
    and c: "canonical_node_run ag fx NConfirmed s8 (Inr (), s9)" and h: "canonical_node_run ag fx NCreateHash s9 (Inr (), s10)"
    and g: "canonical_node_run ag fx NBuildReadyGate s10 (Inr (), s11)" and b: "canonical_node_run ag fx NBuilder s11 (Inr (), s12)"
    and v: "canonical_node_run ag fx NHash s12 (Inr (), s13)" and d: "canonical_node_run ag fx NDone s13 (Inr (), s')"
  note fin = done_node [OF d]
  show ?thesis
  proof (cases "ws_rootCause (fst s')")
    case (Some rc)
    with fin show ?thesis by auto
  next
    case None
    with fin have r13: "ws_rootCause (fst s13) = None" by simp
    have r8: "ws_rootCause (fst s8) = None"
      using canonical_node_root [OF c canonical_node_root [OF h canonical_node_root [OF g
        canonical_node_root [OF b canonical_node_root [OF v r13]]]]] .
    from last_stages [OF exit [OF r8] r13 c h g b v] fin None show ?thesis by auto
  qed
qed

lemma canonical_run_verified:
  "canonical_run ag fx ws s (Inr (), s') \<Longrightarrow> ws_rootCause (fst s') = None \<Longrightarrow> verified_run ag (fst s')"
  using canonical_run_result by fastforce

text \<open>
  C26.  The verdict of the whole workflow.  The last effect of an execution that
  returns is the run's verdict.  With a root cause in the final state it is
  \<open>finishRoot\<close> with exactly that root cause; without one it is
  \<open>finishPassed\<close> with an equal hash proof, and then the run is verified: the
  confirmed package holds a plan for which all three validators passed, and the
  sandbox executed that package and recomputed exactly the hash created from it.
\<close>

theorem canonical_workflow_verdict:
  assumes "canonical_run ag fx ws s (Inr (), s')"
  shows "\<exists>r v. case ws_rootCause (fst s') of
     Some rc \<Rightarrow> fx_finishRoot fx r rc (ws_hashProof (fst s')) v = (Inr (), snd s')
   | None \<Rightarrow> verified_run ag (fst s') \<and>
       (\<exists>pf. ws_hashProof (fst s') = Some pf \<and> equal_proof pf \<and> fx_finishPassed fx r pf v = (Inr (), snd s'))"
  by (rule canonical_run_result [OF assms])

lemma skipped_node:
  assumes "from_node ag fx n s s'" and "ws_rootCause (fst s) \<noteq> None"
    and "n \<in> {NConfirmed, NCreateHash, NBuildReadyGate, NBuilder, NHash}" and "next_node n = Some m"
  shows "from_node ag fx m s s'"
proof -
  from from_node_next [OF assms(1,4)] obtain t where t: "canonical_node_run ag fx n s (Inr (), t)"
    "from_node ag fx m t s'" by blast
  have "t = s" using t(1) assms(2,3) by (cases s) (auto simp: stage_run_def stage_skips)
  with t(2) show ?thesis by simp
qed

text \<open>
  C27.  After a root cause nothing is confirmed, hashed, reviewed or built: when
  the proof graph left a root cause, the rest of an execution that returns
  changes neither the run state nor the world, but for the final
  \<open>finishRoot\<close> with that root cause.
\<close>

theorem root_cause_builds_nothing:
  assumes "\<exists>ws. strands_run (canonical_node_run ag fx) canonical_edges ([NConfirmed] # ws) s (Inr (), s')"
    and "ws_rootCause (fst s) = Some rc"
  shows "fst s' = fst s \<and> (\<exists>r. fx_finishRoot fx r rc (ws_hashProof (fst s)) (snd s) = (Inr (), snd s'))"
proof -
  have r: "ws_rootCause (fst s) \<noteq> None" using assms(2) by simp
  have "from_node ag fx NCreateHash s s'" by (rule skipped_node [OF assms(1) r]) simp_all
  from skipped_node [OF this r] have "from_node ag fx NBuildReadyGate s s'" by simp
  from skipped_node [OF this r] have "from_node ag fx NBuilder s s'" by simp
  from skipped_node [OF this r] have "from_node ag fx NHash s s'" by simp
  from skipped_node [OF this r] have "from_node ag fx NDone s s'" by simp
  from done_node [OF from_node_last [OF this]] assms(2) show ?thesis by simp
qed

section \<open>Witnesses\<close>

definition sample_evidence :: "string \<Rightarrow> ExecutionEvidence" where
  "sample_evidence h = \<lparr>ex_execution_id = ''x'', ex_sandbox_id = ''sandbox'', confirmed_package_hash = h,
     started_at = ''t0'', completed_at = ''t1'', ex_commands = [], ex_exit_codes = [], stdout_refs = [],
     stderr_refs = [], ex_file_changes = [], ex_bytes_written = 0,
     ex_resource_usage = \<lparr>duration_ms = 0, peak_memory_mb = None, cpu_time_ms = None\<rparr>,
     ex_timeout_evidence = None, ex_environment_allowlist_used = [], ex_network_policy_used = ''DENY_ALL'',
     ex_cleanup_result = \<lparr>workspace_cleaned = True, processes_terminated = True\<rparr>, ex_hash_sandbox = h\<rparr>"

definition sample_built :: "string \<Rightarrow> BuilderWorkflowResult" where
  "sample_built h = \<lparr>bw_result = SandboxPassed \<lparr>sp_execution_id = ''x'', sp_sandbox_id = ''sandbox'',
     sp_evidence = sample_evidence h, hash_sandbox = h\<rparr>, final_output = None, output_step_id = None\<rparr>"

type_synonym 'w builder = "ConfirmedPackage \<Rightarrow> string \<Rightarrow> ('w, js_error, BuilderWorkflowResult) eff"

definition sample_builder :: "unit builder" where
  "sample_builder = (\<lambda>_ h. returnM (sample_built h))"

definition sample_agents :: "'w builder \<Rightarrow> 'w workflow_agents" where
  "sample_agents bd = \<lparr>wa_contracts = accepting_contracts, wa_lanes = passing_lanes,
     wa_researcher = (\<lambda>_ _. returnM sample_bundle),
     wa_builder = bd\<rparr>"

definition sample_start :: "'w \<Rightarrow> 'w workflow" where
  "sample_start w = (new_run_state\<lparr>ws_runId := Some ''run'', ws_prompt := Some (prompt sample_bundle)\<rparr>, w)"

fun sample_sim :: "'w builder \<Rightarrow> canonical_node \<Rightarrow> ('w, unit) wf" where
  "sample_sim bd NResearcher = stage_handle False (stage_researcher (sample_agents bd) silent_effects)"
| "sample_sim bd NResearchReviewGate = stage_handle False (stage_researchReview silent_effects)"
| "sample_sim bd NPlanner = stage_handle False (stage_planner (sample_agents bd) silent_effects)"
| "sample_sim bd NRefactor = stage_handle False (stage_refactor (sample_agents bd) silent_effects)"
| "sample_sim bd NGapAnalysis = thenM (gap_node_handle accepting_contracts silent_effects GapCheck)
     (bindM (get_state run_gapFindings) (\<lambda>found. if found \<noteq> [] then throwM (JsError ''gap'')
        else gap_node_handle accepting_contracts silent_effects GapComplete))"
| "sample_sim bd NEvaluation = stage_handle False (stage_evaluation (sample_agents bd) silent_effects)"
| "sample_sim bd NTripleValidation = thenM sample_pass
     (bindM (get_state triple_valid) (\<lambda>v. if v \<noteq> Some True then throwM (JsError ''proof'') else returnM ()))"
| "sample_sim bd NConfirmed = stage_handle False (stage_confirmation (sample_agents bd) silent_effects)"
| "sample_sim bd NCreateHash = stage_handle False (stage_createHash (sample_agents bd) silent_effects)"
| "sample_sim bd NBuildReadyGate = stage_handle False (stage_buildReady silent_effects)"
| "sample_sim bd NBuilder = stage_handle False (stage_builder (sample_agents bd) silent_effects)"
| "sample_sim bd NHash = stage_handle False (stage_hash (sample_agents bd) silent_effects)"
| "sample_sim bd NDone = stage_handle True (stage_done silent_effects)"

lemma sample_sim_gap:
  assumes "sample_sim bd NGapAnalysis s = (Inr (), t)"
  shows "canonical_node_run (sample_agents bd) silent_effects NGapAnalysis s (Inr (), t)"
proof -
  from assms obtain s1 where h: "gap_node_handle accepting_contracts silent_effects GapCheck s = (Inr (), s1)"
    and f: "run_gapFindings (fst s1) = []"
    and c: "gap_node_handle accepting_contracts silent_effects GapComplete s1 = (Inr (), t)"
    by (auto elim!: thenM_Inr_elim bindM_Inr_elim simp: get_state_def throwM_apply split: if_splits prod.splits)
  have "gap_run_from accepting_contracts silent_effects ([GapCheck] # [[GapComplete]]) s (Inr (), t)"
    by (rule gap_run_from_intros(3) [OF h _ gap_run_from_intros(2) [OF c]]) (simp_all add: gap_successors f)
  then show ?thesis by (auto simp: sample_agents_def)
qed

lemma sample_sim_proof:
  assumes "sample_sim bd NTripleValidation s = (Inr (), t)"
  shows "canonical_node_run (sample_agents bd) silent_effects NTripleValidation s (Inr (), t)"
proof -
  from assms obtain "sample_pass s = (Inr (), t)" and "triple_valid (fst t) = Some True"
    by (auto elim!: thenM_Inr_elim bindM_Inr_elim simp: get_state_def throwM_apply returnM_apply
        split: if_splits prod.splits)
  from sample_pass_run [OF this] show ?thesis by (auto simp: sample_agents_def)
qed

lemma sample_sim_run:
  assumes "sample_sim bd n s = (Inr (), t)"
  shows "canonical_node_run (sample_agents bd) silent_effects n s (Inr (), t)"
proof -
  consider "n = NGapAnalysis" | "n = NTripleValidation" | "n \<noteq> NGapAnalysis" "n \<noteq> NTripleValidation" by blast
  then show ?thesis
  proof cases
    case 1 with assms sample_sim_gap show ?thesis by blast
  next
    case 2 with assms sample_sim_proof show ?thesis by blast
  next
    case 3 with assms show ?thesis by (cases n) (simp_all add: stage_run_def)
  qed
qed

fun sample_chain :: "'w builder \<Rightarrow> canonical_node list \<Rightarrow> ('w, unit) wf" where
  "sample_chain bd [] = returnM ()"
| "sample_chain bd (n # ns) = thenM (sample_sim bd n) (sample_chain bd ns)"

lemma from_node_step:
  "canonical_node_run ag fx n s (Inr (), t) \<Longrightarrow> next_node n = Some m \<Longrightarrow> from_node ag fx m t s' \<Longrightarrow> from_node ag fx n s s'"
  by (elim exE, rule exI, rule run_goes [where next_wave = "[m]"])
    (simp_all add: wave_run_single canonical_successors)

lemma sample_chain_from:
  "sample_chain bd (n # ns) s = (Inr (), s') \<Longrightarrow>
    map Some (ns) @ [None] = map next_node (n # ns) \<Longrightarrow> from_node (sample_agents bd) silent_effects n s s'"
proof (induction ns arbitrary: n s)
  case Nil
  then have "canonical_node_run (sample_agents bd) silent_effects n s (Inr (), s')"
    by (intro sample_sim_run) (auto elim!: thenM_Inr_elim simp: returnM_apply)
  with Nil(2) show ?case
    by (intro exI [of _ "[]"] run_ends) (simp_all add: wave_run_single canonical_successors)
next
  case (Cons m ns)
  from Cons.prems(1) have "thenM (sample_sim bd n) (sample_chain bd (m # ns)) s = (Inr (), s')"
    by (simp only: sample_chain.simps)
  then obtain u t where "sample_sim bd n s = (Inr u, t)" "sample_chain bd (m # ns) t = (Inr (), s')"
    by (rule thenM_Inr_elim)
  then have t: "sample_sim bd n s = (Inr (), t)" "sample_chain bd (m # ns) t = (Inr (), s')" by simp_all
  from Cons.prems(2) have nx: "next_node n = Some m" "map Some ns @ [None] = map next_node (m # ns)" by simp_all
  from from_node_step [OF sample_sim_run [OF t(1)] nx(1) Cons.IH [OF t(2) nx(2)]] show ?case .
qed

lemma canonical_workflow_verdict_witness:
  "\<exists>ws s'. canonical_run (sample_agents sample_builder) silent_effects ws (sample_start ()) (Inr (), s') \<and>
    ws_rootCause (fst s') = None \<and> verified_run (sample_agents sample_builder) (fst s')"
proof -
  let ?ns = "[NResearchReviewGate, NPlanner, NRefactor, NGapAnalysis, NEvaluation, NTripleValidation,
    NConfirmed, NCreateHash, NBuildReadyGate, NBuilder, NHash, NDone]"
  have "case sample_chain sample_builder (NResearcher # ?ns) (sample_start ()) of (r, s) \<Rightarrow> \<not> isl r \<and> ws_rootCause (fst s) = None"
    by code_simp
  then obtain s' where c: "sample_chain sample_builder (NResearcher # ?ns) (sample_start ()) = (Inr (), s')"
    and r: "ws_rootCause (fst s') = None"
    by (cases "fst (sample_chain sample_builder (NResearcher # ?ns) (sample_start ()))")
      (auto simp: case_prod_beta prod_eq_iff simp del: sample_chain.simps)
  from sample_chain_from [OF c] obtain ws where
    run: "canonical_run (sample_agents sample_builder) silent_effects ws (sample_start ()) (Inr (), s')"
    unfolding canonical_run_def by auto
  from canonical_workflow_verdict [OF run] r have "verified_run (sample_agents sample_builder) (fst s')" by simp
  with r run show ?thesis by blast
qed

definition stopped_start :: "unit workflow" where
  "stopped_start = (new_run_state\<lparr>ws_runId := Some ''run'', ws_rootCause := Some
     \<lparr>rc_issue = ''i'', rc_expected = ''e'', rc_actual = ''a'', rc_evidence_ids = [],
      rc_required_correction = ''c'', rc_recheck_target = ''t''\<rparr>\<rparr>, ())"

lemma root_cause_builds_nothing_witness:
  "\<exists>s'. from_node (sample_agents sample_builder) silent_effects NConfirmed stopped_start s' \<and> fst s' = fst stopped_start"
proof -
  let ?ns = "[NCreateHash, NBuildReadyGate, NBuilder, NHash, NDone]"
  have "\<not> isl (fst (sample_chain sample_builder (NConfirmed # ?ns) stopped_start))" by code_simp
  then obtain s' where c: "sample_chain sample_builder (NConfirmed # ?ns) stopped_start = (Inr (), s')"
    by (cases "fst (sample_chain sample_builder (NConfirmed # ?ns) stopped_start)")
      (auto simp: prod_eq_iff simp del: sample_chain.simps)
  from sample_chain_from [OF c] have run: "from_node (sample_agents sample_builder) silent_effects NConfirmed stopped_start s'" by simp
  have "\<exists>rc. ws_rootCause (fst stopped_start) = Some rc" by (simp add: stopped_start_def)
  then obtain rc where "ws_rootCause (fst stopped_start) = Some rc" ..
  from root_cause_builds_nothing [OF run this] run show ?thesis by blast
qed

end
