(* ===== verification/Sandbox_Runner.thy ===== *)
theory Sandbox_Runner
  imports Sandbox_Types "HOL-Library.Char_ord" "HOL-Library.Sublist"
begin

text \<open>
  The process runner of the sandbox, \<open>backend/sandbox/runner/process-runner.ts\<close>:
  the filtered environment, the snapshots of the workspace and the ledger of
  changes between two of them, the loop over the plan's steps, and the clean-up.
  The operating system (clock, file system, child processes) is the record
  \<open>host\<close>.  The set of live children holds a child only while its step runs, so
  it is empty whenever the runner reports \<open>processes_terminated\<close>.
\<close>

section \<open>Environment\<close>

definition upper_char :: "char \<Rightarrow> char" where
  "upper_char c = (let n = of_char c :: nat in if 97 \<le> n \<and> n \<le> 122 then char_of (n - 32) else c)"

definition toUpperCase :: "string \<Rightarrow> string" where
  "toUpperCase s = map upper_char s"

type_synonym environment = "(string \<times> string) list"

definition systemKeys :: "bool \<Rightarrow> string list" where
  "systemKeys win = (if win
     then [''SYSTEMROOT'', ''WINDIR'', ''COMSPEC'', ''PATHEXT'', ''TEMP'', ''TMP'']
     else [''PATH'', ''TMPDIR''])"

definition buildEnvironment :: "bool \<Rightarrow> environment \<Rightarrow> string list \<Rightarrow> environment" where
  "buildEnvironment win process_env allowlist =
     (let allowed = set (map toUpperCase allowlist);
          base = fold (\<lambda>key env. case map_of process_env key of
              None \<Rightarrow> env
            | Some v \<Rightarrow> if v \<noteq> '''' then AList.update key v env else env) (systemKeys win) [];
          listed = fold (\<lambda>(k, v) env. if toUpperCase k \<in> allowed then AList.update k v env else env)
            process_env base
      in AList.update ''ONESHOT_NETWORK_POLICY'' ''DENY_ALL''
          (AList.update ''ONESHOT_SANDBOX_ISOLATED'' ''true'' listed))"

section \<open>Snapshots and the ledger of changes\<close>

text \<open>
  An entry of the file system.  \<open>FsUnreadable\<close> is a file whose \<open>stat\<close> or read throws,
  \<open>FsLocked\<close> a directory whose \<open>readdir\<close> throws.
\<close>

datatype fs_entry =
    FsDir "(string \<times> fs_entry) list"
  | FsLocked string
  | FsFile string
  | FsUnreadable
  | FsOther

record file_meta =
  fm_size :: int
  fm_sha256 :: string

type_synonym snapshot = "(string \<times> file_meta) list"

text \<open>An unreadable file is left out of the snapshot; an unreadable directory ends it with the error.\<close>

function scan_entries ::
  "(string \<Rightarrow> string) \<Rightarrow> (string \<times> fs_entry) list \<Rightarrow> string \<Rightarrow> snapshot \<Rightarrow> js_error + snapshot" where
  "scan_entries sha [] label files = Inr files"
| "scan_entries sha ((name, FsDir sub) # es) label files =
     (case scan_entries sha sub (label @ ''/'' @ name) files of
        Inl e \<Rightarrow> Inl e | Inr files' \<Rightarrow> scan_entries sha es label files')"
| "scan_entries sha ((name, FsLocked m) # es) label files = Inl (JsError m)"
| "scan_entries sha ((name, FsFile content) # es) label files =
     scan_entries sha es label (AList.update (label @ ''/'' @ name)
       \<lparr>fm_size = int (length content), fm_sha256 = sha content\<rparr> files)"
| "scan_entries sha ((name, FsUnreadable) # es) label files = scan_entries sha es label files"
| "scan_entries sha ((name, FsOther) # es) label files = scan_entries sha es label files"
  by pat_completeness auto
termination
  by (relation "measure (\<lambda>(sha, es, label, files). size_list (size_prod (\<lambda>_. 0) size) es)") simp_all

definition snapshotDir :: "(string \<Rightarrow> string) \<Rightarrow> fs_entry option \<Rightarrow> string \<Rightarrow> js_error + snapshot" where
  "snapshotDir sha dir baseLabel = (case dir of
      None \<Rightarrow> Inr []
    | Some (FsDir es) \<Rightarrow> scan_entries sha es baseLabel []
    | Some (FsLocked m) \<Rightarrow> Inl (JsError m)
    | Some _ \<Rightarrow> Inl (JsError ''ENOTDIR: not a directory, scandir''))"

text \<open>\<open>for ([path, meta] of snapshot) target.set(path, meta)\<close>, for the two watched directories.\<close>

definition set_all :: "snapshot \<Rightarrow> snapshot \<Rightarrow> snapshot" where
  "set_all files target = fold (\<lambda>(path, meta) m. AList.update path meta m) files target"

definition watched :: "(string \<Rightarrow> string) \<Rightarrow> fs_entry option \<Rightarrow> fs_entry option \<Rightarrow> js_error + snapshot" where
  "watched sha workDir outDir = (case snapshotDir sha workDir ''/work'' of
      Inl e \<Rightarrow> Inl e
    | Inr work \<Rightarrow> (case snapshotDir sha outDir ''/output'' of
        Inl e \<Rightarrow> Inl e | Inr out \<Rightarrow> Inr (set_all out (set_all work []))))"

definition file_created :: "string \<Rightarrow> file_meta \<Rightarrow> FileChangeEvidence" where
  "file_created path meta = \<lparr>fc_path = path, fc_action = ChCreated, fc_bytes = fm_size meta,
     fc_sha256 = Some (fm_sha256 meta), previous_sha256 = None, previous_bytes = None\<rparr>"

definition file_modified :: "string \<Rightarrow> file_meta \<Rightarrow> file_meta \<Rightarrow> FileChangeEvidence" where
  "file_modified path meta prev = \<lparr>fc_path = path, fc_action = ChModified, fc_bytes = fm_size meta,
     fc_sha256 = Some (fm_sha256 meta), previous_sha256 = Some (fm_sha256 prev),
     previous_bytes = Some (fm_size prev)\<rparr>"

definition file_deleted :: "string \<Rightarrow> file_meta \<Rightarrow> FileChangeEvidence" where
  "file_deleted path prev = \<lparr>fc_path = path, fc_action = ChDeleted, fc_bytes = 0, fc_sha256 = None,
     previous_sha256 = Some (fm_sha256 prev), previous_bytes = Some (fm_size prev)\<rparr>"

text \<open>One pass of the first loop, and one of the second: the change and the bytes it counts.\<close>

definition written :: "snapshot \<Rightarrow> string \<times> file_meta \<Rightarrow> (FileChangeEvidence \<times> int) list" where
  "written baseline entry = (case entry of (path, meta) \<Rightarrow>
     (case map_of baseline path of
        None \<Rightarrow> [(file_created path meta, fm_size meta)]
      | Some prev \<Rightarrow> if fm_sha256 prev \<noteq> fm_sha256 meta
          then [(file_modified path meta prev, fm_size meta)] else []))"

definition removed :: "snapshot \<Rightarrow> string \<times> file_meta \<Rightarrow> (FileChangeEvidence \<times> int) list" where
  "removed after entry = (case entry of (path, prev) \<Rightarrow>
     (if map_of after path = None then [(file_deleted path prev, fm_size prev)] else []))"

definition scanWorkspace :: "snapshot \<Rightarrow> snapshot \<Rightarrow> FileChangeEvidence list \<times> int" where
  "scanWorkspace after baseline =
     (let ledger = concat (map (written baseline) after) @ concat (map (removed after) baseline)
      in (map fst ledger, sum_list (map snd ledger)))"

section \<open>Tasks\<close>

record task =
  tk_name :: string
  tk_desc :: string
  tk_cmd :: string

definition is_word_char :: "char \<Rightarrow> bool" where
  "is_word_char c \<longleftrightarrow> (let n = of_char c :: nat in
     (48 \<le> n \<and> n \<le> 57) \<or> (65 \<le> n \<and> n \<le> 90) \<or> n = 95 \<or> (97 \<le> n \<and> n \<le> 122))"

text \<open>\<open>/^word\b/i\<close> for a word of letters.\<close>

definition starts_with_word :: "string \<Rightarrow> string \<Rightarrow> bool" where
  "starts_with_word desc word \<longleftrightarrow> prefix word (toLowerCase desc) \<and>
     (case drop (length word) desc of [] \<Rightarrow> True | c # _ \<Rightarrow> \<not> is_word_char c)"

definition command_words :: "string list" where
  "command_words = [''cmd'', ''powershell'', ''python'', ''sh'', ''bash'', ''echo'', ''exit'', ''node'',
     ''dir'', ''ls'', ''cat'', ''type'']"

definition is_command :: "string \<Rightarrow> bool" where
  "is_command desc \<longleftrightarrow> list_ex (starts_with_word desc) command_words \<or>
     sublist '' -Command '' desc \<or> sublist '' -c '' desc"

definition task_of :: "PlanStep \<Rightarrow> task" where
  "task_of s = (let desc = trim (step_description s) in
     \<lparr>tk_name = step_id s, tk_desc = step_description s, tk_cmd = (if is_command desc then desc
        else ''echo [OneShot Step '' @ step_id s @ ''] '' @ step_description s)\<rparr>)"

section \<open>Execution\<close>

text \<open>How a child ends: closed (its code may be null), killed at the time limit, or failed to run.\<close>

datatype child_end = ChClosed "int option" | ChTimedOut | ChError string

record child_run =
  cr_end :: child_end
  cr_stdout :: "string list"
  cr_stderr :: "string list"

record 'w host =
  ho_windows :: bool
  ho_env :: environment
  ho_sha256 :: "string \<Rightarrow> string"
  ho_now :: "'w \<Rightarrow> int \<times> 'w"
  ho_prepare :: "string \<Rightarrow> Plan \<Rightarrow> ('w, js_error, unit) eff"
  ho_dir :: "string \<Rightarrow> 'w \<Rightarrow> fs_entry option"
  ho_spawn :: "string \<Rightarrow> environment \<Rightarrow> string \<Rightarrow> rat \<Rightarrow> 'w \<Rightarrow> child_run \<times> 'w"
  ho_rm :: "string \<Rightarrow> 'w \<Rightarrow> bool \<times> 'w"
  ho_exists :: "string \<Rightarrow> 'w \<Rightarrow> bool"

text \<open>What a child's end gives: its exit code and whether it ran out of time.\<close>

fun step_result :: "child_end \<Rightarrow> int \<times> bool" where
  "step_result (ChClosed code) = ((case code of None \<Rightarrow> 0 | Some c \<Rightarrow> c), False)"
| "step_result ChTimedOut = (124, True)"
| "step_result (ChError m) = (1, False)"

fun end_message :: "child_end \<Rightarrow> string list" where
  "end_message (ChError m) = [m]"
| "end_message _ = []"

text \<open>The variables of \<open>execute\<close> that the loop over the tasks updates.\<close>

record step_log =
  sl_commands :: "string list"
  sl_exit_codes :: "int list"
  sl_stdout :: "string list"
  sl_stderr :: "string list"
  sl_condition :: condition
  sl_timeout :: "TimeoutEvidence option"

definition no_steps :: step_log where
  "no_steps = \<lparr>sl_commands = [], sl_exit_codes = [], sl_stdout = [], sl_stderr = [],
     sl_condition = CdSuccess, sl_timeout = None\<rparr>"

definition timed_out_log :: "ExecutionAuthorization \<Rightarrow> int \<Rightarrow> step_log \<Rightarrow> step_log" where
  "timed_out_log auth elapsedMs lg = lg\<lparr>sl_condition := CdTimeout, sl_timeout := Some
     \<lparr>timed_out = True, limit_seconds = timeout_seconds auth, elapsed_seconds = of_int elapsedMs / 1000\<rparr>\<rparr>"

definition log_child :: "child_run \<Rightarrow> step_log \<Rightarrow> step_log" where
  "log_child child lg = lg\<lparr>sl_exit_codes := sl_exit_codes lg @ [fst (step_result (cr_end child))],
     sl_stdout := sl_stdout lg @ cr_stdout child,
     sl_stderr := sl_stderr lg @ cr_stderr child @ end_message (cr_end child)\<rparr>"

fun run_tasks ::
  "'w host \<Rightarrow> ExecutionAuthorization \<Rightarrow> environment \<Rightarrow> string \<Rightarrow> int \<Rightarrow> task list \<Rightarrow> step_log \<Rightarrow> 'w \<Rightarrow>
     step_log \<times> 'w" where
  "run_tasks ho auth env workDir startTime [] lg w = (lg, w)"
| "run_tasks ho auth env workDir startTime (t # ts) lg w =
     (let log1 = lg\<lparr>sl_commands := sl_commands lg @ [tk_cmd t]\<rparr>;
          (now, w1) = ho_now ho w;
          remainingMs = timeout_seconds auth * 1000 - of_int (now - startTime)
      in if remainingMs \<le> 0
         then (let (later, w2) = ho_now ho w1 in (timed_out_log auth (later - startTime) log1, w2))
         else
           (let (child, w2) = ho_spawn ho (tk_cmd t) env workDir remainingMs w1;
                log2 = log_child child log1;
                (exitCode, late) = step_result (cr_end child)
            in if late
               then (let (later, w3) = ho_now ho w2 in (timed_out_log auth (later - startTime) log2, w3))
               else if exitCode \<noteq> 0 then (log2\<lparr>sl_condition := CdFailure\<rparr>, w2)
               else run_tasks ho auth env workDir startTime ts log2 w2))"

definition over_limits :: "ExecutionAuthorization \<Rightarrow> FileChangeEvidence list \<Rightarrow> int \<Rightarrow> bool" where
  "over_limits auth changes bytes \<longleftrightarrow> bytes > max_total_bytes_written auth \<or>
     int (length changes) > max_files_changed auth"

definition workspace_files :: "'w host \<Rightarrow> string \<Rightarrow> 'w \<Rightarrow> js_error + snapshot" where
  "workspace_files ho workspacePath w = watched (ho_sha256 ho) (ho_dir ho (workspacePath @ ''/work'') w)
     (ho_dir ho (workspacePath @ ''/output'') w)"

text \<open>The steps, the second look at the directories, and the result; \<open>baseline\<close> is the first look.\<close>

definition run_and_scan ::
  "'w host \<Rightarrow> string \<Rightarrow> Plan \<Rightarrow> ExecutionAuthorization \<Rightarrow> int \<Rightarrow> snapshot \<Rightarrow> ('w, js_error, RunnerExecutionResult) eff" where
  "run_and_scan ho workspacePath p auth startTime baseline = (\<lambda>w.
     let env = buildEnvironment (ho_windows ho) (ho_env ho) (environment_allowlist auth);
         (lg, w1) = run_tasks ho auth env (workspacePath @ ''/work'') startTime (map task_of (steps p)) no_steps w;
         (finished, w2) = ho_now ho w1
     in case workspace_files ho workspacePath w2 of
          Inl e \<Rightarrow> (Inl e, w2)
        | Inr after \<Rightarrow> (let (changes, bytesWritten) = scanWorkspace after baseline in
           (Inr \<lparr>rn_commands = sl_commands lg, rn_exit_codes = sl_exit_codes lg,
            stdout_lines = sl_stdout lg, stderr_lines = sl_stderr lg, rn_file_changes = changes,
            rn_bytes_written = bytesWritten,
            rn_resource_usage = \<lparr>duration_ms = finished - startTime, peak_memory_mb = Some 16,
              cpu_time_ms = Some (finished - startTime)\<rparr>,
            rn_timeout_evidence = sl_timeout lg,
            rn_environment_allowlist_used = environment_allowlist auth,
            rn_network_policy_used = NetworkPolicy_str (network_policy auth),
            rn_cleanup_result = \<lparr>workspace_cleaned = False, processes_terminated = True\<rparr>,
            rn_condition = Some (if over_limits auth changes bytesWritten then CdResourceExhausted
              else sl_condition lg)\<rparr>, w2)))"

definition runner_execute ::
  "'w host \<Rightarrow> string \<Rightarrow> string \<Rightarrow> Plan \<Rightarrow> ExecutionAuthorization \<Rightarrow> ('w, js_error, RunnerExecutionResult) eff" where
  "runner_execute ho sandboxId workspacePath p auth =
     thenM (ho_prepare ho workspacePath p) (\<lambda>w.
      let (startTime, w1) = ho_now ho w
      in case workspace_files ho workspacePath w1 of
           Inl e \<Rightarrow> (Inl e, w1)
         | Inr baseline \<Rightarrow> run_and_scan ho workspacePath p auth startTime baseline w1)"

section \<open>Clean-up\<close>

fun rmWithRetry :: "'w host \<Rightarrow> string \<Rightarrow> nat \<Rightarrow> 'w \<Rightarrow> bool \<times> 'w" where
  "rmWithRetry ho dir 0 w = (\<not> ho_exists ho dir w, w)"
| "rmWithRetry ho dir (Suc retries) w =
     (case (if ho_exists ho dir w then ho_rm ho dir w else (True, w)) of
        (True, w') \<Rightarrow> (True, w')
      | (False, w') \<Rightarrow> rmWithRetry ho dir retries w')"

definition runner_cleanup :: "'w host \<Rightarrow> string \<Rightarrow> string \<Rightarrow> ('w, js_error, bool) eff" where
  "runner_cleanup ho sandboxId workspacePath = (\<lambda>w. case rmWithRetry ho workspacePath 10 w of (ok, w') \<Rightarrow> (Inr ok, w'))"

section \<open>The environment holds only what was allowed\<close>

lemma fold_keeps_subset: "(\<And>x a. x \<in> set xs \<Longrightarrow> set a \<subseteq> S \<Longrightarrow> set (f x a) \<subseteq> S) \<Longrightarrow> set a \<subseteq> S \<Longrightarrow> set (fold f xs a) \<subseteq> S"
  by (induction xs arbitrary: a) auto

lemma update_within: "set al \<subseteq> S \<Longrightarrow> (k, v) \<in> S \<Longrightarrow> set (AList.update k v al) \<subseteq> S"
  using set_update_subset [of k v al] by blast

definition environment_allowed :: "bool \<Rightarrow> environment \<Rightarrow> string list \<Rightarrow> (string \<times> string) set" where
  "environment_allowed win process_env allowlist =
     {(k, v) \<in> set process_env. k \<in> set (systemKeys win) \<or> toUpperCase k \<in> toUpperCase ` set allowlist}"

section \<open>The ledger is the difference of the snapshots\<close>

definition sha_of :: "snapshot \<Rightarrow> string \<Rightarrow> string option" where
  "sha_of files path = map_option fm_sha256 (map_of files path)"

text \<open>Replaying a ledger on the file contents it started from.\<close>

definition replay :: "FileChangeEvidence list \<Rightarrow> (string \<Rightarrow> string option) \<Rightarrow> string \<Rightarrow> string option" where
  "replay changes before = fold (\<lambda>c m. m(fc_path c := fc_sha256 c)) changes before"

definition ledger_bytes :: "FileChangeEvidence \<Rightarrow> int" where
  "ledger_bytes c = (case fc_action c of ChDeleted \<Rightarrow> (case previous_bytes c of None \<Rightarrow> 0 | Some n \<Rightarrow> n) | _ \<Rightarrow> fc_bytes c)"

lemma replay_distinct:
  "distinct (map fc_path cs) \<Longrightarrow> replay cs m path =
    (case List.find (\<lambda>c. fc_path c = path) cs of None \<Rightarrow> m path | Some c \<Rightarrow> fc_sha256 c)"
proof (induction cs arbitrary: m)
  case (Cons c cs)
  have "replay (c # cs) m path = replay cs (m(fc_path c := fc_sha256 c)) path" by (simp add: replay_def)
  also have "\<dots> = (case List.find (\<lambda>c. fc_path c = path) cs of
      None \<Rightarrow> (m(fc_path c := fc_sha256 c)) path | Some c \<Rightarrow> fc_sha256 c)" using Cons by simp
  finally show ?case using Cons.prems
    by (auto split: option.splits dest!: find_SomeD)
qed (simp add: replay_def)

lemma distinct_scan:
  "scan_entries sha es label files = Inr files' \<Longrightarrow> distinct (map fst files) \<Longrightarrow> distinct (map fst files')"
  by (induction sha es label files arbitrary: files' rule: scan_entries.induct)
    (auto simp: distinct_update split: sum.splits)

lemma distinct_set_all: "distinct (map fst target) \<Longrightarrow> distinct (map fst (set_all files target))"
  by (induction files arbitrary: target) (auto simp: set_all_def distinct_update)

lemma distinct_watched: "watched sha w out = Inr files \<Longrightarrow> distinct (map fst files)"
  by (auto simp: watched_def intro!: distinct_set_all split: sum.splits)

definition paths :: "(FileChangeEvidence \<times> int) list \<Rightarrow> string list" where
  "paths l = map (fc_path \<circ> fst) l"

lemma paths_append: "paths (xs @ ys) = paths xs @ paths ys"
  by (simp add: paths_def)

lemma written_path: "c \<in> set (written b (p, m)) \<Longrightarrow> fc_path (fst c) = p"
  by (auto simp: written_def file_created_def file_modified_def split: option.splits if_splits)

lemma removed_path: "c \<in> set (removed a (p, m)) \<Longrightarrow> fc_path (fst c) = p"
  by (auto simp: removed_def file_deleted_def split: if_splits)

lemma distinct_concat_paths:
  assumes "\<And>e. length (f e) \<le> 1" and "\<And>e c. c \<in> set (f e) \<Longrightarrow> fc_path (fst c) = fst e"
    and "distinct (map fst xs)"
  shows "distinct (paths (concat (map f xs)))"
  using assms(3)
proof (induction xs)
  case (Cons x xs)
  have "set (paths (concat (map f xs))) \<subseteq> fst ` set xs" using assms(2) by (force simp: paths_def)
  moreover have "set (paths (f x)) \<subseteq> {fst x}" using assms(2) by (auto simp: paths_def)
  moreover have "distinct (paths (f x))" using assms(1) [of x] by (cases "f x") (auto simp: paths_def)
  ultimately show ?case using Cons by (fastforce simp: paths_append)
qed (simp add: paths_def)

lemma ledger_entries:
  assumes "distinct (map fst after)" and "distinct (map fst before)"
  shows "c \<in> set (concat (map (written before) after) @ concat (map (removed after) before)) \<longleftrightarrow>
    (\<exists>path meta. map_of after path = Some meta \<and> c \<in> set (written before (path, meta))) \<or>
    (\<exists>path prev. map_of before path = Some prev \<and> c \<in> set (removed after (path, prev)))"
  using assms by (auto simp: map_of_eq_Some_iff)

lemma ledger_distinct:
  assumes "distinct (map fst after)" and "distinct (map fst before)"
  shows "distinct (map fc_path (fst (scanWorkspace after before)))"
proof -
  let ?w = "concat (map (written before) after)" and ?r = "concat (map (removed after) before)"
  have "distinct (paths ?w)" by (rule distinct_concat_paths [OF _ _ assms(1)])
      (auto simp: written_def file_created_def file_modified_def split: option.splits prod.splits)
  moreover have "distinct (paths ?r)" by (rule distinct_concat_paths [OF _ _ assms(2)])
      (auto simp: removed_def file_deleted_def split: prod.splits if_splits)
  moreover have "set (paths ?w) \<subseteq> fst ` set after"
    by (auto simp: paths_def dest!: written_path) force
  moreover have "p \<notin> fst ` set after" if "p \<in> set (paths ?r)" for p
    using that by (auto simp: paths_def removed_def file_deleted_def map_of_eq_None_iff image_iff split: if_splits)
  ultimately have "distinct (paths (?w @ ?r))" by (auto simp: paths_append)
  then show ?thesis by (simp add: scanWorkspace_def Let_def paths_def comp_def)
qed

lemma ledger_contents:
  assumes "distinct (map fst after)" and "distinct (map fst before)" and "c \<in> set (fst (scanWorkspace after before))"
  shows "fc_sha256 c = sha_of after (fc_path c) \<and> sha_of after (fc_path c) \<noteq> sha_of before (fc_path c)"
proof -
  from assms(3) obtain n where
    "(c, n) \<in> set (concat (map (written before) after) @ concat (map (removed after) before))"
    unfolding scanWorkspace_def Let_def fst_conv by (metis (no_types, lifting) imageE list.set_map prod.collapse)
  then show ?thesis unfolding ledger_entries [OF assms(1,2)]
    by (auto simp: written_def removed_def file_created_def file_modified_def file_deleted_def sha_of_def
        split: option.splits if_splits)
qed

lemma ledger_complete:
  assumes "distinct (map fst after)" and "distinct (map fst before)" and "sha_of after path \<noteq> sha_of before path"
  shows "path \<in> fc_path ` set (fst (scanWorkspace after before))"
proof -
  have "\<exists>c n. (c, n) \<in> set (concat (map (written before) after) @ concat (map (removed after) before)) \<and> fc_path c = path"
  proof (cases "map_of after path")
    case None
    with assms(3) obtain prev where "map_of before path = Some prev" by (auto simp: sha_of_def)
    with None show ?thesis unfolding ledger_entries [OF assms(1,2)]
      by (intro exI [of _ "file_deleted path prev"] exI [of _ "fm_size prev"] conjI disjI2 exI [of _ path] exI [of _ prev])
        (auto simp: removed_def file_deleted_def \<open>map_of before path = Some prev\<close>)
  next
    case (Some meta)
    show ?thesis
    proof (cases "map_of before path")
      case None
      with Some show ?thesis unfolding ledger_entries [OF assms(1,2)]
        by (intro exI [of _ "file_created path meta"] exI [of _ "fm_size meta"] conjI disjI1 exI [of _ path] exI [of _ meta])
          (auto simp: written_def file_created_def)
    next
      case (Some prev)
      with assms(3) \<open>map_of after path = Some meta\<close> show ?thesis unfolding ledger_entries [OF assms(1,2)]
        by (intro exI [of _ "file_modified path meta prev"] exI [of _ "fm_size meta"] conjI disjI1 exI [of _ path] exI [of _ meta])
          (auto simp: written_def file_modified_def sha_of_def)
    qed
  qed
  then show ?thesis by (force simp: scanWorkspace_def Let_def)
qed

lemma ledger_bytes_sum: "snd (scanWorkspace after before) = (\<Sum>c\<leftarrow>fst (scanWorkspace after before). ledger_bytes c)"
proof -
  let ?l = "concat (map (written before) after) @ concat (map (removed after) before)"
  have "\<forall>x\<in>set ?l. snd x = ledger_bytes (fst x)"
    by (auto simp: written_def removed_def file_created_def file_modified_def file_deleted_def ledger_bytes_def
        split: option.splits if_splits)
  then have "map snd ?l = map (ledger_bytes \<circ> fst) ?l" by (intro map_cong) auto
  then show ?thesis by (simp only: scanWorkspace_def Let_def fst_conv snd_conv map_map)
qed

lemma ledger_replays:
  assumes "distinct (map fst after)" and "distinct (map fst before)"
  shows "replay (fst (scanWorkspace after before)) (sha_of before) = sha_of after"
proof
  fix path
  let ?cs = "fst (scanWorkspace after before)"
  show "replay ?cs (sha_of before) path = sha_of after path"
  proof (cases "List.find (\<lambda>c. fc_path c = path) ?cs")
    case None
    then have "path \<notin> fc_path ` set ?cs" by (auto simp: find_None_iff)
    with ledger_complete [OF assms, of path] None show ?thesis by (auto simp: replay_distinct [OF ledger_distinct [OF assms]])
  next
    case (Some c)
    then have "c \<in> set ?cs" "fc_path c = path" by (auto dest: find_SomeD)
    with ledger_contents [OF assms] Some show ?thesis by (auto simp: replay_distinct [OF ledger_distinct [OF assms]])
  qed
qed

section \<open>What the children did\<close>

text \<open>
  \<open>host_logs ho children\<close>: \<open>children\<close> lists what was spawned so far, the command, the environment and
  the directory each child was given and how it ended; nothing else the runner asks of
  the host while a plan is executed spawns a child.
\<close>

type_synonym child_log = "(string \<times> environment \<times> string \<times> child_end) list"

definition host_logs :: "'w host \<Rightarrow> ('w \<Rightarrow> child_log) \<Rightarrow> bool" where
  "host_logs ho children \<longleftrightarrow>
     (\<forall>c env wd ms w. children (snd (ho_spawn ho c env wd ms w)) =
        children w @ [(c, env, wd, cr_end (fst (ho_spawn ho c env wd ms w)))]) \<and>
     (\<forall>w. children (snd (ho_now ho w)) = children w) \<and> (\<forall>path p w. children (snd (ho_prepare ho path p w)) = children w) \<and>
     (\<forall>path w. children (snd (ho_rm ho path w)) = children w)"

text \<open>
  The meaning of a child's end, independently of the runner: it went well if the process
  closed with code zero or without a code (it was killed by a signal: the runner's
  \<open>code ?? 0\<close>).
\<close>

definition ended_well :: "child_end \<Rightarrow> bool" where
  "ended_well e \<longleftrightarrow> e = ChClosed (Some 0) \<or> e = ChClosed None"

fun end_code :: "child_end \<Rightarrow> int" where
  "end_code (ChClosed (Some c)) = c"
| "end_code (ChClosed None) = 0"
| "end_code ChTimedOut = 124"
| "end_code (ChError m) = 1"

text \<open>What a plan of \<open>n\<close> steps comes to whose children ended so, the limits on changes apart.\<close>

definition ends_verdict :: "nat \<Rightarrow> child_end list \<Rightarrow> condition" where
  "ends_verdict n ends =
     (if list_all ended_well ends then if length ends = n then CdSuccess else CdTimeout
      else if last ends = ChTimedOut then CdTimeout else CdFailure)"

definition spawned :: "string list \<Rightarrow> environment \<Rightarrow> string \<Rightarrow> child_end list \<Rightarrow> child_log" where
  "spawned cmds env wd ends = map (\<lambda>(c, e). (c, env, wd, e)) (zip cmds ends)"

lemma spawned_Cons: "spawned (c # cs) env wd (e # es) = (c, env, wd, e) # spawned cs env wd es"
  "spawned cs env wd [] = []"
  by (simp_all add: spawned_def)

lemma step_result_end: "step_result e = (end_code e, e = ChTimedOut)"
  by (cases e) (simp_all split: option.split)

lemma ended_well_iff: "ended_well e \<longleftrightarrow> e \<noteq> ChTimedOut \<and> end_code e = 0"
  by (cases e rule: end_code.cases) (auto simp: ended_well_def)

lemma run_tasks_trace:
  assumes h: "host_logs ho children" and c: "sl_condition lg = CdSuccess"
    and run: "run_tasks ho auth env wd t0 ts lg w = (lg', w')"
  shows "\<exists>ends. length ends \<le> length ts \<and> list_all ended_well (butlast ends) \<and>
    children w' = children w @ spawned (map tk_cmd ts) env wd ends \<and> sl_exit_codes lg' = sl_exit_codes lg @ map end_code ends \<and>
    sl_commands lg' = sl_commands lg @
      take (if list_all ended_well ends then Suc (length ends) else length ends) (map tk_cmd ts) \<and>
    sl_condition lg' = ends_verdict (length ts) ends"
  using c run
proof (induction ts arbitrary: lg w)
  case Nil
  then show ?case by (intro exI [of _ "[]"]) (simp add: spawned_Cons ends_verdict_def)
next
  case (Cons t ts)
  let ?log1 = "lg\<lparr>sl_commands := sl_commands lg @ [tk_cmd t]\<rparr>"
  obtain now w1 where now: "ho_now ho w = (now, w1)" by (cases "ho_now ho w")
  let ?rest = "timeout_seconds auth * 1000 - of_int (now - t0)"
  obtain child w2 where child: "ho_spawn ho (tk_cmd t) env wd ?rest w1 = (child, w2)"
    by (cases "ho_spawn ho (tk_cmd t) env wd ?rest w1")
  obtain later w3 where later: "ho_now ho w2 = (later, w3)" by (cases "ho_now ho w2")
  have l: "children w1 = children w" "children w2 = children w @ [(tk_cmd t, env, wd, cr_end child)]" "children w3 = children w2"
    using h now child later by (auto simp: host_logs_def) (metis fst_conv snd_conv)+
  let ?e = "cr_end child"
  consider (no_time) "?rest \<le> 0" | (late) "\<not> ?rest \<le> 0" "?e = ChTimedOut"
    | (failed) "\<not> ?rest \<le> 0" "?e \<noteq> ChTimedOut" "end_code ?e \<noteq> 0" | (passed) "\<not> ?rest \<le> 0" "ended_well ?e"
    unfolding ended_well_iff by blast
  then show ?case
  proof cases
    case no_time
    obtain later' w3' where later': "ho_now ho w1 = (later', w3')" by (cases "ho_now ho w1")
    then have "children w3' = children w1" using h by (auto simp: host_logs_def) (metis snd_conv)
    with no_time Cons.prems now later' l show ?thesis
      by (intro exI [of _ "[]"]) (auto simp: spawned_Cons ends_verdict_def timed_out_log_def Let_def)
  next
    case late
    with Cons.prems now child later l show ?thesis
      by (intro exI [of _ "[?e]"])
        (auto simp: spawned_Cons ends_verdict_def timed_out_log_def log_child_def Let_def step_result_end ended_well_iff)
  next
    case failed
    with Cons.prems now child l show ?thesis
      by (intro exI [of _ "[?e]"]) (auto simp: spawned_Cons ends_verdict_def log_child_def Let_def step_result_end ended_well_iff)
  next
    case passed
    with Cons.prems now child have "run_tasks ho auth env wd t0 ts (log_child child ?log1) w2 = (lg', w')"
      by (simp add: Let_def step_result_end ended_well_iff)
    from Cons.IH [OF _ this] Cons.prems(1) obtain ends where e: "length ends \<le> length ts" "list_all ended_well (butlast ends)"
      "children w' = children w2 @ spawned (map tk_cmd ts) env wd ends"
      "sl_exit_codes lg' = sl_exit_codes (log_child child ?log1) @ map end_code ends"
      "sl_commands lg' = sl_commands (log_child child ?log1) @
        take (if list_all ended_well ends then Suc (length ends) else length ends) (map tk_cmd ts)"
      "sl_condition lg' = ends_verdict (length ts) ends" by (auto simp: log_child_def)
    show ?thesis
      by (intro exI [of _ "?e # ends"])
        (use e passed l in \<open>auto simp: spawned_Cons log_child_def step_result_end ends_verdict_def\<close>)
  qed
qed

text \<open>
  What a returning execution has done: the children \<open>ends\<close> that ran, in order, and the
  changes between the directories before the first of them and the end.
\<close>

definition executed ::
  "'w host \<Rightarrow> ('w \<Rightarrow> child_log) \<Rightarrow> string \<Rightarrow> Plan \<Rightarrow> ExecutionAuthorization \<Rightarrow> 'w \<Rightarrow> RunnerExecutionResult \<Rightarrow> 'w \<Rightarrow>
     child_end list \<Rightarrow> bool" where
  "executed ho children path p auth w r w' ends \<longleftrightarrow> (let cmds = map tk_cmd (map task_of (steps p)) in
     length ends \<le> length cmds \<and> list_all ended_well (butlast ends) \<and>
     children w' = children w @ spawned cmds (buildEnvironment (ho_windows ho) (ho_env ho) (environment_allowlist auth))
       (path @ ''/work'') ends \<and>
     rn_exit_codes r = map end_code ends \<and>
     rn_commands r = take (if list_all ended_well ends then Suc (length ends) else length ends) cmds \<and>
     (\<exists>before after v. children v = children w \<and> workspace_files ho path v = Inr before \<and> workspace_files ho path w' = Inr after \<and>
        (rn_file_changes r, rn_bytes_written r) = scanWorkspace after before) \<and>
     rn_condition r = Some
       (if rn_bytes_written r > max_total_bytes_written auth \<or> int (length (rn_file_changes r)) > max_files_changed auth
        then CdResourceExhausted else ends_verdict (length (steps p)) ends))"

lemma runner_execute_trace:
  assumes h: "host_logs ho children" and run: "runner_execute ho sid path p auth w = (Inr r, w')"
  shows "\<exists>ends. executed ho children path p auth w r w' ends"
proof -
  let ?env = "buildEnvironment (ho_windows ho) (ho_env ho) (environment_allowlist auth)"
  from run obtain u v0 where v0: "ho_prepare ho path p w = (Inr u, v0)" unfolding runner_execute_def by (rule thenM_Inr_elim)
  obtain t0 v1 where t0: "ho_now ho v0 = (t0, v1)" by fastforce
  from run v0 t0 obtain before where b: "workspace_files ho path v1 = Inr before"
    and run1: "run_and_scan ho path p auth t0 before v1 = (Inr r, w')"
    by (auto simp: runner_execute_def thenM_apply split: sum.splits)
  obtain lg v2 where tasks: "run_tasks ho auth ?env (path @ ''/work'') t0 (map task_of (steps p)) no_steps v1 = (lg, v2)" by fastforce
  obtain t1 v3 where t1: "ho_now ho v2 = (t1, v3)" by fastforce
  from run1 tasks t1 obtain after where a: "workspace_files ho path v3 = Inr after" and w': "w' = v3"
    and r: "rn_commands r = sl_commands lg" "rn_exit_codes r = sl_exit_codes lg"
      "(rn_file_changes r, rn_bytes_written r) = scanWorkspace after before"
      "rn_condition r = Some (if over_limits auth (rn_file_changes r) (rn_bytes_written r) then CdResourceExhausted
         else sl_condition lg)"
    by (auto simp: run_and_scan_def Let_def split: sum.splits prod.splits)
  have l: "children v1 = children w" "children v3 = children v2"
    using h v0 t0 t1 by (auto simp: host_logs_def) (metis snd_conv)+
  from run_tasks_trace [OF h _ tasks] obtain ends where e: "length ends \<le> length (steps p)"
    "list_all ended_well (butlast ends)" "children v2 = children v1 @ spawned (map tk_cmd (map task_of (steps p))) ?env (path @ ''/work'') ends"
    "sl_exit_codes lg = map end_code ends"
    "sl_commands lg = take (if list_all ended_well ends then Suc (length ends) else length ends) (map tk_cmd (map task_of (steps p)))"
    "sl_condition lg = ends_verdict (length (steps p)) ends"
    by (auto simp: no_steps_def)
  from e r a b l w' show ?thesis unfolding executed_def Let_def over_limits_def
    by (intro exI [of _ ends] conjI exI [of _ before] exI [of _ after] exI [of _ v1]) simp_all
qed

section \<open>Properties\<close>

text \<open>
  C28.  The ledger is exact.  Between any two states of the watched directories that can
  be listed it names each path once, names exactly the paths whose content differs, turns
  the old contents into the new ones when replayed, and its byte count is the sum
  of the bytes its entries report.
\<close>

theorem ledger_exact:
  assumes "watched sha work0 out0 = Inr before" and "watched sha work1 out1 = Inr after"
  shows "case scanWorkspace after before of (changes, bytes) \<Rightarrow>
    distinct (map fc_path changes) \<and> fc_path ` set changes = {path. sha_of after path \<noteq> sha_of before path} \<and>
    replay changes (sha_of before) = sha_of after \<and> bytes = (\<Sum>c\<leftarrow>changes. ledger_bytes c)"
proof -
  note d = distinct_watched [OF assms(2)] distinct_watched [OF assms(1)]
  have "fc_path ` set (fst (scanWorkspace after before)) = {path. sha_of after path \<noteq> sha_of before path}"
    using ledger_contents [OF d] ledger_complete [OF d] by fastforce
  with ledger_distinct [OF d] ledger_replays [OF d] ledger_bytes_sum [of after before] show ?thesis
    by (simp add: case_prod_beta)
qed

lemma ledger_exact_witness:
  "let work0 = Some (FsDir [(''a'', FsFile ''x''), (''b'', FsFile ''y'')]);
       work1 = Some (FsDir [(''a'', FsFile ''z''), (''d'', FsDir [(''c'', FsFile ''y'')])])
   in \<exists>before after. watched id work0 None = Inr before \<and> watched id work1 None = Inr after \<and>
      fc_path ` set (fst (scanWorkspace after before)) = {''/work/a'', ''/work/b'', ''/work/d/c''}"
proof -
  let ?work0 = "Some (FsDir [(''a'', FsFile ''x''), (''b'', FsFile ''y'')])"
    and ?work1 = "Some (FsDir [(''a'', FsFile ''z''), (''d'', FsDir [(''c'', FsFile ''y'')])])"
  let ?b = "[(''/work/a'', \<lparr>fm_size = 1, fm_sha256 = ''x''\<rparr>), (''/work/b'', \<lparr>fm_size = 1, fm_sha256 = ''y''\<rparr>)]"
    and ?a = "[(''/work/a'', \<lparr>fm_size = 1, fm_sha256 = ''z''\<rparr>), (''/work/d/c'', \<lparr>fm_size = 1, fm_sha256 = ''y''\<rparr>)]"
  have w: "watched id ?work0 None = Inr ?b" "watched id ?work1 None = Inr ?a"
    by (simp_all add: watched_def snapshotDir_def set_all_def)
  have "fc_path ` set (fst (scanWorkspace ?a ?b)) = {path. sha_of ?a path \<noteq> sha_of ?b path}"
    using ledger_exact [OF w] by (simp only: case_prod_beta)
  also have "\<dots> = {''/work/a'', ''/work/b'', ''/work/d/c''}" by (auto simp: sha_of_def split: if_splits)
  finally show ?thesis using w unfolding Let_def by blast
qed

text \<open>
  C29.  What the runner did and what its verdict means.  The children that were spawned
  are the commands of the plan's steps in order, in the work directory and with the
  filtered environment, up to the first that did not end well.  The verdict is \<open>success\<close>
  exactly if all steps' commands ran and ended well (with exit code zero, or without one
  by a signal) and neither the bytes nor the number of files changed between the first and
  the last look at the directories exceeds its limit; \<open>resource_exhausted\<close> exactly if one
  does; otherwise it names the last child's failure or time-out.
\<close>

theorem runner_verdict:
  assumes "host_logs ho children" and "runner_execute ho sandboxId workspacePath p auth w = (Inr r, w')"
  shows "\<exists>ends. executed ho children workspacePath p auth w r w' ends"
  by (rule runner_execute_trace [OF assms])

text \<open>
  A step's process sees only what was allowed: its environment holds the two
  hardening flags, and otherwise only variables of the host's own environment that
  are platform requirements or named by the allowlist.
\<close>

theorem environment_filtered:
  "set (buildEnvironment win process_env allowlist) \<subseteq>
     {(''ONESHOT_SANDBOX_ISOLATED'', ''true''), (''ONESHOT_NETWORK_POLICY'', ''DENY_ALL'')} \<union>
     environment_allowed win process_env allowlist \<and>
   map_of (buildEnvironment win process_env allowlist) ''ONESHOT_SANDBOX_ISOLATED'' = Some ''true'' \<and>
   map_of (buildEnvironment win process_env allowlist) ''ONESHOT_NETWORK_POLICY'' = Some ''DENY_ALL''"
proof -
  let ?allowed = "environment_allowed win process_env allowlist"
  let ?base = "fold (\<lambda>key env. case map_of process_env key of
      None \<Rightarrow> env
    | Some v \<Rightarrow> if v \<noteq> '''' then AList.update key v env else env) (systemKeys win) []"
  let ?listed = "fold (\<lambda>(k, v) env. if toUpperCase k \<in> set (map toUpperCase allowlist)
      then AList.update k v env else env) process_env ?base"
  have required: "(key, v) \<in> ?allowed" if "key \<in> set (systemKeys win)" and "map_of process_env key = Some v" for key v
    using that by (auto simp: environment_allowed_def dest: map_of_SomeD)
  have listed: "(k, v) \<in> ?allowed" if "(k, v) \<in> set process_env" and "toUpperCase k \<in> set (map toUpperCase allowlist)" for k v
    using that by (auto simp: environment_allowed_def)
  have "set ?base \<subseteq> ?allowed"
    by (rule fold_keeps_subset) (simp_all add: update_within required split: option.split)
  then have "set ?listed \<subseteq> ?allowed"
    by (rule fold_keeps_subset [rotated])
      (simp add: update_within listed split: prod.split del: set_map, intro allI impI update_within, simp_all add: listed del: set_map)
  then show ?thesis unfolding buildEnvironment_def Let_def
    by (intro conjI update_within) (erule le_supI2, simp_all add: update_conv)
qed

section \<open>A host for examples\<close>

text \<open>Its clock advances one second a reading, its children succeed and write nothing.\<close>

definition sample_host :: "int host" where
  "sample_host = \<lparr>ho_windows = False, ho_env = [(''PATH'', ''/bin''), (''SECRET'', ''s'')], ho_sha256 = id,
     ho_now = (\<lambda>w. (w * 1000, w + 1)), ho_prepare = (\<lambda>_ _. returnM ()), ho_dir = (\<lambda>_ _. Some (FsDir [])),
     ho_spawn = (\<lambda>_ _ _ _ w. (\<lparr>cr_end = ChClosed (Some 0), cr_stdout = [''ok''], cr_stderr = []\<rparr>, w)),
     ho_rm = (\<lambda>_ w. (True, w)), ho_exists = (\<lambda>_ _. True)\<rparr>"

definition sample_authorization :: ExecutionAuthorization where
  "sample_authorization = \<lparr>au_execution_id = ''exec'', execution_root = None, permitted_operations = None,
     protected_paths = None, timeout_seconds = 300, memory_limit_mb = 512, cpu_limit = Some 1, pid_limit = 64,
     network_policy = DENY_ALL, environment_allowlist = [''PATH''], max_output_bytes = 1048576,
     max_files_changed = 100, max_total_bytes_written = 10485760\<rparr>"

definition sample_step :: PlanStep where
  "sample_step = \<lparr>step_id = ''s1'', step_description = ''Write it'', responsibility = ''Builder'', depends_on = [],
     requirement_refs = [], goal_refs = [], fixture_refs = [], schema_refs = []\<rparr>"

definition sample_run_plan :: Plan where
  "sample_run_plan = \<lparr>plan_id = ''plan:run'', plan_researcher_id = ''r'', requirements = [], dependencies = [],
     steps = [sample_step], revision = 1, revision_evidence = []\<rparr>"

text \<open>A host that remembers what it spawned; the second child of a plan fails.\<close>

definition logging_host :: "(int \<times> child_log) host" where
  "logging_host = \<lparr>ho_windows = False, ho_env = [], ho_sha256 = id, ho_now = (\<lambda>(n, l). (n * 1000, (n + 1, l))),
     ho_prepare = (\<lambda>_ _. returnM ()), ho_dir = (\<lambda>_ _. Some (FsDir [])),
     ho_spawn = (\<lambda>c env wd _ (n, l). let e = ChClosed (Some (if l = [] then 0 else 2)) in
       (\<lparr>cr_end = e, cr_stdout = [], cr_stderr = []\<rparr>, (n, l @ [(c, env, wd, e)]))),
     ho_rm = (\<lambda>_ w. (True, w)), ho_exists = (\<lambda>_ _. True)\<rparr>"

lemma logging_host_logs: "host_logs logging_host snd"
  by (auto simp: host_logs_def logging_host_def Let_def returnM_def)

lemma runner_verdict_witness:
  "\<exists>r w'. runner_execute logging_host ''sb'' ''/x'' (sample_run_plan\<lparr>steps := [sample_step, sample_step, sample_step]\<rparr>)
      sample_authorization (0, []) = (Inr r, w') \<and> rn_condition r = Some CdFailure \<and> length (snd w') = 2"
proof -
  let ?x = "runner_execute logging_host ''sb'' ''/x'' (sample_run_plan\<lparr>steps := [sample_step, sample_step, sample_step]\<rparr>)
      sample_authorization (0, [])"
  have "case ?x of (Inl e, w') \<Rightarrow> False | (Inr r, w') \<Rightarrow> rn_condition r = Some CdFailure \<and> rn_exit_codes r = [0, 2]"
    by code_simp
  then obtain r w' where run: "?x = (Inr r, w')" and ok: "rn_condition r = Some CdFailure" "rn_exit_codes r = [0, 2]"
    by (auto split: prod.splits sum.splits)
  from runner_verdict [OF logging_host_logs run] ok(2) have "length (snd w') = 2"
    by (auto simp: executed_def Let_def spawned_def sample_run_plan_def)
  with run ok show ?thesis by blast
qed

end
