(* ===== verification/Sandbox_Service.thy ===== *)
theory Sandbox_Service
  imports Sandbox_Runner Proof_Graph
begin

text \<open>
  The sandbox around a runner: \<open>backend/sandbox/admission.ts\<close> (the hash check of a
  handed-off package), \<open>backend/sandbox/sandbox-service.ts\<close> (the life cycle of one
  execution) and \<open>backend/agents/builder/workflow.ts\<close> (the Builder's call and its
  decoded output).  Uuids, the clock's time stamps, directory creation, the event
  bus and JSON text are the record \<open>sandbox_host\<close>.
\<close>

section \<open>Numbers of the environment\<close>

text \<open>
  \<open>Number(text)\<close> on decimal numerals with an optional sign and fraction; every
  other text counts as \<open>NaN\<close> (\<open>None\<close>).  Exponents, hexadecimal numerals and
  \<open>Infinity\<close> are outside this fragment.
\<close>

definition decimal :: "string \<Rightarrow> rat option" where
  "decimal t = (let whole = takeWhile is_digit t; rest = dropWhile is_digit t in
     (case rest of
        [] \<Rightarrow> map_option of_nat (str_nat whole)
      | c # places \<Rightarrow>
          if c = CHR ''.'' \<and> list_all is_digit places \<and> (whole \<noteq> '''' \<or> places \<noteq> '''')
          then (case str_nat (whole @ places) of
              None \<Rightarrow> None | Some n \<Rightarrow> Some (of_nat n / 10 ^ length places))
          else None))"

definition Number :: "string \<Rightarrow> rat option" where
  "Number s = (let t = trim s in
     if t = '''' then Some 0
     else if hd t = CHR ''-'' then map_option uminus (decimal (tl t))
     else if hd t = CHR ''+'' then decimal (tl t) else decimal t)"

definition positiveInt :: "string option \<Rightarrow> int \<Rightarrow> int" where
  "positiveInt val fallback = (case Option.bind val Number of
      None \<Rightarrow> fallback
    | Some n \<Rightarrow> if n \<in> \<int> \<and> n > 0 then \<lfloor>n\<rfloor> else fallback)"

text \<open>\<open>process.env[name] || dflt\<close>\<close>

definition env_or :: "environment \<Rightarrow> string \<Rightarrow> string \<Rightarrow> string" where
  "env_or env name dflt = (case map_of env name of None \<Rightarrow> dflt | Some v \<Rightarrow> if v = '''' then dflt else v)"

definition loadDefaultAuthorization :: "environment \<Rightarrow> string \<Rightarrow> ExecutionAuthorization" where
  "loadDefaultAuthorization env uuid = \<lparr>au_execution_id = ''exec:'' @ uuid,
     execution_root = None, permitted_operations = None, protected_paths = None,
     timeout_seconds = of_int (positiveInt (map_of env ''SANDBOX_TIMEOUT_SECONDS'') 300),
     memory_limit_mb = positiveInt (map_of env ''SANDBOX_MEMORY_LIMIT'') 512,
     cpu_limit = map_option (max (1 / 10)) (Number (env_or env ''SANDBOX_CPU_LIMIT'' ''1.0'')),
     pid_limit = positiveInt (map_of env ''SANDBOX_PID_LIMIT'') 64,
     network_policy = (if env_or env ''SANDBOX_NETWORK_POLICY'' ''DENY_ALL'' = ''ALLOW_SPECIFIC''
       then ALLOW_SPECIFIC else DENY_ALL),
     environment_allowlist = filter (\<lambda>s. s \<noteq> '''')
       (map trim (split_on (CHR '','') (env_or env ''SANDBOX_ENVIRONMENT_ALLOWLIST'' ''NODE_ENV,PATH''))),
     max_output_bytes = positiveInt (map_of env ''SANDBOX_MAX_OUTPUT_BYTES'') 1048576,
     max_files_changed = positiveInt (map_of env ''SANDBOX_MAX_FILES_CHANGED'') 100,
     max_total_bytes_written = positiveInt (map_of env ''SANDBOX_MAX_TOTAL_BYTES_WRITTEN'') 10485760\<rparr>"

section \<open>Admission\<close>

record SandboxAdmissionResult =
  adm_valid :: bool
  adm_recomputed_hash :: string
  adm_expected_hash :: string
  adm_equal :: bool
  adm_proof :: "HashProof option"

definition admission_error :: "string \<Rightarrow> string \<Rightarrow> string \<Rightarrow> string list \<Rightarrow> string \<Rightarrow> js_error" where
  "admission_error iss expected actual evidence correction = RootCauseError
     \<lparr>rc_issue = iss, rc_expected = expected, rc_actual = actual, rc_evidence_ids = evidence,
      rc_required_correction = correction, rc_recheck_target = ''sandbox admission''\<rparr>"

text \<open>\<open>/^[a-f0-9]{64}$/\<close>\<close>

definition is_sha256_hex :: "string \<Rightarrow> bool" where
  "is_sha256_hex h \<longleftrightarrow> length h = 64 \<and> list_all (\<lambda>c. c \<in> set ''abcdef0123456789'') h"

text \<open>
  The record types make the first test (the input is an object) and the presence
  of \<open>confirmed_package\<close> and \<open>core\<close> hold; \<open>json\<close> is \<open>JSON.stringify\<close>.
\<close>

definition verifySandboxAdmission ::
  "(ConfirmedPackage \<Rightarrow> string) \<Rightarrow> SandboxExecutionInput \<Rightarrow> 'w contract_skill option \<Rightarrow>
     ('w, js_error, SandboxAdmissionResult) eff" where
  "verifySandboxAdmission json input contracts =
     (if \<not> confirmed (si_package input) then
        throwM (admission_error ''Malformed confirmed package in sandbox handoff''
          ''confirmed_package with confirmed=true and core object'' (json (si_package input))
          [''sandbox-admission''] ''Provide a valid immutable confirmed package'')
      else if \<not> is_sha256_hex (si_hash input) then
        throwM (admission_error ''Invalid canonical hash format in sandbox handoff''
          ''64-character lowercase hex SHA-256 string'' (si_hash input)
          [''sandbox-admission''] ''Provide valid full 64-character SHA-256 canonical hash'')
      else (case contracts of
          None \<Rightarrow> throwM (JsError ''CanonicalContractSkill is required for sandbox admission verification'')
        | Some cs \<Rightarrow>
            bindM (cs_verifyHash cs (core (si_package input)) (si_hash input)) (\<lambda>pf.
              let recomputed = recomputed_hash pf in
              if recomputed \<noteq> si_hash input \<or> \<not> equal_proof pf then
                throwM (admission_error ''Execution handoff hash mismatch''
                  ''Received HASH must equal the hash recomputed from the exact confirmed package''
                  (''Recomputed hash ('' @ recomputed @ '') differs from supplied HASH ('' @ si_hash input @ '')'')
                  [''sandbox-admission'', si_hash input, recomputed]
                  ''Reject the execution handoff and recover the original confirmed immutable package'')
              else returnM \<lparr>adm_valid = True, adm_recomputed_hash = recomputed,
                adm_expected_hash = si_hash input, adm_equal = True, adm_proof = Some pf\<rparr>)))"

section \<open>The service\<close>

text \<open>The interface of \<open>runner/runner.ts\<close>; the service calls it without \<open>onLog\<close>.\<close>

record 'w SandboxRunner =
  sr_execute :: "string \<Rightarrow> string \<Rightarrow> Plan \<Rightarrow> ExecutionAuthorization \<Rightarrow> ('w, js_error, RunnerExecutionResult) eff"
  sr_cleanup :: "string \<Rightarrow> string \<Rightarrow> ('w, js_error, bool) eff"

definition HardenedProcessRunner :: "'w host \<Rightarrow> 'w SandboxRunner" where
  "HardenedProcessRunner ho = \<lparr>sr_execute = runner_execute ho, sr_cleanup = runner_cleanup ho\<rparr>"

record 'w sandbox_host =
  sh_env :: environment
  sh_uuid :: "'w \<Rightarrow> string \<times> 'w"
  sh_nowIso :: "'w \<Rightarrow> string \<times> 'w"
  sh_mkdir :: "string \<Rightarrow> ('w, js_error, unit) eff"
  sh_emit :: "string \<Rightarrow> string \<Rightarrow> ExecutionStatus \<Rightarrow> event_data \<Rightarrow> ('w, js_error, unit) eff"
  sh_json :: "ConfirmedPackage \<Rightarrow> string"
  sh_root :: string

text \<open>The evidence kept in memory, by run, next to the world.\<close>

type_synonym 'w service = "(string \<times> ExecutionEvidence) list \<times> 'w"

definition on_host :: "('w, js_error, 'a) eff \<Rightarrow> ('w service, js_error, 'a) eff" where
  "on_host m = (\<lambda>(mem, w). case m w of (r, w') \<Rightarrow> (r, (mem, w')))"

definition draw :: "('w \<Rightarrow> 'a \<times> 'w) \<Rightarrow> ('w service, js_error, 'a) eff" where
  "draw f = (\<lambda>(mem, w). case f w of (x, w') \<Rightarrow> (Inr x, (mem, w')))"

definition set_evidence :: "string \<Rightarrow> ExecutionEvidence \<Rightarrow> ('w service, js_error, unit) eff" where
  "set_evidence runId evidence = (\<lambda>(mem, w). (Inr (), (AList.update runId evidence mem, w)))"

definition getEvidence :: "string \<Rightarrow> 'w service \<Rightarrow> ExecutionEvidence option" where
  "getEvidence runId s = map_of (fst s) runId"

text \<open>\<open>this.ev(...)\<close>: an event of the scope \<open>SANDBOX\<close>.\<close>

definition sandbox_ev ::
  "'w sandbox_host \<Rightarrow> string \<Rightarrow> string \<Rightarrow> ExecutionStatus \<Rightarrow> event_data \<Rightarrow> ('w service, js_error, unit) eff" where
  "sandbox_ev sh runId proc st d = on_host (sh_emit sh runId proc st ((''scope'', ''SANDBOX'') # d))"

text \<open>\<open>{ ...defaultAuth, ...partial, execution_id: partial?.execution_id || ... }\<close>\<close>

definition merge_authorization ::
  "ExecutionAuthorization \<Rightarrow> PartialAuthorization option \<Rightarrow> string \<Rightarrow> ExecutionAuthorization" where
  "merge_authorization d partial runId = (case partial of
      None \<Rightarrow> d\<lparr>au_execution_id := ''exec:'' @ runId\<rparr>
    | Some p \<Rightarrow> (let pick = (\<lambda>x dflt. case x of None \<Rightarrow> dflt | Some v \<Rightarrow> v);
          pick_opt = (\<lambda>x dflt. case x of None \<Rightarrow> dflt | Some v \<Rightarrow> Some v) in
        \<lparr>au_execution_id = (case pa_execution_id p of
             None \<Rightarrow> ''exec:'' @ runId | Some x \<Rightarrow> if x = '''' then ''exec:'' @ runId else x),
         execution_root = (case pa_execution_root p of None \<Rightarrow> execution_root d | Some x \<Rightarrow> Some x),
         permitted_operations = pick_opt (pa_permitted_operations p) (permitted_operations d),
         protected_paths = pick_opt (pa_protected_paths p) (protected_paths d),
         timeout_seconds = (case pa_timeout_seconds p of None \<Rightarrow> timeout_seconds d | Some x \<Rightarrow> x),
         memory_limit_mb = pick (pa_memory_limit_mb p) (memory_limit_mb d),
         cpu_limit = (case pa_cpu_limit p of None \<Rightarrow> cpu_limit d | Some x \<Rightarrow> x),
         pid_limit = pick (pa_pid_limit p) (pid_limit d),
         network_policy = (case pa_network_policy p of None \<Rightarrow> network_policy d | Some x \<Rightarrow> x),
         environment_allowlist =
           (case pa_environment_allowlist p of None \<Rightarrow> environment_allowlist d | Some x \<Rightarrow> x),
         max_output_bytes = pick (pa_max_output_bytes p) (max_output_bytes d),
         max_files_changed = pick (pa_max_files_changed p) (max_files_changed d),
         max_total_bytes_written = pick (pa_max_total_bytes_written p) (max_total_bytes_written d)\<rparr>))"

text \<open>\<open>sandboxId.replace(/[^a-zA-Z0-9_-]/g, "_")\<close>\<close>

definition safe_name :: "string \<Rightarrow> string" where
  "safe_name s = map (\<lambda>c. if is_word_char c \<or> c = CHR ''-'' then c else CHR ''_'') s"

text \<open>A JavaScript number as text, cut after seventeen decimals.\<close>

fun decimals :: "nat \<Rightarrow> int \<Rightarrow> int \<Rightarrow> string" where
  "decimals 0 a b = []"
| "decimals (Suc n) a b = (if a = 0 then [] else digit (nat (10 * a div b)) # decimals n (10 * a mod b) b)"

definition num_str :: "rat \<Rightarrow> string" where
  "num_str r = (case quotient_of \<bar>r\<bar> of (a, b) \<Rightarrow>
     (if r < 0 then ''-'' else '''') @ int_str (a div b) @
     (if a mod b = 0 then '''' else ''.'' @ decimals 17 (a mod b) b))"

section \<open>One execution\<close>

definition run_id_of :: "'w sandbox_host \<Rightarrow> SandboxExecutionInput \<Rightarrow> ('w service, js_error, string) eff" where
  "run_id_of sh input = (let pid = plan_id (cc_plan (core (si_package input)));
       name = (case strip_prefix ''plan:'' pid of None \<Rightarrow> pid | Some rest \<Rightarrow> rest)
     in if name \<noteq> '''' then returnM name
        else bindM (draw (sh_uuid sh)) (\<lambda>u. returnM (''sbx-'' @ u)))"

text \<open>The root cause an exception of the admission gives.\<close>

fun admission_cause :: "js_error \<Rightarrow> RootCause" where
  "admission_cause (RootCauseError rc) = rc"
| "admission_cause (InformationRequired rc h) = rc"
| "admission_cause e = \<lparr>rc_issue = ''Sandbox admission verification failed'',
     rc_expected = ''Valid immutable confirmed package and matching canonical hash'',
     rc_actual = error_message e, rc_evidence_ids = [''sandbox-admission''],
     rc_required_correction = ''Provide valid confirmed package and canonical HASH'',
     rc_recheck_target = ''sandbox admission''\<rparr>"

text \<open>The \<open>try\<close> of the admission: what it verified, or the caught error.\<close>

definition try_admission ::
  "'w sandbox_host \<Rightarrow> 'w contract_skill \<Rightarrow> string \<Rightarrow> SandboxExecutionInput \<Rightarrow>
     ('w service, js_error, js_error + SandboxAdmissionResult) eff" where
  "try_admission sh cs runId input = try_catch
     (bindM (on_host (verifySandboxAdmission (sh_json sh) input (Some cs))) (\<lambda>admission.
      thenM (sandbox_ev sh runId ''SandboxAdmissionVerified'' ECompleted
        [(''test_result'', ''Passed''), (''artifact_id'', adm_recomputed_hash admission)])
      (returnM (Inr admission))))
     (\<lambda>err. returnM (Inl err))"

definition line_refs :: "string \<Rightarrow> string \<Rightarrow> string list \<Rightarrow> string list" where
  "line_refs stream executionId xs =
     map (\<lambda>i. stream @ '':'' @ executionId @ '':'' @ nat_str (i + 1)) [0..<length xs]"

definition evidence_of ::
  "SandboxExecutionInput \<Rightarrow> ExecutionAuthorization \<Rightarrow> string \<Rightarrow> string \<Rightarrow> string \<Rightarrow> RunnerExecutionResult \<Rightarrow> string \<Rightarrow>
     ExecutionEvidence" where
  "evidence_of input auth sandboxId startedAt completedAt rr hashSandbox =
     \<lparr>ex_execution_id = au_execution_id auth, ex_sandbox_id = sandboxId,
      confirmed_package_hash = si_hash input, started_at = startedAt, completed_at = completedAt,
      ex_commands = rn_commands rr, ex_exit_codes = rn_exit_codes rr,
      stdout_refs = line_refs ''stdout'' (au_execution_id auth) (stdout_lines rr),
      stderr_refs = line_refs ''stderr'' (au_execution_id auth) (stderr_lines rr),
      ex_file_changes = rn_file_changes rr, ex_bytes_written = rn_bytes_written rr,
      ex_resource_usage = rn_resource_usage rr, ex_timeout_evidence = rn_timeout_evidence rr,
      ex_environment_allowlist_used = rn_environment_allowlist_used rr,
      ex_network_policy_used = rn_network_policy_used rr,
      ex_cleanup_result = \<lparr>workspace_cleaned = False,
        processes_terminated = processes_terminated (rn_cleanup_result rr)\<rparr>,
      ex_hash_sandbox = hashSandbox\<rparr>"

definition sandbox_failure ::
  "ExecutionAuthorization \<Rightarrow> string \<Rightarrow> ExecutionEvidence \<Rightarrow> string \<Rightarrow> string \<Rightarrow> string \<Rightarrow> string \<Rightarrow>
     SandboxExecutionResult" where
  "sandbox_failure auth sandboxId evidence iss expected actual correction = SandboxRootCause
     \<lparr>sr_execution_id = au_execution_id auth, sr_sandbox_id = Some sandboxId,
      sr_root_cause = \<lparr>rc_issue = iss, rc_expected = expected, rc_actual = actual,
        rc_evidence_ids = [''evidence:'' @ au_execution_id auth], rc_required_correction = correction,
        rc_recheck_target = sandboxId\<rparr>,
      sr_evidence = Some evidence, sr_help_request = None, sr_research_request = None\<rparr>"

definition elapsed_or :: "ExecutionAuthorization \<Rightarrow> RunnerExecutionResult \<Rightarrow> rat" where
  "elapsed_or auth rr = (case rn_timeout_evidence rr of
      None \<Rightarrow> timeout_seconds auth
    | Some t \<Rightarrow> if elapsed_seconds t = 0 then timeout_seconds auth else elapsed_seconds t)"

text \<open>The failure conditions, in the code's order, and the passed result.\<close>

definition execution_verdict ::
  "SandboxExecutionInput \<Rightarrow> ExecutionAuthorization \<Rightarrow> string \<Rightarrow> RunnerExecutionResult \<Rightarrow> string \<Rightarrow> ExecutionEvidence \<Rightarrow>
     SandboxExecutionResult" where
  "execution_verdict input auth sandboxId rr hashSandbox evidence =
     (let failure = sandbox_failure auth sandboxId evidence in
      if rn_condition rr = Some CdTimeout then
        failure ''Sandbox execution timeout exceeded''
          (''Execution completes within '' @ num_str (timeout_seconds auth) @ ''s'')
          (''Execution timed out after '' @ num_str (elapsed_or auth rr) @ ''s'')
          ''Optimize execution steps or increase authorized timeout limit''
      else if rn_condition rr = Some CdResourceExhausted then
        failure ''Sandbox resource limits exceeded''
          (''Files changed <= '' @ int_str (max_files_changed auth) @ '' and bytes written <= '' @
             int_str (max_total_bytes_written auth))
          (''Files changed = '' @ nat_str (length (rn_file_changes rr)) @ '', bytes written = '' @
             int_str (rn_bytes_written rr))
          ''Adjust workload output volume or authorized resource limits''
      else if rn_condition rr = Some CdFailure \<or> list_ex (\<lambda>c. c \<noteq> 0) (rn_exit_codes rr) then
        failure ''Sandbox command execution failure'' ''All execution steps exit with code 0''
          (''Commands exited with codes: '' @ join '', '' (map int_str (rn_exit_codes rr)) @ ''. Stderr: '' @
             take 500 (join '' '' (stderr_lines rr)))
          ''Review stderr diagnostics and plan step commands''
      else if hashSandbox \<noteq> si_hash input then
        failure ''Sandbox verification hash mismatch'' (si_hash input) hashSandbox
          ''Recompute sandbox hash from exact confirmed immutable core''
      else SandboxPassed \<lparr>sp_execution_id = au_execution_id auth, sp_sandbox_id = sandboxId,
          sp_evidence = evidence, hash_sandbox = hashSandbox\<rparr>)"

text \<open>
  After admission.  The evidence object is in the memory map when the clean-up
  changes it, so the second \<open>set_evidence\<close> is the assignment to its field.
\<close>

definition run_admitted ::
  "'w sandbox_host \<Rightarrow> 'w contract_skill \<Rightarrow> 'w SandboxRunner \<Rightarrow> SandboxExecutionInput \<Rightarrow> string \<Rightarrow>
     ExecutionAuthorization \<Rightarrow> ('w service, js_error, SandboxExecutionResult) eff" where
  "run_admitted sh cs runner input runId auth =
     bindM (draw (sh_uuid sh)) (\<lambda>u.
     let sandboxId = ''sandbox:'' @ runId @ '':'' @ u;
         workspacePath = sh_root sh @ ''/'' @ safe_name sandboxId;
         ev = sandbox_ev sh runId in
     thenM (on_host (sh_mkdir sh workspacePath))
     (thenM (ev ''SandboxCreated'' ECompleted [(''artifact_id'', sandboxId), (''message'', ''workspace='' @ workspacePath)])
     (bindM (draw (sh_nowIso sh)) (\<lambda>startedAt.
     thenM (ev ''ExecutionStarted'' ECompleted [(''artifact_id'', sandboxId),
        (''message'', ''timeout='' @ num_str (timeout_seconds auth) @ ''s memory='' @ int_str (memory_limit_mb auth) @ ''MB'')])
     (bindM (on_host (sr_execute runner sandboxId workspacePath (cc_plan (core (si_package input))) auth)) (\<lambda>rr.
     bindM (draw (sh_nowIso sh)) (\<lambda>completedAt.
     thenM (ev ''ExecutionCompleted'' ECompleted
       ([(''test_result'', if rn_condition rr = Some CdSuccess then ''Passed'' else ''Failed'')] @
        (if rn_condition rr = Some CdSuccess then [] else [(''issue_type'', ''Root Cause'')]) @
        [(''message'', ''exit_codes='' @ join '','' (map int_str (rn_exit_codes rr)))]))
     (bindM (on_host (cs_createHash cs (core (si_package input)))) (\<lambda>hashSandbox.
     let evidence = evidence_of input auth sandboxId startedAt completedAt rr hashSandbox;
         hashMatched = (hashSandbox = si_hash input) in
     thenM (set_evidence runId evidence)
     (thenM (ev ''ExecutionEvidenceRecorded'' ECompleted [(''artifact_id'', ''evidence:'' @ au_execution_id auth),
        (''message'', ''bytes_written='' @ int_str (ex_bytes_written evidence) @ '' duration='' @
           int_str (duration_ms (ex_resource_usage evidence)) @ ''ms'')])
     (thenM (ev ''SandboxHashCreated'' ECompleted [(''artifact_id'', hashSandbox)])
     (thenM (ev ''SandboxHashVerified'' ECompleted
       ([(''test_result'', if hashMatched then ''Passed'' else ''Failed'')] @
        (if hashMatched then [] else [(''issue_type'', ''Root Cause'')]) @
        [(''artifact_id'', hashSandbox), (''message'', ''hash_matched='' @ bool_str hashMatched)]))
     (bindM (on_host (sr_cleanup runner sandboxId workspacePath)) (\<lambda>cleaned.
     let evidence' = evidence\<lparr>ex_cleanup_result := (ex_cleanup_result evidence)\<lparr>workspace_cleaned := cleaned\<rparr>\<rparr> in
     thenM (set_evidence runId evidence')
     (thenM (ev ''SandboxCleaned'' ECompleted [(''artifact_id'', sandboxId),
        (''message'', ''workspace_cleaned='' @ bool_str cleaned)])
     (returnM (execution_verdict input auth sandboxId rr hashSandbox evidence')))))))))))))))))"

definition service_execute ::
  "'w sandbox_host \<Rightarrow> 'w contract_skill \<Rightarrow> 'w SandboxRunner \<Rightarrow> SandboxExecutionInput \<Rightarrow>
     ('w service, js_error, SandboxExecutionResult) eff" where
  "service_execute sh cs runner input =
     bindM (run_id_of sh input) (\<lambda>runId.
     bindM (draw (sh_uuid sh)) (\<lambda>u.
     let auth = merge_authorization (loadDefaultAuthorization (sh_env sh) u) (execution_authorization input) runId in
     thenM (sandbox_ev sh runId ''SandboxHandoffReceived'' ECompleted
        [(''artifact_id'', si_hash input), (''message'', ''execution_id='' @ au_execution_id auth)])
     (thenM (sandbox_ev sh runId ''SandboxAdmissionVerified'' ERunning [])
     (bindM (try_admission sh cs runId input) (\<lambda>admitted. case admitted of
        Inl err \<Rightarrow>
          thenM (sandbox_ev sh runId ''SandboxAdmissionVerified'' ECompleted
            [(''test_result'', ''Failed''), (''issue_type'', ''Root Cause''),
             (''message'', rc_actual (admission_cause err))])
          (returnM (SandboxRootCause \<lparr>sr_execution_id = au_execution_id auth, sr_sandbox_id = None,
             sr_root_cause = admission_cause err, sr_evidence = None, sr_help_request = None,
             sr_research_request = None\<rparr>))
      | Inr admission \<Rightarrow> run_admitted sh cs runner input runId auth)))))"

section \<open>The Builder\<close>

text \<open>\<open>Buffer.from(_, "base64").toString("utf8")\<close> and its inverse direction.\<close>

record text_codec =
  from_base64 :: "string \<Rightarrow> string"
  to_base64 :: "string \<Rightarrow> string"

definition BUILDER_OUTPUT_PREFIX :: string where
  "BUILDER_OUTPUT_PREFIX = ''ONESHOT_BUILDER_OUTPUT_BASE64:''"

definition builder_output :: "text_codec \<Rightarrow> Plan \<Rightarrow> SandboxExecutionResult \<Rightarrow> (string \<times> string) option" where
  "builder_output codec p result =
     (case (result, find_index (\<lambda>s. responsibility s = ''BuilderOutput'') (steps p)) of
        (SandboxPassed r, Some i) \<Rightarrow>
          if i < length (ex_exit_codes (sp_evidence r)) \<and> ex_exit_codes (sp_evidence r) ! i = 0
          then (case strip_prefix BUILDER_OUTPUT_PREFIX (step_description (steps p ! i)) of
              None \<Rightarrow> None
            | Some encoded \<Rightarrow>
                let decoded = from_base64 codec encoded in
                if encoded \<noteq> '''' \<and> to_base64 codec decoded = encoded
                then Some (decoded, step_id (steps p ! i)) else None)
          else None
      | _ \<Rightarrow> None)"

text \<open>An empty output is no output for \<open>output_step_id\<close>: the code tests it for truth.\<close>

definition builder_result :: "text_codec \<Rightarrow> Plan \<Rightarrow> SandboxExecutionResult \<Rightarrow> BuilderWorkflowResult" where
  "builder_result codec p result = (case builder_output codec p result of
      None \<Rightarrow> \<lparr>bw_result = result, final_output = None, output_step_id = None\<rparr>
    | Some (out, sid) \<Rightarrow> \<lparr>bw_result = result, final_output = Some out,
        output_step_id = (if out = '''' then None else Some sid)\<rparr>)"

definition builder_run ::
  "'w sandbox_host \<Rightarrow> 'w contract_skill \<Rightarrow> 'w SandboxRunner \<Rightarrow> text_codec \<Rightarrow> ConfirmedPackage \<Rightarrow> string \<Rightarrow>
     ('w service, js_error, BuilderWorkflowResult) eff" where
  "builder_run sh cs runner codec package h =
     bindM (service_execute sh cs runner \<lparr>si_package = package, si_hash = h, execution_authorization = None\<rparr>)
       (\<lambda>result. returnM (builder_result codec (cc_plan (core package)) result))"

section \<open>Lemmas\<close>

lemma on_host_iff: "on_host m s = (r, s') \<longleftrightarrow> fst s' = fst s \<and> m (snd s) = (r, snd s')"
  by (cases s; cases s') (auto simp: on_host_def split: prod.splits)

lemma draw_iff: "draw f s = (r, s') \<longleftrightarrow> fst s' = fst s \<and> (\<exists>x. r = Inr x \<and> f (snd s) = (x, snd s'))"
  by (cases s; cases s') (auto simp: draw_def split: prod.splits)

lemma set_evidence_iff: "set_evidence runId e s = (r, s') \<longleftrightarrow> r = Inr () \<and> s' = (AList.update runId e (fst s), snd s)"
  by (cases s) (auto simp: set_evidence_def)

lemma sandbox_ev_keeps: "sandbox_ev sh runId p st d s = (r, s') \<Longrightarrow> fst s' = fst s"
  by (simp add: sandbox_ev_def on_host_iff)

lemma on_host_produced: "on_host m s = (Inr x, s') \<Longrightarrow> produced m x"
  by (auto simp: on_host_iff intro: producedI)

lemma run_admitted_ok:
  assumes "run_admitted sh cs runner input runId auth s = (Inr result, s')"
  obtains sid path rr h ev c where "produced (sr_execute runner sid path (cc_plan (core (si_package input))) auth) rr"
    and "produced (cs_createHash cs (core (si_package input))) h"
    and "\<exists>t0 t1. ev = (evidence_of input auth sid t0 t1 rr h)
      \<lparr>ex_cleanup_result := \<lparr>workspace_cleaned = c, processes_terminated = processes_terminated (rn_cleanup_result rr)\<rparr>\<rparr>"
    and "result = execution_verdict input auth sid rr h ev" and "getEvidence runId s' = Some ev"
  using assms unfolding run_admitted_def Let_def
  apply (elim bindM_Inr_elim thenM_Inr_elim)
  subgoal premises p for u s1 _ s2 _ s3 t0 s4 _ s5 rr s6 t1 s7 _ s8 h s9 _ s10 _ s11 _ s12 _ s13 c s14 _ s15 _ s16
  proof (rule p(1))
    show "produced (sr_execute runner (''sandbox:'' @ runId @ '':'' @ u)
        (sh_root sh @ ''/'' @ safe_name (''sandbox:'' @ runId @ '':'' @ u)) (cc_plan (core (si_package input))) auth) rr"
      using p(7) by (rule on_host_produced)
    show "produced (cs_createHash cs (core (si_package input))) h" using p(10) by (rule on_host_produced)
    show "\<exists>a b. evidence_of input auth (''sandbox:'' @ runId @ '':'' @ u) t0 t1 rr h
        \<lparr>ex_cleanup_result := \<lparr>workspace_cleaned = c, processes_terminated = processes_terminated (rn_cleanup_result rr)\<rparr>\<rparr> =
      evidence_of input auth (''sandbox:'' @ runId @ '':'' @ u) a b rr h
        \<lparr>ex_cleanup_result := \<lparr>workspace_cleaned = c, processes_terminated = processes_terminated (rn_cleanup_result rr)\<rparr>\<rparr>"
      by blast
    show "result = execution_verdict input auth (''sandbox:'' @ runId @ '':'' @ u) rr h
       (evidence_of input auth (''sandbox:'' @ runId @ '':'' @ u) t0 t1 rr h
        \<lparr>ex_cleanup_result := \<lparr>workspace_cleaned = c, processes_terminated = processes_terminated (rn_cleanup_result rr)\<rparr>\<rparr>)"
      using p(18) by (simp add: evidence_of_def returnM_apply)
    show "getEvidence runId s' = Some (evidence_of input auth (''sandbox:'' @ runId @ '':'' @ u) t0 t1 rr h
        \<lparr>ex_cleanup_result := \<lparr>workspace_cleaned = c, processes_terminated = processes_terminated (rn_cleanup_result rr)\<rparr>\<rparr>)"
      using p(16,18) sandbox_ev_keeps [OF p(17)]
      by (simp add: set_evidence_iff getEvidence_def update_conv evidence_of_def returnM_apply)
  qed
  done

lemma verdict_passed:
  assumes "execution_verdict input auth sid rr h ev = SandboxPassed r"
  shows "rn_condition rr \<notin> {Some CdTimeout, Some CdResourceExhausted, Some CdFailure} \<and>
    (\<forall>c\<in>set (rn_exit_codes rr). c = 0) \<and> h = si_hash input \<and>
    r = \<lparr>sp_execution_id = au_execution_id auth, sp_sandbox_id = sid, sp_evidence = ev, hash_sandbox = h\<rparr>"
  using assms by (auto simp: execution_verdict_def sandbox_failure_def Let_def list_ex_iff split: if_splits)

text \<open>What the admission has verified when it lets an execution pass.\<close>

definition admitted :: "'w contract_skill \<Rightarrow> SandboxExecutionInput \<Rightarrow> bool" where
  "admitted cs input \<longleftrightarrow> confirmed (si_package input) \<and> is_sha256_hex (si_hash input) \<and>
     (\<exists>pf. produced (cs_verifyHash cs (core (si_package input)) (si_hash input)) pf \<and>
       recomputed_hash pf = si_hash input \<and> equal_proof pf)"

lemma admission_ok: "verifySandboxAdmission json input (Some cs) w = (Inr a, w') \<Longrightarrow> admitted cs input"
  by (auto simp: verifySandboxAdmission_def admitted_def throwM_apply returnM_apply Let_def
      elim!: bindM_Inr_elim split: if_splits intro: producedI)

lemma try_admission_keeps: "try_admission sh cs runId input s = (Inr x, s') \<Longrightarrow>
  fst s' = fst s \<and> (\<not> isl x \<longrightarrow> admitted cs input)"
  by (auto simp: try_admission_def try_catch_apply bindM_apply thenM_apply returnM_apply on_host_iff
      dest: sandbox_ev_keeps admission_ok split: prod.splits sum.splits if_splits)

text \<open>A refused execution, for every runner; an admitted one, for the given runner.\<close>

lemma service_execute_cases:
  assumes "service_execute sh cs runner input s = (Inr result, s')"
  obtains (refused) r where "result = SandboxRootCause r" and "sr_evidence r = None" and "sr_sandbox_id r = None"
      and "fst s' = fst s" and "\<And>runner'. service_execute sh cs runner' input s = (Inr result, s')"
    | (ran) t runId auth where "admitted cs input" and "run_admitted sh cs runner input runId auth t = (Inr result, s')"
proof -
  from assms obtain runId s1 u s2 x s3 x' s4 adm s5 where
    p: "run_id_of sh input s = (Inr runId, s1)" "draw (sh_uuid sh) s1 = (Inr u, s2)"
    and e: "sandbox_ev sh runId ''SandboxHandoffReceived'' ECompleted [(''artifact_id'', si_hash input),
        (''message'', ''execution_id='' @ au_execution_id (merge_authorization
          (loadDefaultAuthorization (sh_env sh) u) (execution_authorization input) runId))] s2 = (Inr x, s3)"
      "sandbox_ev sh runId ''SandboxAdmissionVerified'' ERunning [] s3 = (Inr x', s4)"
    and a: "try_admission sh cs runId input s4 = (Inr adm, s5)"
    and rest: "(case adm of
        Inl err \<Rightarrow>
          thenM (sandbox_ev sh runId ''SandboxAdmissionVerified'' ECompleted
            [(''test_result'', ''Failed''), (''issue_type'', ''Root Cause''),
             (''message'', rc_actual (admission_cause err))])
          (returnM (SandboxRootCause \<lparr>sr_execution_id = au_execution_id (merge_authorization
               (loadDefaultAuthorization (sh_env sh) u) (execution_authorization input) runId), sr_sandbox_id = None,
             sr_root_cause = admission_cause err, sr_evidence = None, sr_help_request = None,
             sr_research_request = None\<rparr>))
      | Inr admission \<Rightarrow> run_admitted sh cs runner input runId (merge_authorization
               (loadDefaultAuthorization (sh_env sh) u) (execution_authorization input) runId)) s5 = (Inr result, s')"
    unfolding service_execute_def Let_def by (elim bindM_Inr_elim thenM_Inr_elim) blast
  show ?thesis
  proof (cases adm)
    case (Inr admission)
    with rest try_admission_keeps [OF a] show ?thesis by (intro ran) auto
  next
    case (Inl err)
    have "fst s1 = fst s" using p(1)
      by (auto simp: run_id_of_def Let_def returnM_apply draw_iff elim!: bindM_Inr_elim split: if_splits option.splits)
    with p(2) e a have k: "fst s5 = fst s"
      by (auto simp: draw_iff dest!: sandbox_ev_keeps try_admission_keeps)
    have other: "service_execute sh cs runner' input s = (Inr result, s')" for runner'
      using p e a rest Inl by (simp add: service_execute_def Let_def bindM_apply thenM_apply)
    from rest Inl k show ?thesis
      by (intro refused [OF _ _ _ _ other]) (auto elim!: thenM_Inr_elim simp: returnM_apply dest: sandbox_ev_keeps)
  qed
qed

lemma sandbox_execution_facts:
  assumes "service_execute sh cs runner input s = (Inr (SandboxPassed r), s')"
  shows "admitted cs input \<and> hash_sandbox r = si_hash input \<and>
    produced (cs_createHash cs (core (si_package input))) (hash_sandbox r) \<and>
    (\<exists>runId. getEvidence runId s' = Some (sp_evidence r)) \<and>
    (\<exists>sid path auth rr. produced (sr_execute runner sid path (cc_plan (core (si_package input))) auth) rr \<and>
      rn_condition rr \<notin> {Some CdTimeout, Some CdResourceExhausted, Some CdFailure} \<and>
      (\<forall>c\<in>set (rn_exit_codes rr). c = 0) \<and> ex_commands (sp_evidence r) = rn_commands rr \<and>
      ex_exit_codes (sp_evidence r) = rn_exit_codes rr \<and> ex_file_changes (sp_evidence r) = rn_file_changes rr)"
  using assms
proof (cases rule: service_execute_cases)
  case (ran t runId auth)
  from ran(2) obtain sid path rr h ev c where
    f: "produced (sr_execute runner sid path (cc_plan (core (si_package input))) auth) rr"
      "produced (cs_createHash cs (core (si_package input))) h"
    and ev: "\<exists>t0 t1. ev = (evidence_of input auth sid t0 t1 rr h)
      \<lparr>ex_cleanup_result := \<lparr>workspace_cleaned = c, processes_terminated = processes_terminated (rn_cleanup_result rr)\<rparr>\<rparr>"
    and v: "SandboxPassed r = execution_verdict input auth sid rr h ev" and g: "getEvidence runId s' = Some ev"
    by (rule run_admitted_ok)
  note d = verdict_passed [OF v [symmetric]]
  from ev have "ex_commands ev = rn_commands rr" "ex_exit_codes ev = rn_exit_codes rr"
    "ex_file_changes ev = rn_file_changes rr" by (auto simp: evidence_of_def)
  with f g d ran(1) show ?thesis by auto
qed simp

section \<open>What an execution spawns\<close>

text \<open>
  \<open>quiet_sandbox children sh cs\<close>: nothing the service itself asks of its host or of the
  contracts spawns a child, so the children of an execution are the runner's.
\<close>

definition quiet_sandbox :: "('w \<Rightarrow> child_log) \<Rightarrow> 'w sandbox_host \<Rightarrow> 'w contract_skill \<Rightarrow> bool" where
  "quiet_sandbox children sh cs \<longleftrightarrow>
     (\<forall>w. children (snd (sh_uuid sh w)) = children w) \<and> (\<forall>w. children (snd (sh_nowIso sh w)) = children w) \<and>
     (\<forall>p w. children (snd (sh_mkdir sh p w)) = children w) \<and>
     (\<forall>r p st d w. children (snd (sh_emit sh r p st d w)) = children w) \<and>
     (\<forall>c w. children (snd (cs_createHash cs c w)) = children w) \<and>
     (\<forall>c x w. children (snd (cs_verifyHash cs c x w)) = children w)"

lemma quiet_steps:
  assumes "quiet_sandbox children sh cs"
  shows "draw (sh_uuid sh) s = (r1, s') \<Longrightarrow> children (snd s') = children (snd s)"
    and "draw (sh_nowIso sh) s = (r1, s') \<Longrightarrow> children (snd s') = children (snd s)"
    and "on_host (sh_mkdir sh p) s = (r2, s') \<Longrightarrow> children (snd s') = children (snd s)"
    and "sandbox_ev sh r n st d s = (r2, s') \<Longrightarrow> children (snd s') = children (snd s)"
    and "on_host (cs_createHash cs c) s = (r1, s') \<Longrightarrow> children (snd s') = children (snd s)"
    and "set_evidence r e s = (r2, s') \<Longrightarrow> children (snd s') = children (snd s)"
  using assms unfolding quiet_sandbox_def draw_iff sandbox_ev_def on_host_iff set_evidence_iff
  by (metis snd_conv)+

lemma cleanup_spawns_nothing:
  assumes "host_logs ho children"
  shows "children (snd (runner_cleanup ho sid path w)) = children w"
proof -
  have "children (snd (rmWithRetry ho path n w)) = children w" for n
  proof (induction n arbitrary: w)
    case (Suc n)
    obtain b w1 where r: "ho_rm ho path w = (b, w1)" by (rule prod.exhaust)
    with assms have "children w1 = children w" unfolding host_logs_def by (metis snd_conv)
    with Suc r show ?case by (cases b) auto
  qed simp
  then show ?thesis by (simp add: runner_cleanup_def case_prod_beta)
qed

lemma run_admitted_trace:
  assumes h: "host_logs ho children" and q: "quiet_sandbox children sh cs"
    and run: "run_admitted sh cs (HardenedProcessRunner ho) input runId auth s = (Inr (SandboxPassed sp), s')"
  shows "\<exists>path rr w w' ends. executed ho children path (cc_plan (core (si_package input))) auth w rr w' ends \<and>
    children w = children (snd s) \<and> children (snd s') = children w' \<and> rn_condition rr \<noteq> Some CdTimeout \<and>
    rn_condition rr \<noteq> Some CdResourceExhausted \<and> rn_condition rr \<noteq> Some CdFailure"
  using run unfolding run_admitted_def Let_def
  apply (elim bindM_Inr_elim thenM_Inr_elim)
  subgoal premises p for u s1 _ s2 _ s3 t0 s4 _ s5 rr s6 t1 s7 _ s8 hs s9 _ s10 _ s11 _ s12 _ s13 c s14 _ s15 _ s16
  proof -
    note k = quiet_steps [OF q]
    have before: "children (snd s5) = children (snd s)"
      using k(1) [OF p(1)] k(3) [OF p(2)] k(4) [OF p(3)] k(2) [OF p(4)] k(4) [OF p(5)] by simp
    have r: "runner_execute ho (''sandbox:'' @ runId @ '':'' @ u)
        (sh_root sh @ ''/'' @ safe_name (''sandbox:'' @ runId @ '':'' @ u)) (cc_plan (core (si_package input))) auth (snd s5) =
        (Inr rr, snd s6)"
      using p(6) by (simp add: on_host_iff HardenedProcessRunner_def)
    have cl: "children (snd s14) = children (snd s13)"
      using p(14) cleanup_spawns_nothing [OF h] by (simp add: on_host_iff HardenedProcessRunner_def) (metis snd_conv)
    have "s' = s16" using p(17) by (simp add: returnM_apply)
    then have after: "children (snd s') = children (snd s6)"
      using k(2) [OF p(7)] k(4) [OF p(8)] k(5) [OF p(9)] k(6) [OF p(10)] k(4) [OF p(11)] k(4) [OF p(12)] k(4) [OF p(13)]
        cl k(6) [OF p(15)] k(4) [OF p(16)] by simp
    have "\<exists>sid ev. execution_verdict input auth sid rr hs ev = SandboxPassed sp"
      using p(17) by (auto simp only: returnM_apply prod.inject sum.inject)
    then obtain sid ev where v: "execution_verdict input auth sid rr hs ev = SandboxPassed sp" by blast
    have "rn_condition rr \<noteq> Some CdTimeout \<and> rn_condition rr \<noteq> Some CdResourceExhausted \<and> rn_condition rr \<noteq> Some CdFailure"
      using v verdict_passed by blast
    with runner_execute_trace [OF h r] before after show ?thesis by blast
  qed
  done

text \<open>
  A passed execution through the process runner: its children are the commands of all
  steps of the plan, in order, in one directory, and each of them ended well.
\<close>

definition all_steps_ran :: "Plan \<Rightarrow> child_log \<Rightarrow> bool" where
  "all_steps_ran p kids \<longleftrightarrow> map fst kids = map tk_cmd (map task_of (steps p)) \<and> (\<forall>(c, env, dir, e) \<in> set kids. ended_well e)"

lemma executed_all:
  assumes "executed ho children path p auth w rr w' ends" and "rn_condition rr \<noteq> Some CdTimeout"
    and "rn_condition rr \<noteq> Some CdResourceExhausted" and "rn_condition rr \<noteq> Some CdFailure"
  shows "\<exists>kids. all_steps_ran p kids \<and> children w' = children w @ kids"
proof -
  from assms have "ends_verdict (length (steps p)) ends \<notin> {CdTimeout, CdFailure}"
    by (auto simp: executed_def Let_def split: if_splits)
  then have e: "list_all ended_well ends" "length ends = length (steps p)" by (auto simp: ends_verdict_def split: if_splits)
  let ?kids = "spawned (map tk_cmd (map task_of (steps p)))
    (buildEnvironment (ho_windows ho) (ho_env ho) (environment_allowlist auth)) (path @ ''/work'') ends"
  have "map fst ?kids = map fst (zip (map tk_cmd (map task_of (steps p))) ends)"
    by (simp add: spawned_def comp_def case_prod_beta)
  with e have "all_steps_ran p ?kids"
    by (auto simp: all_steps_ran_def spawned_def list_all_iff dest: set_zip_rightD)
  with assms(1) show ?thesis by (auto simp: executed_def Let_def)
qed

lemma service_trace:
  assumes h: "host_logs ho children" and q: "quiet_sandbox children sh cs"
    and run: "service_execute sh cs (HardenedProcessRunner ho) input s = (Inr (SandboxPassed sp), s')"
  shows "\<exists>kids. all_steps_ran (cc_plan (core (si_package input))) kids \<and> children (snd s') = children (snd s) @ kids"
proof -
  note k = quiet_steps [OF q]
  from run obtain runId s1 u s2 x s3 x' s4 adm s5 auth where
    p: "run_id_of sh input s = (Inr runId, s1)" "draw (sh_uuid sh) s1 = (Inr u, s2)"
    and e: "\<exists>d. sandbox_ev sh runId ''SandboxHandoffReceived'' ECompleted d s2 = (Inr x, s3)"
      "sandbox_ev sh runId ''SandboxAdmissionVerified'' ERunning [] s3 = (Inr x', s4)"
    and a: "try_admission sh cs runId input s4 = (Inr adm, s5)"
    and rest: "(case adm of Inl err \<Rightarrow> thenM (sandbox_ev sh runId ''SandboxAdmissionVerified'' ECompleted
            [(''test_result'', ''Failed''), (''issue_type'', ''Root Cause''), (''message'', rc_actual (admission_cause err))])
          (returnM (SandboxRootCause \<lparr>sr_execution_id = au_execution_id auth, sr_sandbox_id = None,
             sr_root_cause = admission_cause err, sr_evidence = None, sr_help_request = None, sr_research_request = None\<rparr>))
      | Inr admission \<Rightarrow> run_admitted sh cs (HardenedProcessRunner ho) input runId auth) s5 = (Inr (SandboxPassed sp), s')"
    unfolding service_execute_def Let_def by (elim bindM_Inr_elim thenM_Inr_elim) blast
  have c1: "children (snd s1) = children (snd s)"
    using p(1) by (auto dest!: k(1) simp: run_id_of_def Let_def returnM_apply elim!: bindM_Inr_elim split: if_splits option.splits)
  have verify: "children (snd (verifySandboxAdmission (sh_json sh) input (Some cs) w)) = children w" for w
    using q by (auto simp: quiet_sandbox_def verifySandboxAdmission_def Let_def bindM_apply throwM_apply returnM_apply split: prod.split sum.split)
      (metis snd_conv)+
  have ev: "children (snd (snd (sandbox_ev sh r n st d t))) = children (snd t)" for r n st d t
    using k(4) by (metis prod.collapse)
  have adm5: "children (snd s5) = children (snd s4)"
  proof -
    obtain y t where y: "on_host (verifySandboxAdmission (sh_json sh) input (Some cs)) s4 = (y, t)" by (rule prod.exhaust)
    then have "children (snd t) = children (snd s4)" using verify by (auto simp: on_host_iff) (metis snd_conv)
    with a y k(4) show ?thesis
      by (auto simp: try_admission_def try_catch_apply bindM_apply thenM_apply returnM_apply split: prod.splits sum.splits if_splits)
  qed
  have s5: "children (snd s5) = children (snd s)"
    using c1 k(1) [OF p(2)] e k(4) adm5 by metis
  show ?thesis
  proof (cases adm)
    case (Inl err)
    with rest show ?thesis by (auto elim!: thenM_Inr_elim simp: returnM_apply)
  next
    case (Inr admission)
    with rest run_admitted_trace [OF h q] obtain path rr w w' ends where
      x: "executed ho children path (cc_plan (core (si_package input))) auth w rr w' ends" "rn_condition rr \<noteq> Some CdTimeout"
        "rn_condition rr \<noteq> Some CdResourceExhausted" "rn_condition rr \<noteq> Some CdFailure"
      and c: "children w = children (snd s5)" "children (snd s') = children w'" by (simp, meson)
    from executed_all [OF x] c s5 show ?thesis by auto
  qed
qed

section \<open>Properties\<close>

text \<open>
  C31.  Whatever the environment holds, the default authorization limits an
  execution: at least one second, one megabyte, one process, one byte of output,
  one changed file and one written byte, and a tenth of a processor, unless the
  processor share is no number at all; the allowlist has no empty name.
\<close>

theorem authorization_bounds:
  "let a = loadDefaultAuthorization env uuid in
    1 \<le> timeout_seconds a \<and> 1 \<le> memory_limit_mb a \<and> 1 \<le> pid_limit a \<and> 1 \<le> max_output_bytes a \<and>
    1 \<le> max_files_changed a \<and> 1 \<le> max_total_bytes_written a \<and>
    cpu_limit a \<in> {None} \<union> Some ` {1 / 10..} \<and> '''' \<notin> set (environment_allowlist a)"
proof -
  have pos: "1 \<le> positiveInt v d" if "1 \<le> d" for v d
    using that by (auto simp: positiveInt_def Ints_def split: option.split)
  show ?thesis unfolding Let_def loadDefaultAuthorization_def
    by (cases "Number (env_or env ''SANDBOX_CPU_LIMIT'' ''1.0'')") (simp_all add: pos)
qed

text \<open>
  C32.  What a passed execution guarantees.  The package was confirmed and its
  hash, recomputed, is the one handed over; the runner was called with exactly
  the package's plan, ran into no limit, and every exit code it reports is zero;
  the sandbox's own hash of the package equals the handed-over hash; and the
  evidence returned is the one kept for the run, with the runner's commands, exit
  codes and changes.
\<close>

theorem sandbox_passed_sound:
  assumes "service_execute sh cs runner input s = (Inr (SandboxPassed r), s')"
  shows "admitted cs input \<and> hash_sandbox r = si_hash input \<and>
    produced (cs_createHash cs (core (si_package input))) (hash_sandbox r) \<and>
    (\<exists>runId. getEvidence runId s' = Some (sp_evidence r)) \<and>
    (\<exists>sid path auth rr. produced (sr_execute runner sid path (cc_plan (core (si_package input))) auth) rr \<and>
      rn_condition rr \<notin> {Some CdTimeout, Some CdResourceExhausted, Some CdFailure} \<and>
      (\<forall>c\<in>set (rn_exit_codes rr). c = 0) \<and> ex_commands (sp_evidence r) = rn_commands rr \<and>
      ex_exit_codes (sp_evidence r) = rn_exit_codes rr \<and> ex_file_changes (sp_evidence r) = rn_file_changes rr)"
  by (rule sandbox_execution_facts [OF assms])

text \<open>
  C33.  No execution without admission.  When the package is not confirmed, its
  hash malformed, or the recomputed hash can never be the handed-over one, an
  execution that returns is refused: no sandbox, no evidence, the memory of
  evidence unchanged, and the same result and world whatever the runner is, since
  it is not called.
\<close>

theorem admission_gates_runner:
  assumes "service_execute sh cs runner input s = (Inr result, s')" and "\<not> admitted cs input"
  shows "(\<exists>r. result = SandboxRootCause r \<and> sr_evidence r = None \<and> sr_sandbox_id r = None) \<and> fst s' = fst s \<and>
    (\<forall>runner'. service_execute sh cs runner' input s = (Inr result, s'))"
  using assms(1) by (cases rule: service_execute_cases) (use assms(2) in auto)

text \<open>
  C34.  The Builder's output is what the plan carries.  An output is returned only
  for a passed execution, and then it is the decoded text of the first step whose
  responsibility is \<open>BuilderOutput\<close>, which ran with exit code zero: encoding the
  output gives back that step's description after its prefix.
\<close>

theorem builder_output_sound:
  assumes "final_output (builder_result codec p result) = Some out"
  shows "\<exists>r i. result = SandboxPassed r \<and>
    find_index (\<lambda>s. responsibility s = ''BuilderOutput'') (steps p) = Some i \<and>
    i < length (ex_exit_codes (sp_evidence r)) \<and> ex_exit_codes (sp_evidence r) ! i = 0 \<and>
    step_description (steps p ! i) = BUILDER_OUTPUT_PREFIX @ to_base64 codec out"
proof -
  have strip: "s = pre @ rest" if "strip_prefix pre s = Some rest" for pre s rest
    using that by (auto simp: strip_prefix_def split: if_splits) (metis append_take_drop_id)
  from assms obtain sid where "builder_output codec p result = Some (out, sid)"
    by (auto simp: builder_result_def split: option.splits)
  then show ?thesis
    by (auto simp: builder_output_def Let_def split: SandboxExecutionResult.splits option.splits if_splits dest: strip)
qed

text \<open>
  A runner's verdict \<open>denied\<close> is none of the failure conditions: with no exit code
  the execution passes.  (No runner of the repository returns it.)
\<close>

lemma denied_passes:
  assumes "rn_condition rr = Some CdDenied" and "rn_exit_codes rr = []" and "h = si_hash input"
  shows "\<exists>r. execution_verdict input auth sid rr h ev = SandboxPassed r"
  using assms by (simp add: execution_verdict_def)

section \<open>Witnesses\<close>

definition hex_hash :: string where
  "hex_hash = replicate 64 CHR ''a''"

definition hex_contracts :: "'w contract_skill" where
  "hex_contracts = \<lparr>cs_validate = (\<lambda>_. returnM ()), cs_validateReferences = (\<lambda>_. returnM ()),
     cs_createHash = (\<lambda>_. returnM hex_hash),
     cs_verifyHash = (\<lambda>_ h. returnM \<lparr>canonicalization_id = ''oneshot-jcs-rfc8785-v1'',
       algorithm = ''sha256'', created_hash = h, recomputed_hash = hex_hash, equal_proof = (h = hex_hash)\<rparr>)\<rparr>"

definition sample_sandbox :: "'w sandbox_host" where
  "sample_sandbox = \<lparr>sh_env = [], sh_uuid = (\<lambda>w. (''u'', w)), sh_nowIso = (\<lambda>w. (''t'', w)),
     sh_mkdir = (\<lambda>_. returnM ()), sh_emit = (\<lambda>_ _ _ _. returnM ()), sh_json = (\<lambda>_. ''{}''), sh_root = ''/sb''\<rparr>"

definition sample_triple :: TripleValidation where
  "sample_triple = \<lparr>tv_plan_id = ''plan:run'', tv_validation_id = ''v'',
     schema_validation = \<lparr>sv_plan_id = ''plan:run'', sv_schema_id = ''s'', sv_result = Passed, sv_evidence = []\<rparr>,
     fixture_validation = \<lparr>fv_plan_id = ''plan:run'', fv_fixture_id = ''f'', assertion_results = [],
       fv_result = Passed, fv_evidence = []\<rparr>,
     goal_validation = \<lparr>gv_plan_id = ''plan:run'', gv_goal_id = ''g'', criterion_results = [],
       gv_result = Passed, gv_evidence = []\<rparr>, all_valid = True\<rparr>"

definition sample_package :: ConfirmedPackage where
  "sample_package = \<lparr>confirmed = True, core =
     \<lparr>cc_researcher = researcher sample_bundle, cc_plan = sample_run_plan,
      cc_schema_artifact = schema_artifact sample_bundle, cc_fixture = fixture sample_bundle,
      cc_goal = goal sample_bundle, cc_validation = validation sample_bundle,
      cc_audit = \<lparr>audit_id = ''a'', au_researcher_id = ''r'', au_plan_id = ''plan:run'', reviewed_areas = [], findings = []\<rparr>,
      cc_gap_analysis = \<lparr>ga_plan_id = ''plan:run'', ga_result = Passed, resolved_gaps = [], gap_0 = True,
        ga_issue_type = None, ga_root_cause = None\<rparr>,
      cc_evaluation = \<lparr>el_plan_id = ''plan:run'', el_result = Passed, el_evidence = [], el_issue_type = None,
        el_root_cause = None\<rparr>,
      cc_triple_validation = sample_triple\<rparr>\<rparr>"

definition sample_input :: "string \<Rightarrow> SandboxExecutionInput" where
  "sample_input h = \<lparr>si_package = sample_package, si_hash = h, execution_authorization = None\<rparr>"

lemma sandbox_passed_sound_witness:
  "\<exists>r s'. service_execute sample_sandbox hex_contracts (HardenedProcessRunner sample_host)
     (sample_input hex_hash) ([], 0) = (Inr (SandboxPassed r), s') \<and> hash_sandbox r = hex_hash"
proof -
  have "case service_execute sample_sandbox hex_contracts (HardenedProcessRunner sample_host)
     (sample_input hex_hash) ([], 0) of (Inr (SandboxPassed r), s') \<Rightarrow> True | _ \<Rightarrow> False"
    by code_simp
  then obtain r s' where run: "service_execute sample_sandbox hex_contracts (HardenedProcessRunner sample_host)
     (sample_input hex_hash) ([], 0) = (Inr (SandboxPassed r), s')"
    by (auto split: prod.splits sum.splits SandboxExecutionResult.splits)
  from sandbox_passed_sound [OF run] have "hash_sandbox r = hex_hash" by (simp add: sample_input_def)
  with run show ?thesis by blast
qed

lemma admission_gates_runner_witness:
  "\<exists>r s'. service_execute sample_sandbox hex_contracts (HardenedProcessRunner sample_host)
     (sample_input ''short'') ([], 0) = (Inr (SandboxRootCause r), s') \<and> sr_evidence r = None \<and> fst s' = []"
proof -
  have "case service_execute sample_sandbox hex_contracts (HardenedProcessRunner sample_host)
     (sample_input ''short'') ([], 0) of (r, s') \<Rightarrow> \<not> isl r"
    by code_simp
  then obtain result s' where run: "service_execute sample_sandbox hex_contracts (HardenedProcessRunner sample_host)
     (sample_input ''short'') ([], 0) = (Inr result, s')"
    by (cases "fst (service_execute sample_sandbox hex_contracts (HardenedProcessRunner sample_host)
      (sample_input ''short'') ([], 0))") (auto simp: prod_eq_iff)
  have "\<not> admitted hex_contracts (sample_input ''short'')"
    by (simp add: admitted_def is_sha256_hex_def sample_input_def)
  from admission_gates_runner [OF run this] run show ?thesis by auto
qed

definition plain_codec :: text_codec where
  "plain_codec = \<lparr>from_base64 = id, to_base64 = id\<rparr>"

definition output_plan :: Plan where
  "output_plan = sample_run_plan\<lparr>steps := [sample_step\<lparr>responsibility := ''BuilderOutput'',
     step_description := BUILDER_OUTPUT_PREFIX @ ''aGk=''\<rparr>]\<rparr>"

definition output_result :: SandboxExecutionResult where
  "output_result = SandboxPassed \<lparr>sp_execution_id = ''x'', sp_sandbox_id = ''sb'', sp_evidence =
     evidence_of (sample_input hex_hash) sample_authorization ''sb'' ''t0'' ''t1''
       \<lparr>rn_commands = [''c''], rn_exit_codes = [0], stdout_lines = [], stderr_lines = [], rn_file_changes = [],
        rn_bytes_written = 0, rn_resource_usage = \<lparr>duration_ms = 1, peak_memory_mb = None, cpu_time_ms = None\<rparr>,
        rn_timeout_evidence = None, rn_environment_allowlist_used = [], rn_network_policy_used = ''DENY_ALL'',
        rn_cleanup_result = \<lparr>workspace_cleaned = False, processes_terminated = True\<rparr>,
        rn_condition = Some CdSuccess\<rparr> hex_hash, hash_sandbox = hex_hash\<rparr>"

lemma builder_output_sound_witness:
  "final_output (builder_result plain_codec output_plan output_result) = Some ''aGk='' \<and>
   step_description (steps output_plan ! 0) = BUILDER_OUTPUT_PREFIX @ ''aGk=''"
proof -
  have out: "final_output (builder_result plain_codec output_plan output_result) = Some ''aGk=''" by code_simp
  from builder_output_sound [OF out] have "step_description (steps output_plan ! 0) = BUILDER_OUTPUT_PREFIX @ ''aGk=''"
    by (auto simp: output_plan_def plain_codec_def)
  with out show ?thesis ..
qed

end
