(* ===== verification/Governed_Build.thy ===== *)
theory Governed_Build
  imports Canonical_Workflow Sandbox_Service
begin

text \<open>
  The in-process workflow with its Builder: the wiring of
  \<open>backend/workflow/strands/dependencies.ts\<close>, where the workflow's builder is
  \<open>BuilderWorkflow\<close> over the sandbox service and its process runner.
\<close>

definition governed_agents ::
  "'w service workflow_agents \<Rightarrow> 'w sandbox_host \<Rightarrow> 'w contract_skill \<Rightarrow> 'w host \<Rightarrow> text_codec \<Rightarrow>
     'w service workflow_agents" where
  "governed_agents ag sh cs ho codec = ag\<lparr>wa_builder := builder_run sh cs (HardenedProcessRunner ho) codec\<rparr>"

text \<open>
  What was executed: the commands of all steps of the package's plan, each with
  exit code zero, under some authorization whose limits the changes respect.
\<close>

definition plan_executed :: "ConfirmedPackage \<Rightarrow> ExecutionEvidence \<Rightarrow> bool" where
  "plan_executed package ev \<longleftrightarrow> (let p = cc_plan (core package) in
     ex_commands ev = map tk_cmd (map task_of (steps p)) \<and> ex_exit_codes ev = replicate (length (steps p)) 0 \<and>
     distinct (map fc_path (ex_file_changes ev)))"

lemma builder_executed:
  assumes "host_logs ho children" and "produced (builder_run sh cs (HardenedProcessRunner ho) codec package h) br"
    and "bw_result br = SandboxPassed sp"
  shows "plan_executed package (sp_evidence sp) \<and> hash_sandbox sp = h \<and>
    admitted cs \<lparr>si_package = package, si_hash = h, execution_authorization = None\<rparr>"
proof -
  let ?in = "\<lparr>si_package = package, si_hash = h, execution_authorization = None\<rparr>"
  from assms(2,3) obtain s s' where run: "service_execute sh cs (HardenedProcessRunner ho) ?in s = (Inr (SandboxPassed sp), s')"
    by (auto simp: produced_def builder_run_def builder_result_def returnM_apply elim!: bindM_Inr_elim
        split: option.splits)
  from sandbox_execution_facts [OF run] obtain sid path auth rr where
    rr: "produced (sr_execute (HardenedProcessRunner ho) sid path (cc_plan (core package)) auth) rr"
      "rn_condition rr \<notin> {Some CdTimeout, Some CdResourceExhausted, Some CdFailure}"
      "ex_commands (sp_evidence sp) = rn_commands rr" "ex_exit_codes (sp_evidence sp) = rn_exit_codes rr"
      "ex_file_changes (sp_evidence sp) = rn_file_changes rr"
    and m: "admitted cs ?in" "hash_sandbox sp = h"
    by auto
  from rr(1) obtain w w' where "runner_execute ho sid path (cc_plan (core package)) auth w = (Inr rr, w')"
    by (auto simp: produced_def HardenedProcessRunner_def)
  from runner_execute_trace [OF assms(1) this] obtain ends where
    e: "executed ho children path (cc_plan (core package)) auth w rr w' ends" by blast
  with rr(2) have "ends_verdict (length (steps (cc_plan (core package)))) ends \<notin> {CdTimeout, CdFailure}"
    by (auto simp: executed_def Let_def split: if_splits)
  then have "list_all ended_well ends" "length ends = length (steps (cc_plan (core package)))"
    by (auto simp: ends_verdict_def split: if_splits)
  moreover from this have "map end_code ends = replicate (length (steps (cc_plan (core package)))) 0"
    by (intro replicate_eqI) (auto simp: list_all_iff ended_well_iff)
  moreover have "distinct (map fc_path (rn_file_changes rr))"
    using e by (auto simp: executed_def Let_def workspace_files_def dest!: distinct_watched)
      (metis fst_conv ledger_distinct)
  ultimately show ?thesis using e rr m by (auto simp: plan_executed_def executed_def Let_def)
qed

section \<open>The children of a whole run\<close>

text \<open>Effects of the workflow may spawn what they like beside the sandbox: what was spawned stays.\<close>

definition adds :: "('w \<Rightarrow> child_log) \<Rightarrow> ('w service, js_error, 'a) eff \<Rightarrow> bool" where
  "adds children m \<longleftrightarrow> (\<forall>u. prefix (children (snd u)) (children (snd (snd (m u)))))"

definition workflow_adds :: "('w \<Rightarrow> child_log) \<Rightarrow> 'w service workflow_agents \<Rightarrow> 'w service WorkflowEffects \<Rightarrow> bool" where
  "workflow_adds children ag fx \<longleftrightarrow> (\<forall>r n st d. adds children (fx_event fx r n st d)) \<and>
     (\<forall>r n v. adds children (fx_save fx r n v)) \<and> (\<forall>r pf. adds children (fx_finishPassed fx r pf)) \<and>
     (\<forall>d. adds children (cs_validate (wa_contracts ag) d))"

abbreviation spawned_so_far :: "('w \<Rightarrow> child_log) \<Rightarrow> child_log \<Rightarrow> 'w service workflow \<Rightarrow> bool" where
  "spawned_so_far children l s \<equiv> prefix l (children (snd (snd s)))"

lemma adds_keeps: "adds children m \<Longrightarrow> keepsM (spawned_so_far children l) (on_world m)"
  by (auto simp: keepsM_def adds_def on_world_def split: prod.splits) (metis prefix_order.trans snd_conv)

lemma state_keeps: "keepsM (spawned_so_far children l) (get_state f)" "keepsM (spawned_so_far children l) (require_state k g)"
  "keepsM (spawned_so_far children l) (set_state d)"
  by (auto simp: keepsM_def get_state_def require_state_def set_state_def split: option.splits)

lemma cases_keep:
  "keepsM P m \<Longrightarrow> keepsM P n \<Longrightarrow> keepsM P (if b then m else n)"
  "(\<And>x. keepsM P (f x)) \<Longrightarrow> (\<And>x. keepsM P (g x)) \<Longrightarrow>
    keepsM P (case r of SandboxPassed x \<Rightarrow> f x | SandboxRootCause x \<Rightarrow> g x)"
  by (simp_all split: SandboxExecutionResult.split)

lemma last_nodes_keep:
  assumes "workflow_adds children ag fx" and "canonical_node_run ag fx n s (Inr (), s')" and "n = NHash"
    and "spawned_so_far children l s"
  shows "spawned_so_far children l s'"
proof -
  note a = assms(1) [unfolded workflow_adds_def]
  have v: "adds children (hash_proof_of (wa_contracts ag) x y)" for x y
    using a by (simp add: adds_def hash_proof_of_def Let_def thenM_apply returnM_apply split: prod.split sum.split)
      (metis prod.collapse snd_conv)
  have e: "keepsM (spawned_so_far children l) (event fx r m st d)" "keepsM (spawned_so_far children l) (save fx r m x)" for r m st d x
    unfolding event_def save_def using a by (auto intro!: adds_keeps)
  have "keepsM (spawned_so_far children l) (stage_handle False (stage_hash ag fx))"
    unfolding stage_handle_def stage_hash_def run_accessors no_delta_def
    by (intro cases_keep keepsM_bind keepsM_then keepsM_return e state_keeps adds_keeps v)
  from keepsMD [OF this assms(4)] assms(2,3) show ?thesis by (simp add: stage_run_def)
qed

lemma builder_node_run:
  assumes a: "workflow_adds children ag fx" and b: "canonical_node_run ag fx NBuilder s (Inr (), s')"
    and r: "ws_rootCause (fst s) = None"
  shows "\<exists>c h u v br. ws_confirmed (fst s) = Some c \<and> ws_createdHash (fst s) = Some h \<and> wa_builder ag c h u = (Inr br, v) \<and>
    fst s' = builder_delta br (fst s) \<and> spawned_so_far children (children (snd v)) s'"
proof -
  note a = a [unfolded workflow_adds_def adds_def]
  obtain t w where s: "s = (t, w)" by (rule prod.exhaust)
  obtain t' w' where s': "s' = (t', w')" by (rule prod.exhaust)
  have "\<exists>rid c h u br v w1 p d. ws_confirmed t = Some c \<and> ws_createdHash t = Some h \<and> wa_builder ag c h u = (Inr br, v) \<and>
      t' = builder_delta br t \<and> fx_save fx rid ''builder-result'' (SvBuilder br) v = (Inr p, w1) \<and>
      fx_event fx rid ''Builder'' ECompleted d w1 = (Inr (), w')"
    using b r unfolding s s' by (simp add: stage_run_def stage_builder_def run_accessors node_simps del: split_paired_Ex) blast
  then obtain rid c h u br v w1 p where
    x: "ws_confirmed t = Some c" "ws_createdHash t = Some h" "wa_builder ag c h u = (Inr br, v)" "t' = builder_delta br t"
      "fx_save fx rid ''builder-result'' (SvBuilder br) v = (Inr p, w1)"
      "\<exists>d. fx_event fx rid ''Builder'' ECompleted d w1 = (Inr (), w')" by blast
  have "prefix (children (snd v)) (children (snd w1))" using a x(5) by (metis snd_conv)
  also have "prefix (children (snd w1)) (children (snd w'))" using a x(6) by (metis snd_conv)
  finally have "prefix (children (snd v)) (children (snd w'))" .
  with x(1-4) show ?thesis unfolding s s' fst_conv snd_conv by blast
qed

text \<open>
  C35.  A run that passes was really built.  When an execution of the workflow
  with the governed builder returns without root cause, then among the children that
  were spawned there is, in one piece, the command of every step of the confirmed plan, in
  order, and each ended well: with exit code zero, or without one by a signal, which the
  runner counts as zero.  The evidence says so, the three validators accepted the package,
  and its hash is the one that was created at its confirmation, recomputed at the
  admission and recomputed by the sandbox.
\<close>

theorem passed_run_was_built:
  assumes "canonical_run (governed_agents ag sh cs ho codec) fx ws s (Inr (), s')" and "ws_rootCause (fst s') = None"
    and "host_logs ho children" and "quiet_sandbox children sh cs"
    and "workflow_adds children (governed_agents ag sh cs ho codec) fx"
  shows "verified_run (governed_agents ag sh cs ho codec) (fst s') \<and>
    (\<exists>package br sp kids earlier later. ws_confirmed (fst s') = Some package \<and> ws_createdHash (fst s') = Some (hash_sandbox sp) \<and>
      produced (builder_run sh cs (HardenedProcessRunner ho) codec package (hash_sandbox sp)) br \<and>
      bw_result br = SandboxPassed sp \<and> plan_executed package (sp_evidence sp) \<and>
      admitted cs \<lparr>si_package = package, si_hash = hash_sandbox sp, execution_authorization = None\<rparr> \<and>
      all_steps_ran (cc_plan (core package)) kids \<and> children (snd (snd s')) = earlier @ kids @ later)"
  using assms(1)
proof (rule canonical_run_nodes)
  let ?ag = "governed_agents ag sh cs ho codec"
  fix s8 s9 s10 s11 s12 s13
  assume b: "canonical_node_run ?ag fx NBuilder s11 (Inr (), s12)"
    and hn: "canonical_node_run ?ag fx NHash s12 (Inr (), s13)" and d: "canonical_node_run ?ag fx NDone s13 (Inr (), s')"
  from done_node [OF d] assms(2) obtain r pf where fin: "fst s' = fst s13" "fx_finishPassed fx r pf (snd s13) = (Inr (), snd s')"
    by auto
  have r12: "ws_rootCause (fst s12) = None" and r11: "ws_rootCause (fst s11) = None"
    using canonical_node_root [OF hn] canonical_node_root [OF b] fin(1) assms(2) by simp_all
  from builder_node_run [OF assms(5) b r11] obtain c h u v br where
    n: "ws_confirmed (fst s11) = Some c" "ws_createdHash (fst s11) = Some h" "wa_builder ?ag c h u = (Inr br, v)"
      "fst s12 = builder_delta br (fst s11)" "prefix (children (snd v)) (children (snd (snd s12)))" by blast
  from n(4) r12 obtain sp where sp: "bw_result br = SandboxPassed sp"
    by (cases "bw_result br") (auto simp: builder_delta_def rootCauseDelta_def)
  from n(3) have br: "builder_run sh cs (HardenedProcessRunner ho) codec c h u = (Inr br, v)" by (simp add: governed_agents_def)
  then have pr: "produced (builder_run sh cs (HardenedProcessRunner ho) codec c h) br" by (rule producedI)
  from br sp obtain t where "service_execute sh cs (HardenedProcessRunner ho)
      \<lparr>si_package = c, si_hash = h, execution_authorization = None\<rparr> u = (Inr (SandboxPassed sp), v)"
    by (auto simp: builder_run_def builder_result_def returnM_apply elim!: bindM_Inr_elim split: option.splits)
  from service_trace [OF assms(3,4) this] obtain kids where
    kids: "all_steps_ran (cc_plan (core c)) kids" "children (snd v) = children (snd u) @ kids" by auto
  have "prefix (children (snd v)) (children (snd (snd s13)))" by (rule last_nodes_keep [OF assms(5) hn refl n(5)])
  also have "prefix (children (snd (snd s13))) (children (snd (snd s')))"
    using assms(5) fin(2) unfolding workflow_adds_def adds_def by (metis snd_conv)
  finally obtain later where l: "children (snd (snd s')) = children (snd u) @ kids @ later" using kids(2) by (auto simp: prefix_def)
  have st: "ws_confirmed (fst s') = Some c" "ws_createdHash (fst s') = Some h"
  proof -
    have "ws_confirmed (fst s12) = Some c" "ws_createdHash (fst s12) = Some h" "ws_builderResult (fst s12) = Some br"
      using n sp by (simp_all add: builder_delta_def)
    with hash_ok [OF hn r12 _ sp] fin(1) show "ws_confirmed (fst s') = Some c" "ws_createdHash (fst s') = Some h"
      by (auto simp: hash_delta_def rootCauseDelta_def)
  qed
  from builder_executed [OF assms(3) pr sp] have x: "plan_executed c (sp_evidence sp)" "hash_sandbox sp = h"
    "admitted cs \<lparr>si_package = c, si_hash = h, execution_authorization = None\<rparr>" by simp_all
  show ?thesis
    using canonical_run_verified [OF assms(1,2)] st pr sp x kids(1) l by blast
qed

text \<open>The sample workflow over a host that remembers its children, which all succeed.\<close>

definition obedient_host :: "(int \<times> child_log) host" where
  "obedient_host = logging_host\<lparr>ho_spawn := (\<lambda>c env wd _ (n, l).
     (\<lparr>cr_end = ChClosed (Some 0), cr_stdout = [], cr_stderr = []\<rparr>, (n, l @ [(c, env, wd, ChClosed (Some 0))])))\<rparr>"

definition governed_builder :: "(int \<times> child_log) service builder" where
  "governed_builder = builder_run sample_sandbox hex_contracts (HardenedProcessRunner obedient_host) plain_codec"

lemma governed_sample: "governed_agents (sample_agents bd) sample_sandbox hex_contracts obedient_host plain_codec =
  sample_agents governed_builder"
  by (simp add: governed_agents_def sample_agents_def governed_builder_def)

lemma governed_hosts:
  "host_logs obedient_host snd" "quiet_sandbox snd sample_sandbox hex_contracts"
  "workflow_adds snd (governed_agents (sample_agents bd) sample_sandbox hex_contracts obedient_host plain_codec) silent_effects"
  by (auto simp: host_logs_def obedient_host_def logging_host_def returnM_def quiet_sandbox_def sample_sandbox_def hex_contracts_def
      workflow_adds_def adds_def silent_effects_def governed_agents_def sample_agents_def accepting_contracts_def)

lemma passed_run_was_built_witness:
  "\<exists>ws s' package kids earlier later. canonical_run (sample_agents governed_builder) silent_effects ws
      (sample_start ([], (0, []))) (Inr (), s') \<and>
    ws_confirmed (fst s') = Some package \<and> all_steps_ran (cc_plan (core package)) kids \<and> snd (snd (snd s')) = earlier @ kids @ later"
proof -
  let ?ns = "[NResearchReviewGate, NPlanner, NRefactor, NGapAnalysis, NEvaluation, NTripleValidation,
    NConfirmed, NCreateHash, NBuildReadyGate, NBuilder, NHash, NDone]"
  let ?x = "sample_chain governed_builder (NResearcher # ?ns) (sample_start ([], (0, [])))"
  have "case ?x of (r, s) \<Rightarrow> \<not> isl r \<and> ws_rootCause (fst s) = None" by code_simp
  then obtain s' where c: "?x = (Inr (), s')" and r: "ws_rootCause (fst s') = None"
    by (cases "fst ?x") (auto simp: case_prod_beta prod_eq_iff simp del: sample_chain.simps)
  from sample_chain_from [OF c] obtain ws where
    run: "canonical_run (sample_agents governed_builder) silent_effects ws (sample_start ([], (0, []))) (Inr (), s')"
    unfolding canonical_run_def by auto
  from passed_run_was_built [OF run [folded governed_sample [of undefined]] r governed_hosts] run show ?thesis by blast
qed

end
