(* ===== verification/Task_History.thy ===== *)
theory Task_History
  imports Event_Log Disk_Files
begin

text \<open>
  Task management, \<open>backend/task\<close>: the ordering guard (\<open>guard/ordering.ts\<close>), the
  checkpoint store (\<open>checkpoint/checkpoint-store.ts\<close>), the run and audit projections
  and the facade over them (\<open>task-management.ts\<close>).
\<close>

section \<open>Ordering guard\<close>

definition CANONICAL_PROCESSORS :: "string list" where
  "CANONICAL_PROCESSORS = [''Researcher'', ''Planner'', ''Refactor'', ''GapAnalysis'', ''Evaluation'',
     ''SchemaValidation'', ''FixtureValidation'', ''GoalValidation'', ''TripleValidation'', ''Confirmed'',
     ''CreateHash'', ''Builder'', ''Hash'', ''Done'']"

definition canonical_index :: "string \<Rightarrow> nat option" where
  "canonical_index p = find_index (\<lambda>x. x = p) CANONICAL_PROCESSORS"

record OrderingIssue =
  oi_sequence :: nat
  oi_processor :: string
  oi_issue :: string

definition validators :: "string list" where
  "validators = [''SchemaValidation'', ''FixtureValidation'', ''GoalValidation'']"

definition repeatable :: "string list" where
  "repeatable = [''GapAnalysis'', ''Evaluation'', ''SchemaValidation'', ''FixtureValidation'', ''GoalValidation'',
     ''TripleValidation'']"

definition ordering_issue :: "ProcessingEvent \<Rightarrow> string \<Rightarrow> OrderingIssue" where
  "ordering_issue e msg = \<lparr>oi_sequence = sequence e, oi_processor = processor e, oi_issue = msg\<rparr>"

text \<open>The messages about processors that should have completed before, for the processor at index \<open>i > 0\<close>.\<close>

definition missing_before :: "string set \<Rightarrow> string \<Rightarrow> nat \<Rightarrow> string list" where
  "missing_before completed p i =
     (if p \<in> set validators then
        (if ''Evaluation'' \<notin> completed then [''validator completed before Evaluation''] else [])
      else if p = ''TripleValidation'' then
        map (\<lambda>v. ''TripleValidation completed before '' @ v) (filter (\<lambda>v. v \<notin> completed) validators)
      else if p = ''Confirmed'' then
        (if ''TripleValidation'' \<notin> completed then [''Confirmed completed before TripleValidation''] else [])
      else (let prev = CANONICAL_PROCESSORS ! (i - 1) in
        if prev \<notin> completed then [''completed before '' @ prev] else []))"

text \<open>One turn of the loop: the issues it pushes, and \<open>completed\<close> after it.\<close>

definition event_issues :: "string set \<Rightarrow> ProcessingEvent \<Rightarrow> string list" where
  "event_issues completed e = (let p = processor e in
     (if p \<in> completed \<and> p \<notin> set repeatable then [''duplicate completion''] else []) @
     (case canonical_index p of
        None \<Rightarrow> [''unknown canonical processor'']
      | Some i \<Rightarrow>
          if p = ''Done'' \<and> test_result e = Some Failed then []
          else if i > 0 then missing_before completed p i else []))"

definition ordering_step :: "ProcessingEvent \<Rightarrow> OrderingIssue list \<times> string set \<Rightarrow> OrderingIssue list \<times> string set" where
  "ordering_step e acc = (case acc of (issues, completed) \<Rightarrow>
     (issues @ map (ordering_issue e) (event_issues completed e),
      if canonical_index (processor e) = None then completed else insert (processor e) completed))"

definition completions :: "ProcessingEvent list \<Rightarrow> ProcessingEvent list" where
  "completions events = filter (\<lambda>x. scope x = WORKFLOW \<and> execution_status x = ECompleted) events"

definition detectOrderingIssues :: "ProcessingEvent list \<Rightarrow> OrderingIssue list" where
  "detectOrderingIssues events = fst (fold ordering_step (completions events) ([], {}))"

section \<open>Checkpoint store\<close>

record TaskCheckpoint =
  tc_run_id :: string
  tc_event_sequence :: nat
  tc_last_processor :: string
  tc_next_processor :: "string option"
  tc_scope :: ProcessingScope
  tc_artifacts :: "(string \<times> string) list"
  tc_updated_at :: string

definition checkpoint_path :: "string \<Rightarrow> string \<Rightarrow> string" where
  "checkpoint_path dir runId = dir @ ''/'' @ safeRunId runId @ ''.json''"

definition next_processor :: "string \<Rightarrow> string option" where
  "next_processor p = (case canonical_index p of
      None \<Rightarrow> None
    | Some i \<Rightarrow> if i + 1 < length CANONICAL_PROCESSORS then Some (CANONICAL_PROCESSORS ! (i + 1)) else None)"

definition checkpoint_of :: "ProcessingEvent \<Rightarrow> RunSnapshot \<Rightarrow> TaskCheckpoint" where
  "checkpoint_of event snapshot = \<lparr>tc_run_id = run_id event, tc_event_sequence = sequence event,
     tc_last_processor = processor event, tc_next_processor = next_processor (processor event),
     tc_scope = scope event, tc_artifacts = artifacts snapshot, tc_updated_at = created_at event\<rparr>"

text \<open>The write's errors are swallowed, those of \<open>mkdirSync\<close> are not.\<close>

definition checkpoint_update ::
  "string \<Rightarrow> string \<Rightarrow> ProcessingEvent \<Rightarrow> RunSnapshot \<Rightarrow> (TaskCheckpoint, TaskCheckpoint option) fs_call" where
  "checkpoint_update dir uniq event snapshot =
     (if scope event \<noteq> WORKFLOW \<or> execution_status event \<noteq> ECompleted then returnM None
      else (let cp = checkpoint_of event snapshot in
        thenM mkdirSync
        (thenM (catchM (write_replacing (checkpoint_path dir (run_id event)) uniq cp) (\<lambda>_. returnM ()))
          (returnM (Some cp)))))"

definition checkpoint_get :: "string \<Rightarrow> string \<Rightarrow> (TaskCheckpoint, TaskCheckpoint option) fs_call" where
  "checkpoint_get dir runId d =
     (if \<not> existsSync d (checkpoint_path dir runId) then (Inr None, d)
      else catchM (bindM (readJson (checkpoint_path dir runId)) (\<lambda>cp. returnM (Some cp))) (\<lambda>_. returnM None) d)"

section \<open>Projections\<close>

record TaskRun =
  tr_run_id :: string
  tr_pipeline_status :: "PipelineStatus option"
  tr_test_result :: "TestResult option"
  tr_issue_type :: "IssueType option"
  tr_current_processor :: "string option"
  tr_event_count :: nat
  tr_checkpoint :: "TaskCheckpoint option"
  tr_workflow :: "ProcessingEvent list"
  tr_support :: "ProcessingEvent list"
  tr_artifacts :: "(string \<times> string) list"
  tr_hash_proof :: "HashProof option"
  tr_root_cause :: "RootCause option"
  tr_help_request :: "HelpRequest option"

definition latest_events :: "ProcessingEvent list \<Rightarrow> ProcessingEvent list" where
  "latest_events events = map_values (map_from (\<lambda>e. ProcessingScope_str (scope e) @ '':'' @ processor e) events)"

definition projectTaskRun ::
  "string \<Rightarrow> ProcessingEvent list \<Rightarrow> TaskCheckpoint option \<Rightarrow> RunSnapshot option \<Rightarrow> TaskRun" where
  "projectTaskRun runId events checkpoint snapshot = \<lparr>tr_run_id = runId,
     tr_pipeline_status = map_option pipeline_status snapshot,
     tr_test_result = Option.bind snapshot rs_test_result,
     tr_issue_type = Option.bind snapshot rs_issue_type,
     tr_current_processor = Option.bind snapshot current_processor,
     tr_event_count = length events, tr_checkpoint = checkpoint,
     tr_workflow = filter (\<lambda>e. scope e = WORKFLOW) (latest_events events),
     tr_support = filter (\<lambda>e. scope e = SUPPORT) (latest_events events),
     tr_artifacts = (case snapshot of None \<Rightarrow> [] | Some s \<Rightarrow> artifacts s),
     tr_hash_proof = Option.bind snapshot hash_proof, tr_root_cause = Option.bind snapshot root_cause,
     tr_help_request = Option.bind snapshot help_request\<rparr>"

record Audit_Projection =
  ap_run_id :: string
  ap_pipeline_status :: "PipelineStatus option"
  ap_test_result :: "TestResult option"
  ap_issue_type :: "IssueType option"
  ap_event_count :: nat
  ap_valid :: bool
  ap_issues :: "OrderingIssue list"
  ap_checkpoint :: "TaskCheckpoint option"
  ap_artifact_refs :: "string list"
  ap_events :: "ProcessingEvent list"
  ap_hash_proof :: "HashProof option"
  ap_root_cause :: "RootCause option"
  ap_help_request :: "HelpRequest option"

definition artifact_refs :: "ProcessingEvent list \<Rightarrow> string list" where
  "artifact_refs events = unique (filter (\<lambda>x. x \<noteq> '''') (List.map_filter artifact_id events))"

definition projectAudit ::
  "string \<Rightarrow> ProcessingEvent list \<Rightarrow> TaskCheckpoint option \<Rightarrow> RunSnapshot option \<Rightarrow> Audit_Projection" where
  "projectAudit runId events checkpoint snapshot = (let issues = detectOrderingIssues events in
     \<lparr>ap_run_id = runId, ap_pipeline_status = map_option pipeline_status snapshot,
      ap_test_result = Option.bind snapshot rs_test_result, ap_issue_type = Option.bind snapshot rs_issue_type,
      ap_event_count = length events, ap_valid = (issues = []), ap_issues = issues, ap_checkpoint = checkpoint,
      ap_artifact_refs = artifact_refs events, ap_events = events,
      ap_hash_proof = Option.bind snapshot hash_proof, ap_root_cause = Option.bind snapshot root_cause,
      ap_help_request = Option.bind snapshot help_request\<rparr>)"

text \<open>The facade: the event store and the checkpoint files.\<close>

definition audit :: "string \<Rightarrow> string \<Rightarrow> RunSnapshot option \<Rightarrow> event_store \<times> TaskCheckpoint fs \<Rightarrow>
    (fs_error + Audit_Projection) \<times> (event_store \<times> TaskCheckpoint fs)" where
  "audit dir runId snapshot = (\<lambda>(st, d). case store_load runId st of (events, st') \<Rightarrow>
     (case checkpoint_get dir runId d of
        (Inl e, d') \<Rightarrow> (Inl e, (st', d'))
      | (Inr cp, d') \<Rightarrow> (Inr (projectAudit runId events cp snapshot), (st', d'))))"

definition projection :: "string \<Rightarrow> string \<Rightarrow> RunSnapshot option \<Rightarrow> event_store \<times> TaskCheckpoint fs \<Rightarrow>
    (fs_error + TaskRun) \<times> (event_store \<times> TaskCheckpoint fs)" where
  "projection dir runId snapshot = (\<lambda>(st, d). case store_load runId st of (events, st') \<Rightarrow>
     (case checkpoint_get dir runId d of
        (Inl e, d') \<Rightarrow> (Inl e, (st', d'))
      | (Inr cp, d') \<Rightarrow> (Inr (projectTaskRun runId events cp snapshot), (st', d'))))"

section \<open>What a valid history says\<close>

text \<open>The specification: a processor's rank is its position, the three validators counting as one.\<close>

definition rank_at :: "nat \<Rightarrow> nat" where
  "rank_at i = (if i \<le> 5 then i else if i \<le> 7 then 5 else i - 2)"

definition canonical_rank :: "string \<Rightarrow> nat" where
  "canonical_rank p = (case canonical_index p of None \<Rightarrow> 0 | Some i \<Rightarrow> rank_at i)"

definition failed_done :: "ProcessingEvent \<Rightarrow> bool" where
  "failed_done e \<longleftrightarrow> processor e = ''Done'' \<and> test_result e = Some Failed"

text \<open>What \<open>event_issues\<close> asks of the processors completed before.\<close>

definition requires :: "string \<Rightarrow> string list" where
  "requires p = (if p \<in> set validators then [''Evaluation''] else if p = ''TripleValidation'' then validators
     else case canonical_index p of None \<Rightarrow> [] | Some 0 \<Rightarrow> [] | Some (Suc i) \<Rightarrow> [CANONICAL_PROCESSORS ! i])"

lemma canonical_index_None [simp]: "canonical_index p = None \<longleftrightarrow> p \<notin> set CANONICAL_PROCESSORS"
  by (auto simp: canonical_index_def CANONICAL_PROCESSORS_def)

lemma below_14: "(i::nat) < 14 \<longleftrightarrow> i \<in> {0, 1, 2, 3, 4, 5, 6, 7, 8, 9, 10, 11, 12, 13}"
  unfolding insert_iff empty_iff by presburger

lemma canonical_at: "i < 14 \<Longrightarrow> canonical_index (CANONICAL_PROCESSORS ! i) = Some i"
  unfolding below_14 by (elim insertE) (simp_all add: canonical_index_def CANONICAL_PROCESSORS_def)

definition requires_at :: "nat \<Rightarrow> nat list" where
  "requires_at i = (if i = 0 then [] else if 5 \<le> i \<and> i \<le> 7 then [4] else if i = 8 then [5, 6, 7] else [i - 1])"

lemma requires_positions: "i < 14 \<Longrightarrow> requires (CANONICAL_PROCESSORS ! i) = map (\<lambda>j. CANONICAL_PROCESSORS ! j) (requires_at i)"
  unfolding below_14
  by (elim insertE) (simp_all add: requires_def requires_at_def validators_def canonical_index_def CANONICAL_PROCESSORS_def)

lemma rank_position: "i < 14 \<Longrightarrow> canonical_rank (CANONICAL_PROCESSORS ! i) = rank_at i"
  by (simp add: canonical_rank_def canonical_at)

lemma length_canonical [simp]: "length CANONICAL_PROCESSORS = 14"
  by (simp add: CANONICAL_PROCESSORS_def)

lemma canonical_position:
  assumes "p \<in> set CANONICAL_PROCESSORS"
  obtains i where "i < 14" and "p = CANONICAL_PROCESSORS ! i"
  using assms that by (auto simp: in_set_conv_nth)

lemma requires_at_lower: "i < 14 \<Longrightarrow> j \<in> set (requires_at i) \<Longrightarrow> rank_at j < rank_at i \<and> j < 13"
  by (auto simp: requires_at_def rank_at_def split: if_splits)

lemma requires_at_chain: "rank_at j < rank_at i \<Longrightarrow>
    j \<in> set (requires_at i) \<or> (\<exists>k \<in> set (requires_at i). rank_at j < rank_at k)"
  by (auto simp: requires_at_def rank_at_def split: if_splits)

lemma requires_lower:
  assumes "p \<in> set CANONICAL_PROCESSORS" and "r \<in> set (requires p)"
  shows "canonical_rank r < canonical_rank p \<and> r \<in> set CANONICAL_PROCESSORS \<and> r \<noteq> ''Done''"
proof -
  from assms(1) obtain i where i: "i < 14" "p = CANONICAL_PROCESSORS ! i" by (rule canonical_position)
  with assms(2) obtain j where j: "j \<in> set (requires_at i)" "r = CANONICAL_PROCESSORS ! j"
    by (auto simp: requires_positions)
  note l = requires_at_lower [OF i(1) j(1)]
  have "canonical_index ''Done'' = Some 13" by (simp add: canonical_index_def CANONICAL_PROCESSORS_def)
  with l j(2) canonical_at [of j] have "r \<noteq> ''Done''" by auto
  moreover have "r \<in> set CANONICAL_PROCESSORS" using l j(2) by simp
  ultimately show ?thesis using l i j(2) by (simp add: rank_position)
qed

lemma requires_chain:
  assumes "p \<in> set CANONICAL_PROCESSORS" and "q \<in> set CANONICAL_PROCESSORS" and "canonical_rank q < canonical_rank p"
  shows "q \<in> set (requires p) \<or> (\<exists>r \<in> set (requires p). canonical_rank q < canonical_rank r)"
proof -
  from assms(1) obtain i where i: "i < 14" "p = CANONICAL_PROCESSORS ! i" by (rule canonical_position)
  from assms(2) obtain j where j: "j < 14" "q = CANONICAL_PROCESSORS ! j" by (rule canonical_position)
  from assms(3) i j have "rank_at j < rank_at i" by (simp add: rank_position)
  from requires_at_chain [OF this] show ?thesis
  proof
    assume "j \<in> set (requires_at i)"
    with i j show ?thesis by (simp add: requires_positions)
  next
    assume "\<exists>k \<in> set (requires_at i). rank_at j < rank_at k"
    then obtain k where k: "k \<in> set (requires_at i)" "rank_at j < rank_at k" by blast
    with requires_at_lower [OF i(1) k(1)] i j show ?thesis
      by (intro disjI2 bexI [of _ "CANONICAL_PROCESSORS ! k"]) (simp_all add: requires_positions rank_position)
  qed
qed

lemma missing_before_requires:
  assumes "p \<in> set CANONICAL_PROCESSORS" and "canonical_index p = Some i"
  shows "(if i > 0 then missing_before c p i else []) = [] \<longleftrightarrow> set (requires p) \<subseteq> c"
proof -
  from assms(1) obtain j where j: "j < 14" "p = CANONICAL_PROCESSORS ! j" by (rule canonical_position)
  with assms(2) have "i = j" by (simp add: canonical_at)
  from j(1) have "(if j > 0 then missing_before c (CANONICAL_PROCESSORS ! j) j else []) = [] \<longleftrightarrow>
      set (requires (CANONICAL_PROCESSORS ! j)) \<subseteq> c"
    unfolding below_14 requires_positions [OF j(1)]
    by (elim insertE) (simp_all add: missing_before_def requires_at_def validators_def CANONICAL_PROCESSORS_def Let_def)
  then show ?thesis by (simp only: j(2) \<open>i = j\<close>)
qed

lemma event_issues_none:
  "event_issues c e = [] \<longleftrightarrow> processor e \<in> set CANONICAL_PROCESSORS \<and>
     (processor e \<in> set repeatable \<or> processor e \<notin> c) \<and> (failed_done e \<or> set (requires (processor e)) \<subseteq> c)"
proof (cases "canonical_index (processor e)")
  case None
  with canonical_index_None [of "processor e"] show ?thesis by (simp add: event_issues_def Let_def del: canonical_index_None)
next
  case (Some i)
  then have p: "processor e \<in> set CANONICAL_PROCESSORS" using canonical_index_None [of "processor e"] by auto
  with missing_before_requires [OF p Some, of c] Some show ?thesis
    by (auto simp: event_issues_def Let_def failed_done_def simp del: canonical_index_None)
qed

lemma ordering_fold:
  "fst (fold ordering_step cs (is, c)) = [] \<longleftrightarrow> is = [] \<and>
     (\<forall>i < length cs. event_issues (c \<union> processor ` set (take i cs)) (cs ! i) = [])"
proof (induction cs arbitrary: "is" c)
  case (Cons e cs)
  show ?case
  proof (cases "event_issues c e = []")
    case True
    then have "canonical_index (processor e) \<noteq> None" by (simp add: event_issues_none)
    then obtain k where "canonical_index (processor e) = Some k" by (cases "canonical_index (processor e)") auto
    with True Cons show ?thesis by (simp add: All_less_Suc2 ordering_step_def del: canonical_index_None)
  next
    case False
    with Cons show ?thesis by (simp add: All_less_Suc2 ordering_step_def del: canonical_index_None)
  qed
qed simp

lemma valid_history_steps:
  "detectOrderingIssues es = [] \<longleftrightarrow> (\<forall>i < length (completions es).
     event_issues (processor ` set (take i (completions es))) (completions es ! i) = [])"
  by (simp add: detectOrderingIssues_def ordering_fold)

lemma in_take: "q \<in> f ` set (take i xs) \<longleftrightarrow> (\<exists>j < i. j < length xs \<and> f (xs ! j) = q)"
  by (auto simp: in_set_conv_nth image_iff Bex_def)

lemma ranks_complete:
  assumes "\<And>i. i < length cs \<Longrightarrow> event_issues (processor ` set (take i cs)) (cs ! i) = []"
    and "i < length cs" and "\<not> failed_done (cs ! i)" and "q \<in> set CANONICAL_PROCESSORS"
    and "canonical_rank q < canonical_rank (processor (cs ! i))"
  shows "q \<in> processor ` set (take i cs)"
  using assms(2-)
proof (induction i rule: less_induct)
  case (less i)
  let ?p = "processor (cs ! i)"
  from assms(1) [OF less.prems(1)] less.prems(2) have p: "?p \<in> set CANONICAL_PROCESSORS"
    and req: "set (requires ?p) \<subseteq> processor ` set (take i cs)" by (auto simp: event_issues_none)
  from requires_chain [OF p less.prems(3,4)] consider "q \<in> set (requires ?p)"
    | r where "r \<in> set (requires ?p)" "canonical_rank q < canonical_rank r" by blast
  then show ?case
  proof cases
    case 1
    with req show ?thesis by blast
  next
    case (2 r)
    with req obtain j where j: "j < i" "j < length cs" "processor (cs ! j) = r" by (auto simp: in_take subset_iff)
    from requires_lower [OF p 2(1)] have "r \<noteq> ''Done''" by blast
    with j less.IH [of j] less.prems(3) 2(2) have "q \<in> processor ` set (take j cs)" by (simp add: failed_done_def)
    with j(1) show ?thesis using set_take_subset_set_take [of j i cs] by auto
  qed
qed

text \<open>
  C37.  The ordering guard finds no issue in a history exactly when, among
  the completed workflow events, every processor is canonical, one that is not repeatable
  completes once, and whatever completes (but for a failed Done) comes after a completion of every
  processor of lower rank: of all earlier stages, the three validators being one.
\<close>

theorem ordering_guard_exact:
  "detectOrderingIssues es = [] \<longleftrightarrow> (\<forall>i < length (completions es). let e = completions es ! i;
      before = processor ` set (take i (completions es)) in
     processor e \<in> set CANONICAL_PROCESSORS \<and> (processor e \<in> set repeatable \<or> processor e \<notin> before) \<and>
     (failed_done e \<or> (\<forall>q \<in> set CANONICAL_PROCESSORS. canonical_rank q < canonical_rank (processor e) \<longrightarrow> q \<in> before)))"
    (is "?valid \<longleftrightarrow> ?spec")
proof
  assume ?valid
  then have v: "i < length (completions es) \<Longrightarrow>
      event_issues (processor ` set (take i (completions es))) (completions es ! i) = []" for i
    by (simp add: valid_history_steps)
  then show ?spec using ranks_complete [of "completions es", OF v] by (auto simp: Let_def event_issues_none)
next
  assume s: ?spec
  show ?valid unfolding valid_history_steps
  proof (intro allI impI)
    fix i assume "i < length (completions es)"
    with s have e: "let e = completions es ! i; before = processor ` set (take i (completions es)) in
       processor e \<in> set CANONICAL_PROCESSORS \<and> (processor e \<in> set repeatable \<or> processor e \<notin> before) \<and>
       (failed_done e \<or> (\<forall>q \<in> set CANONICAL_PROCESSORS. canonical_rank q < canonical_rank (processor e) \<longrightarrow> q \<in> before))"
      by blast
    then have "failed_done (completions es ! i) \<or>
        set (requires (processor (completions es ! i))) \<subseteq> processor ` set (take i (completions es))"
      using requires_lower [of "processor (completions es ! i)"] by (auto simp: Let_def subset_iff)
    with e show "event_issues (processor ` set (take i (completions es))) (completions es ! i) = []"
      by (simp add: event_issues_none Let_def)
  qed
qed

lemma ordering_guard_exact_witness:
  "detectOrderingIssues (map (\<lambda>p. (bus_event p 1)\<lparr>processor := p\<rparr>) CANONICAL_PROCESSORS) = [] \<and>
   detectOrderingIssues [(bus_event ''x'' 1)\<lparr>processor := ''Planner''\<rparr>] \<noteq> []"
proof
  show "detectOrderingIssues (map (\<lambda>p. (bus_event p 1)\<lparr>processor := p\<rparr>) CANONICAL_PROCESSORS) = []" by code_simp
  let ?e = "(bus_event ''x'' 1)\<lparr>processor := ''Planner''\<rparr>"
  have n: "completions [?e] = [?e]" "\<not> failed_done ?e" "processor ?e = ''Planner''"
    by (simp_all add: completions_def bus_event_def emit_event_def no_data_def failed_done_def)
  have "''Researcher'' \<in> set CANONICAL_PROCESSORS" "canonical_rank ''Researcher'' < canonical_rank ''Planner''"
    by (simp_all add: CANONICAL_PROCESSORS_def canonical_rank_def canonical_index_def rank_at_def)
  with n show "detectOrderingIssues [?e] \<noteq> []"
    unfolding ordering_guard_exact [of "[?e]"] n(1) Let_def by (auto intro!: bexI [of _ "''Researcher''"])
qed

end
