(* ===== verification/Spec2Isabelle.thy ===== *)
theory Spec2Isabelle
  imports Plan_Confirmation Worker_Runs Governed_Build Task_History
begin

text \<open>
  \<^bold>\<open>OneShot: a verification library.\<close>

  OneShot turns a prompt into a researched plan, corrects and validates the plan,
  has it confirmed and hashed, and executes it in a sandbox.  The same agents run
  in two drivers: an in-process workflow (a Strands graph) and a durable pipeline
  of stage jobs (BullMQ and Redis).  Paths below are under \<open>src/backend\<close>.

  \<^bold>\<open>Conventions.\<close>  \<open>Prelude\<close> holds the effect type: an \<open>async\<close> method is a function from
  the state to a result (\<open>Inl\<close> the thrown error, \<open>Inr\<close> the value) and the state
  after it; a throw keeps the changes made so far.  Every interface is a record
  with the source's fields, a string enumeration a datatype, an optional field an
  \<open>option\<close>, a JavaScript \<open>Map\<close> an association list in insertion order, and a
  template string a concatenation, so messages and keys are the source's.  What is
  not code of the repository is an argument: Redis and BullMQ are records of
  client operations whose documented laws are the locales of \<open>Redis_Client\<close>,
  interpreted there on an in-memory store; the language model, the Python
  validators, the file system, child processes, clocks and uuids are fields of
  records (\<open>workflow_agents\<close>, \<open>validation_lanes\<close>, \<open>contract_skill\<close>, \<open>host\<close>,
  \<open>sandbox_host\<close>).

  \<^bold>\<open>The agents\<close> (\<open>agents\<close>, \<open>validation\<close>, \<open>workflow\<close>).  \<open>Contracts\<close> is
  \<open>contracts/schema/types.ts\<close>.  \<open>Gap_Analysis\<close> models coverage detection, one
  correction and the loop over corrections: it closes all gaps (C13) and never
  claims a closed plan that has a gap (C14).  \<open>Planner_Refactor\<close> models the
  planner's findings and their application by Refactor, which leaves nothing for
  the loop to do (C15).  \<open>Plan_Evaluation\<close> is the nine-area evaluation against a
  set-level specification (C16).  \<open>Triple_Validation\<close> is the join of the three
  validators, confirmation and hash proof (C17); \<open>Validation_Feedback\<close> the
  findings derived from a failed validation (C19).  The plan schema does not require
  distinct step ids; C19 says what holds without them, C22 names them as a hypothesis, and
  \<open>twin_steps_root_cause\<close> and \<open>twin_steps_regress\<close> show what two steps of one id do.

  \<^bold>\<open>The in-process workflow\<close> (\<open>workflow/strands\<close>).  \<open>Strands_State\<close> has the run
  state, the effects and the stage node; the Strands engine is the relation
  \<open>strands_run\<close>: waves of nodes, each in any order, a node ready when all its
  sources with a true edge have run, until no node is ready.  \<open>Gap_Graph\<close> is the
  ring of corrections: it terminates within the graph's step limit from every
  state (at most 3 * 256 + 3 nodes of 784, C20), computes the plain loop (C21),
  closes all gaps (C22), and corrects one validation finding a round (C23).
  \<open>Proof_Graph\<close> is validation with refinement: at most 24 waves (C24), sound
  whatever the order of the parallel lanes (C25).  \<open>Canonical_Workflow\<close> is the
  row of thirteen nodes: its verdict is finishRoot with the root cause, or
  finishPassed of a verified run (C26), and nothing is built after a root cause
  (C27).

  \<^bold>\<open>The sandbox\<close> (\<open>sandbox\<close>, \<open>agents/builder\<close>).  \<open>Sandbox_Types\<close> is its data,
  \<open>Sandbox_Runner\<close> the process runner (exact ledger of file changes C28, what its
  children did and what its verdict means C29, filtered environment; a directory that
  cannot be listed makes it throw), \<open>Sandbox_Service\<close> admission, life cycle and builder
  output (C31 to C34), and \<open>Governed_Build\<close> puts them into the workflow: a passed run
  spawned the command of every step of the confirmed plan, and each ended well (C35).  What
  the host did is a log of its children: \<open>host_logs\<close> says that a spawn appends the command,
  environment, directory and end of the child and that nothing else the runner asks of the
  host adds to it; \<open>quiet_sandbox\<close> and \<open>workflow_adds\<close> say the same of the other
  collaborators.

  \<^bold>\<open>The durable pipeline\<close> (\<open>pipeline\<close>, \<open>workflow/canonical-transition.ts\<close>).
  \<open>Transitions\<close> holds stages, outcomes and the transition function, with closed human
  gates (C2) and the chains of automatic jobs over every outcome.  \<open>Checkpoints\<close> and \<open>Idempotency\<close>
  are the Redis keys, the Lua scripts and the locks (C4), \<open>Pipeline_Queue\<close>
  job ids and run history (C6), \<open>Faults\<close> fault injection, \<open>Run_Stage\<close> one
  guarded stage execution (C9), \<open>Apply_Transition\<close> the outbox-like commit of
  a transition (C10), which is final once committed, and \<open>Stage_Job\<close> the job body
  over a given agent.  \<open>Run_Services\<close> is what a run is driven with, store, repository
  and bus, behind the locale \<open>run_services\<close>; \<open>Pipeline_Stages\<close> the stages
  of \<open>processors.ts\<close> over it: nothing is built that was not validated and
  authorized (C5), and the plan that Gap Analysis left is the plan of the later
  stages unless a reviewed plan shadows it (C7).  \<open>Transition_Services\<close> is what the
  worker gives a transition: its \<open>finish\<close> gives a run one verdict, with the issue it was
  given unless the store threw between two writes, however often it is attempted (C30).  \<open>Pipeline_Worker\<close> is the handler itself: its retries execute a
  stage exactly once (C12), and a run's builder runs at most once (C8).
  \<open>Plan_Confirmation\<close> is \<open>confirm-plan.ts\<close>, the gate from the research to the
  planner: a confirmed plan's job is enqueued once, and the reviewer's edits are what
  the later stages read (C11).  \<open>Run_Verdict\<close> joins the above for the job of
  finalize: the run it leaves is recorded as Passed exactly when no failure was
  handed over and the stored build has the hash of the stored proof (C18).
  \<open>Worker_Runs\<close> follows the jobs one after the other: at most 16 automatic jobs after the
  planner, and two more for each refinement of gap analysis or evaluation, which only an
  injected fault asks for (C1); and a failing stage leaves its issue for finalize, which
  ends the run with it (C3).  Where a theorem needs that no \<open>refine-once\<close> fault is
  configured for a stage, it says so as a hypothesis on the configuration.  C11, C18 and C30
  are proved over every interpretation of the locale \<open>pipeline_world\<close>, Redis, queue
  and run services side by side, which the in-memory store and the deployment of
  \<open>Run_Services\<close> instantiate.

  \<^bold>\<open>What a run leaves behind\<close> (\<open>runtime\<close>, \<open>task\<close>).  \<open>Event_Log\<close> is the event
  bus over the append-only store: each delivery is recorded once (C36).
  \<open>Task_History\<close> has the ordering guard, exact for a specification by ranks (C37),
  the checkpoints and the projections.  \<open>Disk_Files\<close> is node's \<open>fs\<close> with a fault at
  any call and the write through a temporary file; \<open>Run_Repository\<close> the snapshots
  that several processes share, which refine one map (C38).  \<open>Human_Review\<close> holds
  the artifact store, its laws as the locale \<open>artifact_store\<close> with the file
  implementation as interpretation, and the two human gates: no build without
  its approval (C39), no approved review that cannot be applied (C40).

  \<^bold>\<open>Not modelled.\<close>  Expiry of Redis keys (thirty days) and a store that loses what it
  holds (a command of the store may throw, applied or not); other workers act only at the
  points where a stage's own execution yields.  The
  set of live children of the runner is empty between steps, so it is not part of
  the state.  A number read from the environment is a decimal numeral or NaN.
  Characters are those below 256.  The HTTP server, the browser application, the
  provider adapters, the Python services and the scripts are interfaces to the
  outside or other languages.
\<close>

end
